(* ===== verification/Prelude.thy ===== *)
theory Prelude
  imports Main "HOL-Library.Char_ord" "HOL-Library.List_Lexorder"
begin

text \<open>
  Shared vocabulary of the development.

  \<^item> \<open>py_exc\<close> is the set of exceptions the modelled code raises or catches. A Milhouse error
    is its class together with the stable code it carries (\<^verbatim>\<open>core/errors.py\<close>); the fixed
    human message never influences control flow and is left out.
  \<^item> \<open>('s, 'a) prog\<close> is a computation over an explicit state: it returns the exception that
    escaped or the value, and the state as it was left. The state survives an exception, because
    the effects made before a \<^verbatim>\<open>raise\<close> stay in Python too; only a SQLite transaction rolls
    anything back (theory \<open>Control_Db\<close>).
  \<^item> A Python \<^verbatim>\<open>str\<close> is modelled by its UTF-8 bytes as a \<open>string\<close>. Byte order on UTF-8 is
    code-point order, so \<^verbatim>\<open><\<close> on \<^verbatim>\<open>str\<close> is the lexicographic order of
    \<open>List_Lexorder\<close>. \<open>py_len\<close> counts code points, as \<^verbatim>\<open>len\<close> does.
  \<^item> Checks of the form \<^verbatim>\<open>type(x) is not str\<close> are discharged by the types of the model.
\<close>

section \<open>Exceptions, results and programs\<close>

text \<open>The kinds of failure of the secure-file primitives (\<^verbatim>\<open>SecureFileErrorKind\<close>).\<close>

datatype file_error =
    Not_Found
  | Not_Regular
  | Already_Exists
  | Parent_Unsafe
  | Access_Control_Unsafe
  | Security_Unsupported
  | Commit_Uncertain
  | Io_Failure

text \<open>The failures of a system call that the code tells apart (\<^verbatim>\<open>OSError\<close> and its subclasses).\<close>

datatype os_error = Not_Found_Error | Exists_Error | Call_Failed

datatype py_exc =
    Sqlite_Error
  | Overflow_Error
  | Value_Error
  | Type_Error
  | Assertion_Error
  | Foreign_Exception
  | Secure_File_Error file_error
  | Time_Error string
  | State_Error string
  | Spool_Error string
  | Outbox_Error string
  | Pipeline_Error string
  | Registry_Error string
  | Privacy_Error string
  | Storage_Error string
  | Record_Error string
  | Canonical_Error string
  | Collector_Error string
  | Config_Error string
  | Logging_Error string
  | Os_Error os_error

type_synonym 'a res = "py_exc + 'a"
type_synonym ('s, 'a) prog = "'s \<Rightarrow> 'a res \<times> 's"

text \<open>Collections of rewrite rules: the program combinators and the components' definitions.\<close>

named_theorems prog_simps
named_theorems model_defs

definition ret :: "'a \<Rightarrow> ('s, 'a) prog" where
  "ret x = (\<lambda>s. (Inr x, s))"

definition throw :: "py_exc \<Rightarrow> ('s, 'a) prog" where
  "throw e = (\<lambda>s. (Inl e, s))"

definition andthen :: "('s, 'a) prog \<Rightarrow> ('a \<Rightarrow> ('s, 'b) prog) \<Rightarrow> ('s, 'b) prog" where
  "andthen m f = (\<lambda>s. case m s of (Inl e, s') \<Rightarrow> (Inl e, s') | (Inr x, s') \<Rightarrow> f x s')"

definition lift_res :: "'a res \<Rightarrow> ('s, 'a) prog" where
  "lift_res r = (\<lambda>s. (r, s))"

definition getst :: "('s \<Rightarrow> 'a) \<Rightarrow> ('s, 'a) prog" where
  "getst f = (\<lambda>s. (Inr (f s), s))"

definition check :: "bool \<Rightarrow> py_exc \<Rightarrow> ('s, unit) prog" where
  "check b e = (\<lambda>s. if b then (Inr (), s) else (Inl e, s))"

text \<open>
  \<open>handle m h\<close> is \<^verbatim>\<open>try: m except E: h\<close>: \<open>h e\<close> is \<open>None\<close> for an exception the clause
  does not name. \<open>normalise\<close> is the code's idiom of setting a flag inside the handler and
  raising one fixed error outside it.
\<close>

definition handle :: "('s, 'a) prog \<Rightarrow> (py_exc \<Rightarrow> ('s, 'a) prog option) \<Rightarrow> ('s, 'a) prog" where
  "handle m h = (\<lambda>s. case m s of
       (Inl e, s') \<Rightarrow> (case h e of None \<Rightarrow> (Inl e, s') | Some k \<Rightarrow> k s')
     | (Inr x, s') \<Rightarrow> (Inr x, s'))"

definition normalise :: "(py_exc \<Rightarrow> bool) \<Rightarrow> py_exc \<Rightarrow> ('s, 'a) prog \<Rightarrow> ('s, 'a) prog" where
  "normalise caught e' m = handle m (\<lambda>e. if caught e then Some (throw e') else None)"

fun for_each :: "('a \<Rightarrow> ('s, 'b) prog) \<Rightarrow> 'a list \<Rightarrow> ('s, 'b list) prog" where
  "for_each f [] = ret []"
| "for_each f (x # xs) = andthen (f x) (\<lambda>y. andthen (for_each f xs) (\<lambda>ys. ret (y # ys)))"

definition bind_res :: "'a res \<Rightarrow> ('a \<Rightarrow> 'b res) \<Rightarrow> 'b res" where
  "bind_res r f = (case r of Inl e \<Rightarrow> Inl e | Inr x \<Rightarrow> f x)"

fun map_res :: "('a \<Rightarrow> 'b res) \<Rightarrow> 'a list \<Rightarrow> 'b list res" where
  "map_res f [] = Inr []"
| "map_res f (x # xs) = bind_res (f x) (\<lambda>y. bind_res (map_res f xs) (\<lambda>ys. Inr (y # ys)))"

definition check_res :: "bool \<Rightarrow> py_exc \<Rightarrow> unit res" where
  "check_res b e = (if b then Inr () else Inl e)"

lemmas prog_defs = ret_def throw_def andthen_def lift_res_def getst_def check_def handle_def
  normalise_def

declare prog_defs [prog_simps]

lemma bind_res_simps [simp]:
  "bind_res (Inl e) f = Inl e"
  "bind_res (Inr x) f = f x"
  by (simp_all add: bind_res_def)

lemma bind_res_eq_Inr: "bind_res r f = Inr y \<longleftrightarrow> (\<exists>x. r = Inr x \<and> f x = Inr y)"
  by (cases r) auto

lemma check_res_Inr [simp]: "check_res b e = Inr u \<longleftrightarrow> b"
  by (simp add: check_res_def)

lemma andthen_lift_Inr: "andthen (lift_res (Inr x)) f = f x"
  by (simp add: andthen_def lift_res_def)

lemma andthen_Inr:
  "andthen m f s = (Inr y, s') \<longleftrightarrow> (\<exists>x s1. m s = (Inr x, s1) \<and> f x s1 = (Inr y, s'))"
  by (auto simp: andthen_def split: prod.splits sum.splits)

lemma andthen_Inl:
  "andthen m f s = (Inl e, s') \<longleftrightarrow>
     m s = (Inl e, s') \<or> (\<exists>x s1. m s = (Inr x, s1) \<and> f x s1 = (Inl e, s'))"
  by (auto simp: andthen_def split: prod.splits sum.splits)

lemma normalise_Inr: "normalise c e' m s = (Inr x, s') \<longleftrightarrow> m s = (Inr x, s')"
  by (auto simp: normalise_def handle_def throw_def split: prod.splits sum.splits if_splits)

lemma normalise_Inl:
  "normalise c e' m s = (Inl e, s') \<longleftrightarrow>
     (\<exists>e0. m s = (Inl e0, s') \<and> e = (if c e0 then e' else e0))"
  by (auto simp: normalise_def handle_def throw_def split: prod.splits sum.splits if_splits)

lemma map_res_Inr_length: "map_res f xs = Inr ys \<Longrightarrow> length ys = length xs"
  by (induction xs arbitrary: ys) (auto simp: bind_res_eq_Inr)

lemma map_res_Inr_nth:
  "map_res f xs = Inr ys \<Longrightarrow> i < length xs \<Longrightarrow> f (xs ! i) = Inr (ys ! i)"
  by (induction xs arbitrary: ys i) (auto simp: bind_res_eq_Inr nth_Cons split: nat.splits)

section \<open>Preservation: a predicate no outcome of a program breaks\<close>

definition keeps :: "('s \<Rightarrow> 's \<Rightarrow> bool) \<Rightarrow> ('s, 'a) prog \<Rightarrow> bool" where
  "keeps R m \<longleftrightarrow> (\<forall>s r s'. m s = (r, s') \<longrightarrow> R s s')"

lemma keepsD: "keeps R m \<Longrightarrow> m s = (r, s') \<Longrightarrow> R s s'"
  by (auto simp: keeps_def)

lemma keeps_snd: "keeps R m \<Longrightarrow> R s (snd (m s))"
  by (metis keepsD surjective_pairing)

lemma keeps_ret: "reflp R \<Longrightarrow> keeps R (ret x)"
  by (auto simp: keeps_def ret_def reflp_def)

lemma keeps_throw: "reflp R \<Longrightarrow> keeps R (throw e)"
  by (auto simp: keeps_def throw_def reflp_def)

lemma keeps_lift_res: "reflp R \<Longrightarrow> keeps R (lift_res r)"
  by (auto simp: keeps_def lift_res_def reflp_def)

lemma keeps_getst: "reflp R \<Longrightarrow> keeps R (getst f)"
  by (auto simp: keeps_def getst_def reflp_def)

lemma keeps_check: "reflp R \<Longrightarrow> keeps R (check b e)"
  by (auto simp: keeps_def check_def reflp_def split: if_splits)

lemma keeps_andthen:
  "transp R \<Longrightarrow> keeps R m \<Longrightarrow> (\<And>x. keeps R (f x)) \<Longrightarrow> keeps R (andthen m f)"
  unfolding keeps_def andthen_def
  by (fastforce split: prod.splits sum.splits dest: transpD)

lemma keeps_handle:
  "transp R \<Longrightarrow> keeps R m \<Longrightarrow> (\<And>e k. h e = Some k \<Longrightarrow> keeps R k) \<Longrightarrow> keeps R (handle m h)"
  unfolding keeps_def handle_def
  by (fastforce split: prod.splits sum.splits option.splits dest: transpD)

lemma keeps_normalise: "reflp R \<Longrightarrow> transp R \<Longrightarrow> keeps R m \<Longrightarrow> keeps R (normalise c e' m)"
  unfolding normalise_def by (rule keeps_handle) (auto intro: keeps_throw split: if_splits)

lemma keeps_for_each:
  assumes "reflp R" "transp R" "\<And>x. x \<in> set xs \<Longrightarrow> keeps R (f x)"
  shows "keeps R (for_each f xs)"
  using assms(3)
proof (induction xs)
  case Nil
  show ?case using assms(1) by (simp add: keeps_ret)
next
  case (Cons x xs)
  then show ?case using assms(1,2) by (auto intro!: keeps_andthen keeps_ret)
qed

text \<open>Every value a loop collected was returned by one iteration, between states the relation links.\<close>

lemma for_each_result:
  assumes "reflp R" "transp R" "\<And>x. x \<in> set xs \<Longrightarrow> keeps R (f x)"
    and "for_each f xs s = (Inr ys, s')" "y \<in> set ys"
  shows "\<exists>x \<in> set xs. \<exists>s1 s2. f x s1 = (Inr y, s2) \<and> R s s1 \<and> R s2 s'"
  using assms(3-5)
proof (induction xs arbitrary: s ys)
  case Nil
  then show ?case by (simp add: ret_def)
next
  case (Cons x xs)
  obtain z zs s1 where step: "f x s = (Inr z, s1)" "for_each f xs s1 = (Inr zs, s')" "ys = z # zs"
    using Cons.prems(2) by (auto simp: andthen_Inr ret_def)
  have link: "R s s1" "R s1 s'"
    using Cons.prems(1) step keepsD [OF keeps_for_each [OF assms(1,2)] step(2)] keepsD by fastforce+
  show ?case
  proof (cases "y = z")
    case True
    then show ?thesis using step link assms(1) by (auto simp: reflp_def)
  next
    case False
    then have "y \<in> set zs" using Cons.prems(3) step by simp
    with Cons.IH [OF _ step(2)] Cons.prems(1)
    obtain u t1 t2 where "u \<in> set xs" "f u t1 = (Inr y, t2)" "R s1 t1" "R t2 s'" by auto
    then show ?thesis using link transpD [OF assms(2)] by (meson list.set_intros(2))
  qed
qed

lemmas keeps_intros = keeps_ret keeps_throw keeps_lift_res keeps_getst keeps_check keeps_andthen
  keeps_handle keeps_normalise keeps_for_each

section \<open>Text\<close>

definition is_continuation :: "char \<Rightarrow> bool" where
  "is_continuation c \<longleftrightarrow> (let n = (of_char c :: nat) in 128 \<le> n \<and> n < 192)"

definition py_len :: "string \<Rightarrow> nat" where
  "py_len s = length (filter (\<lambda>c. \<not> is_continuation c) s)"

definition is_digit :: "char \<Rightarrow> bool" where
  "is_digit c \<longleftrightarrow> (let n = (of_char c :: nat) in 48 \<le> n \<and> n \<le> 57)"

definition is_upper :: "char \<Rightarrow> bool" where
  "is_upper c \<longleftrightarrow> (let n = (of_char c :: nat) in 65 \<le> n \<and> n \<le> 90)"

definition is_lower :: "char \<Rightarrow> bool" where
  "is_lower c \<longleftrightarrow> (let n = (of_char c :: nat) in 97 \<le> n \<and> n \<le> 122)"

definition is_lower_hex :: "char \<Rightarrow> bool" where
  "is_lower_hex c \<longleftrightarrow> (let n = (of_char c :: nat) in (48 \<le> n \<and> n \<le> 57) \<or> (97 \<le> n \<and> n \<le> 102))"

definition is_alnum :: "char \<Rightarrow> bool" where
  "is_alnum c \<longleftrightarrow> is_digit c \<or> is_upper c \<or> is_lower c"

definition is_token_char :: "char \<Rightarrow> bool" where
  "is_token_char c \<longleftrightarrow> is_alnum c \<or> c \<in> set ''._-''"

text \<open>
  \<open>token_match n s\<close> is \<^verbatim>\<open>fullmatch\<close> of
  \<^verbatim>\<open>[A-Za-z0-9][A-Za-z0-9._-]{0,n}\<close>, the shape of every batch, exporter, target and audit
  identifier; \<open>is_sha256_hex\<close> is \<^verbatim>\<open>[0-9a-f]{64}\<close>.
\<close>

definition token_match :: "nat \<Rightarrow> string \<Rightarrow> bool" where
  "token_match n s \<longleftrightarrow>
     (case s of [] \<Rightarrow> False | c # cs \<Rightarrow> is_alnum c \<and> length cs \<le> n \<and> list_all is_token_char cs)"

definition is_sha256_hex :: "string \<Rightarrow> bool" where
  "is_sha256_hex s \<longleftrightarrow> length s = 64 \<and> list_all is_lower_hex s"

lemma token_match_nonempty: "token_match n s \<Longrightarrow> s \<noteq> []"
  by (auto simp: token_match_def)

lemma token_match_length: "token_match n s \<Longrightarrow> length s \<le> Suc n"
  by (auto simp: token_match_def split: list.splits)

lemma is_sha256_hex_length: "is_sha256_hex s \<Longrightarrow> length s = 64"
  by (simp add: is_sha256_hex_def)

text \<open>Bounds of a signed 64-bit integer: the canonical integer domain and SQLite's INTEGER.\<close>

definition max_int64 :: int where
  "max_int64 = 9223372036854775807"

definition min_int64 :: int where
  "min_int64 = - 9223372036854775808"

text \<open>Decimal digits, most significant first, in a field of exactly the given width.\<close>

definition digit_char :: "nat \<Rightarrow> char" where
  "digit_char d = char_of (48 + d)"

fun pad_dec :: "nat \<Rightarrow> nat \<Rightarrow> string" where
  "pad_dec 0 n = []"
| "pad_dec (Suc w) n = pad_dec w (n div 10) @ [digit_char (n mod 10)]"

lemma length_pad_dec [simp]: "length (pad_dec w n) = w"
  by (induction w arbitrary: n) auto

lemma of_digit_char: "d < 10 \<Longrightarrow> of_char (digit_char d) = 48 + (d :: nat)"
  by (simp add: digit_char_def)

lemma digit_char_less: "a < 10 \<Longrightarrow> b < 10 \<Longrightarrow> digit_char a < digit_char b \<longleftrightarrow> a < b"
  by (simp add: less_char_def of_digit_char)

lemma digit_char_inj: "a < 10 \<Longrightarrow> b < 10 \<Longrightarrow> digit_char a = digit_char b \<longleftrightarrow> a = b"
  by (metis digit_char_less nat_neq_iff)

text \<open>Rewrite rules that evaluate a field of literal width and value.\<close>

lemma pad_dec_numeral:
  "pad_dec (numeral v) n = pad_dec (pred_numeral v) (n div 10) @ [digit_char (n mod 10)]"
  "pad_dec (Suc 0) n = [digit_char (n mod 10)]"
  by (simp_all only: numeral_eq_Suc pad_dec.simps append_Nil)

lemma digit_char_numerals:
  "digit_char 0 = CHR ''0''" "digit_char (Suc 0) = CHR ''1''" "digit_char 2 = CHR ''2''"
  "digit_char 3 = CHR ''3''" "digit_char 4 = CHR ''4''" "digit_char 5 = CHR ''5''"
  "digit_char 6 = CHR ''6''" "digit_char 7 = CHR ''7''" "digit_char 8 = CHR ''8''"
  "digit_char 9 = CHR ''9''"
  by code_simp+

lemmas pad_dec_eval = pad_dec_numeral digit_char_numerals

section \<open>Lexicographic order of concatenated fields\<close>

lemma lex_append_less:
  fixes a b :: "'a :: linorder list"
  assumes "length a = length b"
  shows "a @ c < b @ d \<longleftrightarrow> a < b \<or> a = b \<and> c < d"
  using assms by (induction a b rule: list_induct2) auto

lemma pad_dec_inj: "m < 10 ^ w \<Longrightarrow> n < 10 ^ w \<Longrightarrow> pad_dec w m = pad_dec w n \<longleftrightarrow> m = n"
proof (induction w arbitrary: m n)
  case 0
  then show ?case by simp
next
  case (Suc w)
  have "m div 10 < 10 ^ w" "n div 10 < 10 ^ w"
    using Suc.prems by (simp_all add: less_mult_imp_div_less mult.commute)
  then have "pad_dec w (m div 10) = pad_dec w (n div 10) \<longleftrightarrow> m div 10 = n div 10"
    by (rule Suc.IH)
  moreover have "digit_char (m mod 10) = digit_char (n mod 10) \<longleftrightarrow> m mod 10 = n mod 10"
    by (simp add: digit_char_inj)
  moreover have "m = n \<longleftrightarrow> m div 10 = n div 10 \<and> m mod 10 = n mod 10"
    by (metis div_mult_mod_eq)
  ultimately show ?case by simp
qed

lemma pad_dec_less: "m < 10 ^ w \<Longrightarrow> n < 10 ^ w \<Longrightarrow> pad_dec w m < pad_dec w n \<longleftrightarrow> m < n"
proof (induction w arbitrary: m n)
  case 0
  then show ?case by simp
next
  case (Suc w)
  have small: "m div 10 < 10 ^ w" "n div 10 < 10 ^ w"
    using Suc.prems by (simp_all add: less_mult_imp_div_less mult.commute)
  have "pad_dec (Suc w) m < pad_dec (Suc w) n \<longleftrightarrow>
      m div 10 < n div 10 \<or> m div 10 = n div 10 \<and> m mod 10 < n mod 10"
    using small by (simp add: lex_append_less Suc.IH pad_dec_inj digit_char_less)
  also have "\<dots> \<longleftrightarrow> m < n"
    using div_mod_decomp [of m 10] div_mod_decomp [of n 10]
      mod_less_divisor [of 10 m] mod_less_divisor [of 10 n]
    by linarith
  finally show ?case .
qed

lemma pad_dec_append_less:
  "m < 10 ^ w \<Longrightarrow> n < 10 ^ w \<Longrightarrow>
     pad_dec w m @ c < pad_dec w n @ d \<longleftrightarrow> m < n \<or> m = n \<and> c < d"
  by (simp add: lex_append_less pad_dec_less pad_dec_inj)

end
