(* ===== verification/Clock.thy ===== *)
theory Clock
  imports Prelude
begin

text \<open>
  \<^verbatim>\<open>src/milhouse/core/clock.py\<close>: UTC normalisation, the canonical RFC 3339 millisecond stamp and
  the bounded duration parser. The leases, the alert cooldown and the segment ledger compare
  \<^emph>\<open>stamps\<close> (text) where they mean to compare instants; the main result here is that the two
  orders agree, so every later theory may reason about instants.

  A Python \<^verbatim>\<open>datetime\<close> is its wall-clock reading in microseconds since
  \<^verbatim>\<open>0001-01-01T00:00:00\<close> together with what its \<^verbatim>\<open>tzinfo\<close> answers to \<^verbatim>\<open>utcoffset()\<close>. The proleptic
  Gregorian calendar of the standard library is written out (\<open>civil_year\<close>, \<open>split_month\<close>).
\<close>

section \<open>The calendar of the standard library\<close>

definition us_per_day :: int where
  "us_per_day = 86400000000"

text \<open>Exclusive upper bound of \<^verbatim>\<open>datetime\<close>: the first microsecond after year 9999.\<close>

definition datetime_limit :: int where
  "datetime_limit = 3652059 * us_per_day"

definition days_before_year :: "int \<Rightarrow> int" where
  "days_before_year y = (let p = y - 1 in 365 * p + p div 4 - p div 100 + p div 400)"

definition is_leap :: "int \<Rightarrow> bool" where
  "is_leap y \<longleftrightarrow> y mod 4 = 0 \<and> (y mod 100 \<noteq> 0 \<or> y mod 400 = 0)"

definition civil_year :: "int \<Rightarrow> int" where
  "civil_year n =
     (let n400 = n div 146097; r1 = n mod 146097;
          n100 = r1 div 36524; r2 = r1 mod 36524;
          n4 = r2 div 1461; r3 = r2 mod 1461;
          n1 = r3 div 365;
          y = 400 * n400 + 100 * n100 + 4 * n4 + n1 + 1
      in if n1 = 4 \<or> n100 = 4 then y - 1 else y)"

definition month_lengths :: "int \<Rightarrow> int list" where
  "month_lengths y = [31, if is_leap y then 29 else 28, 31, 30, 31, 30, 31, 31, 30, 31, 30, 31]"

fun split_month :: "nat \<Rightarrow> int list \<Rightarrow> int \<Rightarrow> nat \<times> nat" where
  "split_month m [] d = (m, nat d + 1)"
| "split_month m (l # ls) d = (if d < l then (m, nat d + 1) else split_month (m + 1) ls (d - l))"

definition civil_month_day :: "int \<Rightarrow> nat \<times> nat" where
  "civil_month_day n = (let y = civil_year n in
     split_month 1 (month_lengths y) (n - days_before_year y))"

lemma div_field: "0 \<le> t \<Longrightarrow> t < k \<Longrightarrow> (q * k + t) div k = q" for q t k :: int
  by (simp add: div_pos_pos_trivial)

text \<open>Leap days: \<open>p div 4 - p div 100\<close> never decreases, since a century is 25 leap cycles.\<close>

lemma leap_days_mono: "p \<le> q \<Longrightarrow> p div 4 - p div 100 \<le> q div 4 - q div 100" for p q :: int
proof -
  have cent: "x div 100 = (x div 4) div 25" for x :: int
    using zdiv_zmult2_eq [of 25 x 4] by simp
  have sub: "x - x div 25 \<le> y - y div 25" if "x \<le> y" for x y :: int
  proof -
    have "x div 25 = y div 25 \<or> x div 25 + 1 \<le> y div 25" using zdiv_mono1 [OF that, of 25] by linarith
    then show ?thesis
      using that div_mult_mod_eq [of x 25] div_mult_mod_eq [of y 25]
        pos_mod_bound [of 25 x] pos_mod_sign [of 25 y]
      by linarith
  qed
  assume "p \<le> q"
  then have "p div 4 \<le> q div 4" by (simp add: zdiv_mono1)
  then show ?thesis unfolding cent by (rule sub)
qed

lemma days_before_year_step: "x \<le> y \<Longrightarrow> 365 * (y - x) \<le> days_before_year y - days_before_year x"
proof -
  have arith: "a - b \<le> a' - b' \<Longrightarrow> c \<le> c' \<Longrightarrow>
      365 * (y - x) \<le> (365 * (y - 1) + a' - b' + c') - (365 * (x - 1) + a - b + c)"
    for a a' b b' c c' :: int
    by simp
  assume "x \<le> y"
  then show ?thesis
    unfolding days_before_year_def Let_def
    by (intro arith leap_days_mono zdiv_mono1) simp_all
qed

text \<open>The count of days before a year, by its position in the 400-, 100- and 4-year cycles.\<close>

lemma days_before_year_cycles:
  fixes a b c d :: int
  assumes "0 \<le> b" "b \<le> 3" "0 \<le> c" "c \<le> 24" "0 \<le> d" "d \<le> 3"
  shows "days_before_year (400 * a + 100 * b + 4 * c + d + 1)
    = 146097 * a + 36524 * b + 1461 * c + 365 * d"
proof -
  let ?p = "400 * a + 100 * b + 4 * c + d"
  have "?p = (100 * a + 25 * b + c) * 4 + d" by simp
  then have q4: "?p div 4 = 100 * a + 25 * b + c"
    using assms div_field [of d 4 "100 * a + 25 * b + c"] by simp
  have "?p = (4 * a + b) * 100 + (4 * c + d)" by simp
  then have q100: "?p div 100 = 4 * a + b"
    using assms div_field [of "4 * c + d" 100 "4 * a + b"] by simp
  have "?p = a * 400 + (100 * b + 4 * c + d)" by simp
  then have q400: "?p div 400 = a"
    using assms div_field [of "100 * b + 4 * c + d" 400 a] by simp
  show ?thesis by (simp add: days_before_year_def q4 q100 q400 Let_def)
qed

lemma year_span_arith:
  fixes a b c d r :: int
  assumes "0 \<le> b" "b \<le> 3" "0 \<le> c" "c \<le> 24" "0 \<le> d" "d \<le> 3" "0 \<le> r" "r \<le> 364"
    and y: "y = 400 * a + 100 * b + 4 * c + d + 1"
    and n: "n = 146097 * a + 36524 * b + 1461 * c + 365 * d + r"
  shows "days_before_year y \<le> n \<and> n < days_before_year (y + 1)"
  using days_before_year_cycles [OF assms(1-6), of a] days_before_year_step [of y "y + 1"]
    assms(7,8) y n
  by simp

lemma civil_year_bounds:
  "days_before_year (civil_year n) \<le> n \<and> n < days_before_year (civil_year n + 1)"
proof -
  define a where "a = n div 146097"
  define r1 where "r1 = n mod 146097"
  define b where "b = r1 div 36524"
  define r2 where "r2 = r1 mod 36524"
  define c where "c = r2 div 1461"
  define r3 where "r3 = r2 mod 1461"
  define d where "d = r3 div 365"
  define r where "r = r3 mod 365"
  note defs = a_def r1_def b_def r2_def c_def r3_def d_def r_def
  have n: "n = 146097 * a + 36524 * b + 1461 * c + 365 * d + r"
    unfolding defs by (simp add: algebra_simps)
  have r1: "0 \<le> r1" "r1 < 146097" unfolding r1_def by simp_all
  have r2: "0 \<le> r2" "r2 < 36524" unfolding r2_def by simp_all
  have r3: "0 \<le> r3" "r3 < 1461" unfolding r3_def by simp_all
  have r: "0 \<le> r" "r \<le> 364" unfolding r_def using pos_mod_bound [of 365 r3] by simp_all
  have b: "0 \<le> b" "b \<le> 4" unfolding b_def using r1 by simp_all
  have c: "0 \<le> c" "c \<le> 24" unfolding c_def using r2 by simp_all
  have d: "0 \<le> d" "d \<le> 4" unfolding d_def using r3 by simp_all
  have y: "civil_year n = (let y = 400 * a + 100 * b + 4 * c + d + 1
      in if d = 4 \<or> b = 4 then y - 1 else y)"
    unfolding civil_year_def Let_def defs by simp
  consider (b4) "b = 4" | (d4) "b \<le> 3" "d = 4" | (plain) "b \<le> 3" "d \<le> 3"
    using b d by linarith
  then show ?thesis
  proof cases
    case b4
    have r10: "r1 = 146096" using b4 r1 unfolding b_def by presburger
    then have z: "c = 0" "d = 0" "r = 0" by (simp_all add: c_def d_def r_def r3_def r2_def)
    have yy: "civil_year n = 400 * a + 400" using y b4 z by (simp add: Let_def)
    have n': "n = 146097 * a + 146096" using n b4 z by simp
    have "days_before_year (400 * a + 400) = 146097 * a + 145731"
      using days_before_year_cycles [of 3 24 3 a] by (simp add: algebra_simps)
    moreover have "days_before_year (400 * a + 400 + 1) = 146097 * a + 146097"
      using days_before_year_cycles [of 0 0 0 "a + 1"] by (simp add: algebra_simps)
    ultimately show ?thesis using yy n' by simp
  next
    case d4
    have r30: "r3 = 1460" using d4(2) r3 unfolding d_def by presburger
    then have z: "r = 0" by (simp add: r_def)
    have yy: "civil_year n = 400 * a + 100 * b + 4 * c + 4" using y d4 by (simp add: Let_def)
    have n': "n = 146097 * a + 36524 * b + 1461 * c + 1460" using n d4 z by simp
    have c24: "c \<le> 23"
    proof (rule ccontr)
      assume "\<not> c \<le> 23"
      then have "c = 24" using c by simp
      then have "r2 = 1461 * 24 + 1460" using r30 unfolding c_def r3_def by presburger
      then show False using r2 by simp
    qed
    have "days_before_year (400 * a + 100 * b + 4 * c + 4)
        = 146097 * a + 36524 * b + 1461 * c + 1095"
      using days_before_year_cycles [of b c 3 a] b(1) d4(1) c by (simp add: algebra_simps)
    moreover have "days_before_year (400 * a + 100 * b + 4 * c + 4 + 1)
        = 146097 * a + 36524 * b + 1461 * (c + 1)"
      using days_before_year_cycles [of b "c + 1" 0 a] b(1) d4(1) c(1) c24
      by (simp add: algebra_simps)
    ultimately show ?thesis using yy n' by simp
  next
    case plain
    have "civil_year n = 400 * a + 100 * b + 4 * c + d + 1" using y plain by (simp add: Let_def)
    from year_span_arith [OF b(1) plain(1) c d(1) plain(2) r this n] show ?thesis .
  qed
qed

lemma days_before_year_mono: "x \<le> y \<Longrightarrow> days_before_year x \<le> days_before_year y"
  using days_before_year_step [of x y] by simp

lemma civil_year_mono: "m \<le> n \<Longrightarrow> civil_year m \<le> civil_year n"
  using civil_year_bounds [of m] civil_year_bounds [of n]
    days_before_year_mono [of "civil_year n + 1" "civil_year m"]
  by linarith

lemma split_month_mono:
  "0 \<le> d \<Longrightarrow> d < e \<Longrightarrow>
     fst (split_month m ls d) < fst (split_month m ls e) \<or>
     fst (split_month m ls d) = fst (split_month m ls e) \<and>
     snd (split_month m ls d) < snd (split_month m ls e)"
proof (induction m ls d arbitrary: e rule: split_month.induct)
  case (1 m d)
  then show ?case by simp
next
  case (2 m l ls d)
  have later: "m < fst (split_month (Suc m) ls x)" for x
  proof -
    have "k \<le> fst (split_month k ks z)" for k ks z
      by (induction k ks z rule: split_month.induct) (auto intro: Suc_leD)
    then show ?thesis by (metis Suc_le_eq)
  qed
  show ?case
  proof (cases "d < l")
    case True
    then show ?thesis using "2.prems" later [of "e - l"] by (auto simp: nat_less_iff)
  next
    case False
    then show ?thesis using "2.prems" "2.IH" [of "e - l"] by simp
  qed
qed

lemma div_pred: "0 < k \<Longrightarrow> (y - 1) div k = y div k - of_bool (y mod k = 0)" for y k :: int
proof (cases "y mod k = 0")
  case True
  assume k: "0 < k"
  have e: "y - 1 = (y div k - 1) * k + (k - 1)"
    using True div_mult_mod_eq [of y k] by (simp add: algebra_simps)
  have "(y - 1) div k = y div k - 1"
    by (subst e, rule div_field) (use k in simp_all)
  then show ?thesis by (simp add: True)
next
  case False
  assume k: "0 < k"
  have r: "0 < y mod k" using False k pos_mod_sign [of k y] by linarith
  have e: "y - 1 = (y div k) * k + (y mod k - 1)"
    using div_mult_mod_eq [of y k] by linarith
  have "(y - 1) div k = y div k"
    by (subst e, rule div_field) (use k r pos_mod_bound [of k y] in linarith)+
  then show ?thesis by (simp add: False)
qed

lemma year_length: "days_before_year (y + 1) - days_before_year y = sum_list (month_lengths y)"
proof -
  have gen: "(r \<longrightarrow> q) \<Longrightarrow> (q \<longrightarrow> p) \<Longrightarrow>
      365 + of_bool p - of_bool q + of_bool r = (365 + of_bool (p \<and> (\<not> q \<or> r)) :: int)" for p q r
    by (cases p; cases q; cases r) simp_all
  have diff: "365 * y + a - b + c - (365 * (y - 1) + (a - p) - (b - q) + (c - r)) = 365 + p - q + r"
    for a b c p q r :: int
    by simp
  have now: "days_before_year (y + 1) = 365 * y + y div 4 - y div 100 + y div 400"
    by (simp only: days_before_year_def Let_def add_diff_cancel_right')
  have past: "days_before_year y = 365 * (y - 1) + (y div 4 - of_bool (y mod 4 = 0))
      - (y div 100 - of_bool (y mod 100 = 0)) + (y div 400 - of_bool (y mod 400 = 0))"
    by (simp only: days_before_year_def Let_def div_pred zero_less_numeral)
  have d400: "y mod 400 = 0 \<longrightarrow> y mod 100 = 0"
    using dvd_trans [of 100 400 y] by (simp add: mod_eq_0_iff_dvd)
  have d100: "y mod 100 = 0 \<longrightarrow> y mod 4 = 0"
    using dvd_trans [of 4 100 y] by (simp add: mod_eq_0_iff_dvd)
  have "days_before_year (y + 1) - days_before_year y
      = 365 + of_bool (y mod 4 = 0) - of_bool (y mod 100 = 0) + of_bool (y mod 400 = 0)"
    by (simp only: now past diff)
  also have "\<dots> = 365 + of_bool (is_leap y)"
    unfolding is_leap_def by (rule gen [OF d400 d100])
  also have "\<dots> = sum_list (month_lengths y)"
    by (simp add: month_lengths_def)
  finally show ?thesis .
qed

lemma split_month_bounds:
  "0 \<le> d \<Longrightarrow> d < sum_list ls \<Longrightarrow> (\<And>l. l \<in> set ls \<Longrightarrow> l \<le> 31) \<Longrightarrow>
     m \<le> fst (split_month m ls d) \<and> fst (split_month m ls d) < m + length ls \<and>
     1 \<le> snd (split_month m ls d) \<and> snd (split_month m ls d) \<le> 31"
proof (induction m ls d rule: split_month.induct)
  case (1 m d)
  then show ?case by simp
next
  case (2 m l ls d)
  have l: "l \<le> 31" using "2.prems"(3) by simp
  show ?case
  proof (cases "d < l")
    case True
    then show ?thesis using l "2.prems"(1) by simp
  next
    case False
    then show ?thesis using "2.prems" "2.IH" by simp
  qed
qed

lemma civil_month_day_bounds:
  "1 \<le> fst (civil_month_day n) \<and> fst (civil_month_day n) \<le> 12 \<and>
   1 \<le> snd (civil_month_day n) \<and> snd (civil_month_day n) \<le> 31"
proof -
  let ?y = "civil_year n"
  have "n - days_before_year ?y < sum_list (month_lengths ?y)"
    using civil_year_bounds [of n] year_length [of ?y] by linarith
  moreover have "l \<in> set (month_lengths ?y) \<Longrightarrow> l \<le> 31" for l
    by (auto simp: month_lengths_def split: if_splits)
  moreover have "length (month_lengths ?y) = 12" by (simp add: month_lengths_def)
  ultimately show ?thesis
    using split_month_bounds [of "n - days_before_year ?y" "month_lengths ?y" 1] civil_year_bounds [of n]
    by (auto simp: civil_month_day_def Let_def)
qed

lemma civil_year_range:
  assumes "0 \<le> n" "n < 3652059"
  shows "1 \<le> civil_year n" "civil_year n \<le> 9999"
proof -
  have low: "civil_year 0 = 1" and high: "civil_year 3652058 = 9999"
    by (simp_all add: civil_year_def)
  show "1 \<le> civil_year n" using civil_year_mono [OF assms(1)] low by simp
  show "civil_year n \<le> 9999" using civil_year_mono [of n 3652058] high assms(2) by simp
qed

text \<open>Later days have later civil dates.\<close>

lemma civil_date_less:
  assumes "m < n"
  shows "civil_year m < civil_year n \<or> civil_year m = civil_year n \<and>
    (fst (civil_month_day m) < fst (civil_month_day n) \<or>
     fst (civil_month_day m) = fst (civil_month_day n) \<and>
     snd (civil_month_day m) < snd (civil_month_day n))"
proof (cases "civil_year m = civil_year n")
  case True
  have "0 \<le> m - days_before_year (civil_year m)" using civil_year_bounds [of m] by simp
  then show ?thesis
    using split_month_mono [of "m - days_before_year (civil_year m)" "n - days_before_year (civil_year m)"
        1 "month_lengths (civil_year m)"] assms True
    by (simp add: civil_month_day_def Let_def)
next
  case False
  then show ?thesis using civil_year_mono [of m n] assms by simp
qed

section \<open>Instants and their canonical stamp\<close>

text \<open>
  What a \<^verbatim>\<open>datetime\<close> carries: no \<^verbatim>\<open>tzinfo\<close>, a \<^verbatim>\<open>tzinfo\<close> with a fixed offset in microseconds,
  one whose \<^verbatim>\<open>utcoffset\<close> answers \<^verbatim>\<open>None\<close>, or one whose \<^verbatim>\<open>utcoffset\<close> raises.
\<close>

datatype tz = No_Tz | Tz_Offset int | Tz_None | Tz_Raises

record py_datetime =
  wall_us :: int
  dt_tz :: tz

text \<open>An aware UTC instant, the only kind of \<^verbatim>\<open>datetime\<close> the rest of the program handles.\<close>

definition utc :: "int \<Rightarrow> py_datetime" where
  "utc us = \<lparr>wall_us = us, dt_tz = Tz_Offset 0\<rparr>"

definition truncate_to_milliseconds :: "py_datetime \<Rightarrow> int res" where
  "truncate_to_milliseconds v = (case dt_tz v of
       No_Tz \<Rightarrow> Inl (Time_Error ''MH_TIME_NAIVE'')
     | Tz_Raises \<Rightarrow> Inl (Time_Error ''MH_TIME_TIMESTAMP'')
     | Tz_None \<Rightarrow> Inl (Time_Error ''MH_TIME_NAIVE'')
     | Tz_Offset off \<Rightarrow>
         (let u = wall_us v - off
          in if u < 0 \<or> datetime_limit \<le> u then Inl (Time_Error ''MH_TIME_TIMESTAMP'')
             else Inr (u div 1000 * 1000)))"

definition stamp_of :: "int \<Rightarrow> string" where
  "stamp_of us =
     (let day = us div us_per_day; t = us mod us_per_day; md = civil_month_day day
      in pad_dec 4 (nat (civil_year day)) @ ''-'' @ pad_dec 2 (fst md) @ ''-'' @ pad_dec 2 (snd md)
         @ ''T'' @ pad_dec 2 (nat (t div 3600000000)) @ '':'' @ pad_dec 2 (nat (t div 60000000 mod 60))
         @ '':'' @ pad_dec 2 (nat (t div 1000000 mod 60)) @ ''.''
         @ pad_dec 3 (nat (t div 1000 mod 1000)) @ ''Z'')"

definition format_timestamp :: "py_datetime \<Rightarrow> string res" where
  "format_timestamp v = bind_res (truncate_to_milliseconds v) (\<lambda>us. Inr (stamp_of us))"

text \<open>\<^verbatim>\<open>value + timedelta(seconds=k)\<close>: outside years 1 to 9999 the addition raises.\<close>

definition add_seconds :: "int \<Rightarrow> int \<Rightarrow> int res" where
  "add_seconds us k =
     (let u = us + k * 1000000
      in if u < 0 \<or> datetime_limit \<le> u then Inl Overflow_Error else Inr u)"

definition valid_instant :: "int \<Rightarrow> bool" where
  "valid_instant us \<longleftrightarrow> 0 \<le> us \<and> us < datetime_limit"

section \<open>Stamp order is instant order\<close>

lemma pad_dec_int_less:
  "0 \<le> m \<Longrightarrow> m < 10 ^ w \<Longrightarrow> 0 \<le> n \<Longrightarrow> n < 10 ^ w \<Longrightarrow>
     pad_dec w (nat m) @ c < pad_dec w (nat n) @ d \<longleftrightarrow> m < n \<or> m = n \<and> c < d" for m n :: int
  by (subst pad_dec_append_less) (auto simp: nat_less_iff)

lemma div_mod_less: "0 < k \<Longrightarrow>
    a < b \<longleftrightarrow> a div k < b div k \<or> a div k = b div k \<and> a mod k < b mod k" for a b k :: int
  using zdiv_mono1 [of a b k] zdiv_mono1 [of b a k] div_mult_mod_eq [of a k] div_mult_mod_eq [of b k]
  by (smt (verit))

lemma div_mod_eq_iff: "a = b \<longleftrightarrow> a div k = b div k \<and> a mod k = b mod k" for a b k :: int
  by (metis div_mult_mod_eq)

definition time_text :: "int \<Rightarrow> string" where
  "time_text t = pad_dec 2 (nat (t div 3600000000)) @ '':'' @ pad_dec 2 (nat (t div 60000000 mod 60))
     @ '':'' @ pad_dec 2 (nat (t div 1000000 mod 60)) @ ''.'' @ pad_dec 3 (nat (t div 1000 mod 1000))
     @ ''Z''"

lemma time_text_fields:
  "t div 1000000 = t div 1000 div 1000" "t div 60000000 = t div 1000 div 1000 div 60"
  "t div 3600000000 = t div 1000 div 1000 div 60 div 60" for t :: int
  by (simp_all add: zdiv_zmult2_eq [symmetric])

lemma time_text_less:
  assumes "0 \<le> t" "t < us_per_day" "0 \<le> u" "u < us_per_day"
  shows "time_text t < time_text u \<longleftrightarrow> t div 1000 < u div 1000"
proof -
  have hour: "0 \<le> x div 1000 div 1000 div 60 div 60 \<and> x div 1000 div 1000 div 60 div 60 < 10 ^ 2"
    if "0 \<le> x" "x < us_per_day" for x :: int
  proof -
    have "x div 3600000000 \<le> 86400000000 div 3600000000"
      using that zdiv_mono1 [of x 86400000000 3600000000] by (simp add: us_per_day_def)
    then show ?thesis using that by (simp add: time_text_fields(3) [symmetric])
  qed
  note h = hour [OF assms(1,2)] hour [OF assms(3,4)]
  have small: "0 \<le> y mod 60 \<and> y mod 60 < 10 ^ 2" "0 \<le> y mod 1000 \<and> y mod 1000 < 10 ^ 3" for y :: int
    using pos_mod_bound [of 60 y] by simp_all
  let ?A = "t div 1000" and ?B = "u div 1000"
  let ?a = "?A div 1000" and ?b = "?B div 1000"
  let ?c = "?a div 60" and ?d = "?b div 60"
  have "time_text t < time_text u \<longleftrightarrow> ?c div 60 < ?d div 60 \<or> ?c div 60 = ?d div 60 \<and>
      (?c mod 60 < ?d mod 60 \<or> ?c mod 60 = ?d mod 60 \<and>
        (?a mod 60 < ?b mod 60 \<or> ?a mod 60 = ?b mod 60 \<and> ?A mod 1000 < ?B mod 1000))"
    unfolding time_text_def time_text_fields append_Cons append_Nil
    by (simp only: pad_dec_int_less h small Cons_less_Cons less_irrefl simp_thms)
  also have "\<dots> \<longleftrightarrow> ?A < ?B"
    using div_mod_less [of 1000 ?A ?B] div_mod_less [of 60 ?a ?b] div_mod_less [of 60 ?c ?d]
      div_mod_eq_iff [of ?a ?b 60] div_mod_eq_iff [of ?c ?d 60]
    by (simp only: zero_less_numeral) blast
  finally show ?thesis .
qed

lemma stamp_of_time: "stamp_of us =
    pad_dec 4 (nat (civil_year (us div us_per_day))) @ ''-''
    @ pad_dec 2 (fst (civil_month_day (us div us_per_day))) @ ''-''
    @ pad_dec 2 (snd (civil_month_day (us div us_per_day))) @ ''T'' @ time_text (us mod us_per_day)"
  by (simp add: stamp_of_def time_text_def Let_def)

lemma length_stamp_of [simp]: "length (stamp_of us) = 24"
  by (simp add: stamp_of_time time_text_def)

lemma date_text_less:
  assumes "0 \<le> m" "m < 3652059" "0 \<le> n" "n < 3652059"
  shows "pad_dec 4 (nat (civil_year m)) @ ''-'' @ pad_dec 2 (fst (civil_month_day m)) @ ''-''
      @ pad_dec 2 (snd (civil_month_day m)) @ c
    < pad_dec 4 (nat (civil_year n)) @ ''-'' @ pad_dec 2 (fst (civil_month_day n)) @ ''-''
      @ pad_dec 2 (snd (civil_month_day n)) @ d
    \<longleftrightarrow> m < n \<or> m = n \<and> c < d"
proof -
  have md: "fst (civil_month_day x) < 100" "snd (civil_month_day x) < 100" for x
    using civil_month_day_bounds [of x] by simp_all
  have y: "0 \<le> civil_year m" "civil_year m < 10000" "0 \<le> civil_year n" "civil_year n < 10000"
    using civil_year_range [OF assms(1,2)] civil_year_range [OF assms(3,4)] by simp_all
  consider "m < n" | "m = n" | "n < m" by linarith
  then show ?thesis
  proof cases
    case 1
    then show ?thesis
      using civil_date_less [OF 1] by (auto simp: pad_dec_int_less y pad_dec_append_less md)
  next
    case 2
    then show ?thesis by (simp add: pad_dec_int_less y pad_dec_append_less md)
  next
    case 3
    then show ?thesis
      using civil_date_less [OF 3] by (auto simp: pad_dec_int_less y pad_dec_append_less md)
  qed
qed

lemma ms_split:
  "(x div 1000) div 86400000 = x div us_per_day"
  "(x div 1000) mod 86400000 = x mod us_per_day div 1000" for x :: int
proof -
  show "(x div 1000) div 86400000 = x div us_per_day"
    by (simp add: us_per_day_def zdiv_zmult2_eq [symmetric])
  have "x mod (1000 * 86400000) = 1000 * (x div 1000 mod 86400000) + x mod 1000"
    by (rule zmod_zmult2_eq) simp
  moreover have "us_per_day = 1000 * 86400000" by (simp add: us_per_day_def)
  ultimately have "x mod us_per_day = (x div 1000 mod 86400000) * 1000 + x mod 1000"
    by (simp only: mult.commute)
  then show "(x div 1000) mod 86400000 = x mod us_per_day div 1000"
    by (simp only:)
qed

lemma stamp_of_less:
  assumes "valid_instant u" "valid_instant v"
  shows "stamp_of u < stamp_of v \<longleftrightarrow> u div 1000 < v div 1000"
proof -
  have day: "0 \<le> x div us_per_day" "x div us_per_day < 3652059" "0 \<le> x mod us_per_day"
      "x mod us_per_day < us_per_day" if "valid_instant x" for x
    using that zdiv_mono1 [of x 315537897599999999 86400000000]
    by (simp_all add: valid_instant_def datetime_limit_def us_per_day_def pos_imp_zdiv_nonneg_iff)
  have "u div 1000 < v div 1000 \<longleftrightarrow> u div us_per_day < v div us_per_day \<or>
      u div us_per_day = v div us_per_day \<and> u mod us_per_day div 1000 < v mod us_per_day div 1000"
    using div_mod_less [of 86400000 "u div 1000" "v div 1000"] by (simp only: ms_split zero_less_numeral)
  then show ?thesis
    unfolding stamp_of_time
    by (subst date_text_less) (use day [OF assms(1)] day [OF assms(2)] in \<open>simp_all add: time_text_less\<close>)
qed

section \<open>Truncation\<close>

lemma truncate_Inr:
  "truncate_to_milliseconds v = Inr us \<longleftrightarrow>
     (\<exists>off. dt_tz v = Tz_Offset off \<and> valid_instant (wall_us v - off) \<and>
        us = (wall_us v - off) div 1000 * 1000)"
  by (auto simp: truncate_to_milliseconds_def valid_instant_def Let_def split: tz.splits)

lemma truncate_utc: "valid_instant us \<Longrightarrow> truncate_to_milliseconds (utc us) = Inr (us div 1000 * 1000)"
  by (simp add: truncate_Inr utc_def)

lemma truncated_valid: "valid_instant us \<Longrightarrow> valid_instant (us div 1000 * 1000)"
  using div_mult_mod_eq [of us 1000] pos_mod_sign [of 1000 us]
  by (auto simp: valid_instant_def pos_imp_zdiv_nonneg_iff intro: le_less_trans [of _ us])

lemma stamp_of_truncated: "stamp_of (us div 1000 * 1000) = stamp_of us"
proof -
  have same: "us div 1000 * 1000 div 1000 = us div 1000" by simp
  have "us div 1000 * 1000 div us_per_day = us div us_per_day"
    by (simp only: ms_split(1) [symmetric] same)
  moreover have "us div 1000 * 1000 mod us_per_day div 1000 = us mod us_per_day div 1000"
    by (simp only: ms_split(2) [symmetric] same)
  ultimately show ?thesis
    by (simp only: stamp_of_time time_text_def time_text_fields)
qed

lemma format_timestamp_utc: "valid_instant us \<Longrightarrow> format_timestamp (utc us) = Inr (stamp_of us)"
  by (simp add: format_timestamp_def truncate_utc stamp_of_truncated)

lemma format_timestamp_Inr:
  "format_timestamp v = Inr s \<longleftrightarrow>
     (\<exists>off. dt_tz v = Tz_Offset off \<and> valid_instant (wall_us v - off) \<and> s = stamp_of (wall_us v - off))"
  by (auto simp: format_timestamp_def bind_res_eq_Inr truncate_Inr stamp_of_truncated)

lemma add_seconds_Inr: "add_seconds us k = Inr u \<longleftrightarrow> u = us + k * 1000000 \<and> valid_instant u"
  by (auto simp: add_seconds_def valid_instant_def Let_def)

lemma stamp_of_le:
  "valid_instant u \<Longrightarrow> valid_instant v \<Longrightarrow> stamp_of u \<le> stamp_of v \<longleftrightarrow> u div 1000 \<le> v div 1000"
  using stamp_of_less [of v u] by (simp add: linorder_not_less [symmetric])

lemma stamp_of_inj:
  "valid_instant u \<Longrightarrow> valid_instant v \<Longrightarrow> stamp_of u = stamp_of v \<longleftrightarrow> u div 1000 = v div 1000"
  using stamp_of_le [of u v] stamp_of_le [of v u] by (auto intro: order.antisym)

lemmas stamp_eval = stamp_of_time time_text_def us_per_day_def civil_month_day_def civil_year_def
  month_lengths_def is_leap_def days_before_year_def pad_dec_eval

section \<open>Bounded durations\<close>

text \<open>
  \<^verbatim>\<open>(0|[1-9][0-9]{0,17})([smhd])\<close> with \<^verbatim>\<open>fullmatch\<close>: the digits before the last character,
  which is the unit; \<^verbatim>\<open>int()\<close> of an accepted digit string is its decimal value.
\<close>

fun dec_value :: "int \<Rightarrow> string \<Rightarrow> int" where
  "dec_value a [] = a"
| "dec_value a (c # cs) = dec_value (10 * a + (of_char c - 48)) cs"

definition seconds_per_unit :: "char \<Rightarrow> int option" where
  "seconds_per_unit c =
     (if c = CHR ''s'' then Some 1 else if c = CHR ''m'' then Some 60
      else if c = CHR ''h'' then Some 3600 else if c = CHR ''d'' then Some 86400 else None)"

definition duration_match :: "string \<Rightarrow> (string \<times> char) option" where
  "duration_match s =
     (if s = [] then None
      else let ds = butlast s; u = last s in
        if seconds_per_unit u \<noteq> None \<and>
           (ds = ''0'' \<or> ds \<noteq> [] \<and> is_digit (hd ds) \<and> hd ds \<noteq> CHR ''0'' \<and> list_all is_digit ds
              \<and> length ds \<le> 18)
        then Some (ds, u) else None)"

definition parse_bounded_duration_seconds :: "string \<Rightarrow> int \<Rightarrow> int \<Rightarrow> int res" where
  "parse_bounded_duration_seconds v lo hi =
     (if lo < 0 \<or> hi < lo then Inl (Time_Error ''MH_TIME_DURATION_BOUNDS'')
      else if v = [] \<or> 19 < py_len v then Inl (Time_Error ''MH_TIME_DURATION_FORMAT'')
      else case duration_match v of
        None \<Rightarrow> Inl (Time_Error ''MH_TIME_DURATION_FORMAT'')
      | Some (ds, u) \<Rightarrow>
          (let seconds = dec_value 0 ds * the (seconds_per_unit u)
           in if seconds < lo \<or> hi < seconds then Inl (Time_Error ''MH_TIME_DURATION_RANGE'')
              else Inr seconds))"

text \<open>\<^verbatim>\<open>FixedClock.__post_init__\<close>: the wall instant is truncated, the monotonic reading checked.\<close>

record fixed_clock =
  fc_instant :: int
  fc_monotonic :: int

definition validate_monotonic_nanoseconds :: "int \<Rightarrow> int res" where
  "validate_monotonic_nanoseconds n =
     (if n < 0 then Inl (Time_Error ''MH_TIME_MONOTONIC'') else Inr n)"

definition fixed_clock_init :: "py_datetime \<Rightarrow> int \<Rightarrow> fixed_clock res" where
  "fixed_clock_init v n =
     bind_res (truncate_to_milliseconds v) (\<lambda>us.
     bind_res (validate_monotonic_nanoseconds n) (\<lambda>m.
       Inr \<lparr>fc_instant = us, fc_monotonic = m\<rparr>))"

end
