(* ===== verification/Control_Db.thy ===== *)
theory Control_Db
  imports Clock "HOL-Library.AList"
begin

text \<open>
  \<^verbatim>\<open>src/milhouse/state/database.py\<close> and the tables of \<^verbatim>\<open>src/milhouse/state/schema.py\<close>: the
  SQLite control database, its rows with their \<^verbatim>\<open>CHECK\<close> constraints, one statement at a time,
  and the transaction boundary.

  A keyed table is an association list over its primary key (\<open>AList.update\<close>,
  \<open>AList.delete\<close>, \<open>map_of\<close>); what a \<^verbatim>\<open>SELECT\<close> shows of its order is always fixed by an
  \<^verbatim>\<open>ORDER BY\<close>. \<open>faults\<close> is the script of what SQLite does: its head says whether the next
  statement fails with a \<^verbatim>\<open>sqlite3.Error\<close> (a full disk, a lock that stays busy). Every theorem
  holds for every script. \<^verbatim>\<open>BEGIN IMMEDIATE\<close> takes SQLite's write lock, so contending processes
  are sequences of whole transactions over one database. \<^verbatim>\<open>ROLLBACK\<close> is taken to restore the
  database; its own failure is swallowed by the code.
\<close>

section \<open>Rows and their constraints\<close>

text \<open>SQLite's \<^verbatim>\<open>length\<close> on text counts the characters before the first NUL.\<close>

definition sql_length :: "string \<Rightarrow> nat" where
  "sql_length s = py_len (takeWhile (\<lambda>c. of_char c \<noteq> (0 :: nat)) s)"

record lease_row =
  lr_holder :: string
  lr_fence :: int
  lr_acquired_at :: string
  lr_expires_at :: string

record cursor_row =
  cr_position :: string
  cr_batch :: "string option"
  cr_revision :: int
  cr_updated_at :: string

record checkpoint_row =
  kr_position :: string
  kr_revision :: int
  kr_updated_at :: string

record alert_row =
  al_fail_count :: int
  al_success_count :: int
  al_state :: string
  al_cooldown_until :: "string option"
  al_last_sample_at :: "string option"
  al_last_transition :: "string option"
  al_revision :: int
  al_updated_at :: string

record segment_row =
  sg_batch :: string
  sg_day :: string
  sg_schema_version :: int
  sg_frame_version :: int
  sg_config_generation :: string
  sg_scope :: string
  sg_target :: "string option"
  sg_privacy :: string
  sg_retention_days :: int
  sg_record_count :: int
  sg_content_sha256 :: string
  sg_byte_size :: int
  sg_file_sha256 :: string
  sg_committed_at :: string
  sg_origin :: string

record exporter_row =
  ex_batch :: string
  ex_exporter :: string
  ex_status :: string

record audit_row =
  au_id :: int
  au_recorded_at :: string
  au_action :: string
  au_actor :: string
  au_outcome :: string
  au_resource :: "string option"
  au_reason :: "string option"
  au_record_count :: "int option"
  au_byte_size :: "int option"
  au_content_sha256 :: "string option"
  au_file_sha256 :: "string option"

record retirement_row =
  rt_batch :: string
  rt_day :: string
  rt_file_sha256 :: string
  rt_retired_at :: string

definition cursor_check :: "string \<Rightarrow> cursor_row \<Rightarrow> bool" where
  "cursor_check source r \<longleftrightarrow>
     0 < sql_length source \<and> 0 < sql_length (cr_position r) \<and> 1 \<le> cr_revision r"

definition checkpoint_check :: "string \<times> int \<Rightarrow> checkpoint_row \<Rightarrow> bool" where
  "checkpoint_check k r \<longleftrightarrow> 0 < sql_length (fst k) \<and> 1 \<le> snd k \<and> 1 \<le> kr_revision r"

definition alert_check :: "string \<times> int \<Rightarrow> alert_row \<Rightarrow> bool" where
  "alert_check k r \<longleftrightarrow> 0 < sql_length (fst k) \<and> 1 \<le> snd k \<and> 0 \<le> al_fail_count r \<and>
     0 \<le> al_success_count r \<and> al_state r \<in> {''inactive'', ''firing'', ''resolved''} \<and>
     1 \<le> al_revision r"

definition segment_check :: "segment_row \<Rightarrow> bool" where
  "segment_check r \<longleftrightarrow> sg_schema_version r = 1 \<and> sg_frame_version r = 1 \<and>
     sql_length (sg_config_generation r) = 64 \<and> sql_length (sg_day r) = 10 \<and>
     sg_scope r \<in> {''installation'', ''target''} \<and>
     ((sg_scope r = ''target'') = (sg_target r \<noteq> None)) \<and>
     sg_privacy r \<in> {''public'', ''internal'', ''sensitive''} \<and>
     1 \<le> sg_retention_days r \<and> sg_retention_days r \<le> 3650 \<and> 0 \<le> sg_record_count r \<and>
     sql_length (sg_content_sha256 r) = 64 \<and> 0 < sg_byte_size r \<and>
     sql_length (sg_file_sha256 r) = 64 \<and> sg_origin r \<in> {''committed'', ''reconciled''}"

definition exporter_check :: "exporter_row \<Rightarrow> bool" where
  "exporter_check r \<longleftrightarrow> ex_status r \<in> {''pending'', ''delivered'', ''failed''}"

definition audit_check :: "audit_row \<Rightarrow> bool" where
  "audit_check r \<longleftrightarrow> 0 < sql_length (au_action r) \<and> 0 < sql_length (au_actor r) \<and>
     0 < sql_length (au_outcome r) \<and>
     (case au_record_count r of None \<Rightarrow> True | Some n \<Rightarrow> 0 \<le> n) \<and>
     (case au_byte_size r of None \<Rightarrow> True | Some n \<Rightarrow> 0 \<le> n) \<and>
     (case au_content_sha256 r of None \<Rightarrow> True | Some h \<Rightarrow> sql_length h = 64) \<and>
     (case au_file_sha256 r of None \<Rightarrow> True | Some h \<Rightarrow> sql_length h = 64)"

definition retirement_check :: "retirement_row \<Rightarrow> bool" where
  "retirement_check r \<longleftrightarrow> 0 < sql_length (rt_batch r) \<and> sql_length (rt_day r) = 10 \<and>
     sql_length (rt_file_sha256 r) = 64"

text \<open>\<open>audit_seq\<close> is the \<^verbatim>\<open>AUTOINCREMENT\<close> high-water mark: the largest id ever assigned.\<close>

record tables =
  leases :: "(string \<times> lease_row) list"
  segments :: "segment_row list"
  seg_exporters :: "exporter_row list"
  cursors :: "(string \<times> cursor_row) list"
  checkpoints :: "((string \<times> int) \<times> checkpoint_row) list"
  audit :: "audit_row list"
  audit_seq :: int
  retirements :: "retirement_row list"
  alerts :: "((string \<times> int) \<times> alert_row) list"

definition empty_tables :: tables where
  "empty_tables = \<lparr>leases = [], segments = [], seg_exporters = [], cursors = [], checkpoints = [],
     audit = [], audit_seq = 0, retirements = [], alerts = []\<rparr>"

text \<open>
  The connection: its tables, whether the handle is closed, whether a transaction is open, and
  the fault script. Later theories extend it with the files they also touch.
\<close>

record control =
  db :: tables
  db_closed :: bool
  in_txn :: bool
  faults :: "bool list"

definition fresh_control :: "bool list \<Rightarrow> control" where
  "fresh_control fs = \<lparr>db = empty_tables, db_closed = False, in_txn = False, faults = fs\<rparr>"

section \<open>Statements\<close>

definition in_int64 :: "int \<Rightarrow> bool" where
  "in_int64 n \<longleftrightarrow> min_int64 \<le> n \<and> n \<le> max_int64"

text \<open>
  One \<^verbatim>\<open>connection.execute\<close>: binding an integer outside 64 bits raises \<^verbatim>\<open>OverflowError\<close> before
  SQLite sees the statement; a closed connection, the fault script and a violated constraint
  (\<open>None\<close>) raise a \<^verbatim>\<open>sqlite3.Error\<close> and leave the tables as they were.
\<close>

definition sql :: "int list \<Rightarrow> (tables \<Rightarrow> ('r \<times> tables) option) \<Rightarrow> ('a control_scheme, 'r) prog" where
  "sql binds f = (\<lambda>s.
     if db_closed s then (Inl Sqlite_Error, s)
     else if \<not> list_all in_int64 binds then (Inl Overflow_Error, s)
     else case faults s of
       True # fs \<Rightarrow> (Inl Sqlite_Error, s\<lparr>faults := fs\<rparr>)
     | _ \<Rightarrow> (case f (db s) of
         None \<Rightarrow> (Inl Sqlite_Error, s\<lparr>faults := tl (faults s)\<rparr>)
       | Some (r, t) \<Rightarrow> (Inr r, s\<lparr>faults := tl (faults s), db := t\<rparr>)))"

definition select :: "int list \<Rightarrow> (tables \<Rightarrow> 'r) \<Rightarrow> ('a control_scheme, 'r) prog" where
  "select binds q = sql binds (\<lambda>t. Some (q t, t))"

text \<open>\<^verbatim>\<open>ControlDatabase.connection\<close>: the handle refuses once closed.\<close>

definition db_connection :: "('a control_scheme, unit) prog" where
  "db_connection = (\<lambda>s. if db_closed s then (Inl (State_Error ''MH_STATE_CLOSED''), s) else (Inr (), s))"

definition db_close :: "('a control_scheme, unit) prog" where
  "db_close = (\<lambda>s. (Inr (), s\<lparr>db_closed := True\<rparr>))"

section \<open>The transaction boundary\<close>

definition begin_txn :: "('a control_scheme, unit) prog" where
  "begin_txn = (\<lambda>s. case faults s of
       True # fs \<Rightarrow> (Inl Sqlite_Error, s\<lparr>faults := fs\<rparr>)
     | _ \<Rightarrow> (if in_txn s then (Inl Sqlite_Error, s\<lparr>faults := tl (faults s)\<rparr>)
            else (Inr (), s\<lparr>faults := tl (faults s), in_txn := True\<rparr>)))"

text \<open>\<^verbatim>\<open>ControlDatabase.transaction\<close> around the block \<open>body\<close>.\<close>

definition transaction :: "('a control_scheme, 'r) prog \<Rightarrow> ('a control_scheme, 'r) prog" where
  "transaction body = (\<lambda>s.
     case db_connection s of (Inl e, s1) \<Rightarrow> (Inl e, s1) | (Inr _, s1) \<Rightarrow>
     (case begin_txn s1 of
        (Inl _, s2) \<Rightarrow> (Inl (State_Error ''MH_STATE_TXN''), s2)
      | (Inr _, s2) \<Rightarrow>
        (case body s2 of
           (Inl e, s3) \<Rightarrow> (Inl e, s3\<lparr>db := db s, in_txn := False\<rparr>)
         | (Inr r, s3) \<Rightarrow>
             (case faults s3 of
                True # fs \<Rightarrow>
                  (Inl (State_Error ''MH_STATE_TXN''), s3\<lparr>db := db s, in_txn := False, faults := fs\<rparr>)
              | _ \<Rightarrow> (Inr r, s3\<lparr>in_txn := False, faults := tl (faults s3)\<rparr>)))))"

section \<open>Idioms every control-state module repeats\<close>

text \<open>
  \<^verbatim>\<open>except (sqlite3.Error, OverflowError, TimeError)\<close> around a write, \<^verbatim>\<open>except sqlite3.Error\<close>
  around a read, and the guards on text, revisions and versions, each with the code of its caller.
\<close>

definition store_caught :: "py_exc \<Rightarrow> bool" where
  "store_caught e \<longleftrightarrow>
     (case e of Sqlite_Error \<Rightarrow> True | Overflow_Error \<Rightarrow> True | Time_Error _ \<Rightarrow> True | _ \<Rightarrow> False)"

definition sqlite_caught :: "py_exc \<Rightarrow> bool" where
  "sqlite_caught e \<longleftrightarrow> e = Sqlite_Error"

definition validate_identifier :: "string \<Rightarrow> string \<Rightarrow> ('s, unit) prog" where
  "validate_identifier v code = check (v \<noteq> [] \<and> py_len v \<le> 256) (State_Error code)"

definition validate_optional_text :: "string option \<Rightarrow> string \<Rightarrow> ('s, unit) prog" where
  "validate_optional_text v code =
     (case v of None \<Rightarrow> ret () | Some t \<Rightarrow> check (t \<noteq> [] \<and> py_len t \<le> 256) (State_Error code))"

definition validate_count :: "int \<Rightarrow> string \<Rightarrow> ('s, unit) prog" where
  "validate_count n code = check (0 \<le> n) (State_Error code)"

definition validate_positive :: "int \<Rightarrow> string \<Rightarrow> ('s, unit) prog" where
  "validate_positive n code = check (1 \<le> n) (State_Error code)"

lemma validate_Inr:
  "validate_identifier v code s = (Inr u, s') \<longleftrightarrow> v \<noteq> [] \<and> py_len v \<le> 256 \<and> s' = s"
  "validate_count n code s = (Inr u, s') \<longleftrightarrow> 0 \<le> n \<and> s' = s"
  "validate_positive n code s = (Inr u, s') \<longleftrightarrow> 1 \<le> n \<and> s' = s"
  by (auto simp: validate_identifier_def validate_count_def validate_positive_def check_def)

lemma validate_state:
  "validate_identifier v code s = (r, s') \<Longrightarrow> s' = s"
  "validate_optional_text w code s = (r, s') \<Longrightarrow> s' = s"
  "validate_count n code s = (r, s') \<Longrightarrow> s' = s"
  "validate_positive n code s = (r, s') \<Longrightarrow> s' = s"
  by (auto simp: validate_identifier_def validate_optional_text_def validate_count_def
      validate_positive_def check_def ret_def split: if_splits option.splits)

section \<open>Reasoning about statements and transactions\<close>

definition next_ok :: "'a control_scheme \<Rightarrow> bool" where
  "next_ok s \<longleftrightarrow> (case faults s of True # _ \<Rightarrow> False | _ \<Rightarrow> True)"

lemma next_ok_Nil [simp]: "faults s = [] \<Longrightarrow> next_ok s"
  by (simp add: next_ok_def)

lemma next_ok_not: "\<not> next_ok s \<longleftrightarrow> (\<exists>fs. faults s = True # fs)"
  by (auto simp: next_ok_def split: list.splits bool.splits)

lemma sql_cases:
  "sql binds f s =
     (if db_closed s then (Inl Sqlite_Error, s)
      else if \<not> list_all in_int64 binds then (Inl Overflow_Error, s)
      else if \<not> next_ok s then (Inl Sqlite_Error, s\<lparr>faults := tl (faults s)\<rparr>)
      else case f (db s) of
        None \<Rightarrow> (Inl Sqlite_Error, s\<lparr>faults := tl (faults s)\<rparr>)
      | Some (r, t) \<Rightarrow> (Inr r, s\<lparr>faults := tl (faults s), db := t\<rparr>))"
  by (auto simp: sql_def next_ok_def split: list.splits bool.splits)

lemma sql_Inr:
  "sql binds f s = (Inr r, s') \<longleftrightarrow>
     \<not> db_closed s \<and> list_all in_int64 binds \<and> next_ok s \<and>
     (\<exists>t. f (db s) = Some (r, t) \<and> s' = s\<lparr>faults := tl (faults s), db := t\<rparr>)"
  by (auto simp: sql_cases split: option.splits)

lemma select_Inr:
  "select binds q s = (Inr r, s') \<longleftrightarrow>
     \<not> db_closed s \<and> list_all in_int64 binds \<and> next_ok s \<and> r = q (db s) \<and>
     s' = s\<lparr>faults := tl (faults s)\<rparr>"
  by (auto simp: select_def sql_Inr)

lemma sql_Inl:
  "sql binds f s = (Inl e, s') \<Longrightarrow> (e = Sqlite_Error \<or> e = Overflow_Error) \<and> db s' = db s"
  by (auto simp: sql_cases split: if_splits option.splits)

lemma select_db: "select binds q s = (x, s') \<Longrightarrow> db s' = db s"
  by (auto simp: select_def sql_cases split: if_splits)

lemma transaction_cases:
  "transaction body s =
     (if db_closed s then (Inl (State_Error ''MH_STATE_CLOSED''), s)
      else if \<not> next_ok s \<or> in_txn s
        then (Inl (State_Error ''MH_STATE_TXN''), s\<lparr>faults := tl (faults s)\<rparr>)
      else case body (s\<lparr>faults := tl (faults s), in_txn := True\<rparr>) of
        (Inl e, s3) \<Rightarrow> (Inl e, s3\<lparr>db := db s, in_txn := False\<rparr>)
      | (Inr r, s3) \<Rightarrow>
          (if next_ok s3 then (Inr r, s3\<lparr>in_txn := False, faults := tl (faults s3)\<rparr>)
           else (Inl (State_Error ''MH_STATE_TXN''),
                 s3\<lparr>db := db s, in_txn := False, faults := tl (faults s3)\<rparr>)))"
  by (auto simp: transaction_def db_connection_def begin_txn_def next_ok_def
      split: list.splits bool.splits prod.splits sum.splits)

text \<open>Success of a transaction is success of its body, from the state after \<^verbatim>\<open>BEGIN\<close>.\<close>

lemma transaction_Inr:
  "transaction body s = (Inr r, s') \<longleftrightarrow>
     \<not> db_closed s \<and> next_ok s \<and> \<not> in_txn s \<and>
     (\<exists>s3. body (s\<lparr>faults := tl (faults s), in_txn := True\<rparr>) = (Inr r, s3) \<and> next_ok s3 \<and>
        s' = s3\<lparr>in_txn := False, faults := tl (faults s3)\<rparr>)"
  by (auto simp: transaction_cases split: prod.splits sum.splits if_splits)

text \<open>Whatever escapes a transaction, the tables are the ones it began with.\<close>

lemma transaction_Inl_db: "transaction body s = (Inl e, s') \<Longrightarrow> db s' = db s"
  by (auto simp: transaction_cases split: prod.splits sum.splits if_splits)

lemma transaction_Inl:
  "transaction body s = (Inl e, s') \<Longrightarrow>
     e = State_Error ''MH_STATE_CLOSED'' \<or> e = State_Error ''MH_STATE_TXN'' \<or>
     (\<exists>s3. body (s\<lparr>faults := tl (faults s), in_txn := True\<rparr>) = (Inl e, s3))"
  by (auto simp: transaction_cases split: prod.splits sum.splits if_splits)

text \<open>The shape of a compare-and-set write: a stamp, a transaction, the value built from both.\<close>

lemma stamped_txn_db:
  assumes "normalise c e' (andthen (lift_res x) (\<lambda>v. andthen (transaction (b v)) (\<lambda>u. ret (z v u)))) s
      = (Inl e, s')"
  shows "db s' = db s"
  using assms by (auto simp: normalise_Inl andthen_Inl ret_def lift_res_def dest!: transaction_Inl_db)

text \<open>With no fault ahead, an error of the body is what escapes.\<close>

lemma transaction_body_Inl:
  "\<not> db_closed s \<Longrightarrow> next_ok s \<Longrightarrow> \<not> in_txn s \<Longrightarrow>
   body (s\<lparr>faults := tl (faults s), in_txn := True\<rparr>) = (Inl e, s3) \<Longrightarrow>
   transaction body s = (Inl e, s3\<lparr>db := db s, in_txn := False\<rparr>)"
  by (simp add: transaction_cases)

text \<open>An idle handle: open, outside a transaction, and with no fault ahead.\<close>

definition quiet :: "'a control_scheme \<Rightarrow> bool" where
  "quiet s \<longleftrightarrow> \<not> db_closed s \<and> \<not> in_txn s \<and> faults s = []"

lemma quiet_simps:
  "faults s = [] \<Longrightarrow> s\<lparr>faults := []\<rparr> = s" "\<not> in_txn s \<Longrightarrow> s\<lparr>in_txn := False\<rparr> = s"
  "s\<lparr>db := db s\<rparr> = s"
  by (cases s; simp)+

lemma quiet_fresh: "quiet (fresh_control [])"
  by (simp add: quiet_def fresh_control_def)

lemma quiet_db [simp]: "quiet (s\<lparr>db := t\<rparr>) = quiet s"
  by (simp add: quiet_def)

lemma sql_quiet:
  "\<not> db_closed s \<Longrightarrow> faults s = [] \<Longrightarrow> sql binds f s =
     (if \<not> list_all in_int64 binds then (Inl Overflow_Error, s)
      else case f (db s) of None \<Rightarrow> (Inl Sqlite_Error, s) | Some (r, t) \<Rightarrow> (Inr r, s\<lparr>db := t\<rparr>))"
  by (simp add: sql_cases quiet_simps split: option.splits)

lemma select_quiet:
  "\<not> db_closed s \<Longrightarrow> faults s = [] \<Longrightarrow> select binds q s =
     (if \<not> list_all in_int64 binds then (Inl Overflow_Error, s) else (Inr (q (db s)), s))"
  by (simp add: select_def sql_quiet quiet_simps)

lemma transaction_quiet:
  "quiet s \<Longrightarrow> transaction body s = (case body (s\<lparr>in_txn := True\<rparr>) of
       (Inl e, s3) \<Rightarrow> (Inl e, s3\<lparr>db := db s, in_txn := False\<rparr>)
     | (Inr r, s3) \<Rightarrow>
         (if next_ok s3 then (Inr r, s3\<lparr>in_txn := False, faults := tl (faults s3)\<rparr>)
          else (Inl (State_Error ''MH_STATE_TXN''),
                s3\<lparr>db := db s, in_txn := False, faults := tl (faults s3)\<rparr>)))"
  by (simp add: quiet_def transaction_cases quiet_simps)

lemma transaction_in_txn: "\<not> in_txn s \<Longrightarrow> \<not> in_txn (snd (transaction body s))"
  by (auto simp: transaction_cases split: prod.splits sum.splits if_splits)

text \<open>
  A program is \<open>db_safe P\<close> when no outcome of it breaks \<open>P\<close> on the tables, given it held before.
\<close>

abbreviation db_keeps :: "(tables \<Rightarrow> bool) \<Rightarrow> ('a control_scheme, 'r) prog \<Rightarrow> bool" where
  "db_keeps P m \<equiv> keeps (\<lambda>s s'. P (db s) \<longrightarrow> P (db s')) m"

lemma db_rel_order [simp]:
  "reflp (\<lambda>s s'. P (db s) \<longrightarrow> P (db s'))" "transp (\<lambda>s s'. P (db s) \<longrightarrow> P (db s'))"
  by (auto simp: reflp_def transp_def)

lemma db_keeps_sql:
  "(\<And>t r t'. P t \<Longrightarrow> f t = Some (r, t') \<Longrightarrow> P t') \<Longrightarrow> db_keeps P (sql binds f)"
  by (auto simp: keeps_def sql_cases split: if_splits option.splits)

lemma db_keeps_select: "db_keeps P (select binds q)"
  unfolding select_def by (rule db_keeps_sql) simp

lemma db_keeps_transaction: "db_keeps P body \<Longrightarrow> db_keeps P (transaction body)"
  unfolding keeps_def
  by (fastforce simp: transaction_cases split: prod.splits sum.splits if_splits)

lemma db_keeps_connection: "db_keeps P db_connection"
  by (auto simp: keeps_def db_connection_def split: if_splits)

lemmas db_keeps_intros = keeps_intros [of "\<lambda>s s'. P (db s) \<longrightarrow> P (db s')" for P, simplified]
  db_keeps_select db_keeps_transaction db_keeps_connection

text \<open>A sample ledger row for the concrete instances.\<close>

definition demo_segment :: segment_row where
  "demo_segment = \<lparr>sg_batch = ''b1'', sg_day = ''2025-07-11'', sg_schema_version = 1,
     sg_frame_version = 1, sg_config_generation = replicate 64 (CHR ''0''), sg_scope = ''installation'',
     sg_target = None, sg_privacy = ''internal'', sg_retention_days = 30, sg_record_count = 1,
     sg_content_sha256 = replicate 64 (CHR ''0''), sg_byte_size = 427,
     sg_file_sha256 = replicate 64 (CHR ''0''), sg_committed_at = ''2025-07-11T00:00:00.000Z'',
     sg_origin = ''committed''\<rparr>"

end
