(* ===== verification/Leases.thy ===== *)
theory Leases
  imports Control_Db
begin

text \<open>
  \<^verbatim>\<open>src/milhouse/state/leases.py\<close>: named leases with a fence token. Acquire, renew and release
  are one transaction each; \<^verbatim>\<open>require_current_lease\<close> runs inside the caller's. Expiry compares
  stamps, which theory \<open>Clock\<close> shows is the order of instants. The lemmas give the exact branch of
  every operation; the properties are exclusion between holders, the fence as a guard against a
  stale holder, and what a release does to that guard.
\<close>

record lease =
  l_name :: string
  l_holder :: string
  l_fence :: int
  l_acquired_at :: string
  l_expires_at :: string

definition max_ttl_seconds :: int where
  "max_ttl_seconds = 3650 * 86400"

definition validate_ttl :: "int \<Rightarrow> ('s, unit) prog" where
  "validate_ttl ttl = check (0 < ttl \<and> ttl \<le> max_ttl_seconds) (State_Error ''MH_STATE_LEASE_TTL'')"

text \<open>\<^verbatim>\<open>_stamps\<close>: the addition happens on the wall reading and may leave the range of \<^verbatim>\<open>datetime\<close>.\<close>

definition datetime_plus :: "py_datetime \<Rightarrow> int \<Rightarrow> py_datetime res" where
  "datetime_plus v k = bind_res (add_seconds (wall_us v) k) (\<lambda>u. Inr (v\<lparr>wall_us := u\<rparr>))"

definition stamps :: "py_datetime \<Rightarrow> int \<Rightarrow> (string \<times> string) res" where
  "stamps now ttl =
     bind_res (format_timestamp now) (\<lambda>acquired.
     bind_res (datetime_plus now ttl) (\<lambda>later.
     bind_res (format_timestamp later) (\<lambda>expires. Inr (acquired, expires))))"

definition current_lease :: "string \<Rightarrow> ('a control_scheme, (string \<times> int \<times> string) option) prog" where
  "current_lease name = select [] (\<lambda>t. map_option (\<lambda>r. (lr_holder r, lr_fence r, lr_expires_at r))
     (map_of (leases t) name))"

definition upsert_lease :: "string \<Rightarrow> lease_row \<Rightarrow> ('a control_scheme, unit) prog" where
  "upsert_lease name r =
     sql [lr_fence r] (\<lambda>t. Some ((), t\<lparr>leases := AList.update name r (leases t)\<rparr>))"

text \<open>The blocks \<^verbatim>\<open>acquire_lease\<close> and \<^verbatim>\<open>renew_lease\<close> run inside their transaction.\<close>

definition acquire_body ::
  "string \<Rightarrow> string \<Rightarrow> string \<Rightarrow> string \<Rightarrow> string \<Rightarrow> ('a control_scheme, int) prog" where
  "acquire_body name holder now_stamp acquired expires =
     andthen (current_lease name) (\<lambda>existing.
     andthen
       (case existing of
          Some (eh, ef, ee) \<Rightarrow>
            if eh \<noteq> holder \<and> now_stamp < ee
            then throw (State_Error ''MH_STATE_LEASE_HELD'')
            else ret (if eh = holder then ef else ef + 1)
        | None \<Rightarrow> ret 1) (\<lambda>fence.
     andthen (upsert_lease name \<lparr>lr_holder = holder, lr_fence = fence,
        lr_acquired_at = acquired, lr_expires_at = expires\<rparr>) (\<lambda>_.
     ret fence)))"

definition acquire_lease ::
  "string \<Rightarrow> string \<Rightarrow> py_datetime \<Rightarrow> int \<Rightarrow> ('a control_scheme, lease) prog" where
  "acquire_lease name holder now ttl =
     andthen (validate_identifier name ''MH_STATE_LEASE_NAME'') (\<lambda>_.
     andthen (validate_identifier holder ''MH_STATE_LEASE_HOLDER'') (\<lambda>_.
     andthen (validate_ttl ttl) (\<lambda>_.
     normalise store_caught (State_Error ''MH_STATE_LEASE'')
       (andthen (lift_res (stamps now ttl)) (\<lambda>(acquired, expires).
        andthen (lift_res (format_timestamp now)) (\<lambda>now_stamp.
        andthen (transaction (acquire_body name holder now_stamp acquired expires)) (\<lambda>fence.
        ret \<lparr>l_name = name, l_holder = holder, l_fence = fence, l_acquired_at = acquired,
             l_expires_at = expires\<rparr>)))))))"

definition update_lease_times :: "string \<Rightarrow> string \<Rightarrow> string \<Rightarrow> ('a control_scheme, unit) prog" where
  "update_lease_times name acquired expires =
     sql [] (\<lambda>t. Some ((), case map_of (leases t) name of
         None \<Rightarrow> t
       | Some r \<Rightarrow> t\<lparr>leases := AList.update name
           (r\<lparr>lr_acquired_at := acquired, lr_expires_at := expires\<rparr>) (leases t)\<rparr>))"

definition renew_body ::
  "string \<Rightarrow> string \<Rightarrow> string \<Rightarrow> string \<Rightarrow> string \<Rightarrow> ('a control_scheme, int) prog" where
  "renew_body name holder now_stamp acquired expires =
     andthen (current_lease name) (\<lambda>existing.
     case existing of
       None \<Rightarrow> throw (State_Error ''MH_STATE_LEASE_LOST'')
     | Some (eh, ef, ee) \<Rightarrow>
         if eh \<noteq> holder \<or> ee \<le> now_stamp then throw (State_Error ''MH_STATE_LEASE_LOST'')
         else andthen (update_lease_times name acquired expires) (\<lambda>_. ret ef))"

definition renew_lease ::
  "string \<Rightarrow> string \<Rightarrow> py_datetime \<Rightarrow> int \<Rightarrow> ('a control_scheme, lease) prog" where
  "renew_lease name holder now ttl =
     andthen (validate_identifier name ''MH_STATE_LEASE_NAME'') (\<lambda>_.
     andthen (validate_identifier holder ''MH_STATE_LEASE_HOLDER'') (\<lambda>_.
     andthen (validate_ttl ttl) (\<lambda>_.
     normalise store_caught (State_Error ''MH_STATE_LEASE'')
       (andthen (lift_res (stamps now ttl)) (\<lambda>(acquired, expires).
        andthen (lift_res (format_timestamp now)) (\<lambda>now_stamp.
        andthen (transaction (renew_body name holder now_stamp acquired expires)) (\<lambda>fence.
        ret \<lparr>l_name = name, l_holder = holder, l_fence = fence, l_acquired_at = acquired,
             l_expires_at = expires\<rparr>)))))))"

text \<open>The \<^verbatim>\<open>DELETE\<close> of \<^verbatim>\<open>release_lease\<close>; its row count is 1 exactly when the pair matched.\<close>

definition delete_lease :: "string \<Rightarrow> string \<Rightarrow> ('a control_scheme, int) prog" where
  "delete_lease name holder =
     sql [] (\<lambda>t. case map_of (leases t) name of
         Some r \<Rightarrow> (if lr_holder r = holder
            then Some (1, t\<lparr>leases := AList.delete name (leases t)\<rparr>) else Some (0, t))
       | None \<Rightarrow> Some (0, t))"

definition release_lease :: "string \<Rightarrow> string \<Rightarrow> ('a control_scheme, bool) prog" where
  "release_lease name holder =
     andthen (validate_identifier name ''MH_STATE_LEASE_NAME'') (\<lambda>_.
     andthen (validate_identifier holder ''MH_STATE_LEASE_HOLDER'') (\<lambda>_.
     andthen (normalise sqlite_caught (State_Error ''MH_STATE_LEASE'')
        (transaction (delete_lease name holder))) (\<lambda>removed. ret (0 < removed))))"

definition require_current_lease :: "lease \<Rightarrow> ('a control_scheme, unit) prog" where
  "require_current_lease l =
     andthen (normalise sqlite_caught (State_Error ''MH_STATE_LEASE'')
        (select [] (\<lambda>t. case map_of (leases t) (l_name l) of
            None \<Rightarrow> True
          | Some r \<Rightarrow> lr_holder r \<noteq> l_holder l \<or> lr_fence r \<noteq> l_fence l))) (\<lambda>stale.
     check (\<not> stale) (State_Error ''MH_STATE_LEASE_LOST''))"

section \<open>What each operation does\<close>

lemma stamps_Inr:
  "stamps now ttl = Inr (a, e) \<longleftrightarrow>
     (\<exists>off. dt_tz now = Tz_Offset off \<and> valid_instant (wall_us now - off) \<and>
        a = stamp_of (wall_us now - off) \<and> valid_instant (wall_us now + ttl * 1000000) \<and>
        valid_instant (wall_us now + ttl * 1000000 - off) \<and>
        e = stamp_of (wall_us now + ttl * 1000000 - off))"
  by (auto simp: stamps_def bind_res_eq_Inr format_timestamp_Inr datetime_plus_def add_seconds_Inr)

lemma stamps_now: "stamps now ttl = Inr (a, e) \<Longrightarrow> format_timestamp now = Inr a"
  by (auto simp: stamps_Inr format_timestamp_Inr)

lemma acquire_body_Inr:
  "acquire_body name holder st acq expi s = (Inr fence, s') \<Longrightarrow>
     (\<forall>r. map_of (leases (db s)) name = Some r \<longrightarrow> lr_holder r = holder \<or> lr_expires_at r \<le> st) \<and>
     fence = (case map_of (leases (db s)) name of None \<Rightarrow> 1
       | Some r \<Rightarrow> if lr_holder r = holder then lr_fence r else lr_fence r + 1) \<and>
     db s' = (db s)\<lparr>leases := AList.update name \<lparr>lr_holder = holder, lr_fence = fence,
       lr_acquired_at = acq, lr_expires_at = expi\<rparr> (leases (db s))\<rparr>"
  by (cases "map_of (leases (db s)) name")
    (auto simp: acquire_body_def andthen_Inr current_lease_def select_Inr upsert_lease_def sql_Inr
      ret_def throw_def split: if_splits)

lemma renew_body_Inr:
  "renew_body name holder st acq expi s = (Inr fence, s') \<Longrightarrow>
     (\<exists>r. map_of (leases (db s)) name = Some r \<and> lr_holder r = holder \<and> st < lr_expires_at r \<and>
        fence = lr_fence r \<and>
        db s' = (db s)\<lparr>leases := AList.update name
          (r\<lparr>lr_acquired_at := acq, lr_expires_at := expi\<rparr>) (leases (db s))\<rparr>)"
  by (cases "map_of (leases (db s)) name")
    (auto simp: renew_body_def andthen_Inr current_lease_def select_Inr update_lease_times_def sql_Inr
      ret_def throw_def split: if_splits)

text \<open>
  A successful acquire: the operands were in range, no other holder's lease was live, and the row
  is now the caller's, with the old fence for the same holder, one more on a change of holder and
  1 where there was no row.
\<close>

lemma acquire_lease_Inr:
  assumes "acquire_lease name holder now ttl s = (Inr l, s')"
  shows "0 < ttl \<and> ttl \<le> max_ttl_seconds \<and> l_name l = name \<and> l_holder l = holder \<and>
    stamps now ttl = Inr (l_acquired_at l, l_expires_at l) \<and>
    (\<forall>r. map_of (leases (db s)) name = Some r \<longrightarrow>
       lr_holder r = holder \<or> lr_expires_at r \<le> l_acquired_at l) \<and>
    l_fence l = (case map_of (leases (db s)) name of None \<Rightarrow> 1
       | Some r \<Rightarrow> if lr_holder r = holder then lr_fence r else lr_fence r + 1) \<and>
    db s' = (db s)\<lparr>leases := AList.update name \<lparr>lr_holder = holder, lr_fence = l_fence l,
       lr_acquired_at = l_acquired_at l, lr_expires_at = l_expires_at l\<rparr> (leases (db s))\<rparr>"
  using assms
  by (auto simp: acquire_lease_def andthen_Inr normalise_Inr lift_res_def validate_ttl_def
      validate_identifier_def check_def ret_def transaction_Inr stamps_now split: if_splits
      dest!: acquire_body_Inr)

lemma renew_lease_Inr:
  assumes "renew_lease name holder now ttl s = (Inr l, s')"
  shows "0 < ttl \<and> ttl \<le> max_ttl_seconds \<and> l_name l = name \<and> l_holder l = holder \<and>
    stamps now ttl = Inr (l_acquired_at l, l_expires_at l) \<and>
    (\<exists>r. map_of (leases (db s)) name = Some r \<and> lr_holder r = holder \<and>
       l_acquired_at l < lr_expires_at r \<and> l_fence l = lr_fence r \<and>
       db s' = (db s)\<lparr>leases := AList.update name
         (r\<lparr>lr_acquired_at := l_acquired_at l, lr_expires_at := l_expires_at l\<rparr>) (leases (db s))\<rparr>)"
  using assms
  by (auto simp: renew_lease_def andthen_Inr normalise_Inr lift_res_def validate_ttl_def
      validate_identifier_def check_def ret_def transaction_Inr stamps_now split: if_splits
      dest!: renew_body_Inr)

lemma release_lease_Inr:
  assumes "release_lease name holder s = (Inr b, s')"
  shows "if \<exists>r. map_of (leases (db s)) name = Some r \<and> lr_holder r = holder
    then b \<and> db s' = (db s)\<lparr>leases := AList.delete name (leases (db s))\<rparr>
    else \<not> b \<and> db s' = db s"
  using assms
  by (auto simp: release_lease_def andthen_Inr normalise_Inr validate_identifier_def check_def
      ret_def transaction_Inr delete_lease_def sql_Inr split: if_splits option.splits)

text \<open>An operation that fails leaves every table as it was.\<close>

lemma normalised_txn_db:
  assumes "normalise c e' (andthen (lift_res x) (\<lambda>v. andthen (lift_res (y v)) (\<lambda>w.
      andthen (transaction (b v w)) (\<lambda>u. ret (z v w u))))) s = (Inl e, s')"
  shows "db s' = db s"
  using assms by (auto simp: normalise_Inl andthen_Inl ret_def lift_res_def dest!: transaction_Inl_db)

lemma acquire_lease_Inl: "acquire_lease name holder now ttl s = (Inl e, s') \<Longrightarrow> db s' = db s"
  unfolding acquire_lease_def validate_identifier_def validate_ttl_def case_prod_beta
  by (auto simp: andthen_Inl check_def split: if_splits dest!: normalised_txn_db)

lemma renew_lease_Inl: "renew_lease name holder now ttl s = (Inl e, s') \<Longrightarrow> db s' = db s"
  unfolding renew_lease_def validate_identifier_def validate_ttl_def case_prod_beta
  by (auto simp: andthen_Inl check_def split: if_splits dest!: normalised_txn_db)

lemma release_lease_Inl: "release_lease name holder s = (Inl e, s') \<Longrightarrow> db s' = db s"
  unfolding release_lease_def validate_identifier_def
  by (auto simp: andthen_Inl normalise_Inl ret_def check_def split: if_splits dest!: transaction_Inl_db)

lemma require_current_lease_Inr:
  "require_current_lease l s = (Inr u, s') \<Longrightarrow>
     \<exists>r. map_of (leases (db s)) (l_name l) = Some r \<and> lr_holder r = l_holder l \<and> lr_fence r = l_fence l"
  by (auto simp: require_current_lease_def andthen_Inr normalise_Inr select_Inr check_def
      split: option.splits if_splits)

lemma require_current_lease_ok:
  "map_of (leases (db s)) (l_name l) = Some r \<Longrightarrow> lr_holder r = l_holder l \<Longrightarrow> lr_fence r = l_fence l \<Longrightarrow>
   \<not> db_closed s \<Longrightarrow> next_ok s \<Longrightarrow>
   require_current_lease l s = (Inr (), s\<lparr>faults := tl (faults s)\<rparr>)"
  by (simp add: require_current_lease_def andthen_def normalise_def handle_def select_def sql_cases
      check_def)

section \<open>Traces of lease operations\<close>

datatype lease_op =
    Acquire string string py_datetime int
  | Renew string string py_datetime int
  | Release string string

fun op_name :: "lease_op \<Rightarrow> string" where
  "op_name (Acquire n _ _ _) = n"
| "op_name (Renew n _ _ _) = n"
| "op_name (Release n _) = n"

fun op_holder :: "lease_op \<Rightarrow> string" where
  "op_holder (Acquire _ h _ _) = h"
| "op_holder (Renew _ h _ _) = h"
| "op_holder (Release _ h) = h"

definition instant :: "py_datetime \<Rightarrow> int option" where
  "instant v = (case dt_tz v of Tz_Offset off \<Rightarrow> Some (wall_us v - off) | _ \<Rightarrow> None)"

fun op_instant :: "lease_op \<Rightarrow> int option" where
  "op_instant (Acquire _ _ now _) = instant now"
| "op_instant (Renew _ _ now _) = instant now"
| "op_instant (Release _ _) = None"

text \<open>
  One operation by some process, whatever it returns, and finite sequences of them. SQLite
  serialises the transactions, so a sequence is what any number of contending processes produce.
\<close>

inductive lease_step :: "'a control_scheme \<Rightarrow> lease_op \<Rightarrow> 'a control_scheme \<Rightarrow> bool" where
  acquire: "acquire_lease n h now ttl s = (r, s') \<Longrightarrow> lease_step s (Acquire n h now ttl) s'"
| renew: "renew_lease n h now ttl s = (r, s') \<Longrightarrow> lease_step s (Renew n h now ttl) s'"
| release: "release_lease n h s = (r, s') \<Longrightarrow> lease_step s (Release n h) s'"

inductive lease_trace :: "'a control_scheme \<Rightarrow> lease_op list \<Rightarrow> 'a control_scheme \<Rightarrow> bool" where
  stop: "lease_trace s [] s"
| more: "lease_step s op s1 \<Longrightarrow> lease_trace s1 ops s2 \<Longrightarrow> lease_trace s (op # ops) s2"

inductive_cases lease_stepE: "lease_step s op s'"
inductive_cases lease_trace_ConsE: "lease_trace s (op # ops) s'"

lemma lease_trace_preserves:
  fixes s s' :: "'a control_scheme"
  assumes "lease_trace s ops s'" "P (db s)" "\<And>op. op \<in> set ops \<Longrightarrow> Q op"
    and step: "\<And>(s :: 'a control_scheme) op s'. lease_step s op s' \<Longrightarrow> Q op \<Longrightarrow> P (db s) \<Longrightarrow> P (db s')"
  shows "P (db s')"
  using assms(1-3)
proof (induction rule: lease_trace.induct)
  case (stop s)
  then show ?case by simp
next
  case (more s op s1 ops s2)
  then show ?case using step [of s op s1] by simp
qed

text \<open>What one operation can do to one name's row.\<close>

lemma lease_step_row:
  assumes "lease_step s op s'" "map_of (leases (db s)) n = Some r"
  shows "map_of (leases (db s')) n = Some r \<or>
    op_name op = n \<and>
    (op_holder op = lr_holder r \<and>
       (map_of (leases (db s')) n = None \<and> op = Release n (lr_holder r) \<or>
        (\<exists>r'. map_of (leases (db s')) n = Some r' \<and> lr_holder r' = lr_holder r \<and>
           lr_fence r' = lr_fence r)) \<or>
     op_holder op \<noteq> lr_holder r \<and>
       (\<exists>r' t. map_of (leases (db s')) n = Some r' \<and> lr_holder r' = op_holder op \<and>
          lr_fence r' = lr_fence r + 1 \<and> op_instant op = Some t \<and> valid_instant t \<and>
          lr_expires_at r \<le> stamp_of t))"
  using assms(1)
proof (cases rule: lease_step.cases)
  case (acquire n' h now ttl res)
  show ?thesis
  proof (cases res)
    case (Inl e)
    then show ?thesis using acquire acquire_lease_Inl assms(2) by metis
  next
    case (Inr l)
    with acquire have "acquire_lease n' h now ttl s = (Inr l, s')" by simp
    from acquire_lease_Inr [OF this] show ?thesis using acquire(1) assms(2)
      by (auto simp: update_conv' stamps_Inr instant_def)
  qed
next
  case (renew n' h now ttl res)
  show ?thesis
  proof (cases res)
    case (Inl e)
    then show ?thesis using renew renew_lease_Inl assms(2) by metis
  next
    case (Inr l)
    with renew have "renew_lease n' h now ttl s = (Inr l, s')" by simp
    from renew_lease_Inr [OF this] show ?thesis using renew(1) assms(2)
      by (cases "n = n'") (auto simp: update_conv')
  qed
next
  case (release n' h res)
  show ?thesis
  proof (cases res)
    case (Inl e)
    then show ?thesis using release release_lease_Inl assms(2) by metis
  next
    case (Inr b)
    with release have "release_lease n' h s = (Inr b, s')" by simp
    from release_lease_Inr [OF this] show ?thesis using release(1) assms(2)
      by (auto simp: delete_conv' split: if_splits)
  qed
qed

section \<open>Exclusion and fencing\<close>

text \<open>C1
  Exclusion: a live lease survives everything other holders do before its expiry instant. After
  a successful acquire at instant \<open>T\<close>, whatever sequence of acquires, renewals and releases other
  holders attempt at instants earlier (in milliseconds) than \<open>T + ttl\<close>, the holder's lease is still
  the current one, so no two holders are ever live on one name.
\<close>

theorem lease_exclusive:
  assumes got: "acquire_lease name h now ttl s = (Inr l, s1)"
    and now: "instant now = Some T"
    and others: "lease_trace s1 ops s2"
      "\<And>op. op \<in> set ops \<Longrightarrow> op_name op = name \<Longrightarrow> op_holder op \<noteq> h \<and>
         (\<forall>t. op_instant op = Some t \<longrightarrow> t div 1000 < (T + ttl * 1000000) div 1000)"
    and usable: "\<not> db_closed s2" "next_ok s2"
  shows "fst (require_current_lease l s2) = Inr ()"
proof -
  let ?row = "\<lparr>lr_holder = h, lr_fence = l_fence l, lr_acquired_at = l_acquired_at l,
    lr_expires_at = l_expires_at l\<rparr>"
  note acq = acquire_lease_Inr [OF got]
  obtain off where off: "dt_tz now = Tz_Offset off" "T = wall_us now - off"
    using now by (auto simp: instant_def split: tz.splits)
  have T: "T + ttl * 1000000 = wall_us now + ttl * 1000000 - off" using off(2) by simp
  have expi: "l_expires_at l = stamp_of (T + ttl * 1000000)" "valid_instant (T + ttl * 1000000)"
    using acq off(1) unfolding T by (auto simp: stamps_Inr)
  have start: "map_of (leases (db s1)) name = Some ?row"
    using acq by (simp add: update_conv')
  have keep: "map_of (leases (db s')) name = Some ?row"
    if "lease_step s op s'" "map_of (leases (db s)) name = Some ?row"
      "op_name op = name \<longrightarrow> op_holder op \<noteq> h \<and>
         (\<forall>t. op_instant op = Some t \<longrightarrow> t div 1000 < (T + ttl * 1000000) div 1000)"
    for s op s'
    using lease_step_row [OF that(1,2)] that(3) expi
    by (auto simp: stamp_of_le)
  have "map_of (leases (db s2)) name = Some ?row"
    using lease_trace_preserves [of s1 ops s2 "\<lambda>t. map_of (leases t) name = Some ?row"
        "\<lambda>op. op_name op = name \<longrightarrow> op_holder op \<noteq> h \<and>
         (\<forall>t. op_instant op = Some t \<longrightarrow> t div 1000 < (T + ttl * 1000000) div 1000)"]
      others start keep
    by blast
  then show ?thesis
    using acq usable by (simp add: require_current_lease_ok)
qed

text \<open>C2
  Fencing: once another holder has taken over, the old lease is refused for good, as long as nobody
  releases the name.
\<close>

theorem lease_fenced_after_takeover:
  assumes cur: "map_of (leases (db s)) (l_name old) = Some r" "lr_holder r = l_holder old"
      "l_fence old = lr_fence r"
    and taken: "acquire_lease (l_name old) h2 now ttl s = (Inr l2, s1)" "h2 \<noteq> l_holder old"
    and later: "lease_trace s1 ops s2"
      "\<And>op. op \<in> set ops \<Longrightarrow> (\<forall>h. op \<noteq> Release (l_name old) h)"
  shows "isl (fst (require_current_lease old s2))"
proof -
  let ?P = "\<lambda>t. \<exists>r'. map_of (leases t) (l_name old) = Some r' \<and> l_fence old < lr_fence r'"
  have start: "?P (db s1)"
    using acquire_lease_Inr [OF taken(1)] cur taken(2) by (simp add: update_conv')
  have "?P (db s')" if step: "lease_step s op s'" and keep: "\<forall>h. op \<noteq> Release (l_name old) h"
    and before: "?P (db s)" for s op s'
  proof -
    obtain r' where r': "map_of (leases (db s)) (l_name old) = Some r'" "l_fence old < lr_fence r'"
      using before by blast
    show ?thesis using lease_step_row [OF step r'(1)] keep r' by auto
  qed
  then have "?P (db s2)"
    using lease_trace_preserves [of s1 ops s2 ?P "\<lambda>op. \<forall>h. op \<noteq> Release (l_name old) h"]
      later start by blast
  then show ?thesis
    by (cases "require_current_lease old s2"; cases "fst (require_current_lease old s2)")
      (auto dest!: require_current_lease_Inr)
qed

section \<open>Behaviour of an idle handle\<close>

text \<open>Every branch of acquire when SQLite does not fail.\<close>

definition acquired_lease :: "string \<Rightarrow> string \<Rightarrow> int \<Rightarrow> string \<Rightarrow> string \<Rightarrow> 'a control_scheme
    \<Rightarrow> lease res \<times> 'a control_scheme" where
  "acquired_lease name holder f a e s =
     (if in_int64 f
      then (Inr \<lparr>l_name = name, l_holder = holder, l_fence = f, l_acquired_at = a, l_expires_at = e\<rparr>,
            s\<lparr>db := (db s)\<lparr>leases := AList.update name \<lparr>lr_holder = holder, lr_fence = f,
              lr_acquired_at = a, lr_expires_at = e\<rparr> (leases (db s))\<rparr>\<rparr>)
      else (Inl (State_Error ''MH_STATE_LEASE''), s))"

lemma acquire_lease_quiet:
  assumes "name \<noteq> []" "py_len name \<le> 256" "holder \<noteq> []" "py_len holder \<le> 256"
    "0 < ttl" "ttl \<le> max_ttl_seconds" "stamps now ttl = Inr (a, e)" "quiet s"
  shows "acquire_lease name holder now ttl s =
    (case map_of (leases (db s)) name of
       None \<Rightarrow> acquired_lease name holder 1 a e s
     | Some r \<Rightarrow>
         (if lr_holder r \<noteq> holder \<and> a < lr_expires_at r
          then (Inl (State_Error ''MH_STATE_LEASE_HELD''), s)
          else acquired_lease name holder
            (if lr_holder r = holder then lr_fence r else lr_fence r + 1) a e s))"
proof -
  have q: "\<not> db_closed s" "\<not> in_txn s" "faults s = []" using assms(8) by (simp_all add: quiet_def)
  show ?thesis
    using assms(1-7) stamps_now [OF assms(7)] q assms(8)
    by (simp add: acquire_lease_def andthen_def validate_identifier_def validate_ttl_def check_def
        normalise_def handle_def lift_res_def transaction_quiet acquire_body_def current_lease_def
        select_quiet upsert_lease_def sql_quiet acquired_lease_def ret_def throw_def store_caught_def
        quiet_simps split: option.split)
qed

text \<open>A concrete run at 2025-07-11: \<open>a\<close> holds \<open>job\<close> for a minute, \<open>b\<close> contends.\<close>

definition leased :: "(string \<times> lease_row) list \<Rightarrow> control" where
  "leased rows = (fresh_control [])\<lparr>db := empty_tables\<lparr>leases := rows\<rparr>\<rparr>"

definition day0 :: int where
  "day0 = 63887788800000000"

definition row_a :: lease_row where
  "row_a = \<lparr>lr_holder = ''a'', lr_fence = 1, lr_acquired_at = ''2025-07-11T00:00:00.000Z'',
     lr_expires_at = ''2025-07-11T00:01:00.000Z''\<rparr>"

definition row_b :: lease_row where
  "row_b = \<lparr>lr_holder = ''b'', lr_fence = 2, lr_acquired_at = ''2025-07-11T00:01:00.000Z'',
     lr_expires_at = ''2025-07-11T00:02:00.000Z''\<rparr>"

definition lease_a :: lease where
  "lease_a = \<lparr>l_name = ''job'', l_holder = ''a'', l_fence = 1,
     l_acquired_at = ''2025-07-11T00:00:00.000Z'', l_expires_at = ''2025-07-11T00:01:00.000Z''\<rparr>"

lemma stamps_utc:
  "valid_instant u \<Longrightarrow> valid_instant (u + ttl * 1000000) \<Longrightarrow>
     stamps (utc u) ttl = Inr (stamp_of u, stamp_of (u + ttl * 1000000))"
  by (simp add: stamps_Inr utc_def)

lemma demo_instants:
  "stamp_of 63887788800000000 = ''2025-07-11T00:00:00.000Z''"
  "stamp_of 63887788859999000 = ''2025-07-11T00:00:59.999Z''"
  "stamp_of 63887788860000000 = ''2025-07-11T00:01:00.000Z''"
  "stamp_of 63887788919999000 = ''2025-07-11T00:01:59.999Z''"
  "stamp_of 63887788920000000 = ''2025-07-11T00:02:00.000Z''"
  by (simp_all add: stamp_eval)

lemma demo_stamps:
  "stamps (utc day0) 60 = Inr (''2025-07-11T00:00:00.000Z'', ''2025-07-11T00:01:00.000Z'')"
  "stamps (utc (day0 + 59999000)) 60 = Inr (''2025-07-11T00:00:59.999Z'', ''2025-07-11T00:01:59.999Z'')"
  "stamps (utc (day0 + 60000000)) 60 = Inr (''2025-07-11T00:01:00.000Z'', ''2025-07-11T00:02:00.000Z'')"
  by (simp_all add: day0_def stamps_utc valid_instant_def datetime_limit_def us_per_day_def demo_instants)

lemma demo_len: "py_len ''job'' = 3" "py_len ''a'' = 1" "py_len ''b'' = 1"
  by code_simp+

lemma demo_quiet: "quiet (leased rows)" "leases (db (leased rows)) = rows"
    "(leased rows)\<lparr>db := (db (leased rows))\<lparr>leases := rows'\<rparr>\<rparr> = leased rows'"
  by (simp_all add: leased_def quiet_def fresh_control_def)

lemmas demo_facts = demo_len demo_quiet acquired_lease_def max_ttl_seconds_def in_int64_def
  max_int64_def min_int64_def lease_a_def row_a_def row_b_def

lemma demo_first:
  "acquire_lease ''job'' ''a'' (utc day0) 60 (leased []) = (Inr lease_a, leased [(''job'', row_a)])"
  by (subst acquire_lease_quiet [OF _ _ _ _ _ _ demo_stamps(1)]) (simp_all add: demo_facts)

lemma demo_held:
  "acquire_lease ''job'' ''b'' (utc (day0 + 59999000)) 60 (leased [(''job'', row_a)]) =
     (Inl (State_Error ''MH_STATE_LEASE_HELD''), leased [(''job'', row_a)])"
  by (subst acquire_lease_quiet [OF _ _ _ _ _ _ demo_stamps(2)]) (simp_all add: demo_facts less_char_def)

lemma demo_takeover:
  "acquire_lease ''job'' ''b'' (utc (day0 + 60000000)) 60 (leased [(''job'', row_a)]) =
     (Inr \<lparr>l_name = ''job'', l_holder = ''b'', l_fence = 2, l_acquired_at = lr_acquired_at row_b,
        l_expires_at = lr_expires_at row_b\<rparr>, leased [(''job'', row_b)])"
  by (subst acquire_lease_quiet [OF _ _ _ _ _ _ demo_stamps(3)]) (simp_all add: demo_facts less_char_def)

theorem lease_exclusive_witness:
  "fst (require_current_lease lease_a (leased [(''job'', row_a)])) = Inr ()"
proof (rule lease_exclusive [OF demo_first, where T = day0 and
      ops = "[Acquire ''job'' ''b'' (utc (day0 + 59999000)) 60]"])
  show "lease_trace (leased [(''job'', row_a)]) [Acquire ''job'' ''b'' (utc (day0 + 59999000)) 60]
     (leased [(''job'', row_a)])"
    by (rule lease_trace.more [OF lease_step.acquire [OF demo_held] lease_trace.stop])
  fix op assume "op \<in> set [Acquire ''job'' ''b'' (utc (day0 + 59999000)) 60]"
  then show "op_holder op \<noteq> ''a'' \<and>
      (\<forall>t. op_instant op = Some t \<longrightarrow> t div 1000 < (day0 + 60 * 1000000) div 1000)"
    by (simp add: instant_def utc_def day0_def)
qed (simp_all add: instant_def utc_def leased_def fresh_control_def)

theorem lease_fenced_after_takeover_witness:
  "isl (fst (require_current_lease lease_a (leased [(''job'', row_b)])))"
  by (rule lease_fenced_after_takeover [where r = row_a and ops = "[]" and old = lease_a and
        s = "leased [(''job'', row_a)]", OF _ _ _ _ _ lease_trace.stop])
    (use demo_takeover in \<open>auto simp: lease_a_def row_a_def leased_def\<close>)

text \<open>
  What a release does to the fence: \<^verbatim>\<open>release_lease\<close> deletes the row, so the next acquire starts
  again at fence 1. A lease of \<open>a\<close> that was taken over (and is refused then) is accepted again
  after the new holder releases and \<open>a\<close> acquires once more, although it is not the lease that
  acquire returned.
\<close>

theorem release_resets_fence:
  "let s1 = snd (acquire_lease ''job'' ''a'' (utc day0) 60 (leased []));
       s2 = snd (acquire_lease ''job'' ''b'' (utc (day0 + 60000000)) 60 s1);
       s3 = snd (release_lease ''job'' ''b'' s2);
       (again, s4) = acquire_lease ''job'' ''a'' (utc (day0 + 60000000)) 60 s3
   in fst (acquire_lease ''job'' ''a'' (utc day0) 60 (leased [])) = Inr lease_a
    \<and> fst (require_current_lease lease_a s2) = Inl (State_Error ''MH_STATE_LEASE_LOST'')
    \<and> again \<noteq> Inr lease_a
    \<and> fst (require_current_lease lease_a s4) = Inr ()"
proof -
  have rel: "release_lease ''job'' ''b'' (leased [(''job'', row_b)]) = (Inr True, leased [])"
    by code_simp
  have again: "acquire_lease ''job'' ''a'' (utc (day0 + 60000000)) 60 (leased []) =
      (Inr (lease_a\<lparr>l_acquired_at := lr_acquired_at row_b, l_expires_at := lr_expires_at row_b\<rparr>),
       leased [(''job'', row_a\<lparr>lr_acquired_at := lr_acquired_at row_b, lr_expires_at := lr_expires_at row_b\<rparr>)])"
    by (subst acquire_lease_quiet [OF _ _ _ _ _ _ demo_stamps(3)]) (simp_all add: demo_facts)
  have lost: "fst (require_current_lease lease_a (leased [(''job'', row_b)])) =
      Inl (State_Error ''MH_STATE_LEASE_LOST'')"
    by code_simp
  have accepted: "fst (require_current_lease lease_a (leased [(''job'',
      row_a\<lparr>lr_acquired_at := lr_acquired_at row_b, lr_expires_at := lr_expires_at row_b\<rparr>)])) = Inr ()"
    by code_simp
  show ?thesis
    by (simp add: demo_first demo_takeover rel again lost accepted) (simp add: lease_a_def row_b_def)
qed

end
