(* ===== verification/Cas.thy ===== *)
theory Cas
  imports Control_Db
begin

text \<open>
  The compare-and-set protocol of the control tables, as an interface. A register is advanced from
  the revision the caller observed; the client lemmas say what any mix of concurrent, restarted
  and replayed attempts can produce. The source cursors, the derivation checkpoints and the alert
  state provide it (theories \<open>Cursors\<close>, \<open>Derivation\<close>, \<open>Alert_State\<close>).
\<close>

text \<open>
  An attempt names the register, what to write and the expected revision. Attempts of all
  processes interleave as whole transactions, so any schedule is a list of them.
\<close>

type_synonym ('k, 'i) attempt = "'k \<times> 'i \<times> int"

fun run_attempts ::
  "('k \<Rightarrow> 'i \<Rightarrow> int \<Rightarrow> ('s, 'v) prog) \<Rightarrow> ('k, 'i) attempt list \<Rightarrow> 's \<Rightarrow> 'v res list \<times> 's" where
  "run_attempts adv [] s = ([], s)"
| "run_attempts adv ((k, i, n) # as) s =
     (let (r, s1) = adv k i n s; (rs, s2) = run_attempts adv as s1 in (r # rs, s2))"

text \<open>The attempts on register \<open>k\<close> that succeeded, and those that did so from revision \<open>n\<close>.\<close>

definition wins :: "'k \<Rightarrow> ('k, 'i) attempt list \<Rightarrow> 'v res list \<Rightarrow> nat" where
  "wins k as rs = length (filter (\<lambda>((k', _, _), r). k' = k \<and> \<not> isl r) (zip as rs))"

definition wins_from :: "'k \<Rightarrow> int \<Rightarrow> ('k, 'i) attempt list \<Rightarrow> 'v res list \<Rightarrow> nat" where
  "wins_from k n as rs = length (filter (\<lambda>((k', _, n'), r). k' = k \<and> n' = n \<and> \<not> isl r) (zip as rs))"

lemma run_attempts_length: "run_attempts adv as s = (rs, s') \<Longrightarrow> length rs = length as"
  by (induction as arbitrary: s rs s') (auto split: prod.splits)

locale cas_register =
  fixes current :: "'k \<Rightarrow> tables \<Rightarrow> int"
    and advance :: "'k \<Rightarrow> 'i \<Rightarrow> int \<Rightarrow> ('a control_scheme, 'v) prog"
    and revision :: "'v \<Rightarrow> int"
  assumes advance_Inr: "advance k i n s = (Inr v, s') \<Longrightarrow>
      current k (db s) = n \<and> revision v = n + 1 \<and> current k (db s') = n + 1 \<and>
      (\<forall>k'. k' \<noteq> k \<longrightarrow> current k' (db s') = current k' (db s))"
    and advance_Inl: "advance k i n s = (Inl e, s') \<Longrightarrow> db s' = db s"
begin

lemma advance_step:
  "advance k i n s = (r, s') \<Longrightarrow>
     current k' (db s') = current k' (db s) + of_bool (k' = k \<and> \<not> isl r)"
  by (cases r) (auto dest: advance_Inr advance_Inl)

text \<open>The revision counts the successful advances: none is lost and none is applied twice.\<close>

lemma revision_counts:
  "run_attempts advance as s = (rs, s') \<Longrightarrow>
     current k (db s') = current k (db s) + int (wins k as rs)"
proof (induction as arbitrary: s rs)
  case Nil
  then show ?case by (simp add: wins_def)
next
  case (Cons a as)
  obtain k0 i n where a: "a = (k0, i, n)" by (cases a) auto
  obtain r s1 where r: "advance k0 i n s = (r, s1)" by fastforce
  obtain rs1 where rs: "run_attempts advance as s1 = (rs1, s')" "rs = r # rs1"
    using Cons.prems by (auto simp: a r split: prod.splits)
  show ?case
    using Cons.IH [OF rs(1)] advance_step [OF r, of k] by (auto simp: a rs wins_def)
qed

lemma revision_monotone:
  "run_attempts advance as s = (rs, s') \<Longrightarrow> current k (db s) \<le> current k (db s')"
  by (simp add: revision_counts)

text \<open>Once the revision is past \<open>n\<close>, nobody advances from \<open>n\<close> again.\<close>

lemma no_win_from_past:
  "run_attempts advance as s = (rs, s') \<Longrightarrow> n < current k (db s) \<Longrightarrow> wins_from k n as rs = 0"
proof (induction as arbitrary: s rs)
  case Nil
  then show ?case by (simp add: wins_from_def)
next
  case (Cons a as)
  obtain k0 i m where a: "a = (k0, i, m)" by (cases a) auto
  obtain r s1 where r: "advance k0 i m s = (r, s1)" by fastforce
  obtain rs1 where rs: "run_attempts advance as s1 = (rs1, s')" "rs = r # rs1"
    using Cons.prems(1) by (auto simp: a r split: prod.splits)
  have "n < current k (db s1)" using Cons.prems(2) advance_step [OF r, of k] by (auto simp: of_bool_def split: if_splits)
  then have "wins_from k n as rs1 = 0" by (rule Cons.IH [OF rs(1)])
  moreover have "\<not> (k0 = k \<and> m = n \<and> \<not> isl r)"
    using r Cons.prems(2) by (cases r) (auto dest: advance_Inr)
  ultimately show ?case by (auto simp: a rs wins_from_def)
qed

text \<open>Of all the workers that saw revision \<open>n\<close>, at most one advances.\<close>

lemma single_winner: "run_attempts advance as s = (rs, s') \<Longrightarrow> wins_from k n as rs \<le> 1"
proof (induction as arbitrary: s rs)
  case Nil
  then show ?case by (simp add: wins_from_def)
next
  case (Cons a as)
  obtain k0 i m where a: "a = (k0, i, m)" by (cases a) auto
  obtain r s1 where r: "advance k0 i m s = (r, s1)" by fastforce
  obtain rs1 where rs: "run_attempts advance as s1 = (rs1, s')" "rs = r # rs1"
    using Cons.prems by (auto simp: a r split: prod.splits)
  show ?case
  proof (cases "k0 = k \<and> m = n \<and> \<not> isl r")
    case True
    then obtain v where "advance k i n s = (Inr v, s1)" using r by (cases r) auto
    then have "n < current k (db s1)" using advance_Inr by fastforce
    then show ?thesis using no_win_from_past [OF rs(1)] True by (simp add: a rs wins_from_def)
  next
    case False
    then show ?thesis using Cons.IH [OF rs(1)] by (auto simp: a rs wins_from_def)
  qed
qed

text \<open>A restarted worker that repeats an advance it already made is refused and changes nothing.\<close>

lemma replay_refused:
  assumes "advance k i n s = (Inr v, s1)" "run_attempts advance as s1 = (rs, s2)"
    and "advance k i' n s2 = (r, s3)"
  shows "isl r \<and> db s3 = db s2"
proof (cases r)
  case (Inl e)
  then show ?thesis using assms(3) advance_Inl by simp
next
  case (Inr w)
  then have "current k (db s2) = n" using assms(3) advance_Inr by blast
  moreover have "n + 1 \<le> current k (db s2)"
    using revision_monotone [OF assms(2), of k] advance_Inr [OF assms(1)] by simp
  ultimately show ?thesis by simp
qed

end

end
