(* ===== verification/Cursors.thy ===== *)
theory Cursors
  imports Cas
begin

text \<open>
  \<^verbatim>\<open>src/milhouse/state/cursors.py\<close>: source cursors. An advance is one transaction that asserts
  the referenced segment is committed and that the stored revision is the one the caller saw.
  The interpretation of \<open>cas_register\<close> gives the concurrency guarantees; the properties add the
  link to the segment ledger.
\<close>

record source_cursor =
  sc_source :: string
  sc_position :: string
  sc_batch :: "string option"
  sc_revision :: int
  sc_updated_at :: string

text \<open>The arguments of one advance besides the source and the expected revision.\<close>

record cursor_input =
  ci_position :: string
  ci_batch :: string
  ci_now :: py_datetime

definition cursor_of_row :: "string \<Rightarrow> cursor_row \<Rightarrow> source_cursor" where
  "cursor_of_row source r = \<lparr>sc_source = source, sc_position = cr_position r, sc_batch = cr_batch r,
     sc_revision = cr_revision r, sc_updated_at = cr_updated_at r\<rparr>"

definition read_cursor :: "string \<Rightarrow> ('a control_scheme, source_cursor option) prog" where
  "read_cursor source =
     andthen (validate_identifier source ''MH_STATE_CURSOR_SOURCE'') (\<lambda>_.
     andthen (normalise sqlite_caught (State_Error ''MH_STATE_CURSOR'')
       (andthen db_connection (\<lambda>_. select [] (\<lambda>t. map_of (cursors t) source)))) (\<lambda>row.
     ret (map_option (cursor_of_row source) row)))"

definition segment_committed :: "string \<Rightarrow> tables \<Rightarrow> bool" where
  "segment_committed b t \<longleftrightarrow> b \<in> set (map sg_batch (segments t))"

definition cursor_revision :: "string \<Rightarrow> tables \<Rightarrow> int" where
  "cursor_revision source t = (case map_of (cursors t) source of None \<Rightarrow> 0 | Some r \<Rightarrow> cr_revision r)"

text \<open>The upsert, with the row's \<^verbatim>\<open>CHECK\<close>s and its foreign key to \<^verbatim>\<open>_segments\<close>.\<close>

definition upsert_cursor :: "string \<Rightarrow> cursor_row \<Rightarrow> ('a control_scheme, unit) prog" where
  "upsert_cursor source r = sql [cr_revision r] (\<lambda>t.
     if cursor_check source r \<and> (case cr_batch r of None \<Rightarrow> True | Some b \<Rightarrow> segment_committed b t)
     then Some ((), t\<lparr>cursors := AList.update source r (cursors t)\<rparr>) else None)"

definition advance_cursor_body ::
  "string \<Rightarrow> string \<Rightarrow> string \<Rightarrow> string \<Rightarrow> int \<Rightarrow> ('a control_scheme, int) prog" where
  "advance_cursor_body source position batch updated_at expected =
     andthen (select [] (segment_committed batch)) (\<lambda>present.
     andthen (check present (State_Error ''MH_STATE_CURSOR_SEGMENT'')) (\<lambda>_.
     andthen (select [] (cursor_revision source)) (\<lambda>current.
     andthen (check (current = expected) (State_Error ''MH_STATE_CURSOR_CONFLICT'')) (\<lambda>_.
     andthen (upsert_cursor source \<lparr>cr_position = position, cr_batch = Some batch,
        cr_revision = current + 1, cr_updated_at = updated_at\<rparr>) (\<lambda>_.
     ret (current + 1))))))"

definition advance_cursor ::
  "string \<Rightarrow> cursor_input \<Rightarrow> int \<Rightarrow> ('a control_scheme, source_cursor) prog" where
  "advance_cursor source i expected =
     andthen (validate_identifier source ''MH_STATE_CURSOR_SOURCE'') (\<lambda>_.
     andthen (validate_identifier (ci_position i) ''MH_STATE_CURSOR_POSITION'') (\<lambda>_.
     andthen (validate_identifier (ci_batch i) ''MH_STATE_CURSOR_SEGMENT'') (\<lambda>_.
     andthen (validate_count expected ''MH_STATE_CURSOR_REVISION'') (\<lambda>_.
     normalise store_caught (State_Error ''MH_STATE_CURSOR'')
       (andthen (lift_res (format_timestamp (ci_now i))) (\<lambda>updated_at.
        andthen (transaction (advance_cursor_body source (ci_position i) (ci_batch i) updated_at
            expected)) (\<lambda>revision.
        ret \<lparr>sc_source = source, sc_position = ci_position i, sc_batch = Some (ci_batch i),
             sc_revision = revision, sc_updated_at = updated_at\<rparr>)))))))"

section \<open>What an advance does\<close>

lemma advance_cursor_body_Inr:
  "advance_cursor_body source p b u n s = (Inr v, s') \<Longrightarrow>
     segment_committed b (db s) \<and> cursor_revision source (db s) = n \<and> v = n + 1 \<and>
     0 < sql_length source \<and> 0 < sql_length p \<and> 1 \<le> n + 1 \<and>
     db s' = (db s)\<lparr>cursors := AList.update source \<lparr>cr_position = p, cr_batch = Some b,
        cr_revision = n + 1, cr_updated_at = u\<rparr> (cursors (db s))\<rparr>"
  by (auto simp: advance_cursor_body_def andthen_Inr select_Inr check_def upsert_cursor_def sql_Inr
      ret_def cursor_check_def split: if_splits)

lemma advance_cursor_Inr:
  "advance_cursor source i n s = (Inr v, s') \<Longrightarrow>
     segment_committed (ci_batch i) (db s) \<and> cursor_revision source (db s) = n \<and> 0 \<le> n \<and>
     0 < sql_length source \<and> 0 < sql_length (ci_position i) \<and>
     format_timestamp (ci_now i) = Inr (sc_updated_at v) \<and>
     v = \<lparr>sc_source = source, sc_position = ci_position i, sc_batch = Some (ci_batch i),
          sc_revision = n + 1, sc_updated_at = sc_updated_at v\<rparr> \<and>
     db s' = (db s)\<lparr>cursors := AList.update source \<lparr>cr_position = ci_position i,
        cr_batch = Some (ci_batch i), cr_revision = n + 1, cr_updated_at = sc_updated_at v\<rparr>
        (cursors (db s))\<rparr>"
  by (auto simp: advance_cursor_def andthen_Inr normalise_Inr lift_res_def validate_Inr ret_def
      transaction_Inr dest!: advance_cursor_body_Inr)

lemma advance_cursor_Inl: "advance_cursor source i n s = (Inl e, s') \<Longrightarrow> db s' = db s"
  unfolding advance_cursor_def
  by (auto simp: andthen_Inl dest!: validate_state stamped_txn_db)

interpretation cursor_cas: cas_register cursor_revision advance_cursor sc_revision
proof
  fix source i n v and s s' :: "'a control_scheme"
  assume "advance_cursor source i n s = (Inr v, s')"
  from advance_cursor_Inr [OF this]
  show "cursor_revision source (db s) = n \<and> sc_revision v = n + 1 \<and>
      cursor_revision source (db s') = n + 1 \<and>
      (\<forall>k'. k' \<noteq> source \<longrightarrow> cursor_revision k' (db s') = cursor_revision k' (db s))"
    by (cases v) (auto simp: cursor_revision_def update_conv')
qed (rule advance_cursor_Inl)

section \<open>Properties\<close>

text \<open>C23
  Concurrent and replayed advances of one source: however the workers' advances interleave, the
  stored revision has gone up by exactly the number of advances that succeeded, and of those that
  expected the same revision at most one did.
\<close>

theorem cursor_advances_serialise:
  "let (rs, s') = run_attempts advance_cursor as s
   in cursor_revision source (db s') = cursor_revision source (db s) + int (wins source as rs) \<and>
      wins_from source n as rs \<le> 1"
proof -
  obtain rs s' where run: "run_attempts advance_cursor as s = (rs, s')" by fastforce
  show ?thesis
    using cursor_cas.revision_counts [OF run] cursor_cas.single_winner [OF run] by (simp add: run)
qed

text \<open>
  An advance commits only against a segment that is in the ledger, and what it stored is what the
  next read returns; a refused advance leaves every table as it was.
\<close>

theorem cursor_read_after_advance:
  assumes "advance_cursor source i n s = (r, s')" "\<not> db_closed s'" "next_ok s'"
  shows "case r of
      Inr v \<Rightarrow> segment_committed (ci_batch i) (db s') \<and> fst (read_cursor source s') = Inr (Some v)
    | Inl _ \<Rightarrow> db s' = db s"
proof (cases r)
  case (Inl e)
  then show ?thesis using assms(1) by (simp add: advance_cursor_Inl)
next
  case (Inr v)
  then have step: "advance_cursor source i n s = (Inr v, s')" using assms(1) by simp
  have ident: "source \<noteq> [] \<and> py_len source \<le> 256"
    using step by (auto simp: advance_cursor_def andthen_Inr validate_Inr)
  from advance_cursor_Inr [OF step] ident show ?thesis
    using assms(2,3)
    by (cases v) (auto simp: Inr read_cursor_def andthen_def validate_identifier_def check_def
        normalise_def handle_def db_connection_def select_def sql_cases cursor_of_row_def ret_def
        update_conv' segment_committed_def)
qed

section \<open>A concrete advance\<close>

definition demo_control :: control where
  "demo_control = (fresh_control [])\<lparr>db := empty_tables\<lparr>segments := [demo_segment]\<rparr>\<rparr>"

lemma advance_cursor_quiet:
  assumes "source \<noteq> []" "py_len source \<le> 256" "ci_position i \<noteq> []" "py_len (ci_position i) \<le> 256"
    "ci_batch i \<noteq> []" "py_len (ci_batch i) \<le> 256" "0 \<le> n" "format_timestamp (ci_now i) = Inr u"
    "quiet s" "cursor_revision source (db s) = n" "segment_committed (ci_batch i) (db s)"
    "in_int64 (n + 1)" "0 < sql_length source" "0 < sql_length (ci_position i)"
  shows "\<exists>v s'. advance_cursor source i n s = (Inr v, s') \<and> quiet s'"
proof -
  have q: "\<not> db_closed s" "\<not> in_txn s" "faults s = []" using assms(9) by (simp_all add: quiet_def)
  have "cursor_check source \<lparr>cr_position = ci_position i, cr_batch = Some (ci_batch i),
      cr_revision = n + 1, cr_updated_at = u\<rparr>"
    using assms by (simp add: cursor_check_def)
  then show ?thesis
    using assms q
    by (simp add: advance_cursor_def andthen_def validate_identifier_def validate_count_def check_def
        normalise_def handle_def lift_res_def transaction_quiet advance_cursor_body_def select_quiet
        upsert_cursor_def sql_quiet ret_def)
      (simp add: quiet_def)
qed

theorem cursor_read_after_advance_witness:
  "\<exists>v s'. advance_cursor ''src'' \<lparr>ci_position = ''p'', ci_batch = ''b1'', ci_now = utc 0\<rparr> 0 demo_control = (Inr v, s')
     \<and> fst (read_cursor ''src'' s') = Inr (Some v)"
proof -
  let ?i = "\<lparr>ci_position = ''p'', ci_batch = ''b1'', ci_now = utc 0\<rparr>"
  have "format_timestamp (utc 0) = Inr (stamp_of 0)"
    by (simp add: format_timestamp_utc valid_instant_def datetime_limit_def us_per_day_def)
  then obtain v s' where step: "advance_cursor ''src'' ?i 0 demo_control = (Inr v, s')" "quiet s'"
    using advance_cursor_quiet [of "''src''" ?i 0 "stamp_of 0" demo_control]
    by (auto simp: demo_control_def py_len_def is_continuation_def sql_length_def cursor_revision_def
        fresh_control_def empty_tables_def in_int64_def min_int64_def max_int64_def quiet_def
        segment_committed_def demo_segment_def)
  have "\<not> db_closed s'" "next_ok s'" using step(2) by (simp_all add: quiet_def)
  from cursor_read_after_advance [OF step(1) this] step(1) show ?thesis by auto
qed

end
