(* ===== verification/Derivation.thy ===== *)
theory Derivation
  imports Cas
begin

text \<open>
  \<^verbatim>\<open>src/milhouse/state/derivation.py\<close>: derivation checkpoints, one per rule and rule version,
  advanced by compare-and-set. They have no segment reference; the interpretation of
  \<open>cas_register\<close> carries their guarantees.
\<close>

record derivation_checkpoint =
  dc_rule :: string
  dc_rule_version :: int
  dc_position :: string
  dc_revision :: int
  dc_updated_at :: string

record checkpoint_input =
  ki_position :: string
  ki_now :: py_datetime

definition checkpoint_of_row :: "string \<times> int \<Rightarrow> checkpoint_row \<Rightarrow> derivation_checkpoint" where
  "checkpoint_of_row k r = \<lparr>dc_rule = fst k, dc_rule_version = snd k, dc_position = kr_position r,
     dc_revision = kr_revision r, dc_updated_at = kr_updated_at r\<rparr>"

definition read_checkpoint ::
  "string \<times> int \<Rightarrow> ('a control_scheme, derivation_checkpoint option) prog" where
  "read_checkpoint k =
     andthen (validate_identifier (fst k) ''MH_STATE_DERIVATION_RULE'') (\<lambda>_.
     andthen (validate_positive (snd k) ''MH_STATE_DERIVATION_VERSION'') (\<lambda>_.
     andthen (normalise sqlite_caught (State_Error ''MH_STATE_DERIVATION'')
       (andthen db_connection (\<lambda>_. select [snd k] (\<lambda>t. map_of (checkpoints t) k)))) (\<lambda>row.
     ret (map_option (checkpoint_of_row k) row))))"

definition checkpoint_revision :: "string \<times> int \<Rightarrow> tables \<Rightarrow> int" where
  "checkpoint_revision k t = (case map_of (checkpoints t) k of None \<Rightarrow> 0 | Some r \<Rightarrow> kr_revision r)"

definition upsert_checkpoint :: "string \<times> int \<Rightarrow> checkpoint_row \<Rightarrow> ('a control_scheme, unit) prog" where
  "upsert_checkpoint k r = sql [snd k, kr_revision r] (\<lambda>t.
     if checkpoint_check k r then Some ((), t\<lparr>checkpoints := AList.update k r (checkpoints t)\<rparr>)
     else None)"

definition advance_checkpoint_body ::
  "string \<times> int \<Rightarrow> string \<Rightarrow> string \<Rightarrow> int \<Rightarrow> ('a control_scheme, int) prog" where
  "advance_checkpoint_body k position updated_at expected =
     andthen (select [snd k] (checkpoint_revision k)) (\<lambda>current.
     andthen (check (current = expected) (State_Error ''MH_STATE_DERIVATION_CONFLICT'')) (\<lambda>_.
     andthen (upsert_checkpoint k \<lparr>kr_position = position, kr_revision = current + 1,
        kr_updated_at = updated_at\<rparr>) (\<lambda>_.
     ret (current + 1))))"

definition advance_checkpoint ::
  "string \<times> int \<Rightarrow> checkpoint_input \<Rightarrow> int \<Rightarrow> ('a control_scheme, derivation_checkpoint) prog" where
  "advance_checkpoint k i expected =
     andthen (validate_identifier (fst k) ''MH_STATE_DERIVATION_RULE'') (\<lambda>_.
     andthen (validate_positive (snd k) ''MH_STATE_DERIVATION_VERSION'') (\<lambda>_.
     andthen (validate_identifier (ki_position i) ''MH_STATE_DERIVATION_POSITION'') (\<lambda>_.
     andthen (validate_count expected ''MH_STATE_DERIVATION_REVISION'') (\<lambda>_.
     normalise store_caught (State_Error ''MH_STATE_DERIVATION'')
       (andthen (lift_res (format_timestamp (ki_now i))) (\<lambda>updated_at.
        andthen (transaction (advance_checkpoint_body k (ki_position i) updated_at expected)) (\<lambda>revision.
        ret \<lparr>dc_rule = fst k, dc_rule_version = snd k, dc_position = ki_position i,
             dc_revision = revision, dc_updated_at = updated_at\<rparr>)))))))"

lemma advance_checkpoint_body_Inr:
  "advance_checkpoint_body k p u n s = (Inr v, s') \<Longrightarrow>
     checkpoint_revision k (db s) = n \<and> v = n + 1 \<and>
     db s' = (db s)\<lparr>checkpoints := AList.update k \<lparr>kr_position = p, kr_revision = n + 1,
        kr_updated_at = u\<rparr> (checkpoints (db s))\<rparr>"
  by (auto simp: advance_checkpoint_body_def andthen_Inr select_Inr check_def upsert_checkpoint_def
      sql_Inr ret_def split: if_splits)

lemma advance_checkpoint_Inr:
  "advance_checkpoint k i n s = (Inr v, s') \<Longrightarrow>
     checkpoint_revision k (db s) = n \<and> dc_revision v = n + 1 \<and>
     db s' = (db s)\<lparr>checkpoints := AList.update k \<lparr>kr_position = ki_position i, kr_revision = n + 1,
        kr_updated_at = dc_updated_at v\<rparr> (checkpoints (db s))\<rparr>"
  by (auto simp: advance_checkpoint_def andthen_Inr normalise_Inr lift_res_def validate_Inr ret_def
      transaction_Inr dest!: advance_checkpoint_body_Inr)

lemma advance_checkpoint_Inl: "advance_checkpoint k i n s = (Inl e, s') \<Longrightarrow> db s' = db s"
  unfolding advance_checkpoint_def
  by (auto simp: andthen_Inl dest!: validate_state stamped_txn_db)

interpretation checkpoint_cas: cas_register checkpoint_revision advance_checkpoint dc_revision
proof
  fix k i n v and s s' :: "'a control_scheme"
  assume "advance_checkpoint k i n s = (Inr v, s')"
  from advance_checkpoint_Inr [OF this]
  show "checkpoint_revision k (db s) = n \<and> dc_revision v = n + 1 \<and>
      checkpoint_revision k (db s') = n + 1 \<and>
      (\<forall>k'. k' \<noteq> k \<longrightarrow> checkpoint_revision k' (db s') = checkpoint_revision k' (db s))"
    by (auto simp: checkpoint_revision_def update_conv')
qed (rule advance_checkpoint_Inl)

text \<open>
  Derivation is restartable: after a rule has advanced its checkpoint from revision \<open>n\<close>, a restarted
  or concurrent pass that repeats the advance from \<open>n\<close>, however late and whatever happened in
  between, is refused and changes no table.
\<close>

theorem checkpoint_replay_refused:
  assumes "advance_checkpoint k i n s = (Inr v, s1)"
    and "run_attempts advance_checkpoint as s1 = (rs, s2)"
    and "advance_checkpoint k i' n s2 = (r, s3)"
  shows "isl r \<and> db s3 = db s2"
  by (rule checkpoint_cas.replay_refused [OF assms])

text \<open>
  A read normalises SQLite failures but not a rule version beyond 64 bits: \<^verbatim>\<open>read_checkpoint\<close> lets
  the driver's \<^verbatim>\<open>OverflowError\<close> escape, where \<^verbatim>\<open>advance_checkpoint\<close> answers with a stable code.
\<close>

theorem checkpoint_read_overflow:
  assumes "rule \<noteq> []" "py_len rule \<le> 256" "max_int64 < version" "\<not> db_closed s"
  shows "fst (read_checkpoint (rule, version) s) = Inl Overflow_Error"
  using assms
  by (simp add: read_checkpoint_def andthen_def validate_identifier_def validate_positive_def
      check_def normalise_def handle_def sqlite_caught_def db_connection_def select_def sql_cases
      in_int64_def max_int64_def)

theorem checkpoint_read_overflow_witness:
  "fst (read_checkpoint (''r'', 9223372036854775808) (fresh_control [])) = Inl Overflow_Error"
  by (rule checkpoint_read_overflow) (simp_all add: py_len_def is_continuation_def max_int64_def fresh_control_def)

definition demo_now :: py_datetime where
  "demo_now = utc 63887788800000000"

lemma demo_now_stamp: "format_timestamp demo_now = Inr (stamp_of 63887788800000000)"
  by (simp add: demo_now_def format_timestamp_utc valid_instant_def datetime_limit_def us_per_day_def)

text \<open>An advance on an idle handle succeeds when the revision matches and the row is valid.\<close>

lemma advance_checkpoint_quiet:
  assumes "fst k \<noteq> []" "py_len (fst k) \<le> 256" "1 \<le> snd k" "ki_position i \<noteq> []"
    "py_len (ki_position i) \<le> 256" "0 \<le> n" "format_timestamp (ki_now i) = Inr u" "quiet s"
    "checkpoint_revision k (db s) = n" "in_int64 (snd k)" "in_int64 (n + 1)" "0 < sql_length (fst k)"
  shows "\<exists>v s'. advance_checkpoint k i n s = (Inr v, s') \<and> quiet s'"
proof -
  have q: "\<not> db_closed s" "\<not> in_txn s" "faults s = []" using assms(8) by (simp_all add: quiet_def)
  have "checkpoint_check k \<lparr>kr_position = ki_position i, kr_revision = n + 1, kr_updated_at = u\<rparr>"
    using assms by (simp add: checkpoint_check_def)
  then show ?thesis
    using assms q
    by (simp add: advance_checkpoint_def andthen_def validate_identifier_def validate_positive_def
        validate_count_def check_def normalise_def handle_def lift_res_def transaction_quiet
        advance_checkpoint_body_def select_quiet upsert_checkpoint_def sql_quiet ret_def)
      (simp add: quiet_def)
qed

theorem checkpoint_replay_refused_witness:
  "\<exists>v s1 r s3. advance_checkpoint (''r'', 1) \<lparr>ki_position = ''p'', ki_now = demo_now\<rparr> 0 (fresh_control []) = (Inr v, s1)
     \<and> advance_checkpoint (''r'', 1) \<lparr>ki_position = ''p'', ki_now = demo_now\<rparr> 0 s1 = (r, s3) \<and> isl r"
proof -
  let ?i = "\<lparr>ki_position = ''p'', ki_now = demo_now\<rparr>"
  obtain v s1 where first: "advance_checkpoint (''r'', 1) ?i 0 (fresh_control []) = (Inr v, s1)"
    using advance_checkpoint_quiet [of "(''r'', 1)" ?i 0 _ "fresh_control []"] quiet_fresh demo_now_stamp
    by (auto simp: py_len_def is_continuation_def sql_length_def checkpoint_revision_def
        fresh_control_def empty_tables_def in_int64_def min_int64_def max_int64_def)
  obtain r s3 where again: "advance_checkpoint (''r'', 1) ?i 0 s1 = (r, s3)" by fastforce
  have "isl r \<and> db s3 = db s1"
    by (rule checkpoint_replay_refused [OF first _ again, of "[]"]) simp
  then show ?thesis using first again by blast
qed

end
