(* ===== verification/Alert_State.thy ===== *)
theory Alert_State
  imports Cas
begin

text \<open>
  \<^verbatim>\<open>src/milhouse/state/alert_state.py\<close>: the row of one alert rule and version, advanced by the
  same compare-and-set protocol as the derivation checkpoints, one revision per sample.
\<close>

record alert_rule_state =
  as_rule_id :: string
  as_rule_version :: int
  as_fail_count :: int
  as_success_count :: int
  as_state :: string
  as_cooldown_until :: "string option"
  as_last_sample_at :: "string option"
  as_last_transition :: "string option"
  as_revision :: int
  as_updated_at :: string

record alert_input =
  ai_fail_count :: int
  ai_success_count :: int
  ai_state :: string
  ai_cooldown_until :: "string option"
  ai_last_sample_at :: "string option"
  ai_last_transition :: "string option"
  ai_now :: py_datetime

definition alert_states :: "string list" where
  "alert_states = [''inactive'', ''firing'', ''resolved'']"

definition alert_of_row :: "string \<times> int \<Rightarrow> alert_row \<Rightarrow> alert_rule_state" where
  "alert_of_row k r = \<lparr>as_rule_id = fst k, as_rule_version = snd k, as_fail_count = al_fail_count r,
     as_success_count = al_success_count r, as_state = al_state r,
     as_cooldown_until = al_cooldown_until r, as_last_sample_at = al_last_sample_at r,
     as_last_transition = al_last_transition r, as_revision = al_revision r,
     as_updated_at = al_updated_at r\<rparr>"

definition row_of_input :: "alert_input \<Rightarrow> int \<Rightarrow> string \<Rightarrow> alert_row" where
  "row_of_input i revision updated_at = \<lparr>al_fail_count = ai_fail_count i,
     al_success_count = ai_success_count i, al_state = ai_state i,
     al_cooldown_until = ai_cooldown_until i, al_last_sample_at = ai_last_sample_at i,
     al_last_transition = ai_last_transition i, al_revision = revision, al_updated_at = updated_at\<rparr>"

definition read_alert_state :: "string \<times> int \<Rightarrow> ('a control_scheme, alert_rule_state option) prog" where
  "read_alert_state k =
     andthen (validate_identifier (fst k) ''MH_STATE_ALERT_RULE'') (\<lambda>_.
     andthen (validate_positive (snd k) ''MH_STATE_ALERT_VERSION'') (\<lambda>_.
     andthen (normalise sqlite_caught (State_Error ''MH_STATE_ALERT'')
       (andthen db_connection (\<lambda>_. select [snd k] (\<lambda>t. map_of (alerts t) k)))) (\<lambda>row.
     ret (map_option (alert_of_row k) row))))"

definition alert_revision :: "string \<times> int \<Rightarrow> tables \<Rightarrow> int" where
  "alert_revision k t = (case map_of (alerts t) k of None \<Rightarrow> 0 | Some r \<Rightarrow> al_revision r)"

definition upsert_alert :: "string \<times> int \<Rightarrow> alert_row \<Rightarrow> ('a control_scheme, unit) prog" where
  "upsert_alert k r = sql [snd k, al_fail_count r, al_success_count r, al_revision r] (\<lambda>t.
     if alert_check k r then Some ((), t\<lparr>alerts := AList.update k r (alerts t)\<rparr>) else None)"

definition advance_alert_body ::
  "string \<times> int \<Rightarrow> alert_input \<Rightarrow> string \<Rightarrow> int \<Rightarrow> ('a control_scheme, int) prog" where
  "advance_alert_body k i updated_at expected =
     andthen (select [snd k] (alert_revision k)) (\<lambda>current.
     andthen (check (current = expected) (State_Error ''MH_STATE_ALERT_CONFLICT'')) (\<lambda>_.
     andthen (upsert_alert k (row_of_input i (current + 1) updated_at)) (\<lambda>_.
     ret (current + 1))))"

definition validate_alert_input :: "string \<times> int \<Rightarrow> alert_input \<Rightarrow> int \<Rightarrow> ('s, unit) prog" where
  "validate_alert_input k i expected =
     andthen (validate_identifier (fst k) ''MH_STATE_ALERT_RULE'') (\<lambda>_.
     andthen (validate_positive (snd k) ''MH_STATE_ALERT_VERSION'') (\<lambda>_.
     andthen (validate_count (ai_fail_count i) ''MH_STATE_ALERT_COUNT'') (\<lambda>_.
     andthen (validate_count (ai_success_count i) ''MH_STATE_ALERT_COUNT'') (\<lambda>_.
     andthen (check (ai_state i \<in> set alert_states) (State_Error ''MH_STATE_ALERT_STATE'')) (\<lambda>_.
     andthen (validate_optional_text (ai_cooldown_until i) ''MH_STATE_ALERT_TIMESTAMP'') (\<lambda>_.
     andthen (validate_optional_text (ai_last_sample_at i) ''MH_STATE_ALERT_TIMESTAMP'') (\<lambda>_.
     andthen (validate_optional_text (ai_last_transition i) ''MH_STATE_ALERT_TRANSITION'') (\<lambda>_.
     validate_count expected ''MH_STATE_ALERT_REVISION''))))))))"

definition advance_alert_state ::
  "string \<times> int \<Rightarrow> alert_input \<Rightarrow> int \<Rightarrow> ('a control_scheme, alert_rule_state) prog" where
  "advance_alert_state k i expected =
     andthen (validate_alert_input k i expected) (\<lambda>_.
     normalise store_caught (State_Error ''MH_STATE_ALERT'')
       (andthen (lift_res (format_timestamp (ai_now i))) (\<lambda>updated_at.
        andthen (transaction (advance_alert_body k i updated_at expected)) (\<lambda>revision.
        ret (alert_of_row k (row_of_input i revision updated_at))))))"

lemma validate_alert_input_state: "validate_alert_input k i n s = (r, s') \<Longrightarrow> s' = s"
  by (cases r) (auto simp: validate_alert_input_def andthen_Inr andthen_Inl check_def
      split: if_splits dest!: validate_state)

lemma advance_alert_body_Inr:
  "advance_alert_body k i u n s = (Inr v, s') \<Longrightarrow>
     alert_revision k (db s) = n \<and> v = n + 1 \<and> alert_check k (row_of_input i (n + 1) u) \<and>
     db s' = (db s)\<lparr>alerts := AList.update k (row_of_input i (n + 1) u) (alerts (db s))\<rparr>"
  by (auto simp: advance_alert_body_def andthen_Inr select_Inr check_def upsert_alert_def
      sql_Inr ret_def split: if_splits)

lemma advance_alert_state_Inr:
  assumes "advance_alert_state k i n s = (Inr v, s')"
  shows "alert_revision k (db s) = n \<and>
     (\<exists>u. format_timestamp (ai_now i) = Inr u \<and> v = alert_of_row k (row_of_input i (n + 1) u) \<and>
        alert_check k (row_of_input i (n + 1) u) \<and>
        db s' = (db s)\<lparr>alerts := AList.update k (row_of_input i (n + 1) u) (alerts (db s))\<rparr>)"
proof -
  from assms have "validate_alert_input k i n s = (Inr (), s)"
    by (auto simp: advance_alert_state_def andthen_Inr dest: validate_alert_input_state)
  with assms show ?thesis
    by (auto simp: advance_alert_state_def andthen_Inr normalise_Inr lift_res_def ret_def
        transaction_Inr dest!: advance_alert_body_Inr)
qed

lemma advance_alert_state_Inl: "advance_alert_state k i n s = (Inl e, s') \<Longrightarrow> db s' = db s"
  unfolding advance_alert_state_def
  by (auto simp: andthen_Inl dest!: validate_alert_input_state stamped_txn_db)

lemma alert_of_row_revision [simp]: "as_revision (alert_of_row k r) = al_revision r"
  by (simp add: alert_of_row_def)

interpretation alert_cas: cas_register alert_revision advance_alert_state as_revision
proof
  fix k i n v and s s' :: "'a control_scheme"
  assume "advance_alert_state k i n s = (Inr v, s')"
  from advance_alert_state_Inr [OF this]
  show "alert_revision k (db s) = n \<and> as_revision v = n + 1 \<and>
      alert_revision k (db s') = n + 1 \<and>
      (\<forall>k'. k' \<noteq> k \<longrightarrow> alert_revision k' (db s') = alert_revision k' (db s))"
    by (auto simp: alert_revision_def update_conv' row_of_input_def)
qed (rule advance_alert_state_Inl)

end
