(* ===== verification/Canonical.thy ===== *)
theory Canonical
  imports Clock "HOL-Library.Multiset"
begin

text \<open>
  \<^verbatim>\<open>src/milhouse/core/canonical.py\<close>: the canonical JSON encoder behind every hash and every
  durable projection. Values are what the encoder distinguishes by exact type; a float is what the
  code reads of it (\<^verbatim>\<open>isfinite\<close>, \<^verbatim>\<open>is_integer\<close>, the digits and exponent of its \<^verbatim>\<open>repr\<close>), and
  Unicode NFC is the parameter \<open>nfc\<close>. The encoder's recursion is bounded by the container depth
  still allowed, which is exactly the code's \<^verbatim>\<open>MH_CANONICAL_DEPTH\<close> check, so no fuel is added.

  The lemmas show that the output never contains a control byte (so one record is one line), that
  it does not depend on the order of a dict's items, and that the limits are enforced.
\<close>

datatype py_float =
    Float_Nonfinite
  | Float_Integral int
  | Float_Decimal bool "nat list" int

datatype py_value =
    P_None
  | P_Bool bool
  | P_Int int
  | P_Float py_float
  | P_Str string
  | P_Datetime py_datetime
  | P_List "py_value list"
  | P_Dict "(string \<times> py_value) list"
  | P_Other

section \<open>Scalars\<close>

text \<open>A surrogate code point is the byte ED followed by a byte from A0 on.\<close>

fun has_surrogate :: "string \<Rightarrow> bool" where
  "has_surrogate (a # b # cs) \<longleftrightarrow>
     ((of_char a :: nat) = 237 \<and> (160 :: nat) \<le> of_char b) \<or> has_surrogate (b # cs)"
| "has_surrogate _ \<longleftrightarrow> False"

definition LF :: char where "LF = CHR 0x0A"
definition CR :: char where "CR = CHR 0x0D"

fun unify_newlines :: "string \<Rightarrow> string" where
  "unify_newlines [] = []"
| "unify_newlines (c # cs) =
     (if c = CR then LF # (case cs of [] \<Rightarrow> [] | d # ds \<Rightarrow> if d = LF then unify_newlines ds else unify_newlines cs)
      else c # unify_newlines cs)"

definition normalize_string :: "(string \<Rightarrow> string) \<Rightarrow> string \<Rightarrow> string res" where
  "normalize_string nfc s =
     (if has_surrogate s then Inl (Canonical_Error ''MH_CANONICAL_UNICODE'')
      else Inr (nfc (unify_newlines s)))"

definition hex_digit :: "nat \<Rightarrow> char" where
  "hex_digit d = (if d < 10 then char_of (48 + d) else char_of (87 + d))"

text \<open>One byte as \<^verbatim>\<open>json.dumps(ensure_ascii=False)\<close> writes it.\<close>

definition escape_char :: "char \<Rightarrow> string" where
  "escape_char c = (let n = (of_char c :: nat) in
     if n = 34 then [CHR 0x5C, c]
     else if n = 92 then [c, c]
     else if n = 10 then [CHR 0x5C, CHR ''n'']
     else if n = 13 then [CHR 0x5C, CHR ''r'']
     else if n = 9 then [CHR 0x5C, CHR ''t'']
     else if n = 12 then [CHR 0x5C, CHR ''f'']
     else if n = 8 then [CHR 0x5C, CHR ''b'']
     else if n < 32 then CHR 0x5C # ''u00'' @ [hex_digit (n div 16), hex_digit (n mod 16)]
     else [c])"

text \<open>Equations by character pattern, used when a concrete text is evaluated.\<close>

lemma of_char_eq: "of_char c = (34 :: nat) \<longleftrightarrow> c = CHR 0x22" "of_char c = (92 :: nat) \<longleftrightarrow> c = CHR 0x5C"
    "of_char c = (10 :: nat) \<longleftrightarrow> c = CHR 0x0A" "of_char c = (13 :: nat) \<longleftrightarrow> c = CHR 0x0D"
    "of_char c = (9 :: nat) \<longleftrightarrow> c = CHR 0x09" "of_char c = (12 :: nat) \<longleftrightarrow> c = CHR 0x0C"
    "of_char c = (8 :: nat) \<longleftrightarrow> c = CHR 0x08" "of_char c = (237 :: nat) \<longleftrightarrow> c = CHR 0xED"
    "of_char c = (127 :: nat) \<longleftrightarrow> c = CHR 0x7F"
  by (auto simp: of_char_eq_iff [symmetric, where ?'a = nat])

lemma of_char_less_32: "of_char c < (32 :: nat) \<longleftrightarrow> \<not> digit5 c \<and> \<not> digit6 c \<and> \<not> digit7 c"
  by (cases c) (auto simp: of_char_def)

lemma escape_char_code [code]:
  "escape_char c =
     (if c = CHR 0x22 then [CHR 0x5C, c] else if c = CHR 0x5C then [c, c]
      else if c = CHR 0x0A then [CHR 0x5C, CHR ''n''] else if c = CHR 0x0D then [CHR 0x5C, CHR ''r'']
      else if c = CHR 0x09 then [CHR 0x5C, CHR ''t''] else if c = CHR 0x0C then [CHR 0x5C, CHR ''f'']
      else if c = CHR 0x08 then [CHR 0x5C, CHR ''b'']
      else if \<not> digit5 c \<and> \<not> digit6 c \<and> \<not> digit7 c
        then CHR 0x5C # ''u00'' @ [hex_digit (of_char c div 16), hex_digit (of_char c mod 16)]
      else [c])"
  by (simp add: escape_char_def Let_def of_char_eq of_char_less_32)

definition json_quote :: "string \<Rightarrow> string" where
  "json_quote s = [CHR 0x22] @ concat (map escape_char s) @ [CHR 0x22]"

definition quote_string :: "(string \<Rightarrow> string) \<Rightarrow> string \<Rightarrow> string res" where
  "quote_string nfc s = bind_res (normalize_string nfc s) (\<lambda>n. Inr (json_quote n))"

text \<open>\<^verbatim>\<open>str\<close> of an integer.\<close>

fun nat_text :: "nat \<Rightarrow> string" where
  "nat_text n = (if n < 10 then [digit_char n] else nat_text (n div 10) @ [digit_char (n mod 10)])"

declare nat_text.simps [simp del]

definition int_text :: "int \<Rightarrow> string" where
  "int_text i = (if i < 0 then ''-'' @ nat_text (nat (- i)) else nat_text (nat i))"

definition serialize_integer :: "int \<Rightarrow> string res" where
  "serialize_integer i =
     (if i < min_int64 \<or> max_int64 < i then Inl (Canonical_Error ''MH_CANONICAL_INTEGER_RANGE'')
      else Inr (int_text i))"

definition serialize_float :: "py_float \<Rightarrow> string res" where
  "serialize_float v = (case v of
       Float_Nonfinite \<Rightarrow> Inl (Canonical_Error ''MH_CANONICAL_FLOAT'')
     | Float_Integral i \<Rightarrow> (if i = 0 then Inr ''0'' else serialize_integer i)
     | Float_Decimal neg ds ex \<Rightarrow>
         (let digits = map (\<lambda>d. digit_char (d mod 10)) ds;
              count = int (length digits);
              pos = count + ex;
              body =
                (if 0 < pos \<and> pos \<le> 21 then take (nat pos) digits @ ''.'' @ drop (nat pos) digits
                 else if -6 < pos \<and> pos \<le> 0 then ''0.'' @ replicate (nat (- pos)) (CHR ''0'') @ digits
                 else (let se = pos - 1;
                           mantissa = (if count = 1 then take 1 digits
                                       else take 1 digits @ ''.'' @ drop 1 digits);
                           et = (if 0 \<le> se then ''+'' @ int_text se else int_text se)
                       in mantissa @ ''e'' @ et))
          in Inr (if neg then ''-'' @ body else body)))"

section \<open>The encoder\<close>

fun join :: "string \<Rightarrow> string list \<Rightarrow> string" where
  "join sep [] = []"
| "join sep [x] = x"
| "join sep (x # y # ys) = x @ sep @ join sep (y # ys)"

text \<open>The state is \<^verbatim>\<open>self.nodes\<close>.\<close>

definition count_node :: "int \<Rightarrow> (int, unit) prog" where
  "count_node max_nodes = (\<lambda>n.
     (if max_nodes < n + 1 then Inl (Canonical_Error ''MH_CANONICAL_NODES'') else Inr (), n + 1))"

text \<open>The first loop of \<^verbatim>\<open>_encode_object\<close>: normalised keys in item order, collisions refused.\<close>

fun normalize_keys ::
  "(string \<Rightarrow> string) \<Rightarrow> (string \<times> 'v) list \<Rightarrow> (string \<times> 'v) list \<Rightarrow> (string \<times> 'v) list res" where
  "normalize_keys nfc [] acc = Inr acc"
| "normalize_keys nfc ((k, v) # items) acc =
     bind_res (normalize_string nfc k) (\<lambda>nk.
       if nk \<in> fst ` set acc then Inl (Canonical_Error ''MH_CANONICAL_KEY_COLLISION'')
       else normalize_keys nfc items (acc @ [(nk, v)]))"

definition encode_scalar :: "(string \<Rightarrow> string) \<Rightarrow> py_value \<Rightarrow> string res" where
  "encode_scalar nfc v = (case v of
       P_None \<Rightarrow> Inr ''null''
     | P_Bool b \<Rightarrow> Inr (if b then ''true'' else ''false'')
     | P_Int i \<Rightarrow> serialize_integer i
     | P_Float f \<Rightarrow> serialize_float f
     | P_Str s \<Rightarrow> quote_string nfc s
     | P_Datetime d \<Rightarrow>
         (case bind_res (format_timestamp d) (quote_string nfc) of
            Inl _ \<Rightarrow> Inl (Canonical_Error ''MH_CANONICAL_TIMESTAMP'') | Inr t \<Rightarrow> Inr t)
     | _ \<Rightarrow> Inl (Canonical_Error ''MH_CANONICAL_TYPE''))"

text \<open>One member of an object: the value is encoded before its key is quoted.\<close>

definition encode_item ::
  "(string \<Rightarrow> string) \<Rightarrow> ('v \<Rightarrow> (int, string) prog) \<Rightarrow> string \<times> 'v \<Rightarrow> (int, string) prog" where
  "encode_item nfc enc item =
     andthen (enc (snd item)) (\<lambda>ev.
     andthen (lift_res (quote_string nfc (fst item))) (\<lambda>q. ret (q @ '':'' @ ev)))"

text \<open>\<open>encode_value\<close> at remaining depth \<open>rem\<close>, which is \<^verbatim>\<open>max_depth - container_depth\<close>.\<close>

primrec encode_value :: "(string \<Rightarrow> string) \<Rightarrow> int \<Rightarrow> nat \<Rightarrow> py_value \<Rightarrow> (int, string) prog" where
  "encode_value nfc max_nodes 0 = (\<lambda>v. andthen (count_node max_nodes) (\<lambda>_.
     case v of
       P_List _ \<Rightarrow> throw (Canonical_Error ''MH_CANONICAL_DEPTH'')
     | P_Dict _ \<Rightarrow> throw (Canonical_Error ''MH_CANONICAL_DEPTH'')
     | _ \<Rightarrow> lift_res (encode_scalar nfc v)))"
| "encode_value nfc max_nodes (Suc rem) = (\<lambda>v. andthen (count_node max_nodes) (\<lambda>_.
     case v of
       P_List vs \<Rightarrow> andthen (for_each (encode_value nfc max_nodes rem) vs) (\<lambda>ms.
         ret (''['' @ join '','' ms @ '']''))
     | P_Dict items \<Rightarrow> andthen (lift_res (normalize_keys nfc items [])) (\<lambda>normalized.
         andthen (for_each (encode_item nfc (encode_value nfc max_nodes rem))
           (sort_key fst normalized)) (\<lambda>parts.
         ret (''{'' @ join '','' parts @ ''}'')))
     | _ \<Rightarrow> lift_res (encode_scalar nfc v)))"

definition canonical_json_bytes ::
  "(string \<Rightarrow> string) \<Rightarrow> int \<Rightarrow> int \<Rightarrow> int \<Rightarrow> py_value \<Rightarrow> string res" where
  "canonical_json_bytes nfc max_depth max_nodes max_bytes v =
     (if max_depth < 1 \<or> max_nodes < 1 \<or> max_bytes < 1 then Inl Value_Error
      else bind_res (fst (encode_value nfc max_nodes (nat max_depth) v 0)) (\<lambda>text.
        if max_bytes < int (length text) then Inl (Canonical_Error ''MH_CANONICAL_SIZE'')
        else Inr text))"

definition default_max_depth :: int where "default_max_depth = 32"
definition default_max_nodes :: int where "default_max_nodes = 10000"
definition default_max_bytes :: int where "default_max_bytes = 262144"

section \<open>No control byte in the output\<close>

definition printable :: "char \<Rightarrow> bool" where
  "printable c \<longleftrightarrow> (32 :: nat) \<le> of_char c"

lemma of_char_hex_digit: "d < 16 \<Longrightarrow> of_char (hex_digit d) = (if d < 10 then 48 + d else 87 + d)"
  by (simp add: hex_digit_def)

lemma printable_digit: "d < 10 \<Longrightarrow> printable (digit_char d)"
  by (simp add: printable_def of_digit_char)

lemma printable_hex: "d < 16 \<Longrightarrow> printable (hex_digit d)"
  by (simp add: printable_def of_char_hex_digit)

lemma printable_chars:
  "list_all printable ''null''" "list_all printable ''true''" "list_all printable ''false''"
  "list_all printable ''0''" "list_all printable ''-''" "list_all printable ''.''" "list_all printable ''0.''"
  "list_all printable ''e''" "list_all printable ''+''" "list_all printable '':''" "list_all printable '',''"
  "list_all printable ''[''" "list_all printable '']''" "list_all printable ''{''" "list_all printable ''}''"
  by (simp_all add: printable_def)

lemma printable_escape: "list_all printable (escape_char c)"
proof -
  have "n div 16 < 16" "n mod 16 < 16" if "n < 32" for n :: nat
    using that by simp_all
  then show ?thesis
    by (auto simp: escape_char_def Let_def printable_hex) (auto simp: printable_def)
qed

lemma printable_quote: "list_all printable (json_quote s)"
  using printable_escape by (auto simp: json_quote_def list_all_iff) (simp_all add: printable_def)

lemma printable_nat_text: "list_all printable (nat_text n)"
  by (induction n rule: nat_text.induct) (subst nat_text.simps, simp add: printable_digit)

lemma printable_int_text: "list_all printable (int_text i)"
  using printable_chars by (auto simp: int_text_def printable_nat_text)

lemma printable_float: "serialize_float v = Inr t \<Longrightarrow> list_all printable t"
proof (cases v)
  case (Float_Decimal neg ds ex)
  define digits where "digits = map (\<lambda>d. digit_char (d mod 10)) ds"
  have "list_all printable digits"
    by (auto simp: digits_def list_all_iff intro!: printable_digit)
  then have parts: "list_all printable (take n digits)" "list_all printable (drop n digits)" for n
    by (auto simp: list_all_iff dest: in_set_takeD in_set_dropD)
  have zeros: "list_all printable (replicate n (CHR ''0''))" for n
    by (auto simp: list_all_iff printable_def)
  assume "serialize_float v = Inr t"
  then show ?thesis
    unfolding Float_Decimal serialize_float_def digits_def [symmetric] Let_def py_float.case
    using printable_chars zeros parts \<open>list_all printable digits\<close>
    by (auto simp: printable_int_text list_all_append split: if_splits)
qed (use printable_chars in \<open>auto simp: serialize_float_def serialize_integer_def printable_int_text
    split: if_splits\<close>)

lemma printable_join: "list_all printable sep \<Longrightarrow> list_all (list_all printable) xs \<Longrightarrow> list_all printable (join sep xs)"
  by (induction sep xs rule: join.induct) auto

lemma printable_scalar: "encode_scalar nfc v = Inr t \<Longrightarrow> list_all printable t"
  using printable_chars printable_quote
  by (cases v) (auto simp: encode_scalar_def serialize_integer_def printable_int_text quote_string_def
      bind_res_eq_Inr printable_float split: sum.splits if_splits)

lemma for_each_Inr_all:
  "for_each f xs s = (Inr ys, s') \<Longrightarrow> (\<And>x s y s'. x \<in> set xs \<Longrightarrow> f x s = (Inr y, s') \<Longrightarrow> P y) \<Longrightarrow>
     list_all P ys"
proof (induction xs arbitrary: s ys)
  case (Cons x xs)
  from Cons.prems(1) obtain y s1 zs where "f x s = (Inr y, s1)" "for_each f xs s1 = (Inr zs, s')"
    "ys = y # zs"
    by (auto simp: andthen_Inr ret_def)
  then show ?case using Cons.IH Cons.prems(2) by fastforce
qed (simp add: ret_def)

lemma printable_encode: "encode_value nfc mn d v n = (Inr t, n') \<Longrightarrow> list_all printable t"
proof (induction d arbitrary: v n t n')
  case 0
  then show ?case
    by (auto simp: andthen_Inr throw_def lift_res_def printable_scalar split: py_value.splits)
next
  case (Suc d)
  have members: "list_all (list_all printable) ms"
    if "for_each (encode_value nfc mn d) vs m = (Inr ms, m')" for vs ms m m'
    using that Suc.IH by (rule for_each_Inr_all)
  have item: "list_all printable y"
    if "encode_item nfc (encode_value nfc mn d) x m = (Inr y, m')" for x m y m'
    using that printable_chars
    by (auto simp: encode_item_def andthen_Inr lift_res_def ret_def quote_string_def bind_res_eq_Inr
        printable_quote dest: Suc.IH)
  have items: "list_all (list_all printable) ps"
    if "for_each (encode_item nfc (encode_value nfc mn d)) kvs m = (Inr ps, m')" for kvs ps m m'
    using that item by (rule for_each_Inr_all)
  from Suc.prems show ?case
    using printable_chars
    by (auto simp: andthen_Inr lift_res_def ret_def printable_scalar split: py_value.splits
        intro!: printable_join dest!: members items)
qed

section \<open>Independence of item order\<close>

definition normal_key :: "(string \<Rightarrow> string) \<Rightarrow> string \<Rightarrow> string" where
  "normal_key nfc k = nfc (unify_newlines k)"

definition normal_item :: "(string \<Rightarrow> string) \<Rightarrow> string \<times> 'v \<Rightarrow> string \<times> 'v" where
  "normal_item nfc kv = (normal_key nfc (fst kv), snd kv)"

lemma fst_normal_item [simp]: "fst (normal_item nfc kv) = normal_key nfc (fst kv)"
  by (simp add: normal_item_def)

lemma normalize_keys_Inr:
  "normalize_keys nfc xs acc = Inr r \<longleftrightarrow>
     r = acc @ map (normal_item nfc) xs \<and> list_all (\<lambda>kv. \<not> has_surrogate (fst kv)) xs \<and>
     distinct (map (\<lambda>kv. normal_key nfc (fst kv)) xs) \<and>
     (\<forall>kv \<in> set xs. normal_key nfc (fst kv) \<notin> fst ` set acc)"
proof (induction nfc xs acc rule: normalize_keys.induct)
  case (2 nfc k v items acc)
  show ?case
  proof (cases "has_surrogate k \<or> normal_key nfc k \<in> fst ` set acc")
    case True
    then show ?thesis by (auto simp: normalize_string_def normal_key_def)
  next
    case False
    then have "normalize_keys nfc ((k, v) # items) acc =
        normalize_keys nfc items (acc @ [normal_item nfc (k, v)])"
      by (simp add: normalize_string_def normal_key_def normal_item_def)
    then show ?thesis
      using "2.IH" [of "normal_key nfc k"] False
      by (auto simp: normalize_string_def normal_key_def normal_item_def list_all_iff)
        (force simp: image_iff)+
  qed
qed auto

lemma sort_items_unique:
  assumes "distinct (map fst xs)" "mset ys = mset xs"
  shows "sort_key fst ys = sort_key fst xs"
proof (rule map_sorted_distinct_set_unique)
  have d: "distinct (map fst ys)"
    using assms by (metis mset_eq_imp_distinct_iff mset_map)
  show "distinct (map fst (sort_key fst ys))" "distinct (map fst (sort_key fst xs))"
    using d assms(1) by (metis mset_eq_imp_distinct_iff mset_map mset_sort)+
  have "set ys = set xs" using assms(2) by (metis set_mset_mset)
  then show "set (sort_key fst ys) = set (sort_key fst xs)"
      "inj_on fst (set (sort_key fst ys) \<union> set (sort_key fst xs))"
    using assms(1) by (simp_all add: distinct_map)
qed simp_all

lemma encode_dict_permuted:
  assumes "normalize_keys nfc xs [] = Inr r" "mset ys = mset xs"
  shows "encode_value nfc mn d (P_Dict ys) = encode_value nfc mn d (P_Dict xs)"
proof -
  have xs: "r = map (normal_item nfc) xs" "list_all (\<lambda>kv. \<not> has_surrogate (fst kv)) xs"
      "distinct (map (\<lambda>kv. normal_key nfc (fst kv)) xs)"
    using assms(1) by (auto simp: normalize_keys_Inr)
  have "distinct (map (\<lambda>kv. normal_key nfc (fst kv)) ys)"
    using xs(3) assms(2) by (metis mset_eq_imp_distinct_iff mset_map)
  moreover have "set ys = set xs" using assms(2) by (metis set_mset_mset)
  ultimately have ys: "normalize_keys nfc ys [] = Inr (map (normal_item nfc) ys)"
    using xs(2) by (simp add: normalize_keys_Inr list_all_iff)
  have "sort_key fst (map (normal_item nfc) ys) = sort_key fst (map (normal_item nfc) xs)"
    by (rule sort_items_unique) (use xs(3) assms(2) in \<open>simp_all add: comp_def\<close>)
  then show ?thesis
    using ys assms(1) xs(1) by (cases d) (simp_all add: andthen_lift_Inr)
qed

section \<open>Properties\<close>

text \<open>
  Canonical text is one line: whatever value is encoded, no byte of the result is a control byte,
  so the newline that frames a record in a segment can never occur inside one.
\<close>

theorem canonical_json_single_line:
  assumes "canonical_json_bytes nfc md mn mb v = Inr text"
  shows "(\<forall>c \<in> set text. (32 :: nat) \<le> of_char c) \<and> LF \<notin> set text \<and> int (length text) \<le> mb"
proof -
  obtain n where enc: "encode_value nfc mn (nat md) v 0 = (Inr text, n)"
      and size: "int (length text) \<le> mb"
    using assms by (cases "encode_value nfc mn (nat md) v 0")
      (auto simp: canonical_json_bytes_def bind_res_eq_Inr split: if_splits)
  have "\<forall>c \<in> set text. printable c"
    using printable_encode [OF enc] by (simp add: list_all_iff)
  moreover have "\<not> printable LF" by (simp add: printable_def LF_def)
  ultimately show ?thesis using size by (auto simp: printable_def)
qed

text \<open>
  Canonical text does not depend on the order in which a dict holds its items: two dicts with the
  same items, whose keys stay distinct after normalisation, encode to the same bytes or fail alike.
\<close>

theorem canonical_json_order_independent:
  assumes "normalize_keys nfc xs [] = Inr r" "mset ys = mset xs"
  shows "canonical_json_bytes nfc md mn mb (P_Dict ys) = canonical_json_bytes nfc md mn mb (P_Dict xs)"
  unfolding canonical_json_bytes_def using encode_dict_permuted [OF assms] by simp

theorem canonical_json_single_line_witness:
  "list_all (\<lambda>c. (32 :: nat) \<le> of_char c)
     (projr (canonical_json_bytes id 32 100 100 (P_Dict [(''b'', P_Str [LF]), (''a'', P_Int (-7))])))"
proof -
  have "canonical_json_bytes id 32 100 100 (P_Dict [(''b'', P_Str [LF]), (''a'', P_Int (-7))]) =
      Inr (''{'' @ [CHR 0x22] @ ''a'' @ [CHR 0x22] @ '':-7,'' @ [CHR 0x22]
        @ ''b'' @ [CHR 0x22] @ '':'' @ [CHR 0x22] @ [CHR 0x5C, CHR ''n'']
        @ [CHR 0x22] @ ''}'')"
    by code_simp
  from canonical_json_single_line [OF this] this show ?thesis by (simp add: list_all_iff)
qed

theorem canonical_json_order_independent_witness:
  "canonical_json_bytes id 32 100 100 (P_Dict [(''b'', P_None), (''a'', P_None)]) =
   canonical_json_bytes id 32 100 100 (P_Dict [(''a'', P_None), (''b'', P_None)])"
proof (rule canonical_json_order_independent)
  show "normalize_keys id [(''a'', P_None), (''b'', P_None)] [] = Inr [(''a'', P_None), (''b'', P_None)]"
    by code_simp
qed simp

end
