(* ===== verification/Identity.thy ===== *)
theory Identity
  imports Canonical
begin

text \<open>
  \<^verbatim>\<open>src/milhouse/domain/identity.py\<close>: domain-separated digests of canonical projections and
  their base32 tokens, and the alert, transition and notification-intent identities built on them.
  \<open>sha\<close> is SHA-256 (its digest as 32 characters) and \<open>nfc\<close> Unicode NFC, both from the standard
  library. A pydantic \<^verbatim>\<open>ValidationError\<close> is a \<open>Value_Error\<close>, of which it is a subclass.
\<close>

section \<open>Base32 tokens\<close>

definition byte_bits :: "char \<Rightarrow> bool list" where
  "byte_bits c = (let n = (of_char c :: nat) in map (\<lambda>i. odd (n div 2 ^ i)) [7, 6, 5, 4, 3, 2, 1, 0])"

definition bits_value :: "bool list \<Rightarrow> nat" where
  "bits_value bs = foldl (\<lambda>a b. 2 * a + of_bool b) 0 bs"

definition base32_char :: "nat \<Rightarrow> char" where
  "base32_char v = (if v < 26 then char_of (97 + v) else char_of (24 + v))"

text \<open>Groups of five bits, the last one padded with zeros; the \<^verbatim>\<open>=\<close> padding is stripped.\<close>

fun group5 :: "bool list \<Rightarrow> nat list" where
  "group5 (a # b # c # d # e # bs) = bits_value [a, b, c, d, e] # group5 bs"
| "group5 [] = []"
| "group5 bs = [bits_value (take 5 (bs @ [False, False, False, False]))]"

definition base32_digest :: "string \<Rightarrow> string" where
  "base32_digest digest = map base32_char (group5 (concat (map byte_bits digest)))"

definition is_base32 :: "char \<Rightarrow> bool" where
  "is_base32 c \<longleftrightarrow> (let n = (of_char c :: nat) in (97 \<le> n \<and> n \<le> 122) \<or> (50 \<le> n \<and> n \<le> 55))"

text \<open>\<^verbatim>\<open>b32decode\<close> of 52 characters and its padding: eight bits at a time, spare bits dropped.\<close>

definition base32_value :: "char \<Rightarrow> nat" where
  "base32_value c = (let n = (of_char c :: nat) in if 97 \<le> n then n - 97 else n - 24)"

definition quintet_bits :: "nat \<Rightarrow> bool list" where
  "quintet_bits v = map (\<lambda>i. odd (v div 2 ^ i)) [4, 3, 2, 1, 0]"

fun group8 :: "bool list \<Rightarrow> string" where
  "group8 (a # b # c # d # e # f # g # h # bs) =
     char_of (bits_value [a, b, c, d, e, f, g, h]) # group8 bs"
| "group8 _ = []"

definition base32_decode :: "string \<Rightarrow> string" where
  "base32_decode s = group8 (concat (map (\<lambda>c. quintet_bits (base32_value c)) s))"

text \<open>\<^verbatim>\<open>_validate_digest_token\<close>: the pattern, then that decoding and encoding again agree.\<close>

definition token_body_match :: "string \<Rightarrow> bool" where
  "token_body_match s \<longleftrightarrow> length s = 52 \<and> list_all is_base32 (butlast s) \<and> last s \<in> {CHR ''a'', CHR ''q''}"

definition validate_digest_token :: "string \<Rightarrow> string \<Rightarrow> string res" where
  "validate_digest_token prefix value =
     (if take (length prefix) value \<noteq> prefix \<or> \<not> token_body_match (drop (length prefix) value)
      then Inl (Record_Error ''MH_IDENTITY_TOKEN'')
      else let encoded = drop (length prefix) value; decoded = base32_decode encoded
        in if length decoded \<noteq> 32 \<or> base32_digest decoded \<noteq> encoded
           then Inl (Record_Error ''MH_IDENTITY_TOKEN'') else Inr value)"

definition validate_record_id :: "string \<Rightarrow> string res" where
  "validate_record_id v = validate_digest_token ''mh_'' v"

definition validate_dedupe_key :: "string \<Rightarrow> string res" where
  "validate_dedupe_key v = validate_digest_token ''mh_d1_'' v"

section \<open>Domain digests\<close>

definition NUL :: char where "NUL = char_of (0 :: nat)"

definition domain_digest ::
  "(string \<Rightarrow> string) \<Rightarrow> (string \<Rightarrow> string) \<Rightarrow> string \<Rightarrow> py_value \<Rightarrow> string res" where
  "domain_digest sha nfc domain projection =
     (if domain = [] \<or> last domain \<noteq> NUL \<or> \<not> list_all (\<lambda>c. (of_char c :: nat) \<le> 127) domain
      then Inl Value_Error
      else case canonical_json_bytes nfc default_max_depth default_max_nodes default_max_bytes projection of
        Inl (Canonical_Error _) \<Rightarrow> Inl (Record_Error ''MH_IDENTITY_PROJECTION'')
      | Inl e \<Rightarrow> Inl e
      | Inr canonical \<Rightarrow> Inr (sha (domain @ canonical)))"

fun has_unsafe_char :: "string \<Rightarrow> bool" where
  "has_unsafe_char s \<longleftrightarrow>
     list_ex (\<lambda>c. (of_char c :: nat) < 32 \<or> (of_char c :: nat) = 127) s \<or> has_surrogate s"

definition require_bounded_safe_text :: "string \<Rightarrow> string \<Rightarrow> string res" where
  "require_bounded_safe_text code v =
     (if v = [] \<or> has_unsafe_char v \<or> 256 < length v then Inl (Record_Error code) else Inr v)"

definition require_alert_text :: "string \<Rightarrow> string res" where
  "require_alert_text = require_bounded_safe_text ''MH_IDENTITY_ALERT_INPUT''"

definition require_notification_text :: "string \<Rightarrow> string res" where
  "require_notification_text = require_bounded_safe_text ''MH_IDENTITY_NOTIFICATION_INPUT''"

definition require_alert_version :: "int \<Rightarrow> int res" where
  "require_alert_version v = (if v < 1 then Inl (Record_Error ''MH_IDENTITY_ALERT_INPUT'') else Inr v)"

definition derive_alert_key ::
  "(string \<Rightarrow> string) \<Rightarrow> (string \<Rightarrow> string) \<Rightarrow> string \<Rightarrow> int \<Rightarrow> string \<Rightarrow> string \<Rightarrow> string res" where
  "derive_alert_key sha nfc rule_id rule_version collector target =
     bind_res (require_alert_text collector) (\<lambda>c.
     bind_res (require_alert_text rule_id) (\<lambda>r.
     bind_res (require_alert_version rule_version) (\<lambda>v.
     bind_res (require_alert_text target) (\<lambda>t.
     bind_res (domain_digest sha nfc (''milhouse-alert-key-v1'' @ [NUL])
       (P_Dict [(''collector'', P_Str c), (''rule_id'', P_Str r), (''rule_version'', P_Int v),
                (''target'', P_Str t)])) (\<lambda>d.
     Inr (''mh_ak1_'' @ base32_digest d))))))"

text \<open>
  \<^verbatim>\<open>ObservationCoordinateV1\<close>: a kind and 1 to 16 parts. The parts the alert engine uses are text and
  integers; the checks are those of \<^verbatim>\<open>validate_parts\<close> on them.
\<close>

datatype part = Part_Int int | Part_Str string

record observation =
  ob_kind :: string
  ob_parts :: "(string \<times> part) list"

fun part_ok :: "part \<Rightarrow> bool" where
  "part_ok (Part_Int i) \<longleftrightarrow> min_int64 \<le> i \<and> i \<le> max_int64"
| "part_ok (Part_Str s) \<longleftrightarrow> \<not> has_unsafe_char s \<and> 1 \<le> length s \<and> length s \<le> 256"

fun part_value :: "part \<Rightarrow> py_value" where
  "part_value (Part_Int i) = P_Int i"
| "part_value (Part_Str s) = P_Str s"

definition observation_coordinate :: "string \<Rightarrow> (string \<times> part) list \<Rightarrow> observation res" where
  "observation_coordinate kind parts =
     (if 1 \<le> length parts \<and> length parts \<le> 16 \<and> list_all (part_ok \<circ> snd) parts
      then Inr \<lparr>ob_kind = kind, ob_parts = parts\<rparr> else Inl Value_Error)"

definition observation_value :: "observation \<Rightarrow> py_value" where
  "observation_value ob = P_Dict [(''kind'', P_Str (ob_kind ob)),
     (''parts'', P_Dict (map (\<lambda>(k, p). (k, part_value p)) (ob_parts ob)))]"

definition derive_transition_id ::
  "(string \<Rightarrow> string) \<Rightarrow> (string \<Rightarrow> string) \<Rightarrow> string \<Rightarrow> string \<Rightarrow> string \<Rightarrow> observation \<Rightarrow> string res" where
  "derive_transition_id sha nfc alert_key previous_state state ob =
     bind_res (require_alert_text alert_key) (\<lambda>a.
     bind_res (require_alert_text previous_state) (\<lambda>p.
     bind_res (require_alert_text state) (\<lambda>st.
     bind_res (domain_digest sha nfc (''milhouse-alert-transition-v1'' @ [NUL])
       (P_Dict [(''alert_key'', P_Str a), (''observation'', observation_value ob),
                (''previous_state'', P_Str p), (''state'', P_Str st)])) (\<lambda>d.
     Inr (''mh_atr1_'' @ base32_digest d)))))"

definition derive_notification_intent_id ::
  "(string \<Rightarrow> string) \<Rightarrow> (string \<Rightarrow> string) \<Rightarrow> string \<Rightarrow> string \<Rightarrow> string res" where
  "derive_notification_intent_id sha nfc transition_id channel_id =
     bind_res (require_notification_text channel_id) (\<lambda>c.
     bind_res (require_notification_text transition_id) (\<lambda>t.
     bind_res (domain_digest sha nfc (''milhouse-notification-intent-v1'' @ [NUL])
       (P_Dict [(''channel_id'', P_Str c), (''transition_id'', P_Str t)])) (\<lambda>d.
     Inr (''mh_nin1_'' @ base32_digest d))))"

section \<open>Tokens of 32-byte digests are accepted\<close>

lemma length_byte_bits [simp]: "length (byte_bits c) = 8"
  by (simp add: byte_bits_def Let_def)

lemma length_quintet_bits [simp]: "length (quintet_bits v) = 5"
  by (simp add: quintet_bits_def)

lemma bits8: "bits_value (byte_bits c) = of_char c"
proof -
  obtain b0 b1 b2 b3 b4 b5 b6 b7 where c: "c = Char b0 b1 b2 b3 b4 b5 b6 b7" by (cases c)
  show ?thesis unfolding c
    by (cases b0; cases b1; cases b2; cases b3; cases b4; cases b5; cases b6; cases b7)
      (simp_all add: byte_bits_def bits_value_def Let_def)
qed

lemma quintet: "quintet_bits (bits_value [a, b, c, d, e]) = [a, b, c, d, e]"
    "bits_value [a, b, c, d, e] < 32"
  by (cases a; cases b; cases c; cases d; cases e; simp add: quintet_bits_def bits_value_def)+

lemma group5_bits:
  "\<exists>pad. concat (map quintet_bits (group5 bs)) = bs @ pad \<and> length pad < 5 \<and>
     list_all (\<lambda>v. v < 32) (group5 bs)"
  by (induction bs rule: group5.induct) (auto simp: quintet)

lemma length_group5: "length (group5 bs) = (length bs + 4) div 5"
  by (induction bs rule: group5.induct) auto

lemma group5_last: "length bs mod 5 = 1 \<Longrightarrow> last (group5 bs) \<in> {0, 16}"
proof (induction bs rule: group5.induct)
  case (1 a b c d e bs)
  have "bs \<noteq> []" using 1(2) by auto
  then have "group5 bs \<noteq> []" using length_group5 [of bs] by (cases bs) auto
  then show ?case using 1 by simp
qed (auto simp: bits_value_def)

lemma group8_bytes: "length pad < 8 \<Longrightarrow> group8 (concat (map byte_bits d) @ pad) = d"
proof (induction d)
  case Nil
  then show ?case by (cases pad rule: group8.cases) auto
next
  case (Cons x d)
  obtain a b c d' e f g h where x: "byte_bits x = [a, b, c, d', e, f, g, h]"
    by (cases "byte_bits x" rule: group8.cases) (use length_byte_bits [of x] in auto)
  have "char_of (bits_value [a, b, c, d', e, f, g, h]) = x"
    unfolding x [symmetric] by (simp add: bits8)
  then show ?case using Cons by (simp add: x)
qed

lemma base32_char_facts:
  assumes "v < 32"
  shows "base32_value (base32_char v) = v" "is_base32 (base32_char v)"
  using assms by (auto simp: base32_value_def base32_char_def is_base32_def Let_def)

lemma base32_roundtrip:
  "base32_decode (base32_digest d) = d" "list_all is_base32 (base32_digest d)"
proof -
  let ?g = "group5 (concat (map byte_bits d))"
  obtain pad where pad: "concat (map quintet_bits ?g) = concat (map byte_bits d) @ pad"
      "length pad < 5" "list_all (\<lambda>v. v < 32) ?g"
    using group5_bits by blast
  have "map (\<lambda>c. quintet_bits (base32_value c)) (base32_digest d) = map quintet_bits ?g"
    using pad(3) by (simp add: base32_digest_def list_all_iff base32_char_facts)
  then show "base32_decode (base32_digest d) = d"
    unfolding base32_decode_def using pad by (simp add: group8_bytes)
  show "list_all is_base32 (base32_digest d)"
    using pad(3) by (auto simp: base32_digest_def list_all_iff base32_char_facts)
qed

lemma token_body: "length d = 32 \<Longrightarrow> token_body_match (base32_digest d)"
proof -
  assume d: "length d = 32"
  let ?bits = "concat (map byte_bits d)"
  have bits: "length ?bits = 256" using d by (simp add: length_concat comp_def sum_list_triv)
  then have len: "length (group5 ?bits) = 52" by (simp add: length_group5)
  have "last (group5 ?bits) \<in> {0, 16}" using group5_last [of ?bits] bits by simp
  moreover have "group5 ?bits \<noteq> []" using len by auto
  ultimately have "last (base32_digest d) \<in> {base32_char 0, base32_char 16}"
    by (auto simp: base32_digest_def last_map)
  moreover have "base32_char 0 = CHR ''a''" "base32_char 16 = CHR ''q''" by code_simp+
  moreover have "list_all is_base32 (butlast (base32_digest d))"
    using base32_roundtrip(2) [of d] by (auto simp: list_all_iff dest: in_set_butlastD)
  ultimately show ?thesis using len by (simp add: token_body_match_def base32_digest_def)
qed

text \<open>
  A digest token is its own validation: the base32 wire of any 32-byte digest, under either prefix,
  passes \<^verbatim>\<open>_validate_digest_token\<close> unchanged, and the digest can be read back from it, so two
  digests never share a token.
\<close>

theorem digest_token_accepted:
  assumes "length d = 32"
  shows "validate_digest_token prefix (prefix @ base32_digest d) = Inr (prefix @ base32_digest d)
    \<and> base32_decode (base32_digest d) = d"
  using assms token_body [OF assms] base32_roundtrip [of d]
  by (simp add: validate_digest_token_def)

theorem digest_token_accepted_witness:
  "validate_digest_token ''mh_'' (''mh_'' @ base32_digest (replicate 32 (CHR ''x''))) =
     Inr (''mh_'' @ base32_digest (replicate 32 (CHR ''x'')))"
  using digest_token_accepted [of "replicate 32 (CHR ''x'')" "''mh_''"] by simp

end
