(* ===== verification/Alerting.thy ===== *)
theory Alerting
  imports Alert_State Identity
begin

text \<open>
  \<^verbatim>\<open>src/milhouse/runtime/alerting.py\<close>: the \<^verbatim>\<open>canary_state\<close> engine, which turns one sample into a
  new rule state and at most one alert transition. Parameters: SHA-256 and NFC (see \<open>Identity\<close>), the
  hexadecimal text \<open>sha_hex\<close> of SHA-256, and \<open>accepts\<close>, whether the pydantic record model takes the
  draft. The properties are the state machine, the cooldown between two firings, and that the
  thresholds count consecutive samples.
\<close>

record alert_spec =
  sp_rule_id :: string
  sp_rule_version :: int
  sp_collector :: string
  sp_failures :: int
  sp_successes :: int
  sp_cooldown :: int

record alert_update =
  up_fail :: int
  up_success :: int
  up_state :: string
  up_cooldown_until :: "string option"
  up_last_sample_at :: string
  up_last_transition :: "string option"
  up_expected_revision :: int
  up_revision :: int

record alert_draft =
  ad_rule_id :: string
  ad_rule_version :: int
  ad_source_digest :: string
  ad_observation :: observation
  ad_alert_key :: string
  ad_transition_id :: string
  ad_previous :: string
  ad_state :: string
  ad_revision :: int
  ad_severity :: string
  ad_summary :: string
  ad_evidence :: "string list"
  ad_at :: py_datetime
  ad_expires_at :: py_datetime
  ad_operation_id :: string
  ad_target :: string

record alert_evaluation =
  ev_update :: alert_update
  ev_draft :: "alert_draft option"
  ev_transition :: "string option"

record alert_env =
  en_sha :: "string \<Rightarrow> string"
  en_sha_hex :: "string \<Rightarrow> string"
  en_nfc :: "string \<Rightarrow> string"
  en_accepts :: "alert_draft \<Rightarrow> bool"

definition source_generation_digest :: "alert_env \<Rightarrow> alert_spec \<Rightarrow> string" where
  "source_generation_digest en spec = en_sha_hex en
     (''alert.canary_state'' @ [NUL] @ sp_rule_id spec @ [NUL] @ int_text (sp_rule_version spec))"

definition transition_observation :: "alert_spec \<Rightarrow> string \<Rightarrow> string \<Rightarrow> string \<Rightarrow> observation res" where
  "transition_observation spec target now_stamp state =
     observation_coordinate ''alert.canary_state.transition''
       [(''rule'', Part_Str (sp_rule_id spec)), (''rule_version'', Part_Int (sp_rule_version spec)),
        (''target'', Part_Str target), (''scheduled_at'', Part_Str now_stamp),
        (''state'', Part_Str state)]"

definition severity_by_state :: "string \<Rightarrow> string" where
  "severity_by_state st = (if st = ''firing'' then ''error'' else ''info'')"

definition summary_by_state :: "string \<Rightarrow> string" where
  "summary_by_state st =
     (if st = ''firing'' then ''Canary availability rule entered the firing state after reaching the configured consecutive-failure threshold.''
      else ''Canary availability rule returned to the resolved state after reaching the configured consecutive-success threshold.'')"

definition datetime_add :: "py_datetime \<Rightarrow> int \<Rightarrow> py_datetime res" where
  "datetime_add v k = bind_res (add_seconds (wall_us v) k) (\<lambda>u. Inr (v\<lparr>wall_us := u\<rparr>))"

definition make_alert_draft ::
  "alert_env \<Rightarrow> alert_spec \<Rightarrow> string \<Rightarrow> py_datetime \<Rightarrow> observation \<Rightarrow> string \<Rightarrow> string \<Rightarrow> string
    \<Rightarrow> string \<Rightarrow> int \<Rightarrow> string \<Rightarrow> alert_draft res" where
  "make_alert_draft en spec target now ob key tid previous state revision trigger =
     bind_res (format_timestamp now) (\<lambda>stamp.
     bind_res (datetime_add now (365 * 86400)) (\<lambda>expires.
     let d = \<lparr>ad_rule_id = sp_rule_id spec, ad_rule_version = sp_rule_version spec,
         ad_source_digest = source_generation_digest en spec, ad_observation = ob,
         ad_alert_key = key, ad_transition_id = tid, ad_previous = previous, ad_state = state,
         ad_revision = revision, ad_severity = severity_by_state state,
         ad_summary = summary_by_state state, ad_evidence = [trigger], ad_at = now,
         ad_expires_at = expires, ad_operation_id = sp_rule_id spec @ '':'' @ stamp,
         ad_target = target\<rparr>
     in if en_accepts en d then Inr d else Inl Value_Error))"

text \<open>What the engine starts from: the loaded row, or the defaults before the first sample.\<close>

record rule_base =
  rb_state :: string
  rb_fail :: int
  rb_success :: int
  rb_cooldown :: "string option"
  rb_revision :: int
  rb_last_transition :: "string option"

definition base_of :: "alert_rule_state option \<Rightarrow> rule_base" where
  "base_of current = (case current of
       None \<Rightarrow> \<lparr>rb_state = ''inactive'', rb_fail = 0, rb_success = 0, rb_cooldown = None,
                rb_revision = 0, rb_last_transition = None\<rparr>
     | Some c \<Rightarrow> \<lparr>rb_state = as_state c, rb_fail = as_fail_count c, rb_success = as_success_count c,
                rb_cooldown = as_cooldown_until c, rb_revision = as_revision c,
                rb_last_transition = as_last_transition c\<rparr>)"

definition next_fail :: "string \<Rightarrow> rule_base \<Rightarrow> int" where
  "next_fail outcome b = (if outcome = ''failure'' then rb_fail b + 1 else 0)"

definition next_success :: "string \<Rightarrow> rule_base \<Rightarrow> int" where
  "next_success outcome b = (if outcome = ''failure'' then 0 else rb_success b + 1)"

text \<open>The decision: which transition, if any, the sample causes.\<close>

definition transition_of ::
  "alert_spec \<Rightarrow> string \<Rightarrow> string option \<Rightarrow> string \<Rightarrow> rule_base \<Rightarrow> string option" where
  "transition_of spec outcome trigger now_stamp b =
     (if outcome = ''failure'' \<and> sp_failures spec \<le> next_fail outcome b \<and> rb_state b \<noteq> ''firing''
         \<and> trigger \<noteq> None
         \<and> (case rb_cooldown b of None \<Rightarrow> True | Some c \<Rightarrow> c \<le> now_stamp)
      then Some ''firing''
      else if outcome = ''success'' \<and> sp_successes spec \<le> next_success outcome b
         \<and> rb_state b = ''firing'' \<and> trigger \<noteq> None
      then Some ''resolved'' else None)"

definition evaluate_canary_state_rule ::
  "alert_env \<Rightarrow> alert_spec \<Rightarrow> string \<Rightarrow> string option \<Rightarrow> string \<Rightarrow> py_datetime
    \<Rightarrow> alert_rule_state option \<Rightarrow> alert_evaluation res" where
  "evaluate_canary_state_rule en spec outcome trigger target now current =
     (if outcome \<notin> {''success'', ''failure''} then Inl (Pipeline_Error ''MH_RUNTIME_ALERT_OUTCOME'')
      else let b = base_of current in
      bind_res (format_timestamp now) (\<lambda>now_stamp.
      let t = transition_of spec outcome trigger now_stamp b;
          update = (\<lambda>state cooldown last. \<lparr>up_fail = next_fail outcome b,
             up_success = next_success outcome b, up_state = state, up_cooldown_until = cooldown,
             up_last_sample_at = now_stamp, up_last_transition = last,
             up_expected_revision = rb_revision b, up_revision = rb_revision b + 1\<rparr>)
      in case t of
           None \<Rightarrow> Inr \<lparr>ev_update = update (rb_state b) (rb_cooldown b) (rb_last_transition b),
                        ev_draft = None, ev_transition = None\<rparr>
         | Some st \<Rightarrow>
             bind_res (if st = ''firing''
                then bind_res (datetime_add now (sp_cooldown spec)) (\<lambda>later.
                  map_sum id Some (format_timestamp later))
                else Inr (rb_cooldown b)) (\<lambda>cooldown.
             bind_res (derive_alert_key (en_sha en) (en_nfc en) (sp_rule_id spec)
                (sp_rule_version spec) (sp_collector spec) target) (\<lambda>key.
             bind_res (transition_observation spec target now_stamp st) (\<lambda>ob.
             bind_res (derive_transition_id (en_sha en) (en_nfc en) key (rb_state b) st ob) (\<lambda>tid.
             bind_res (make_alert_draft en spec target now ob key tid (rb_state b) st
                (rb_revision b + 1) (the trigger)) (\<lambda>draft.
             Inr \<lparr>ev_update = update st cooldown (Some tid), ev_draft = Some draft,
                  ev_transition = Some st\<rparr>)))))))"

section \<open>One evaluation\<close>

lemma datetime_add_utc: "datetime_add (utc u) k = Inr v \<longleftrightarrow> v = utc (u + k * 1000000) \<and> valid_instant (u + k * 1000000)"
  by (auto simp: datetime_add_def bind_res_eq_Inr add_seconds_Inr utc_def)

lemma format_utc_Inr: "format_timestamp (utc u) = Inr st \<longleftrightarrow> valid_instant u \<and> st = stamp_of u"
  by (auto simp: format_timestamp_Inr utc_def)

lemma map_sum_Inr: "map_sum id Some r = Inr y \<longleftrightarrow> (\<exists>x. r = Inr x \<and> y = Some x)"
  by (cases r) auto

lemma transition_of_cases:
  "transition_of spec outcome trigger st b = Some t \<Longrightarrow>
     trigger \<noteq> None \<and>
     (t = ''firing'' \<and> outcome = ''failure'' \<and> sp_failures spec \<le> next_fail outcome b \<and>
        rb_state b \<noteq> ''firing'' \<and> (case rb_cooldown b of None \<Rightarrow> True | Some c \<Rightarrow> c \<le> st) \<or>
      t = ''resolved'' \<and> outcome = ''success'' \<and> sp_successes spec \<le> next_success outcome b \<and>
        rb_state b = ''firing'')"
  by (auto simp: transition_of_def split: if_splits)

text \<open>Everything a returned evaluation says, in terms of the base it started from.\<close>

lemma evaluate_Inr:
  assumes "evaluate_canary_state_rule en spec outcome trigger target (utc u) current = Inr ev"
  defines "b \<equiv> base_of current"
  shows "outcome \<in> {''success'', ''failure''} \<and> valid_instant u \<and>
    ev_transition ev = transition_of spec outcome trigger (stamp_of u) b \<and>
    up_fail (ev_update ev) = next_fail outcome b \<and>
    up_success (ev_update ev) = next_success outcome b \<and>
    up_last_sample_at (ev_update ev) = stamp_of u \<and>
    up_expected_revision (ev_update ev) = rb_revision b \<and>
    up_revision (ev_update ev) = rb_revision b + 1 \<and>
    (case ev_transition ev of
       None \<Rightarrow> ev_draft ev = None \<and> up_state (ev_update ev) = rb_state b \<and>
         up_cooldown_until (ev_update ev) = rb_cooldown b \<and>
         up_last_transition (ev_update ev) = rb_last_transition b
     | Some t \<Rightarrow> up_state (ev_update ev) = t \<and>
         (if t = ''firing''
          then valid_instant (u + sp_cooldown spec * 1000000) \<and>
            up_cooldown_until (ev_update ev) = Some (stamp_of (u + sp_cooldown spec * 1000000))
          else up_cooldown_until (ev_update ev) = rb_cooldown b) \<and>
         (\<exists>d. ev_draft ev = Some d \<and> ad_previous d = rb_state b \<and> ad_state d = t \<and>
            ad_revision d = rb_revision b + 1 \<and> Some (hd (ad_evidence d)) = trigger \<and>
            length (ad_evidence d) = 1 \<and> ad_severity d = severity_by_state t \<and>
            up_last_transition (ev_update ev) = Some (ad_transition_id d)))"
proof -
  let ?t = "transition_of spec outcome trigger (stamp_of u) b"
  have v: "valid_instant u" "outcome \<in> {''success'', ''failure''}"
    using assms(1) unfolding evaluate_canary_state_rule_def Let_def
    by (auto simp: bind_res_eq_Inr format_utc_Inr split: if_splits)
  have f: "format_timestamp (utc u) = Inr (stamp_of u)" using v(1) by (simp add: format_utc_Inr)
  show ?thesis
  proof (cases ?t)
    case None
    then show ?thesis using assms(1) v
      by (auto simp: evaluate_canary_state_rule_def f b_def [symmetric] Let_def)
  next
    case (Some t)
    note trig = transition_of_cases [OF Some]
    from Some trig show ?thesis using assms(1) v
      by (auto simp: evaluate_canary_state_rule_def f b_def [symmetric] Let_def bind_res_eq_Inr
          datetime_add_utc format_utc_Inr map_sum_Inr make_alert_draft_def split: if_splits)
  qed
qed

section \<open>Runs of samples\<close>

text \<open>
  The row that persisting an update leaves behind, and a run: each sample is evaluated against
  the row the previous one left; a sample whose evaluation raises leaves the row as it was.
  The log holds outcome, transition and instant of the samples that were applied, newest first.
\<close>

definition persisted :: "alert_spec \<Rightarrow> alert_update \<Rightarrow> alert_rule_state" where
  "persisted spec up = \<lparr>as_rule_id = sp_rule_id spec, as_rule_version = sp_rule_version spec,
     as_fail_count = up_fail up, as_success_count = up_success up, as_state = up_state up,
     as_cooldown_until = up_cooldown_until up, as_last_sample_at = Some (up_last_sample_at up),
     as_last_transition = up_last_transition up, as_revision = up_revision up,
     as_updated_at = up_last_sample_at up\<rparr>"

type_synonym sample_log = "(string \<times> string option \<times> int) list"

definition apply_sample ::
  "alert_env \<Rightarrow> alert_spec \<Rightarrow> string \<Rightarrow> sample_log \<times> alert_rule_state option
    \<Rightarrow> string \<times> string option \<times> int \<Rightarrow> sample_log \<times> alert_rule_state option" where
  "apply_sample en spec target st sample = (case sample of (outcome, trigger, u) \<Rightarrow>
     (case evaluate_canary_state_rule en spec outcome trigger target (utc u) (snd st) of
        Inl _ \<Rightarrow> st
      | Inr ev \<Rightarrow> ((outcome, ev_transition ev, u) # fst st, Some (persisted spec (ev_update ev)))))"

definition run_samples ::
  "alert_env \<Rightarrow> alert_spec \<Rightarrow> string \<Rightarrow> (string \<times> string option \<times> int) list
    \<Rightarrow> sample_log \<times> alert_rule_state option" where
  "run_samples en spec target samples = foldl (apply_sample en spec target) ([], None) samples"

definition fired :: "string \<times> string option \<times> int \<Rightarrow> bool" where
  "fired e \<longleftrightarrow> fst (snd e) = Some ''firing''"

definition failed :: "string \<times> string option \<times> int \<Rightarrow> bool" where
  "failed e \<longleftrightarrow> fst e = ''failure''"

definition fire_instants :: "sample_log \<Rightarrow> int list" where
  "fire_instants log = map (\<lambda>e. snd (snd e)) (filter fired log)"

text \<open>What holds of the log and the row after any run.\<close>

definition run_inv :: "alert_spec \<Rightarrow> sample_log \<Rightarrow> alert_rule_state option \<Rightarrow> bool" where
  "run_inv spec log current \<longleftrightarrow>
     (let b = base_of current in
      rb_fail b = int (length (takeWhile failed log)) \<and>
      rb_revision b = int (length log) \<and>
      rb_state b \<in> {''inactive'', ''firing'', ''resolved''} \<and>
      (case fire_instants log of
         [] \<Rightarrow> rb_cooldown b = None
       | u # _ \<Rightarrow> valid_instant (u + sp_cooldown spec * 1000000) \<and>
           rb_cooldown b = Some (stamp_of (u + sp_cooldown spec * 1000000))) \<and>
      sorted_wrt (\<lambda>v u. (u + sp_cooldown spec * 1000000) div 1000 \<le> v div 1000) (fire_instants log) \<and>
      (\<forall>newer e older. log = newer @ e # older \<longrightarrow> fired e \<longrightarrow>
         sp_failures spec \<le> int (length (takeWhile failed (e # older)))))"

lemma run_inv_start: "run_inv spec [] None"
  by (simp add: run_inv_def base_of_def fire_instants_def Let_def)

lemma base_of_persisted: "base_of (Some (persisted spec up)) = \<lparr>rb_state = up_state up,
    rb_fail = up_fail up, rb_success = up_success up, rb_cooldown = up_cooldown_until up,
    rb_revision = up_revision up, rb_last_transition = up_last_transition up\<rparr>"
  by (simp add: base_of_def persisted_def)

lemma run_inv_step:
  assumes inv: "run_inv spec log current" and cd: "0 \<le> sp_cooldown spec"
    and ev: "evaluate_canary_state_rule en spec outcome trigger target (utc u) current = Inr ev"
  shows "run_inv spec ((outcome, ev_transition ev, u) # log) (Some (persisted spec (ev_update ev)))"
proof -
  define b where "b = base_of current"
  define e where "e = (outcome, ev_transition ev, u)"
  note facts = evaluate_Inr [OF ev, folded b_def]
  have old: "rb_fail b = int (length (takeWhile failed log))" "rb_revision b = int (length log)"
      "rb_state b \<in> {''inactive'', ''firing'', ''resolved''}"
      "sorted_wrt (\<lambda>v u. (u + sp_cooldown spec * 1000000) div 1000 \<le> v div 1000) (fire_instants log)"
      "\<And>newer e older. log = newer @ e # older \<Longrightarrow> fired e \<Longrightarrow>
         sp_failures spec \<le> int (length (takeWhile failed (e # older)))"
    using inv unfolding run_inv_def Let_def b_def by blast+
  have cooldown: "case fire_instants log of [] \<Rightarrow> rb_cooldown b = None
       | u # _ \<Rightarrow> valid_instant (u + sp_cooldown spec * 1000000) \<and>
           rb_cooldown b = Some (stamp_of (u + sp_cooldown spec * 1000000))"
    using inv unfolding run_inv_def Let_def b_def by blast
  have fail: "up_fail (ev_update ev) = int (length (takeWhile failed (e # log)))"
    using facts old(1) by (auto simp: next_fail_def failed_def e_def)
  have state: "up_state (ev_update ev) \<in> {''inactive'', ''firing'', ''resolved''}"
  proof (cases "ev_transition ev")
    case None
    from facts old(3) show ?thesis unfolding None by simp
  next
    case (Some t)
    from facts transition_of_cases [of spec outcome trigger "stamp_of u" b t]
    show ?thesis unfolding Some by auto
  qed
  have fire: "fired e \<longleftrightarrow> ev_transition ev = Some ''firing''" by (simp add: fired_def e_def)
  have guard: "sp_failures spec \<le> up_fail (ev_update ev) \<and>
      (case rb_cooldown b of None \<Rightarrow> True | Some c \<Rightarrow> c \<le> stamp_of u)" if "fired e"
    using that fire facts transition_of_cases [of spec outcome trigger "stamp_of u" b "''firing''"]
    by auto
  have gaps: "(x + sp_cooldown spec * 1000000) div 1000 \<le> u div 1000"
    if f: "fired e" and x: "x \<in> set (fire_instants log)" for x
  proof -
    obtain y ys where fi: "fire_instants log = y # ys"
      using x by (cases "fire_instants log") auto
    have y: "(y + sp_cooldown spec * 1000000) div 1000 \<le> u div 1000"
      using guard [OF f] cooldown fi facts by (simp add: stamp_of_le)
    show ?thesis
    proof (cases "x = y")
      case False
      then have "(x + sp_cooldown spec * 1000000) div 1000 \<le> y div 1000"
        using x old(4) fi by auto
      also have "\<dots> \<le> (y + sp_cooldown spec * 1000000) div 1000"
        using cd by (intro zdiv_mono1) simp_all
      finally show ?thesis using y by simp
    qed (use y in simp)
  qed
  have instants: "fire_instants (e # log) = (if fired e then u # fire_instants log else fire_instants log)"
    by (simp add: fire_instants_def e_def)
  have cool': "case fire_instants (e # log) of [] \<Rightarrow> up_cooldown_until (ev_update ev) = None
       | u # _ \<Rightarrow> valid_instant (u + sp_cooldown spec * 1000000) \<and>
           up_cooldown_until (ev_update ev) = Some (stamp_of (u + sp_cooldown spec * 1000000))"
  proof (cases "fired e")
    case True
    then have tr: "ev_transition ev = Some ''firing''" using fire by simp
    from facts show ?thesis unfolding tr using True instants by simp
  next
    case False
    then have tr: "ev_transition ev \<noteq> Some ''firing''" using fire by simp
    have "up_cooldown_until (ev_update ev) = rb_cooldown b"
    proof (cases "ev_transition ev")
      case None
      from facts show ?thesis unfolding None by simp
    next
      case (Some t)
      have "t \<noteq> ''firing''" using tr Some by simp
      with facts show ?thesis unfolding Some by simp
    qed
    then show ?thesis using False cooldown instants by (cases "fire_instants log") auto
  qed
  have thresholds: "sp_failures spec \<le> int (length (takeWhile failed (x # older)))"
    if "e # log = newer @ x # older" "fired x" for newer x older
    using that old(5) guard fail by (cases newer) auto
  show ?thesis
    unfolding run_inv_def e_def [symmetric] base_of_persisted Let_def rule_base.select_convs
  proof (intro conjI)
    show "up_revision (ev_update ev) = int (length (e # log))" using facts old(2) by simp
    show "sorted_wrt (\<lambda>v u. (u + sp_cooldown spec * 1000000) div 1000 \<le> v div 1000)
        (fire_instants (e # log))"
      using instants gaps old(4) by auto
  qed (use fail state cool' thresholds in blast)+
qed

lemma run_samples_inv:
  "0 \<le> sp_cooldown spec \<Longrightarrow> run_samples en spec target xs = (log, current) \<Longrightarrow> run_inv spec log current"
proof (induction xs arbitrary: log current rule: rev_induct)
  case Nil
  then show ?case by (simp add: run_samples_def run_inv_start)
next
  case (snoc x xs)
  obtain l c where lc: "run_samples en spec target xs = (l, c)" by fastforce
  obtain outcome trigger u where x: "x = (outcome, trigger, u)" by (cases x) auto
  have "apply_sample en spec target (l, c) x = (log, current)"
    using snoc.prems(2) lc by (simp add: run_samples_def)
  then show ?case
    using snoc.IH [OF snoc.prems(1) lc] run_inv_step [OF _ snoc.prems(1), of l c]
    by (auto simp: apply_sample_def x split: sum.splits)
qed

section \<open>Properties\<close>

text \<open>
  The alert state machine: an evaluation changes the state exactly when it emits a draft, only along
  inactive to firing, firing to resolved and resolved to firing; the draft carries the edge, the
  next revision, the severity of the new state and exactly the triggering record as evidence, and
  the update expects the revision that was read.
\<close>

theorem alert_edges:
  assumes "evaluate_canary_state_rule en spec outcome trigger target (utc u) current = Inr ev"
    and "rb_state (base_of current) \<in> {''inactive'', ''firing'', ''resolved''}"
  shows "up_expected_revision (ev_update ev) = rb_revision (base_of current) \<and>
    up_revision (ev_update ev) = rb_revision (base_of current) + 1 \<and>
    (case ev_draft ev of
       None \<Rightarrow> up_state (ev_update ev) = rb_state (base_of current)
     | Some d \<Rightarrow>
         (rb_state (base_of current), up_state (ev_update ev)) \<in>
           {(''inactive'', ''firing''), (''firing'', ''resolved''), (''resolved'', ''firing'')} \<and>
         ad_previous d = rb_state (base_of current) \<and> ad_state d = up_state (ev_update ev) \<and>
         ad_revision d = up_revision (ev_update ev) \<and>
         ad_severity d = severity_by_state (up_state (ev_update ev)) \<and>
         (\<exists>r. trigger = Some r \<and> ad_evidence d = [r]))"
proof (cases "ev_transition ev")
  case None
  show ?thesis using evaluate_Inr [OF assms(1)] unfolding None by simp
next
  case (Some t)
  let ?b = "base_of current"
  note facts = evaluate_Inr [OF assms(1)]
  have t: "transition_of spec outcome trigger (stamp_of u) ?b = Some t"
    using facts Some by simp
  obtain d where d: "ev_draft ev = Some d" "ad_previous d = rb_state ?b" "ad_state d = t"
      "ad_revision d = rb_revision ?b + 1" "Some (hd (ad_evidence d)) = trigger"
      "length (ad_evidence d) = 1" "ad_severity d = severity_by_state t"
      "up_state (ev_update ev) = t"
    using facts unfolding Some by auto
  have "ad_evidence d = [hd (ad_evidence d)]" using d(6) by (cases "ad_evidence d") auto
  then show ?thesis
    using facts Some d transition_of_cases [OF t] assms(2) by auto
qed

text \<open>C21
  Cooldown: in any run of samples from a fresh rule, whatever their outcomes and instants, two
  firing transitions are at least the configured cooldown apart, to the millisecond.
\<close>

theorem alert_firings_spaced:
  assumes "0 \<le> sp_cooldown spec" "run_samples en spec target xs = (log, current)"
  shows "sorted_wrt (\<lambda>later earlier. (earlier + sp_cooldown spec * 1000000) div 1000 \<le> later div 1000)
    (fire_instants log)"
  using run_samples_inv [OF assms] by (simp add: run_inv_def Let_def)

text \<open>C22
  Threshold: in any run, when a sample fires the rule, that sample and the ones applied just before
  it, the configured number of consecutive failures in all, were failures without interruption.
\<close>

theorem alert_fires_after_consecutive_failures:
  assumes "0 \<le> sp_cooldown spec" "run_samples en spec target xs = (log, current)"
    and "log = newer @ e # older" "fired e" "1 \<le> sp_failures spec"
  shows "nat (sp_failures spec) \<le> length (e # older) \<and>
    (\<forall>s \<in> set (take (nat (sp_failures spec)) (e # older)). failed s)"
proof -
  have "sp_failures spec \<le> int (length (takeWhile failed (e # older)))"
    using run_samples_inv [OF assms(1,2)] assms(3,4) unfolding run_inv_def Let_def by blast
  then have n: "nat (sp_failures spec) \<le> length (takeWhile failed (e # older))" by simp
  have "take (nat (sp_failures spec)) (e # older) = take (nat (sp_failures spec)) (takeWhile failed (e # older))"
    using n by (metis append_take_drop_id length_takeWhile_le take_append takeWhile_eq_take
        diff_is_0_eq' take0 append_Nil2 length_take min.absorb_iff2 takeWhile_dropWhile_id)
  then have "\<forall>s \<in> set (take (nat (sp_failures spec)) (e # older)). failed s"
    using set_takeWhileD by (metis in_set_takeD)
  then show ?thesis using n length_takeWhile_le [of failed "e # older"] by linarith
qed

section \<open>A concrete run\<close>

text \<open>A rule that fires on its first failure, with a ten-minute cooldown; one failing sample.\<close>

definition demo_env :: alert_env where
  "demo_env = \<lparr>en_sha = \<lambda>_. ''x'', en_sha_hex = \<lambda>_. replicate 64 (CHR ''0''),
     en_nfc = id, en_accepts = \<lambda>_. True\<rparr>"

definition demo_spec :: alert_spec where
  "demo_spec = \<lparr>sp_rule_id = ''r'', sp_rule_version = 1, sp_collector = ''c'', sp_failures = 1,
     sp_successes = 1, sp_cooldown = 600\<rparr>"

definition demo_at :: int where "demo_at = 63887788800000000"

lemma demo_stamp: "stamp_of demo_at = ''2025-07-11T00:00:00.000Z''"
  by (simp add: demo_at_def stamp_eval)

lemma demo_valid: "valid_instant demo_at" "valid_instant (demo_at + 600 * 1000000)"
    "valid_instant (demo_at + 31536000 * 1000000)"
  by (simp_all add: demo_at_def valid_instant_def datetime_limit_def us_per_day_def)

definition demo_key :: string where
  "demo_key = ''mh_ak1_'' @ base32_digest (''x'')"

definition demo_observation :: observation where
  "demo_observation = \<lparr>ob_kind = ''alert.canary_state.transition'', ob_parts =
     [(''rule'', Part_Str ''r''), (''rule_version'', Part_Int 1), (''target'', Part_Str ''t''),
      (''scheduled_at'', Part_Str ''2025-07-11T00:00:00.000Z''), (''state'', Part_Str ''firing'')]\<rparr>"

lemma demo_texts:
  "require_alert_text ''c'' = Inr ''c''" "require_alert_text ''r'' = Inr ''r''"
  "require_alert_text ''t'' = Inr ''t''" "require_alert_version 1 = Inr 1"
  "require_alert_text ''inactive'' = Inr ''inactive''" "require_alert_text ''firing'' = Inr ''firing''"
  "require_alert_text demo_key = Inr demo_key"
  by code_simp+

lemma demo_canonical:
  "\<not> isl (canonical_json_bytes id default_max_depth default_max_nodes default_max_bytes
      (P_Dict [(''collector'', P_Str ''c''), (''rule_id'', P_Str ''r''), (''rule_version'', P_Int 1),
               (''target'', P_Str ''t'')]))"
  "\<not> isl (canonical_json_bytes id default_max_depth default_max_nodes default_max_bytes
      (P_Dict [(''alert_key'', P_Str demo_key), (''observation'', observation_value demo_observation),
               (''previous_state'', P_Str ''inactive''), (''state'', P_Str ''firing'')]))"
  by code_simp+

lemma demo_derive_key:
  "derive_alert_key (en_sha demo_env) (en_nfc demo_env) ''r'' 1 ''c'' ''t'' = Inr demo_key"
  using demo_canonical(1)
  by (auto simp: derive_alert_key_def demo_texts domain_digest_def demo_env_def NUL_def demo_key_def
      split: sum.splits)

lemma demo_derive_transition:
  "derive_transition_id (en_sha demo_env) (en_nfc demo_env) demo_key ''inactive'' ''firing'' demo_observation
     = Inr (''mh_atr1_'' @ base32_digest (''x''))"
  using demo_canonical(2)
  by (auto simp: derive_transition_id_def demo_texts domain_digest_def demo_env_def NUL_def
      split: sum.splits)

lemma demo_coordinate:
  "transition_observation demo_spec ''t'' ''2025-07-11T00:00:00.000Z'' ''firing'' = Inr demo_observation"
  by code_simp

lemma demo_format: "format_timestamp (utc demo_at) = Inr ''2025-07-11T00:00:00.000Z''"
  by (simp add: format_utc_Inr demo_valid demo_stamp)

lemma demo_fires:
  "\<exists>ev. evaluate_canary_state_rule demo_env demo_spec ''failure'' (Some ''rec'') ''t'' (utc demo_at) None = Inr ev
     \<and> ev_transition ev = Some ''firing''"
proof -
  have base: "base_of None = \<lparr>rb_state = ''inactive'', rb_fail = 0, rb_success = 0, rb_cooldown = None,
      rb_revision = 0, rb_last_transition = None\<rparr>" by (simp add: base_of_def)
  have tr: "transition_of demo_spec ''failure'' (Some ''rec'') st (base_of None) = Some ''firing''" for st
    by (simp add: transition_of_def base next_fail_def demo_spec_def)
  have later: "datetime_add (utc demo_at) (sp_cooldown demo_spec) = Inr (utc (demo_at + 600 * 1000000))"
      "datetime_add (utc demo_at) 31536000 = Inr (utc (demo_at + 31536000 * 1000000))"
    using demo_valid by (auto simp: datetime_add_utc demo_spec_def)
  have cool: "format_timestamp (utc (demo_at + 600000000)) = Inr (stamp_of (demo_at + 600000000))"
    using demo_valid(2) by (simp add: format_utc_Inr)
  have spec: "sp_rule_id demo_spec = ''r''" "sp_rule_version demo_spec = 1" "sp_collector demo_spec = ''c''"
    by (simp_all add: demo_spec_def)
  have state: "rb_state (base_of None) = ''inactive''" by (simp add: base)
  have accepts: "en_accepts demo_env d" for d by (simp add: demo_env_def)
  have "\<not> isl (evaluate_canary_state_rule demo_env demo_spec ''failure'' (Some ''rec'') ''t''
      (utc demo_at) None)"
    by (simp add: evaluate_canary_state_rule_def demo_format tr later cool spec state demo_derive_key
        demo_coordinate demo_derive_transition make_alert_draft_def accepts Let_def)
  then obtain ev where ev: "evaluate_canary_state_rule demo_env demo_spec ''failure'' (Some ''rec'') ''t''
      (utc demo_at) None = Inr ev"
    by (metis isl_def sum.exhaust_sel)
  then show ?thesis using evaluate_Inr [OF ev] tr by auto
qed

lemma demo_run:
  obtains current where "run_samples demo_env demo_spec ''t'' [(''failure'', Some ''rec'', demo_at)] =
     ([(''failure'', Some ''firing'', demo_at)], current)"
  using demo_fires by (auto simp: run_samples_def apply_sample_def)

theorem alert_edges_witness:
  "\<exists>ev d. evaluate_canary_state_rule demo_env demo_spec ''failure'' (Some ''rec'') ''t'' (utc demo_at) None = Inr ev
     \<and> ev_draft ev = Some d \<and> (ad_previous d, ad_state d) = (''inactive'', ''firing'')"
proof -
  obtain ev where ev: "evaluate_canary_state_rule demo_env demo_spec ''failure'' (Some ''rec'') ''t''
      (utc demo_at) None = Inr ev" "ev_transition ev = Some ''firing''"
    using demo_fires by blast
  have "up_state (ev_update ev) = ''firing''" using evaluate_Inr [OF ev(1)] unfolding ev(2) by simp
  then show ?thesis
    using alert_edges [OF ev(1)] ev(1) by (auto simp: base_of_def split: option.splits)
qed

theorem alert_firings_spaced_witness:
  "\<exists>log current. run_samples demo_env demo_spec ''t'' [(''failure'', Some ''rec'', demo_at)] = (log, current)
     \<and> fire_instants log = [demo_at]
     \<and> sorted_wrt (\<lambda>later earlier. (earlier + 600 * 1000000) div 1000 \<le> later div 1000) (fire_instants log)"
proof -
  obtain c where run: "run_samples demo_env demo_spec ''t'' [(''failure'', Some ''rec'', demo_at)] =
      ([(''failure'', Some ''firing'', demo_at)], c)" by (rule demo_run)
  have "0 \<le> sp_cooldown demo_spec" "sp_cooldown demo_spec = 600" by (simp_all add: demo_spec_def)
  with alert_firings_spaced [OF _ run] run show ?thesis
    by (simp add: fire_instants_def fired_def)
qed

theorem alert_fires_after_consecutive_failures_witness:
  "failed (''failure'', Some ''firing'', demo_at)"
proof -
  obtain c where run: "run_samples demo_env demo_spec ''t'' [(''failure'', Some ''rec'', demo_at)] =
      ([(''failure'', Some ''firing'', demo_at)], c)" by (rule demo_run)
  have "0 \<le> sp_cooldown demo_spec" "sp_failures demo_spec = 1" by (simp_all add: demo_spec_def)
  with alert_fires_after_consecutive_failures [OF _ run, of "[]" "(''failure'', Some ''firing'', demo_at)" "[]"]
  show ?thesis by (simp add: fired_def)
qed

end
