(* ===== verification/Egress.thy ===== *)
theory Egress
  imports Prelude
begin

text \<open>
  \<^verbatim>\<open>src/milhouse/privacy/egress.py\<close>: the fail-closed matrix every persistence and output boundary
  asks before it writes. The class is the caller's text; an allowlist is a list, read as a set.
\<close>

datatype surface =
    Local_Spool | Local_Sqlite | Local_Clickhouse | Cli_Query | Local_Mcp | Repo_Brief | Telegram
  | Github_Issues | Hosted_Clickhouse | Diagnostics | Local_Log

datatype disposition = Redacted_Record | Policy_Filtered_Summary | Metadata | Redacted_Metadata

definition privacy_classes :: "string list" where
  "privacy_classes = [''public'', ''internal'', ''sensitive'', ''restricted'']"

definition external_surfaces :: "surface list" where
  "external_surfaces = [Telegram, Github_Issues, Hosted_Clickhouse]"

fun class_ceiling :: "surface \<Rightarrow> string list" where
  "class_ceiling Telegram = [''public'', ''internal'']"
| "class_ceiling Github_Issues = [''public'', ''internal'']"
| "class_ceiling Hosted_Clickhouse = [''public'', ''internal'', ''sensitive'']"
| "class_ceiling _ = []"

fun matrix :: "surface \<Rightarrow> (string \<times> disposition) list" where
  "matrix Local_Spool =
     [(''public'', Redacted_Record), (''internal'', Redacted_Record), (''sensitive'', Redacted_Record)]"
| "matrix Local_Sqlite =
     [(''public'', Redacted_Record), (''internal'', Redacted_Record), (''sensitive'', Redacted_Record)]"
| "matrix Local_Clickhouse =
     [(''public'', Redacted_Record), (''internal'', Redacted_Record), (''sensitive'', Redacted_Record)]"
| "matrix Cli_Query =
     [(''public'', Redacted_Record), (''internal'', Redacted_Record),
      (''sensitive'', Policy_Filtered_Summary)]"
| "matrix Local_Mcp =
     [(''public'', Redacted_Record), (''internal'', Redacted_Record),
      (''sensitive'', Policy_Filtered_Summary)]"
| "matrix Repo_Brief =
     [(''public'', Policy_Filtered_Summary), (''internal'', Policy_Filtered_Summary)]"
| "matrix Telegram =
     [(''public'', Policy_Filtered_Summary), (''internal'', Policy_Filtered_Summary)]"
| "matrix Github_Issues =
     [(''public'', Policy_Filtered_Summary), (''internal'', Policy_Filtered_Summary)]"
| "matrix Hosted_Clickhouse =
     [(''public'', Redacted_Record), (''internal'', Redacted_Record), (''sensitive'', Redacted_Record)]"
| "matrix Diagnostics = [(''public'', Metadata), (''internal'', Redacted_Metadata)]"
| "matrix Local_Log = [(''public'', Metadata), (''internal'', Redacted_Metadata)]"

definition validate_privacy_class :: "string \<Rightarrow> string res" where
  "validate_privacy_class v =
     (if v \<in> set privacy_classes then Inr v else Inl (Privacy_Error ''MH_EGRESS_PRIVACY_CLASS''))"

definition validate_allowlist :: "string list \<Rightarrow> string list res" where
  "validate_allowlist vs = map_res validate_privacy_class vs"

definition require_egress :: "surface \<Rightarrow> string \<Rightarrow> bool \<Rightarrow> string list \<Rightarrow> disposition res" where
  "require_egress surface privacy_class explicitly_enabled allowed =
     bind_res (validate_privacy_class privacy_class) (\<lambda>classification.
     if classification = ''restricted'' then Inl (Privacy_Error ''MH_EGRESS_RESTRICTED'')
     else bind_res (validate_allowlist allowed) (\<lambda>allowlist.
       let is_external = surface \<in> set external_surfaces
       in if \<not> is_external \<and> (explicitly_enabled \<or> allowlist \<noteq> [])
          then Inl (Privacy_Error ''MH_EGRESS_POLICY'')
          else if is_external \<and> \<not> set allowlist \<subseteq> set (class_ceiling surface)
          then Inl (Privacy_Error ''MH_EGRESS_POLICY'')
          else if is_external \<and> \<not> explicitly_enabled then Inl (Privacy_Error ''MH_EGRESS_DISABLED'')
          else if is_external \<and> classification \<notin> set allowlist
          then Inl (Privacy_Error ''MH_EGRESS_NOT_ALLOWLISTED'')
          else case map_of (matrix surface) classification of
            None \<Rightarrow> Inl (Privacy_Error ''MH_EGRESS_CLASS_DENIED'')
          | Some d \<Rightarrow> Inr d))"

lemma validate_allowlist_Inr: "validate_allowlist vs = Inr ws \<Longrightarrow> ws = vs \<and> set vs \<subseteq> set privacy_classes"
  unfolding validate_allowlist_def
  by (induction vs arbitrary: ws) (auto simp: bind_res_eq_Inr validate_privacy_class_def split: if_splits)

text \<open>What an authorisation implies about each of its arguments.\<close>

lemma require_egress_Inr:
  "require_egress sf pc en al = Inr d \<Longrightarrow>
     pc \<in> {''public'', ''internal'', ''sensitive''} \<and> map_of (matrix sf) pc = Some d \<and>
     (if sf \<in> set external_surfaces then en \<and> pc \<in> set al \<and> set al \<subseteq> set (class_ceiling sf)
      else \<not> en \<and> al = [])"
  by (auto simp: require_egress_def bind_res_eq_Inr Let_def validate_privacy_class_def privacy_classes_def
      dest!: validate_allowlist_Inr split: if_splits option.splits)

definition leaves_host :: "surface \<Rightarrow> bool" where
  "leaves_host sf \<longleftrightarrow> sf \<in> {Repo_Brief, Telegram, Github_Issues, Diagnostics, Local_Log}"

text \<open>
  Confidentiality of the egress matrix: whatever flags and allowlist a caller passes, an
  authorisation is never for restricted data, never for sensitive data in a brief, a telegram or
  issue notification, diagnostics or a log, and for an external surface only when it was enabled and
  its allowlist names the class without going beyond the surface's ceiling.
\<close>

theorem egress_confidential:
  assumes "require_egress sf pc en al = Inr d"
  shows "pc \<noteq> ''restricted'' \<and> (leaves_host sf \<longrightarrow> pc \<noteq> ''sensitive'') \<and>
    (sf \<in> set external_surfaces \<longrightarrow> en \<and> pc \<in> set al \<and> set al \<subseteq> set (class_ceiling sf))"
  using require_egress_Inr [OF assms] by (auto simp: leaves_host_def split: if_splits)

theorem egress_confidential_witness:
  "require_egress Telegram ''internal'' True [''internal''] = Inr Policy_Filtered_Summary \<and>
   ''internal'' \<noteq> ''restricted''"
proof -
  have "require_egress Telegram ''internal'' True [''internal''] = Inr Policy_Filtered_Summary"
    by code_simp
  with egress_confidential [OF this] show ?thesis by blast
qed

end
