(* ===== verification/Ledger.thy ===== *)
theory Ledger
  imports Control_Db Egress
begin

text \<open>
  \<^verbatim>\<open>src/milhouse/spooling/ledger.py\<close> and the value checks of \<^verbatim>\<open>spooling/segment.py\<close>: the
  segment ledger rows, their semantic validation, and the primitives commit, reconciliation,
  delivery and retention share. A stored row is read back in primary-key order, exporters in
  identifier order. \<open>insert_read_roundtrip\<close> is the contract the callers rely on.
\<close>

section \<open>Segment headers\<close>

definition max_retention_days :: int where "max_retention_days = 3650"

definition validate_batch_id :: "string \<Rightarrow> unit res" where
  "validate_batch_id v = check_res (token_match 127 v) (Spool_Error ''MH_SPOOL_BATCH_ID'')"

definition validate_positive_sequence :: "int \<Rightarrow> unit res" where
  "validate_positive_sequence n = check_res (0 < n \<and> n \<le> max_int64) (Spool_Error ''MH_SPOOL_SEQUENCE'')"

record segment_header =
  hd_batch :: string
  hd_config_generation :: string
  hd_scope :: string
  hd_target :: "string option"
  hd_privacy :: string
  hd_retention_days :: int
  hd_exporters :: "string list"
  hd_record_count :: int
  hd_content_sha256 :: string

text \<open>\<^verbatim>\<open>SegmentHeaderV1.__post_init__\<close>, check by check in the code's order.\<close>

definition header_init :: "segment_header \<Rightarrow> segment_header res" where
  "header_init h =
     bind_res (validate_batch_id (hd_batch h)) (\<lambda>_.
     bind_res (check_res (is_sha256_hex (hd_config_generation h)) (Spool_Error ''MH_SPOOL_CONFIG_GENERATION'')) (\<lambda>_.
     bind_res (check_res (hd_scope h \<in> {''installation'', ''target''}) (Spool_Error ''MH_SPOOL_SCOPE'')) (\<lambda>_.
     bind_res (check_res (if hd_scope h = ''target''
         then (case hd_target h of None \<Rightarrow> False | Some t \<Rightarrow> token_match 255 t)
         else hd_target h = None) (Spool_Error ''MH_SPOOL_TARGET'')) (\<lambda>_.
     bind_res (check_res (hd_privacy h \<in> {''public'', ''internal'', ''sensitive''}) (Spool_Error ''MH_SPOOL_PRIVACY'')) (\<lambda>_.
     bind_res (check_res (0 < hd_retention_days h \<and> hd_retention_days h \<le> max_retention_days)
         (Spool_Error ''MH_SPOOL_RETENTION'')) (\<lambda>_.
     bind_res (check_res (list_all (token_match 63) (hd_exporters h)) (Spool_Error ''MH_SPOOL_EXPORTERS'')) (\<lambda>_.
     bind_res (check_res (hd_exporters h = sorted_list_of_set (set (hd_exporters h)))
         (Spool_Error ''MH_SPOOL_EXPORTERS'')) (\<lambda>_.
     bind_res (check_res (0 \<le> hd_record_count h \<and> hd_record_count h \<le> max_int64)
         (Spool_Error ''MH_SPOOL_COUNT'')) (\<lambda>_.
     bind_res (check_res (is_sha256_hex (hd_content_sha256 h)) (Spool_Error ''MH_SPOOL_DIGEST'')) (\<lambda>_.
     Inr h))))))))))"

section \<open>Ledger records\<close>

record exporter_delivery =
  xd_exporter :: string
  xd_status :: string

text \<open>A \<^verbatim>\<open>SegmentRecord\<close>: the row's columns and its deliveries.\<close>

record segment_record =
  sr_row :: segment_row
  sr_exporters :: "exporter_delivery list"

definition delivery_states :: "string list" where
  "delivery_states = [''pending'', ''delivered'', ''failed'']"

text \<open>\<^verbatim>\<open>datetime.strptime(day, "%Y-%m-%d")\<close>: one or two digits for month and day, a real date.
  What else \<^verbatim>\<open>strptime\<close> tolerates (a blank before the day) fails the stamp check that follows it.\<close>

fun digits_to_nat :: "nat \<Rightarrow> string \<Rightarrow> nat" where
  "digits_to_nat a [] = a"
| "digits_to_nat a (c # cs) = digits_to_nat (10 * a + (of_char c - 48)) cs"

definition split_dash :: "string \<Rightarrow> string \<times> string" where
  "split_dash s = (takeWhile (\<lambda>c. c \<noteq> CHR ''-'') s, drop 1 (dropWhile (\<lambda>c. c \<noteq> CHR ''-'') s))"

definition is_date :: "string \<Rightarrow> bool" where
  "is_date s \<longleftrightarrow>
     (let (y, r) = split_dash s; (m, d) = split_dash r;
          yn = digits_to_nat 0 y; mn = digits_to_nat 0 m; dn = digits_to_nat 0 d
      in length y = 4 \<and> list_all is_digit y \<and> 1 \<le> yn
       \<and> 1 \<le> length m \<and> length m \<le> 2 \<and> list_all is_digit m \<and> 1 \<le> mn \<and> mn \<le> 12
       \<and> 1 \<le> length d \<and> length d \<le> 2 \<and> list_all is_digit d \<and> 1 \<le> dn
       \<and> int dn \<le> month_lengths (int yn) ! (mn - 1))"

text \<open>The \<^verbatim>\<open>_STAMP\<close> pattern: digits and the fixed separators, 24 characters in all.\<close>

definition stamp_shape :: string where
  "stamp_shape = ''0000-00-00T00:00:00.000Z''"

definition is_stamp :: "string \<Rightarrow> bool" where
  "is_stamp s \<longleftrightarrow> length s = 24 \<and>
     list_all2 (\<lambda>p c. if p = CHR ''0'' then is_digit c else c = p) stamp_shape s"

definition validated_segment :: "segment_row \<Rightarrow> exporter_delivery list \<Rightarrow> segment_record res" where
  "validated_segment r exporters =
     (if token_match 127 (sg_batch r) \<and> is_date (sg_day r)
       \<and> sg_schema_version r = 1 \<and> sg_frame_version r = 1
       \<and> is_sha256_hex (sg_config_generation r)
       \<and> sg_scope r \<in> {''installation'', ''target''}
       \<and> (sg_scope r = ''target'') = (sg_target r \<noteq> None)
       \<and> sg_privacy r \<in> {''public'', ''internal'', ''sensitive''}
       \<and> 1 \<le> sg_retention_days r \<and> sg_retention_days r \<le> 3650
       \<and> 0 \<le> sg_record_count r \<and> 0 < sg_byte_size r
       \<and> is_sha256_hex (sg_content_sha256 r) \<and> is_sha256_hex (sg_file_sha256 r)
       \<and> is_stamp (sg_committed_at r) \<and> take 10 (sg_committed_at r) = sg_day r
       \<and> sg_origin r \<in> {''committed'', ''reconciled''}
      then Inr \<lparr>sr_row = r, sr_exporters = exporters\<rparr> else Inl Value_Error)"

definition exporters_of :: "string \<Rightarrow> tables \<Rightarrow> exporter_row list" where
  "exporters_of b t = sort_key ex_exporter (filter (\<lambda>e. ex_batch e = b) (seg_exporters t))"

definition checked_exporter :: "exporter_row \<Rightarrow> exporter_delivery res" where
  "checked_exporter e =
     (if token_match 63 (ex_exporter e) \<and> ex_status e \<in> set delivery_states
      then Inr \<lparr>xd_exporter = ex_exporter e, xd_status = ex_status e\<rparr> else Inl Value_Error)"

definition load_exporters :: "string \<Rightarrow> ('a control_scheme, exporter_delivery list) prog" where
  "load_exporters b = andthen (select [] (exporters_of b)) (\<lambda>rows.
     lift_res (map_res checked_exporter rows))"

definition find_segment :: "string \<Rightarrow> tables \<Rightarrow> segment_row option" where
  "find_segment b t = find (\<lambda>r. sg_batch r = b) (segments t)"

text \<open>\<^verbatim>\<open>except (sqlite3.Error, StateError, ValueError, TypeError)\<close>.\<close>

definition ledger_caught :: "py_exc \<Rightarrow> bool" where
  "ledger_caught e \<longleftrightarrow>
     (case e of Sqlite_Error \<Rightarrow> True | State_Error _ \<Rightarrow> True | Value_Error \<Rightarrow> True | Type_Error \<Rightarrow> True
      | _ \<Rightarrow> False)"

definition load_record :: "segment_row \<Rightarrow> ('a control_scheme, segment_record) prog" where
  "load_record r = andthen (load_exporters (sg_batch r)) (\<lambda>xs. lift_res (validated_segment r xs))"

definition read_segment_record ::
  "string \<Rightarrow> ('a control_scheme, segment_record option) prog" where
  "read_segment_record b =
     normalise ledger_caught (Spool_Error ''MH_SPOOL_LEDGER'')
       (andthen db_connection (\<lambda>_.
        andthen (select [] (find_segment b)) (\<lambda>row.
        case row of
          None \<Rightarrow> ret None
        | Some r \<Rightarrow> andthen (load_record r) (\<lambda>rec. ret (Some rec)))))"

definition segment_rows :: "string option \<Rightarrow> tables \<Rightarrow> segment_row list" where
  "segment_rows status t = sort_key sg_batch
     (case status of
        None \<Rightarrow> segments t
      | Some st \<Rightarrow> filter (\<lambda>r. list_ex (\<lambda>e. ex_batch e = sg_batch r \<and> ex_status e = st) (seg_exporters t))
          (segments t))"

definition list_segment_records ::
  "string option \<Rightarrow> ('a control_scheme, segment_record list) prog" where
  "list_segment_records status =
     normalise ledger_caught (Spool_Error ''MH_SPOOL_LEDGER'')
       (andthen db_connection (\<lambda>_.
        andthen (select [] (segment_rows status)) (for_each load_record)))"

text \<open>The two \<^verbatim>\<open>INSERT\<close>s with their keys, foreign key and \<^verbatim>\<open>CHECK\<close>s.\<close>

definition insert_segment :: "segment_row \<Rightarrow> ('a control_scheme, unit) prog" where
  "insert_segment r = sql
     [sg_schema_version r, sg_frame_version r, sg_retention_days r, sg_record_count r, sg_byte_size r]
     (\<lambda>t. if segment_check r \<and> sg_batch r \<notin> set (map sg_batch (segments t))
          then Some ((), t\<lparr>segments := segments t @ [r]\<rparr>) else None)"

definition insert_exporter :: "string \<Rightarrow> exporter_delivery \<Rightarrow> ('a control_scheme, unit) prog" where
  "insert_exporter b x = sql [] (\<lambda>t.
     let e = \<lparr>ex_batch = b, ex_exporter = xd_exporter x, ex_status = xd_status x\<rparr>
     in if exporter_check e \<and> b \<in> set (map sg_batch (segments t))
          \<and> (b, xd_exporter x) \<notin> set (map (\<lambda>e. (ex_batch e, ex_exporter e)) (seg_exporters t))
        then Some ((), t\<lparr>seg_exporters := seg_exporters t @ [e]\<rparr>) else None)"

definition insert_segment_row :: "segment_record \<Rightarrow> ('a control_scheme, unit) prog" where
  "insert_segment_row rec =
     andthen (insert_segment (sr_row rec)) (\<lambda>_.
     andthen (for_each (insert_exporter (sg_batch (sr_row rec))) (sr_exporters rec)) (\<lambda>_. ret ()))"

text \<open>The policy boundary every persistence path crosses.\<close>

definition authorize_local_persistence :: "string \<Rightarrow> unit res" where
  "authorize_local_persistence pc =
     (case map_res (\<lambda>sf. require_egress sf pc False []) [Local_Spool, Local_Sqlite] of
        Inl _ \<Rightarrow> Inl (Spool_Error ''MH_SPOOL_EGRESS'')
      | Inr ds \<Rightarrow> (if list_ex (\<lambda>d. d \<noteq> Redacted_Record) ds then Inl (Spool_Error ''MH_SPOOL_EGRESS'')
                  else Inr ()))"

lemma authorize_local_persistence_Inr:
  "authorize_local_persistence pc = Inr u \<longleftrightarrow> pc \<in> {''public'', ''internal'', ''sensitive''}"
  by (auto simp: authorize_local_persistence_def require_egress_def validate_privacy_class_def
      privacy_classes_def validate_allowlist_def external_surfaces_def split: if_splits)

section \<open>Referential integrity\<close>

text \<open>What the keys, foreign keys and \<^verbatim>\<open>CHECK\<close>s of the ledger tables promise together.\<close>

definition ledger_wf :: "tables \<Rightarrow> bool" where
  "ledger_wf t \<longleftrightarrow>
     distinct (map sg_batch (segments t)) \<and> list_all segment_check (segments t) \<and>
     distinct (map (\<lambda>e. (ex_batch e, ex_exporter e)) (seg_exporters t)) \<and>
     list_all exporter_check (seg_exporters t) \<and>
     (\<forall>e \<in> set (seg_exporters t). ex_batch e \<in> set (map sg_batch (segments t))) \<and>
     (\<forall>c \<in> set (cursors t). \<forall>b. cr_batch (snd c) = Some b \<longrightarrow> b \<in> set (map sg_batch (segments t)))"

lemma ledger_wf_empty: "ledger_wf empty_tables"
  by (simp add: ledger_wf_def empty_tables_def)

lemma insert_segment_wf: "db_keeps ledger_wf (insert_segment r)"
  unfolding insert_segment_def
  by (rule db_keeps_sql) (auto simp: ledger_wf_def split: if_splits)

lemma insert_exporter_wf: "db_keeps ledger_wf (insert_exporter b x)"
  unfolding insert_exporter_def
  by (rule db_keeps_sql) (auto simp: ledger_wf_def Let_def split: if_splits)

lemma insert_segment_row_wf: "db_keeps ledger_wf (insert_segment_row rec)"
  unfolding insert_segment_row_def
  by (intro keeps_andthen keeps_for_each keeps_ret insert_segment_wf insert_exporter_wf db_rel_order)

section \<open>Reading back what was inserted\<close>

definition delivery_row :: "string \<Rightarrow> exporter_delivery \<Rightarrow> exporter_row" where
  "delivery_row b x = \<lparr>ex_batch = b, ex_exporter = xd_exporter x, ex_status = xd_status x\<rparr>"

lemma insert_segment_Inr:
  "insert_segment r s = (Inr u, s') \<Longrightarrow>
     segment_check r \<and> sg_batch r \<notin> set (map sg_batch (segments (db s))) \<and>
     db s' = (db s)\<lparr>segments := segments (db s) @ [r]\<rparr>"
  by (auto simp: insert_segment_def sql_Inr split: if_splits)

lemma insert_exporters_Inr:
  "for_each (insert_exporter b) xs s = (Inr us, s') \<Longrightarrow>
     db s' = (db s)\<lparr>seg_exporters := seg_exporters (db s) @ map (delivery_row b) xs\<rparr>"
  by (induction xs arbitrary: s us)
    (auto simp: andthen_Inr ret_def insert_exporter_def sql_Inr Let_def delivery_row_def split: if_splits)

lemma insert_segment_row_Inr:
  "insert_segment_row rec s = (Inr u, s') \<Longrightarrow>
     segment_check (sr_row rec) \<and> sg_batch (sr_row rec) \<notin> set (map sg_batch (segments (db s))) \<and>
     db s' = (db s)\<lparr>segments := segments (db s) @ [sr_row rec],
       seg_exporters := seg_exporters (db s) @ map (delivery_row (sg_batch (sr_row rec))) (sr_exporters rec)\<rparr>"
  by (auto simp: insert_segment_row_def andthen_Inr ret_def dest!: insert_segment_Inr insert_exporters_Inr)

lemma find_segment_Some:
  "distinct (map sg_batch (segments t)) \<Longrightarrow> r \<in> set (segments t) \<Longrightarrow> find_segment (sg_batch r) t = Some r"
proof -
  have "distinct (map sg_batch rs) \<Longrightarrow> r \<in> set rs \<Longrightarrow> find (\<lambda>x. sg_batch x = sg_batch r) rs = Some r" for rs
    by (induction rs) auto
  then show "distinct (map sg_batch (segments t)) \<Longrightarrow> r \<in> set (segments t) \<Longrightarrow>
      find_segment (sg_batch r) t = Some r"
    by (simp add: find_segment_def)
qed

lemma map_res_checked:
  "list_all (\<lambda>x. token_match 63 (xd_exporter x) \<and> xd_status x \<in> set delivery_states) xs \<Longrightarrow>
     map_res checked_exporter (map (delivery_row b) xs) = Inr xs"
  by (induction xs) (auto simp: checked_exporter_def delivery_row_def)

lemma read_found:
  assumes "find_segment b (db s) = Some r" "exporters_of b (db s) = map (delivery_row b) xs"
    "list_all (\<lambda>x. token_match 63 (xd_exporter x) \<and> xd_status x \<in> set delivery_states) xs"
    "validated_segment r xs = Inr rec" "sg_batch r = b" "\<not> db_closed s" "faults s = []"
  shows "read_segment_record b s = (Inr (Some rec), s)"
  using assms
  by (simp add: read_segment_record_def normalise_def handle_def andthen_def db_connection_def
      select_quiet load_record_def load_exporters_def lift_res_def map_res_checked ret_def)

text \<open>
  Round trip of the ledger: a valid record whose exporters are in identifier order, inserted into a
  ledger with referential integrity, is what reading its batch id returns, and integrity still holds.
\<close>

theorem insert_read_roundtrip:
  assumes "insert_segment_row rec s = (Inr u, s')" "ledger_wf (db s)"
    "validated_segment (sr_row rec) (sr_exporters rec) = Inr rec"
    "list_all (\<lambda>x. token_match 63 (xd_exporter x) \<and> xd_status x \<in> set delivery_states) (sr_exporters rec)"
    "sorted (map xd_exporter (sr_exporters rec))" "\<not> db_closed s'" "faults s' = []"
  shows "read_segment_record (sg_batch (sr_row rec)) s' = (Inr (Some rec), s') \<and> ledger_wf (db s')"
proof -
  let ?b = "sg_batch (sr_row rec)"
  note ins = insert_segment_row_Inr [OF assms(1)]
  have wf: "ledger_wf (db s')"
    using keepsD [OF insert_segment_row_wf assms(1)] assms(2) by simp
  have old: "filter (\<lambda>e. ex_batch e = ?b) (seg_exporters (db s)) = []"
    using assms(2) ins unfolding ledger_wf_def filter_empty_conv by metis
  have "sorted (map ex_exporter (map (delivery_row ?b) (sr_exporters rec)))"
    using assms(5) by (simp add: comp_def delivery_row_def)
  then have "exporters_of ?b (db s') = map (delivery_row ?b) (sr_exporters rec)"
    using ins old by (simp add: exporters_of_def sorted_sort_id filter_map comp_def delivery_row_def
        sort_key_id_if_sorted)
  moreover have "find_segment ?b (db s') = Some (sr_row rec)"
    using wf ins by (intro find_segment_Some) (simp_all add: ledger_wf_def)
  ultimately show ?thesis
    using assms(3,4,6,7) wf read_found [of ?b s' "sr_row rec" "sr_exporters rec" rec] by simp
qed

definition demo_record :: segment_record where
  "demo_record = \<lparr>sr_row = demo_segment,
     sr_exporters = [\<lparr>xd_exporter = ''ch'', xd_status = ''pending''\<rparr>]\<rparr>"

definition demo_ledger :: tables where
  "demo_ledger = empty_tables\<lparr>segments := [demo_segment], seg_exporters := [delivery_row ''b1'' (hd (sr_exporters demo_record))]\<rparr>"

lemma demo_checks:
  "validated_segment demo_segment (sr_exporters demo_record) = Inr demo_record"
  "segment_check demo_segment" "token_match 63 ''ch''"
  by code_simp+

lemma demo_insert:
  "insert_segment_row demo_record (fresh_control []) = (Inr (), (fresh_control [])\<lparr>db := demo_ledger\<rparr>)"
  by (simp add: insert_segment_row_def andthen_def insert_segment_def sql_cases fresh_control_def
      demo_record_def demo_checks insert_exporter_def exporter_check_def ret_def demo_ledger_def
      delivery_row_def empty_tables_def Let_def)
    (simp add: demo_segment_def in_int64_def min_int64_def max_int64_def)

theorem insert_read_roundtrip_witness:
  "read_segment_record ''b1'' ((fresh_control [])\<lparr>db := demo_ledger\<rparr>) =
     (Inr (Some demo_record), (fresh_control [])\<lparr>db := demo_ledger\<rparr>)"
proof -
  have "sg_batch (sr_row demo_record) = ''b1''" by (simp add: demo_record_def demo_segment_def)
  with insert_read_roundtrip [OF demo_insert] show ?thesis
    using demo_checks ledger_wf_empty
    by (simp add: demo_record_def delivery_states_def fresh_control_def)
qed

end
