(* ===== verification/Spool.thy ===== *)
theory Spool
  imports Ledger Canonical
begin

text \<open>
  The spool around the ledger: frames and their canonical lines (\<^verbatim>\<open>spooling/segment.py\<close>), the
  parsed segment a trusted read returns (\<^verbatim>\<open>spooling/reader.py\<close>), the agreement predicate between
  a file and its row (\<^verbatim>\<open>_agrees\<close> of \<^verbatim>\<open>spooling/reconcile.py\<close>), and the state the
  spool operations share: the control database, the files by path, what the operating system
  answers to an unlink or a lock request, and the log of frames handed to destinations.

  A record envelope is what the spool reads of it: its id, its expiry instant, scope, target and
  privacy class, and the value its \<^verbatim>\<open>model_dump\<close> returns. Instants are UTC, in microseconds.
\<close>

section \<open>Frames and lines\<close>

record envelope =
  ev_record_id :: string
  ev_expires_at :: int
  ev_scope :: string
  ev_target :: "string option"
  ev_privacy :: string
  ev_dump :: py_value

record spool_frame =
  fr_batch :: string
  fr_sequence :: int
  fr_record :: envelope

definition frame_init :: "spool_frame \<Rightarrow> spool_frame res" where
  "frame_init f =
     bind_res (validate_batch_id (fr_batch f)) (\<lambda>_.
     bind_res (validate_positive_sequence (fr_sequence f)) (\<lambda>_. Inr f))"

definition max_frame_line_bytes :: int where "max_frame_line_bytes = 262144 + 1024"
definition max_header_line_bytes :: int where "max_header_line_bytes = 8192"

definition frame_payload :: "spool_frame \<Rightarrow> py_value" where
  "frame_payload f = P_Dict [(''batch_id'', P_Str (fr_batch f)), (''frame_version'', P_Int 1),
     (''record'', ev_dump (fr_record f)), (''record_id'', P_Str (ev_record_id (fr_record f))),
     (''sequence'', P_Int (fr_sequence f))]"

definition spool_frame_line :: "(string \<Rightarrow> string) \<Rightarrow> spool_frame \<Rightarrow> string res" where
  "spool_frame_line nfc f =
     bind_res (canonical_json_bytes nfc default_max_depth default_max_nodes (max_frame_line_bytes - 1)
       (frame_payload f)) (\<lambda>line. Inr (line @ [LF]))"

definition optional_text :: "string option \<Rightarrow> py_value" where
  "optional_text v = (case v of None \<Rightarrow> P_None | Some t \<Rightarrow> P_Str t)"

definition header_payload :: "segment_header \<Rightarrow> py_value" where
  "header_payload h = P_Dict [(''batch_id'', P_Str (hd_batch h)),
     (''config_generation'', P_Str (hd_config_generation h)),
     (''content_sha256'', P_Str (hd_content_sha256 h)), (''frame_version'', P_Int 1),
     (''privacy_class'', P_Str (hd_privacy h)), (''record_count'', P_Int (hd_record_count h)),
     (''required_exporters'', P_List (map P_Str (hd_exporters h))),
     (''retention_days'', P_Int (hd_retention_days h)), (''schema'', P_Int 1),
     (''scope'', P_Str (hd_scope h)), (''target_id'', optional_text (hd_target h))]"

definition spool_segment_header_line :: "(string \<Rightarrow> string) \<Rightarrow> segment_header \<Rightarrow> string res" where
  "spool_segment_header_line nfc h =
     bind_res (canonical_json_bytes nfc default_max_depth default_max_nodes (max_header_line_bytes - 1)
       (header_payload h)) (\<lambda>line. Inr (line @ [LF]))"

definition spool_content_sha256 :: "(string \<Rightarrow> string) \<Rightarrow> string list \<Rightarrow> string" where
  "spool_content_sha256 sha_hex lines = sha_hex (concat lines)"

section \<open>Parsed segments and agreement with the ledger\<close>

record parsed_segment =
  ps_header :: segment_header
  ps_frames :: "spool_frame list"
  ps_byte_size :: int
  ps_file_sha256 :: string

definition agrees :: "parsed_segment \<Rightarrow> string \<Rightarrow> string \<Rightarrow> segment_record \<Rightarrow> bool" where
  "agrees p day batch rec \<longleftrightarrow>
     (let h = ps_header p; r = sr_row rec in
      hd_batch h = batch \<and> batch = sg_batch r \<and> day = sg_day r \<and>
      sg_schema_version r = 1 \<and> sg_frame_version r = 1 \<and>
      hd_config_generation h = sg_config_generation r \<and> hd_scope h = sg_scope r \<and>
      hd_target h = sg_target r \<and> hd_privacy h = sg_privacy r \<and>
      hd_retention_days h = sg_retention_days r \<and> hd_record_count h = sg_record_count r \<and>
      hd_content_sha256 h = sg_content_sha256 r \<and> ps_byte_size p = sg_byte_size r \<and>
      ps_file_sha256 p = sg_file_sha256 r \<and>
      set (hd_exporters h) = set (map xd_exporter (sr_exporters rec)))"

section \<open>The state of the spool operations\<close>

text \<open>
  The environment is what the spool code asks of libraries and of the platform: Unicode NFC,
  SHA-256, \<^verbatim>\<open>json.loads\<close> of a line (\<open>None\<close> when it raises), the validation of a record payload
  by the record model and of its identity against an installation, whether the barrier is the
  database's own commit lock, \<^verbatim>\<open>lexical_absolute_path\<close>, and the database's spool root (\<open>None\<close>
  when the handle has no validated path).
\<close>

record spool_env =
  en_nfc :: "string \<Rightarrow> string"
  en_sha_hex :: "string \<Rightarrow> string"
  en_loads :: "string \<Rightarrow> py_value option"
  en_record :: "py_value \<Rightarrow> envelope option"
  en_identity :: "string \<Rightarrow> envelope \<Rightarrow> bool"
  en_barrier_bound :: bool
  en_absolute :: "string \<Rightarrow> string option"
  en_spool_root :: "string option"

text \<open>
  A file is its bytes and what the secure-file layer and \<^verbatim>\<open>fstat\<close> say of it: a failure to open,
  whether it is an owner-only single-link regular file, whether it changes during a read, whether
  reading it fails. \<open>unlinks\<close> and \<open>locks\<close> are scripts: what the next removal and the next barrier acquisition
  answer, \<open>None\<close> for success. \<open>others\<close> are table changes other processes commit while a delivery
  is on the wire. \<open>forwarded\<close> records each call of an exporter and whether it returned.
\<close>

type_synonym delivery_log = "(string \<times> segment_record \<times> spool_frame list \<times> bool) list"

record file_node =
  fn_content :: string
  fn_open :: "file_error option"
  fn_owner_only :: bool
  fn_changes :: bool
  fn_read_fails :: bool

record spool_world = control +
  files :: "(string \<times> file_node) list"
  unlinks :: "file_error option list"
  locks :: "string option list"
  forwarded :: delivery_log
  others :: "(tables \<Rightarrow> tables) list"

type_synonym 'r spool_prog = "(spool_world, 'r) prog"

definition pending_path :: "string \<Rightarrow> string \<Rightarrow> string \<Rightarrow> string" where
  "pending_path root day batch = root @ ''/pending/'' @ day @ ''/'' @ batch @ ''.jsonl''"

text \<open>\<^verbatim>\<open>with barrier.shared()\<close> or \<^verbatim>\<open>with barrier.exclusive()\<close>: acquisition may fail with a code.\<close>

definition with_barrier :: "'r spool_prog \<Rightarrow> 'r spool_prog" where
  "with_barrier body = (\<lambda>w. case locks w of
       Some code # ls \<Rightarrow> (Inl (State_Error code), w\<lparr>locks := ls\<rparr>)
     | _ \<Rightarrow> body (w\<lparr>locks := tl (locks w)\<rparr>))"

text \<open>
  \<^verbatim>\<open>remove_regular_file_no_follow\<close>: a failure before the unlink leaves the file, a failure to
  make it durable (\<^verbatim>\<open>COMMIT_UNCERTAIN\<close>) comes after the entry is gone.
\<close>

definition remove_file :: "string \<Rightarrow> unit spool_prog" where
  "remove_file path = (\<lambda>w. case unlinks w of
       Some Commit_Uncertain # us \<Rightarrow>
         (Inl (Secure_File_Error Commit_Uncertain), w\<lparr>unlinks := us, files := AList.delete path (files w)\<rparr>)
     | Some k # us \<Rightarrow> (Inl (Secure_File_Error k), w\<lparr>unlinks := us\<rparr>)
     | _ \<Rightarrow> (if map_of (files w) path = None
            then (Inl (Secure_File_Error Not_Found), w\<lparr>unlinks := tl (unlinks w)\<rparr>)
            else (Inr (), w\<lparr>unlinks := tl (unlinks w), files := AList.delete path (files w)\<rparr>)))"

text \<open>\<^verbatim>\<open>except (sqlite3.Error, StateError)\<close>.\<close>

definition state_caught :: "py_exc \<Rightarrow> bool" where
  "state_caught e \<longleftrightarrow> (case e of Sqlite_Error \<Rightarrow> True | State_Error _ \<Rightarrow> True | _ \<Rightarrow> False)"

text \<open>\<^verbatim>\<open>_require_now\<close> of delivery and retention: the instant must format.\<close>

definition require_now :: "string \<Rightarrow> int \<Rightarrow> ('s, unit) prog" where
  "require_now code now = check (valid_instant now) (Spool_Error code)"

lemma require_now_formats:
  "valid_instant now \<longleftrightarrow> (\<exists>st. format_timestamp (utc now) = Inr st)"
  by (auto simp: format_timestamp_Inr utc_def)

text \<open>Reading a ledger record changes neither tables nor anything of the spool around them.\<close>

definition same_spool :: "spool_world \<Rightarrow> spool_world \<Rightarrow> bool" where
  "same_spool w w' \<longleftrightarrow> db w' = db w \<and> files w' = files w \<and> forwarded w' = forwarded w"

lemma same_spool_order [simp]: "reflp same_spool" "transp same_spool"
  by (auto simp: reflp_def transp_def same_spool_def)

lemma same_spool_select: "keeps same_spool (select bs q)"
  by (auto simp: keeps_def same_spool_def select_def sql_cases split: if_splits)

lemma same_spool_connection: "keeps same_spool db_connection"
  by (auto simp: keeps_def db_connection_def same_spool_def split: if_splits)

lemma same_spool_load: "keeps same_spool (load_record r)"
  unfolding load_record_def load_exporters_def
  by (intro keeps_andthen keeps_lift_res same_spool_select same_spool_order)

lemma same_spool_read: "keeps same_spool (read_segment_record b)"
  unfolding read_segment_record_def
  by (intro keeps_normalise keeps_andthen same_spool_order same_spool_connection same_spool_select)
    (auto split: option.split intro!: keeps_ret keeps_andthen same_spool_load)

lemma same_spool_list: "keeps same_spool (list_segment_records st)"
  unfolding list_segment_records_def
  by (intro keeps_normalise keeps_andthen keeps_for_each same_spool_order same_spool_connection
      same_spool_select same_spool_load)

lemma read_segment_record_Inr:
  "read_segment_record b s = (Inr (Some rec), s') \<Longrightarrow>
     find_segment b (db s) = Some (sr_row rec) \<and> sg_batch (sr_row rec) = b \<and>
     map_res checked_exporter (exporters_of b (db s)) = Inr (sr_exporters rec)"
proof -
  assume "read_segment_record b s = (Inr (Some rec), s')"
  then obtain r where r: "find_segment b (db s) = Some r"
      "map_res checked_exporter (exporters_of (sg_batch r) (db s)) = Inr (sr_exporters rec)"
      "sr_row rec = r"
    by (auto simp: read_segment_record_def normalise_Inr andthen_Inr db_connection_def select_Inr
        load_record_def load_exporters_def lift_res_def ret_def validated_segment_def
        split: option.splits if_splits)
  moreover have "sg_batch r = b"
    using r(1) by (auto simp: find_segment_def find_Some_iff)
  ultimately show ?thesis by simp
qed

lemma load_record_Inr:
  assumes "load_record row s = (Inr rec, s')"
  shows "sr_row rec = row \<and> length (sg_day row) = 10"
proof -
  obtain xs where "validated_segment row xs = Inr rec"
    using assms by (auto simp: load_record_def andthen_Inr lift_res_def)
  then have row: "sr_row rec = row" "take 10 (sg_committed_at row) = sg_day row"
      "length (sg_committed_at row) = 24"
    by (auto simp: validated_segment_def is_stamp_def split: if_splits)
  have "length (sg_day row) = length (take 10 (sg_committed_at row))" by (simp only: row(2))
  also have "\<dots> = 10" using row(3) by simp
  finally show ?thesis using row(1) by simp
qed

lemma load_records_Inr:
  "for_each load_record rows s = (Inr recs, s') \<Longrightarrow>
     map sr_row recs = rows \<and> list_all (\<lambda>r. length (sg_day r) = 10) rows"
  by (induction rows arbitrary: s recs) (auto simp: andthen_Inr ret_def dest!: load_record_Inr)

lemma list_records_Inr:
  fixes w :: spool_world
  assumes "list_segment_records status w = (Inr recs, w1)"
  shows "map sr_row recs = segment_rows status (db w)"
    and "list_all (\<lambda>r. length (sg_day r) = 10) (map sr_row recs)"
proof -
  obtain s1 s2 :: spool_world where "for_each load_record (segment_rows status (db w)) s1 = (Inr recs, s2)"
    using assms by (auto simp: list_segment_records_def normalise_Inr andthen_Inr db_connection_def
        select_Inr split: if_splits)
  from load_records_Inr [OF this]
  show "map sr_row recs = segment_rows status (db w)"
    "list_all (\<lambda>r. length (sg_day r) = 10) (map sr_row recs)" by simp_all
qed

lemma segment_rows_all: "segment_rows None t = sort_key sg_batch (segments t)"
  by (simp add: segment_rows_def)

end
