(* ===== verification/Reader.thy ===== *)
theory Reader
  imports Spool
begin

text \<open>
  \<^verbatim>\<open>src/milhouse/spooling/writer.py\<close> and \<^verbatim>\<open>src/milhouse/spooling/reader.py\<close>: building the bytes
  of a segment, and accepting bytes as a segment. The reader re-encodes what it parsed and compares,
  so the bytes it accepts are the bytes the writer would have written (\<open>parse_is_canonical\<close>).

  A field of an ill-typed JSON value fails the check of its field in the code, with the same error
  as an ill-formed value of the right type; \<open>text_of\<close> and \<open>int_of\<close> read it as one.
\<close>

section \<open>Writing\<close>

definition max_segment_file_bytes :: int where "max_segment_file_bytes = 67108864"
definition max_segment_frames :: int where "max_segment_frames = 1000000"

text \<open>\<^verbatim>\<open>_validate_consistency\<close>, frame by frame, from the expected sequence number on.\<close>

definition frame_consistent :: "segment_header \<Rightarrow> int \<Rightarrow> spool_frame \<Rightarrow> unit res" where
  "frame_consistent h i f =
     bind_res (check_res (fr_sequence f = i) (Spool_Error ''MH_SPOOL_SEQUENCE'')) (\<lambda>_.
     bind_res (check_res (fr_batch f = hd_batch h) (Spool_Error ''MH_SPOOL_BATCH_ID'')) (\<lambda>_.
     bind_res (check_res (ev_scope (fr_record f) = hd_scope h) (Spool_Error ''MH_SPOOL_SCOPE'')) (\<lambda>_.
     bind_res (check_res (ev_target (fr_record f) = hd_target h) (Spool_Error ''MH_SPOOL_TARGET'')) (\<lambda>_.
     check_res (ev_privacy (fr_record f) = hd_privacy h) (Spool_Error ''MH_SPOOL_PRIVACY'')))))"

fun frames_consistent :: "segment_header \<Rightarrow> int \<Rightarrow> spool_frame list \<Rightarrow> unit res" where
  "frames_consistent h i [] = Inr ()"
| "frames_consistent h i (f # fs) =
     bind_res (frame_consistent h i f) (\<lambda>_. frames_consistent h (i + 1) fs)"

definition validate_consistency :: "segment_header \<Rightarrow> spool_frame list \<Rightarrow> unit res" where
  "validate_consistency h frames =
     bind_res (check_res (hd_record_count h = int (length frames)) (Spool_Error ''MH_SPOOL_COUNT''))
       (\<lambda>_. frames_consistent h 1 frames)"

text \<open>The encoding loop with its running total.\<close>

fun encode_frames :: "spool_env \<Rightarrow> int \<Rightarrow> spool_frame list \<Rightarrow> string list res" where
  "encode_frames en used [] = Inr []"
| "encode_frames en used (f # fs) =
     bind_res (spool_frame_line (en_nfc en) f) (\<lambda>line.
       if max_segment_file_bytes < used + int (length line) then Inl (Spool_Error ''MH_SPOOL_SIZE'')
       else bind_res (encode_frames en (used + int (length line)) fs) (\<lambda>lines. Inr (line # lines)))"

definition build_segment_bytes :: "spool_env \<Rightarrow> segment_header \<Rightarrow> spool_frame list \<Rightarrow> string res" where
  "build_segment_bytes en h frames =
     (if max_segment_frames < int (length frames) then Inl (Spool_Error ''MH_SPOOL_COUNT'')
      else
        bind_res (validate_consistency h frames) (\<lambda>_.
        bind_res (spool_segment_header_line (en_nfc en) h) (\<lambda>header_line.
        bind_res (encode_frames en (int (length header_line)) frames) (\<lambda>lines.
        bind_res (check_res (spool_content_sha256 (en_sha_hex en) lines = hd_content_sha256 h)
          (Spool_Error ''MH_SPOOL_DIGEST'')) (\<lambda>_.
        Inr (header_line @ concat lines))))))"

section \<open>Lines\<close>

text \<open>\<^verbatim>\<open>content.split(b"\n")\<close>.\<close>

fun split_on_lf :: "string \<Rightarrow> string list" where
  "split_on_lf [] = [[]]"
| "split_on_lf (c # cs) =
     (if c = LF then [] # split_on_lf cs
      else (case split_on_lf cs of [] \<Rightarrow> [[c]] | p # ps \<Rightarrow> (c # p) # ps))"

fun bounded_lines :: "int \<Rightarrow> string list \<Rightarrow> string list res" where
  "bounded_lines limit [] = Inr []"
| "bounded_lines limit (p # ps) =
     (if p = [] then Inl (Spool_Error ''MH_SPOOL_TRUNCATED'')
      else if limit < int (length (p @ [LF])) then Inl (Spool_Error ''MH_SPOOL_LINE'')
      else bind_res (bounded_lines max_frame_line_bytes ps) (\<lambda>ls. Inr ((p @ [LF]) # ls)))"

definition split_lines :: "string \<Rightarrow> (string \<times> string list) res" where
  "split_lines content =
     (if max_segment_file_bytes < int (length content) then Inl (Spool_Error ''MH_SPOOL_SIZE'')
      else if content = [] then Inl (Spool_Error ''MH_SPOOL_TRUNCATED'')
      else if last content \<noteq> LF then Inl (Spool_Error ''MH_SPOOL_TRUNCATED'')
      else bind_res (bounded_lines max_header_line_bytes (butlast (split_on_lf content)))
        (\<lambda>ls. Inr (hd ls, tl ls)))"

section \<open>Values\<close>

definition json_object :: "spool_env \<Rightarrow> string \<Rightarrow> string \<Rightarrow> (string \<times> py_value) list res" where
  "json_object en line code =
     (case en_loads en line of Some (P_Dict items) \<Rightarrow> Inr items | _ \<Rightarrow> Inl (Spool_Error code))"

definition field :: "(string \<times> py_value) list \<Rightarrow> string \<Rightarrow> py_value" where
  "field obj k = (case map_of obj k of None \<Rightarrow> P_Other | Some v \<Rightarrow> v)"

text \<open>\<^verbatim>\<open>value == 1\<close>: an equal float and \<^verbatim>\<open>True\<close> compare equal too.\<close>

definition equals_one :: "py_value \<Rightarrow> bool" where
  "equals_one v \<longleftrightarrow> (case v of
       P_Int i \<Rightarrow> i = 1 | P_Bool b \<Rightarrow> b | P_Float (Float_Integral i) \<Rightarrow> i = 1 | _ \<Rightarrow> False)"

definition text_of :: "py_value \<Rightarrow> string" where
  "text_of v = (case v of P_Str s \<Rightarrow> s | _ \<Rightarrow> [])"

definition int_of :: "py_value \<Rightarrow> int" where
  "int_of v = (case v of P_Int i \<Rightarrow> i | _ \<Rightarrow> -1)"

definition target_of :: "py_value \<Rightarrow> string option" where
  "target_of v = (case v of P_None \<Rightarrow> None | P_Str s \<Rightarrow> Some s | _ \<Rightarrow> Some [])"

definition header_keys :: "string list" where
  "header_keys = [''batch_id'', ''config_generation'', ''content_sha256'', ''frame_version'',
     ''privacy_class'', ''record_count'', ''required_exporters'', ''retention_days'', ''schema'',
     ''scope'', ''target_id'']"

definition frame_keys :: "string list" where
  "frame_keys = [''batch_id'', ''frame_version'', ''record'', ''record_id'', ''sequence'']"

definition parse_header :: "spool_env \<Rightarrow> string \<Rightarrow> segment_header res" where
  "parse_header en line =
     bind_res (json_object en line ''MH_SPOOL_HEADER'') (\<lambda>obj.
     bind_res (check_res (set (map fst obj) = set header_keys) (Spool_Error ''MH_SPOOL_HEADER'')) (\<lambda>_.
     bind_res (check_res (equals_one (field obj ''schema'') \<and> equals_one (field obj ''frame_version''))
       (Spool_Error ''MH_SPOOL_HEADER'')) (\<lambda>_.
     case field obj ''required_exporters'' of
       P_List exporters \<Rightarrow>
         bind_res (header_init
           \<lparr>hd_batch = text_of (field obj ''batch_id''),
            hd_config_generation = text_of (field obj ''config_generation''),
            hd_scope = text_of (field obj ''scope''), hd_target = target_of (field obj ''target_id''),
            hd_privacy = text_of (field obj ''privacy_class''),
            hd_retention_days = int_of (field obj ''retention_days''),
            hd_exporters = map text_of exporters,
            hd_record_count = int_of (field obj ''record_count''),
            hd_content_sha256 = text_of (field obj ''content_sha256'')\<rparr>) (\<lambda>h.
         bind_res (spool_segment_header_line (en_nfc en) h) (\<lambda>canonical.
         if canonical \<noteq> line then Inl (Spool_Error ''MH_SPOOL_HEADER'') else Inr h))
     | _ \<Rightarrow> Inl (Spool_Error ''MH_SPOOL_HEADER''))))"

definition reconstruct_record :: "spool_env \<Rightarrow> py_value \<Rightarrow> envelope res" where
  "reconstruct_record en payload =
     (case en_record en payload of None \<Rightarrow> Inl (Spool_Error ''MH_SPOOL_RECORD'') | Some r \<Rightarrow> Inr r)"

definition is_dict :: "py_value \<Rightarrow> bool" where
  "is_dict v \<longleftrightarrow> (case v of P_Dict _ \<Rightarrow> True | _ \<Rightarrow> False)"

definition parse_frame :: "spool_env \<Rightarrow> segment_header \<Rightarrow> int \<Rightarrow> string \<Rightarrow> spool_frame res" where
  "parse_frame en h expected line =
     bind_res (json_object en line ''MH_SPOOL_FRAME'') (\<lambda>obj.
     bind_res (check_res (set (map fst obj) = set frame_keys) (Spool_Error ''MH_SPOOL_FRAME'')) (\<lambda>_.
     bind_res (check_res (equals_one (field obj ''frame_version'')) (Spool_Error ''MH_SPOOL_FRAME'')) (\<lambda>_.
     bind_res (check_res (is_dict (field obj ''record'')) (Spool_Error ''MH_SPOOL_FRAME'')) (\<lambda>_.
     bind_res (reconstruct_record en (field obj ''record'')) (\<lambda>rec.
     bind_res (frame_init \<lparr>fr_batch = text_of (field obj ''batch_id''),
         fr_sequence = int_of (field obj ''sequence''), fr_record = rec\<rparr>) (\<lambda>f.
     bind_res (check_res (fr_sequence f = expected) (Spool_Error ''MH_SPOOL_SEQUENCE'')) (\<lambda>_.
     bind_res (check_res (fr_batch f = hd_batch h) (Spool_Error ''MH_SPOOL_BATCH_ID'')) (\<lambda>_.
     bind_res (check_res (field obj ''record_id'' = P_Str (ev_record_id rec)) (Spool_Error ''MH_SPOOL_RECORD'')) (\<lambda>_.
     bind_res (check_res (ev_scope rec = hd_scope h) (Spool_Error ''MH_SPOOL_SCOPE'')) (\<lambda>_.
     bind_res (check_res (ev_target rec = hd_target h) (Spool_Error ''MH_SPOOL_TARGET'')) (\<lambda>_.
     bind_res (check_res (ev_privacy rec = hd_privacy h) (Spool_Error ''MH_SPOOL_PRIVACY'')) (\<lambda>_.
     bind_res (spool_frame_line (en_nfc en) f) (\<lambda>canonical.
     if canonical \<noteq> line then Inl (Spool_Error ''MH_SPOOL_FRAME'') else Inr f)))))))))))))"

fun parse_frames :: "spool_env \<Rightarrow> segment_header \<Rightarrow> int \<Rightarrow> string list \<Rightarrow> spool_frame list res" where
  "parse_frames en h i [] = Inr []"
| "parse_frames en h i (line # lines) =
     bind_res (parse_frame en h i line) (\<lambda>f.
     bind_res (parse_frames en h (i + 1) lines) (\<lambda>fs. Inr (f # fs)))"

definition parse_segment_bytes :: "spool_env \<Rightarrow> string \<Rightarrow> parsed_segment res" where
  "parse_segment_bytes en content =
     bind_res (split_lines content) (\<lambda>(header_line, frame_lines).
     bind_res (check_res (int (length frame_lines) \<le> max_segment_frames) (Spool_Error ''MH_SPOOL_COUNT'')) (\<lambda>_.
     bind_res (parse_header en header_line) (\<lambda>h.
     bind_res (parse_frames en h 1 frame_lines) (\<lambda>frames.
     bind_res (check_res (int (length frames) = hd_record_count h) (Spool_Error ''MH_SPOOL_COUNT'')) (\<lambda>_.
     bind_res (check_res (spool_content_sha256 (en_sha_hex en) frame_lines = hd_content_sha256 h)
       (Spool_Error ''MH_SPOOL_DIGEST'')) (\<lambda>_.
     Inr \<lparr>ps_header = h, ps_frames = frames, ps_byte_size = int (length content),
          ps_file_sha256 = en_sha_hex en content\<rparr>))))))"

section \<open>Files\<close>

definition installation_id_match :: "string \<Rightarrow> bool" where
  "installation_id_match s \<longleftrightarrow> length s = 39 \<and> take 7 s = ''mh_in1_'' \<and>
     list_all is_lower_hex (drop 7 s) \<and> s ! 19 = CHR ''4'' \<and> s ! 23 \<in> set ''89ab''"

definition require_installation_id :: "string \<Rightarrow> unit res" where
  "require_installation_id s = check_res (installation_id_match s) (Spool_Error ''MH_SPOOL_IDENTITY'')"

fun read_code :: "file_error \<Rightarrow> string" where
  "read_code Not_Found = ''MH_SPOOL_NOT_FOUND''"
| "read_code Not_Regular = ''MH_SPOOL_NOT_REGULAR''"
| "read_code Parent_Unsafe = ''MH_SPOOL_UNSAFE''"
| "read_code Access_Control_Unsafe = ''MH_SPOOL_UNSAFE''"
| "read_code _ = ''MH_SPOOL_READ''"

definition open_regular :: "(string \<times> file_node) list \<Rightarrow> string \<Rightarrow> file_node res" where
  "open_regular fs path =
     (case map_of fs path of
        None \<Rightarrow> Inl (Spool_Error (read_code Not_Found))
      | Some node \<Rightarrow> (case fn_open node of
          Some k \<Rightarrow> Inl (Spool_Error (read_code k)) | None \<Rightarrow> Inr node))"

definition read_descriptor :: "bool \<Rightarrow> file_node \<Rightarrow> string res" where
  "read_descriptor harden node =
     (if harden \<and> \<not> fn_owner_only node then Inl (Spool_Error ''MH_SPOOL_UNSAFE'')
      else if max_segment_file_bytes < int (length (fn_content node))
        then Inl (Spool_Error ''MH_SPOOL_SIZE'')
      else if harden \<and> fn_changes node then Inl (Spool_Error ''MH_SPOOL_CHANGED'')
      else if fn_read_fails node then Inl (Spool_Error ''MH_SPOOL_READ'')
      else Inr (fn_content node))"

definition verify_identity :: "spool_env \<Rightarrow> spool_frame list \<Rightarrow> string \<Rightarrow> unit res" where
  "verify_identity en frames installation =
     check_res (list_all (\<lambda>f. en_identity en installation (fr_record f)) frames)
       (Spool_Error ''MH_SPOOL_RECORD'')"

definition read_untrusted_segment ::
  "spool_env \<Rightarrow> (string \<times> file_node) list \<Rightarrow> string \<Rightarrow> parsed_segment res" where
  "read_untrusted_segment en fs path =
     bind_res (open_regular fs path) (\<lambda>node.
     bind_res (read_descriptor False node) (parse_segment_bytes en))"

text \<open>\<^verbatim>\<open>read_trusted_segment\<close> without an expected parent, as verify, replay and retention call it.\<close>

definition read_trusted_segment ::
  "spool_env \<Rightarrow> (string \<times> file_node) list \<Rightarrow> string \<Rightarrow> string \<Rightarrow> parsed_segment res" where
  "read_trusted_segment en fs path installation =
     bind_res (require_installation_id installation) (\<lambda>_.
     bind_res (open_regular fs path) (\<lambda>node.
     bind_res (read_descriptor True node) (\<lambda>content.
     bind_res (parse_segment_bytes en content) (\<lambda>p.
     bind_res (verify_identity en (ps_frames p) installation) (\<lambda>_. Inr p)))))"

section \<open>Accepted bytes are canonical\<close>

lemma split_on_lf_not_Nil [simp]: "split_on_lf s \<noteq> []"
  by (induction s) (auto split: list.split)

lemma split_on_lf_join:
  "concat (map (\<lambda>p. p @ [LF]) (butlast (split_on_lf s))) @ last (split_on_lf s) = s"
proof (induction s)
  case (Cons c s)
  obtain p ps where ps: "split_on_lf s = p # ps" by (cases "split_on_lf s") auto
  show ?case
    using Cons.IH ps by (cases ps) auto
qed simp

lemma split_on_lf_last: "last (split_on_lf (s @ [LF])) = []"
proof (induction s)
  case (Cons c s)
  obtain p ps where ps: "split_on_lf (s @ [LF]) = p # ps" by (cases "split_on_lf (s @ [LF])") auto
  then have "ps \<noteq> []"
  proof -
    have "length (split_on_lf (t @ [LF])) \<ge> 2" for t
    proof (induction t)
      case (Cons d t)
      then show ?case by (cases "split_on_lf (t @ [LF])") auto
    qed simp
    then show ?thesis using ps by (metis length_Cons list.size(3) Suc_1 Suc_n_not_le_n One_nat_def)
  qed
  then show ?case using Cons.IH ps by auto
qed simp

lemma bounded_lines_Inr:
  "bounded_lines limit ps = Inr ls \<Longrightarrow> ls = map (\<lambda>p. p @ [LF]) ps"
  by (induction limit ps arbitrary: ls rule: bounded_lines.induct)
    (auto simp: bind_res_eq_Inr split: if_splits)

lemma check_res_True [simp]: "check_res True e = Inr ()"
  by (simp add: check_res_def)

lemma split_lines_Inr:
  assumes "split_lines content = Inr (header_line, lines)"
  shows "content = header_line @ concat lines \<and> int (length content) \<le> max_segment_file_bytes"
proof -
  let ?ps = "butlast (split_on_lf content)"
  obtain ls where ok: "content \<noteq> []" "last content = LF" "\<not> max_segment_file_bytes < int (length content)"
    and ls: "bounded_lines max_header_line_bytes ?ps = Inr ls" "header_line = hd ls" "lines = tl ls"
    using assms by (auto simp: split_lines_def bind_res_eq_Inr split: if_splits)
  have "last (split_on_lf content) = []"
    using split_on_lf_last [of "butlast content"] ok(1,2) append_butlast_last_id by metis
  then have join: "concat (map (\<lambda>p. p @ [LF]) ?ps) = content"
    using split_on_lf_join [of content] by simp
  moreover have "ls \<noteq> []" using join ok(1) bounded_lines_Inr [OF ls(1)] by auto
  ultimately show ?thesis
    using ls(2,3) bounded_lines_Inr [OF ls(1)] ok(3) by (cases ls) auto
qed

lemma header_init_Inr: "header_init h = Inr h' \<Longrightarrow> h' = h"
  by (auto simp: header_init_def bind_res_eq_Inr)

lemma frame_init_Inr: "frame_init f = Inr f' \<Longrightarrow> f' = f"
  by (auto simp: frame_init_def bind_res_eq_Inr)

lemma parse_header_Inr:
  assumes "parse_header en line = Inr h"
  shows "spool_segment_header_line (en_nfc en) h = Inr line \<and> header_init h = Inr h"
proof -
  obtain obj where obj: "json_object en line ''MH_SPOOL_HEADER'' = Inr obj"
    using assms by (auto simp: parse_header_def bind_res_eq_Inr)
  show ?thesis
  proof (cases "field obj ''required_exporters''")
    case (P_List exporters)
    then obtain h0 where "header_init h0 = Inr h" "spool_segment_header_line (en_nfc en) h = Inr line"
      using assms obj by (auto simp: parse_header_def bind_res_eq_Inr split: if_splits)
    then show ?thesis using header_init_Inr by metis
  qed (use assms obj in \<open>auto simp: parse_header_def bind_res_eq_Inr\<close>)
qed

lemma parse_frame_Inr:
  "parse_frame en h i line = Inr f \<Longrightarrow>
     spool_frame_line (en_nfc en) f = Inr line \<and> frame_consistent h i f = Inr ()"
  by (auto simp: parse_frame_def bind_res_eq_Inr frame_consistent_def split: if_splits
      dest!: frame_init_Inr)

lemma parse_frames_Inr:
  "parse_frames en h i lines = Inr fs \<Longrightarrow>
     map_res (spool_frame_line (en_nfc en)) fs = Inr lines \<and> frames_consistent h i fs = Inr () \<and>
     length fs = length lines"
  by (induction lines arbitrary: i fs) (fastforce simp: bind_res_eq_Inr dest!: parse_frame_Inr)+

lemma encode_frames_Inr:
  "map_res (spool_frame_line (en_nfc en)) fs = Inr lines \<Longrightarrow>
     used + int (length (concat lines)) \<le> max_segment_file_bytes \<Longrightarrow>
     encode_frames en used fs = Inr lines"
proof (induction fs arbitrary: used lines)
  case (Cons f fs)
  obtain line rest where "spool_frame_line (en_nfc en) f = Inr line"
      "map_res (spool_frame_line (en_nfc en)) fs = Inr rest" "lines = line # rest"
    using Cons.prems(1) by (auto simp: bind_res_eq_Inr)
  then show ?case using Cons.IH [of rest "used + int (length line)"] Cons.prems(2) by simp
qed simp

lemma parse_canonical:
  assumes "parse_segment_bytes en content = Inr p"
  shows "build_segment_bytes en (ps_header p) (ps_frames p) = Inr content \<and>
     header_init (ps_header p) = Inr (ps_header p) \<and>
     ps_byte_size p = int (length content) \<and> ps_file_sha256 p = en_sha_hex en content"
proof -
  obtain header_line lines where lines: "split_lines content = Inr (header_line, lines)"
    and parsed: "int (length lines) \<le> max_segment_frames"
      "parse_header en header_line = Inr (ps_header p)"
      "parse_frames en (ps_header p) 1 lines = Inr (ps_frames p)"
      "int (length (ps_frames p)) = hd_record_count (ps_header p)"
      "spool_content_sha256 (en_sha_hex en) lines = hd_content_sha256 (ps_header p)"
    and rest: "ps_byte_size p = int (length content)" "ps_file_sha256 p = en_sha_hex en content"
    using assms by (auto simp: parse_segment_bytes_def bind_res_eq_Inr split: prod.splits)
  note header = parse_header_Inr [OF parsed(2)] and frames = parse_frames_Inr [OF parsed(3)]
    and content = split_lines_Inr [OF lines]
  have "encode_frames en (int (length header_line)) (ps_frames p) = Inr lines"
    using frames content by (intro encode_frames_Inr) auto
  then have "build_segment_bytes en (ps_header p) (ps_frames p) = Inr content"
    using header frames content parsed(1,4,5)
    by (simp add: build_segment_bytes_def validate_consistency_def)
  then show ?thesis using header rest by simp
qed

text \<open>C15
  The reader accepts nothing but what the writer writes: from bytes it accepts as a segment, the
  parsed header and frames build exactly those bytes again, so the count, the sequence numbers, the
  batch, scope, target and privacy of every frame, the size bounds and the content digest agree; and
  the file digest and size it reports are those of the bytes.
\<close>

theorem parse_is_canonical:
  assumes "parse_segment_bytes en content = Inr p"
  shows "build_segment_bytes en (ps_header p) (ps_frames p) = Inr content \<and>
     header_init (ps_header p) = Inr (ps_header p) \<and>
     ps_byte_size p = int (length content) \<and> ps_file_sha256 p = en_sha_hex en content"
  using assms by (rule parse_canonical)

section \<open>What is written can be read\<close>

lemma canonical_text:
  "canonical_json_bytes nfc md mn mb v = Inr t \<Longrightarrow> LF \<notin> set t \<and> int (length t) \<le> mb"
proof -
  assume "canonical_json_bytes nfc md mn mb v = Inr t"
  then obtain n where "encode_value nfc mn (nat md) v 0 = (Inr t, n)" "int (length t) \<le> mb"
    by (cases "encode_value nfc mn (nat md) v 0")
      (auto simp: canonical_json_bytes_def bind_res_eq_Inr split: if_splits)
  moreover have "\<not> printable LF" by (simp add: printable_def LF_def)
  ultimately show ?thesis using printable_encode by (fastforce simp: list_all_iff)
qed

lemma canonical_dict_nonempty:
  "canonical_json_bytes nfc md mn mb (P_Dict kvs) = Inr t \<Longrightarrow> t \<noteq> []"
  by (cases "nat md")
    (auto simp: canonical_json_bytes_def andthen_def throw_def ret_def lift_res_def
      split: if_splits sum.splits prod.splits)

definition is_line :: "int \<Rightarrow> string \<Rightarrow> bool" where
  "is_line limit l \<longleftrightarrow> (\<exists>t. l = t @ [LF] \<and> LF \<notin> set t \<and> t \<noteq> [] \<and> int (length l) \<le> limit)"

lemma header_line_is_line:
  "spool_segment_header_line nfc h = Inr l \<Longrightarrow> is_line max_header_line_bytes l"
  using canonical_text canonical_dict_nonempty
  by (fastforce simp: spool_segment_header_line_def header_payload_def bind_res_eq_Inr is_line_def)

lemma frame_line_is_line: "spool_frame_line nfc f = Inr l \<Longrightarrow> is_line max_frame_line_bytes l"
  using canonical_text canonical_dict_nonempty
  by (fastforce simp: spool_frame_line_def frame_payload_def bind_res_eq_Inr is_line_def)

lemma split_on_lf_line: "LF \<notin> set t \<Longrightarrow> split_on_lf (t @ LF # rest) = t # split_on_lf rest"
  by (induction t) auto

lemma split_on_lf_lines:
  "list_all (is_line lim) ls \<Longrightarrow> split_on_lf (concat ls) = map butlast ls @ [[]]"
  by (induction ls) (auto simp: is_line_def split_on_lf_line)

lemma bounded_lines_are:
  "list_all (is_line max_frame_line_bytes) ls \<Longrightarrow> bounded_lines max_frame_line_bytes (map butlast ls) = Inr ls"
  by (induction ls) (auto simp: is_line_def)

lemma split_lines_back:
  assumes "is_line max_header_line_bytes l" "list_all (is_line max_frame_line_bytes) ls"
    "int (length (l @ concat ls)) \<le> max_segment_file_bytes"
  shows "split_lines (l @ concat ls) = Inr (l, ls)"
proof -
  obtain t where t: "l = t @ [LF]" "LF \<notin> set t" "t \<noteq> []" "int (length l) \<le> max_header_line_bytes"
    using assms(1) by (auto simp: is_line_def)
  have "last (l @ concat ls) = LF" if "l \<noteq> []" "last l = LF"
    using assms(2) that by (induction ls rule: rev_induct) (auto simp: is_line_def)
  then have "last (l @ concat ls) = LF" using t(1) by simp
  moreover have "butlast (split_on_lf (l @ concat ls)) = t # map butlast ls"
    using split_on_lf_lines [OF assms(2)] t(1,2) by (simp add: split_on_lf_line butlast_append)
  ultimately show ?thesis
    using assms(3) t bounded_lines_are [OF assms(2)] by (simp add: split_lines_def)
qed

text \<open>
  The libraries read back what the encoder wrote: \<^verbatim>\<open>json.loads\<close> of the header line is its
  payload, and of a frame line its payload with some JSON object for the record, from which the
  record model rebuilds the envelope.
\<close>

definition header_reads_back :: "spool_env \<Rightarrow> segment_header \<Rightarrow> bool" where
  "header_reads_back en h \<longleftrightarrow>
     (case spool_segment_header_line (en_nfc en) h of
        Inl _ \<Rightarrow> False | Inr line \<Rightarrow> en_loads en line = Some (header_payload h))"

definition frame_reads_back :: "spool_env \<Rightarrow> spool_frame \<Rightarrow> bool" where
  "frame_reads_back en f \<longleftrightarrow>
     (case spool_frame_line (en_nfc en) f of
        Inl _ \<Rightarrow> False
      | Inr line \<Rightarrow> (case json_object en line '''' of
          Inl _ \<Rightarrow> False
        | Inr obj \<Rightarrow> is_dict (field obj ''record'') \<and> en_record en (field obj ''record'') = Some (fr_record f) \<and>
            obj = [(''batch_id'', P_Str (fr_batch f)), (''frame_version'', P_Int 1),
              (''record'', field obj ''record''), (''record_id'', P_Str (ev_record_id (fr_record f))),
              (''sequence'', P_Int (fr_sequence f))]))"

lemma parse_header_back:
  assumes "header_reads_back en h" "header_init h = Inr h"
    "spool_segment_header_line (en_nfc en) h = Inr line"
  shows "parse_header en line = Inr h"
proof -
  have "target_of (optional_text (hd_target h)) = hd_target h"
    by (cases "hd_target h") (simp_all add: target_of_def optional_text_def)
  moreover have "map (text_of \<circ> P_Str) xs = xs" for xs
    by (induction xs) (simp_all add: text_of_def)
  moreover have same: "\<lparr>hd_batch = hd_batch h, hd_config_generation = hd_config_generation h, hd_scope = hd_scope h,
      hd_target = hd_target h, hd_privacy = hd_privacy h, hd_retention_days = hd_retention_days h,
      hd_exporters = hd_exporters h, hd_record_count = hd_record_count h,
      hd_content_sha256 = hd_content_sha256 h\<rparr> = h" by (cases h) simp
  ultimately show ?thesis
    using assms by (simp add: parse_header_def json_object_def header_reads_back_def header_payload_def
        header_keys_def field_def equals_one_def text_of_def int_of_def same)
qed

lemma parse_frame_back:
  assumes "frame_reads_back en f" "frame_init f = Inr f" "frame_consistent h i f = Inr ()"
    "spool_frame_line (en_nfc en) f = Inr line"
  shows "parse_frame en h i line = Inr f"
proof -
  obtain d where obj: "en_loads en line = Some (P_Dict [(''batch_id'', P_Str (fr_batch f)),
      (''frame_version'', P_Int 1), (''record'', d), (''record_id'', P_Str (ev_record_id (fr_record f))),
      (''sequence'', P_Int (fr_sequence f))])" "is_dict d" "en_record en d = Some (fr_record f)"
    using assms(1,4) by (auto simp: frame_reads_back_def json_object_def split: option.splits py_value.splits)
  moreover have same: "\<lparr>fr_batch = fr_batch f, fr_sequence = fr_sequence f, fr_record = fr_record f\<rparr> = f"
    by (cases f) simp
  moreover have "i = fr_sequence f" "hd_batch h = fr_batch f" "hd_scope h = ev_scope (fr_record f)"
      "hd_target h = ev_target (fr_record f)" "hd_privacy h = ev_privacy (fr_record f)"
    using assms(3) by (auto simp: frame_consistent_def bind_res_eq_Inr)
  ultimately show ?thesis
    using assms(2,4) by (simp add: parse_frame_def json_object_def frame_keys_def field_def equals_one_def
        text_of_def int_of_def reconstruct_record_def same)
qed

lemma parse_frames_back:
  "list_all (frame_reads_back en) fs \<Longrightarrow> list_all (\<lambda>f. frame_init f = Inr f) fs \<Longrightarrow>
     frames_consistent h i fs = Inr () \<Longrightarrow> map_res (spool_frame_line (en_nfc en)) fs = Inr lines \<Longrightarrow>
     parse_frames en h i lines = Inr fs"
  by (induction fs arbitrary: i lines) (auto simp: bind_res_eq_Inr parse_frame_back)

lemma encode_frames_lines:
  "encode_frames en used fs = Inr lines \<Longrightarrow> used \<le> max_segment_file_bytes \<Longrightarrow>
     map_res (spool_frame_line (en_nfc en)) fs = Inr lines \<and>
     used + int (length (concat lines)) \<le> max_segment_file_bytes"
  by (induction fs arbitrary: used lines) (fastforce simp: bind_res_eq_Inr split: if_splits)+

lemma map_res_all:
  "map_res f xs = Inr ys \<Longrightarrow> (\<And>x y. f x = Inr y \<Longrightarrow> P y) \<Longrightarrow> list_all P ys"
  by (induction xs arbitrary: ys) (auto simp: bind_res_eq_Inr)

text \<open>C16
  Round trip of a segment: the bytes the writer builds from a valid header and valid frames are
  accepted by the reader and give back that header and those frames, with the size and digest of
  the bytes, provided the JSON library and the record model read back the lines written here.
\<close>

theorem build_parse_roundtrip:
  assumes "build_segment_bytes en h frames = Inr content" "header_init h = Inr h"
    "list_all (\<lambda>f. frame_init f = Inr f) frames"
    "header_reads_back en h" "list_all (frame_reads_back en) frames"
  shows "parse_segment_bytes en content = Inr \<lparr>ps_header = h, ps_frames = frames,
     ps_byte_size = int (length content), ps_file_sha256 = en_sha_hex en content\<rparr>"
proof -
  obtain l ls where built: "\<not> max_segment_frames < int (length frames)"
      "hd_record_count h = int (length frames)" "frames_consistent h 1 frames = Inr ()"
      "spool_segment_header_line (en_nfc en) h = Inr l"
      "encode_frames en (int (length l)) frames = Inr ls"
      "spool_content_sha256 (en_sha_hex en) ls = hd_content_sha256 h" "content = l @ concat ls"
    using assms(1) by (auto simp: build_segment_bytes_def bind_res_eq_Inr validate_consistency_def
        split: if_splits)
  have line: "is_line max_header_line_bytes l" using header_line_is_line [OF built(4)] .
  then have "int (length l) \<le> max_segment_file_bytes"
    by (auto simp: is_line_def max_header_line_bytes_def max_segment_file_bytes_def)
  note enc = encode_frames_lines [OF built(5) this]
  have lines: "list_all (is_line max_frame_line_bytes) ls"
    using enc frame_line_is_line by (blast intro: map_res_all)
  have "length ls = length frames" using enc map_res_Inr_length by blast
  then show ?thesis
    using split_lines_back [OF line lines] enc built
      parse_header_back [OF assms(4,2) built(4)] parse_frames_back [OF assms(5,3) built(3)]
    by (simp add: parse_segment_bytes_def)
qed

section \<open>A concrete segment\<close>

definition demo_frame :: spool_frame where
  "demo_frame = \<lparr>fr_batch = ''b1'', fr_sequence = 1,
     fr_record = \<lparr>ev_record_id = ''r'', ev_expires_at = 1000, ev_scope = ''installation'',
       ev_target = None, ev_privacy = ''internal'', ev_dump = P_Dict []\<rparr>\<rparr>"

definition demo_header :: segment_header where
  "demo_header = \<lparr>hd_batch = ''b1'', hd_config_generation = replicate 64 (CHR ''0''),
     hd_scope = ''installation'', hd_target = None, hd_privacy = ''internal'', hd_retention_days = 30,
     hd_exporters = [''ch''], hd_record_count = 1, hd_content_sha256 = replicate 64 (CHR ''0'')\<rparr>"

definition demo_env :: spool_env where
  "demo_env = \<lparr>en_nfc = (\<lambda>s. s), en_sha_hex = (\<lambda>_. replicate 64 (CHR ''0'')),
     en_loads = (\<lambda>line. Some (if line ! 18 = CHR ''f'' then frame_payload demo_frame
       else header_payload demo_header)),
     en_record = (\<lambda>_. Some (fr_record demo_frame)), en_identity = (\<lambda>_ _. True),
     en_barrier_bound = True, en_absolute = Some, en_spool_root = Some ''/s/spool''\<rparr>"

definition demo_frame_line :: string where
  "demo_frame_line = projr (spool_frame_line (\<lambda>s. s) demo_frame)"

definition demo_header_line :: string where
  "demo_header_line = projr (spool_segment_header_line (\<lambda>s. s) demo_header)"

lemma demo_lines:
  "spool_frame_line (\<lambda>s. s) demo_frame = Inr demo_frame_line"
  "spool_segment_header_line (\<lambda>s. s) demo_header = Inr demo_header_line"
  "demo_frame_line ! 18 = CHR ''f''" "demo_header_line ! 18 = CHR ''c''"
  "length demo_frame_line = 77" "length demo_header_line = 350"
  "header_init demo_header = Inr demo_header" "frame_init demo_frame = Inr demo_frame"
  by code_simp+

definition demo_content :: string where
  "demo_content = demo_header_line @ demo_frame_line"

lemma demo_env_simps:
  "en_nfc demo_env = (\<lambda>s. s)" "en_sha_hex demo_env = (\<lambda>_. replicate 64 (CHR ''0''))"
  "en_barrier_bound demo_env" "en_absolute demo_env = Some" "en_spool_root demo_env = Some ''/s/spool''"
  "en_identity demo_env = (\<lambda>_ _. True)" "en_record demo_env = (\<lambda>_. Some (fr_record demo_frame))"
  "en_loads demo_env demo_frame_line = Some (frame_payload demo_frame)"
  "en_loads demo_env demo_header_line = Some (header_payload demo_header)"
  by (simp_all add: demo_env_def demo_lines)

lemma demo_build: "build_segment_bytes demo_env demo_header [demo_frame] = Inr demo_content"
  by (simp add: build_segment_bytes_def validate_consistency_def frame_consistent_def demo_env_simps demo_lines
      max_segment_frames_def max_segment_file_bytes_def spool_content_sha256_def demo_content_def)
    (simp add: demo_frame_def demo_header_def)

lemma demo_reads_back: "header_reads_back demo_env demo_header" "frame_reads_back demo_env demo_frame"
  by (simp_all add: header_reads_back_def frame_reads_back_def demo_env_simps demo_lines json_object_def
      frame_payload_def field_def is_dict_def) (simp add: demo_frame_def)

definition demo_parsed :: parsed_segment where
  "demo_parsed = \<lparr>ps_header = demo_header, ps_frames = [demo_frame], ps_byte_size = 427,
     ps_file_sha256 = replicate 64 (CHR ''0'')\<rparr>"

theorem build_parse_roundtrip_witness:
  "parse_segment_bytes demo_env demo_content = Inr demo_parsed"
  using build_parse_roundtrip [OF demo_build demo_lines(7) _ demo_reads_back(1)]
  by (simp add: demo_lines demo_reads_back demo_parsed_def demo_content_def demo_env_simps)

lemma demo_parse: "parse_segment_bytes demo_env demo_content = Inr demo_parsed"
proof -
  have "split_lines demo_content = Inr (demo_header_line, [demo_frame_line])"
    using split_lines_back [of demo_header_line "[demo_frame_line]"]
      header_line_is_line [OF demo_lines(2)] frame_line_is_line [OF demo_lines(1)]
    by (simp add: demo_content_def demo_lines max_segment_file_bytes_def)
  moreover have "parse_header demo_env demo_header_line = Inr demo_header"
    by (rule parse_header_back [OF demo_reads_back(1)]) (simp_all add: demo_lines demo_env_simps)
  moreover have "parse_frame demo_env demo_header 1 demo_frame_line = Inr demo_frame"
  proof (rule parse_frame_back [OF demo_reads_back(2) demo_lines(8)])
    show "frame_consistent demo_header 1 demo_frame = Inr ()"
      by (simp add: frame_consistent_def demo_frame_def demo_header_def)
  qed (simp add: demo_lines demo_env_simps)
  ultimately show ?thesis
    by (simp add: parse_segment_bytes_def max_segment_frames_def demo_env_simps spool_content_sha256_def
        demo_parsed_def demo_content_def demo_lines) (simp add: demo_header_def)
qed

theorem parse_is_canonical_witness:
  "build_segment_bytes demo_env demo_header [demo_frame] = Inr demo_content"
  using parse_is_canonical [OF demo_parse] by (simp add: demo_parsed_def)

end
