(* ===== verification/Demo_Spool.thy ===== *)
theory Demo_Spool
  imports Reader
begin

text \<open>
  One concrete spool for the instances of the theorems: an idle handle over a ledger with one
  committed, undelivered segment, and its file on disk.
\<close>

definition demo_installation :: string where
  "demo_installation = ''mh_in1_'' @ replicate 12 (CHR ''0'') @ ''4000'' @ ''8'' @ replicate 15 (CHR ''0'')"

definition demo_node :: file_node where
  "demo_node = \<lparr>fn_content = demo_content, fn_open = None, fn_owner_only = True, fn_changes = False,
     fn_read_fails = False\<rparr>"

definition demo_path :: string where
  "demo_path = pending_path ''/s/spool'' (sg_day demo_segment) ''b1''"

definition demo_disk :: "tables \<Rightarrow> (string \<times> file_node) list \<Rightarrow> spool_world" where
  "demo_disk t fs = \<lparr>db = t, db_closed = False, in_txn = False, faults = [], files = fs,
     unlinks = [], locks = [], forwarded = [], others = []\<rparr>"

lemma demo_disk_simps [simp]:
  "db (demo_disk t fs) = t" "files (demo_disk t fs) = fs" "locks (demo_disk t fs) = []"
  "\<not> db_closed (demo_disk t fs)" "faults (demo_disk t fs) = []" "quiet (demo_disk t fs)"
  "unlinks (demo_disk t fs) = []" "\<not> in_txn (demo_disk t fs)"
  "(demo_disk t fs)\<lparr>locks := []\<rparr> = demo_disk t fs" "(demo_disk t fs)\<lparr>db := t'\<rparr> = demo_disk t' fs"
  "(demo_disk t fs)\<lparr>files := fs'\<rparr> = demo_disk t fs'" "(demo_disk t fs)\<lparr>unlinks := []\<rparr> = demo_disk t fs"
  "(demo_disk t fs)\<lparr>in_txn := False\<rparr> = demo_disk t fs" "(demo_disk t fs)\<lparr>faults := []\<rparr> = demo_disk t fs"
  by (simp_all add: demo_disk_def quiet_def)

lemma demo_installation_ok: "installation_id_match demo_installation"
  by code_simp

lemma demo_rows: "sr_row demo_record = demo_segment" "sg_batch demo_segment = ''b1''"
    "sr_exporters demo_record = [\<lparr>xd_exporter = ''ch'', xd_status = ''pending''\<rparr>]"
    "segments demo_ledger = [demo_segment]" "cursors demo_ledger = []" "retirements demo_ledger = []"
    "audit demo_ledger = []" "audit_seq demo_ledger = 0" "length (sg_day demo_segment) = 10"
    "seg_exporters demo_ledger = [delivery_row ''b1'' \<lparr>xd_exporter = ''ch'', xd_status = ''pending''\<rparr>]"
  by (simp_all add: demo_record_def demo_ledger_def demo_segment_def empty_tables_def)

lemma demo_agrees: "agrees demo_parsed (sg_day demo_segment) ''b1'' demo_record"
  by (simp add: agrees_def Let_def demo_parsed_def demo_rows demo_header_def)
    (simp add: demo_segment_def demo_lines)

lemma demo_trusted:
  "read_trusted_segment demo_env [(demo_path, demo_node)] demo_path demo_installation = Inr demo_parsed"
proof -
  have "int (length demo_content) \<le> max_segment_file_bytes"
    by (simp add: demo_content_def demo_lines max_segment_file_bytes_def)
  then show ?thesis
    using demo_parse demo_installation_ok
    by (simp add: read_trusted_segment_def require_installation_id_def open_regular_def read_descriptor_def
        demo_node_def verify_identity_def demo_env_simps list_all_iff)
qed

lemma demo_listed:
  "list_segment_records None (demo_disk demo_ledger fs) = (Inr [demo_record], demo_disk demo_ledger fs)"
proof -
  have "exporters_of ''b1'' demo_ledger = map (delivery_row ''b1'') (sr_exporters demo_record)"
    by (simp add: exporters_of_def demo_rows delivery_row_def)
  moreover have "map_res checked_exporter (map (delivery_row ''b1'') (sr_exporters demo_record)) =
      Inr (sr_exporters demo_record)"
    by (rule map_res_checked) (simp add: demo_rows demo_checks(3) delivery_states_def)
  ultimately show ?thesis
    by (simp add: list_segment_records_def normalise_def handle_def andthen_def db_connection_def select_quiet
        segment_rows_def demo_rows load_record_def load_exporters_def lift_res_def ret_def
        demo_checks(1) [unfolded demo_rows(3)] del: map_res.simps list.map)
qed

end
