(* ===== verification/Audit_Log.thy ===== *)
theory Audit_Log
  imports Control_Db
begin

text \<open>
  \<^verbatim>\<open>src/milhouse/state/audit.py\<close>: the append-only maintenance trail. A constructor fixes its codes,
  takes a validated identifier only through the keyed pseudonymizer (\<open>None\<close>: no key is wired, the
  resource is left out), and writes inside the caller's transaction. The pseudonymizer is the
  argument \<open>ps\<close>, the function its \<^verbatim>\<open>fingerprint\<close> method computes.
\<close>

definition audit_error :: py_exc where
  "audit_error = State_Error ''MH_STATE_AUDIT''"

definition validate_resource :: "string \<Rightarrow> unit res" where
  "validate_resource v = check_res (token_match 255 v) audit_error"

text \<open>\<^verbatim>\<open>mh_fp1_e[1-9][0-9]{0,9}_batch_[a-z2-7]{52}\<close>.\<close>

definition is_base32_char :: "char \<Rightarrow> bool" where
  "is_base32_char c \<longleftrightarrow> is_lower c \<or> c \<in> set ''234567''"

definition fingerprint_token :: "string \<Rightarrow> bool" where
  "fingerprint_token s \<longleftrightarrow>
     (let rest = drop 8 s; epoch = takeWhile is_digit rest; tail = drop (length epoch) rest
      in take 8 s = ''mh_fp1_e'' \<and> epoch \<noteq> [] \<and> hd epoch \<noteq> CHR ''0'' \<and> length epoch \<le> 10
       \<and> take 7 tail = ''_batch_'' \<and> length tail = 59 \<and> list_all is_base32_char (drop 7 tail))"

definition max_resource_bytes :: nat where "max_resource_bytes = 128"

definition keyed_resource ::
  "(string \<Rightarrow> string \<Rightarrow> string) option \<Rightarrow> string \<Rightarrow> string option res" where
  "keyed_resource ps batch =
     (case ps of
        None \<Rightarrow> Inr None
      | Some fingerprint \<Rightarrow>
          (let token = fingerprint ''batch'' batch
           in if py_len token \<le> max_resource_bytes \<and> fingerprint_token token
              then Inr (Some token) else Inl audit_error))"

definition validate_audit_count :: "int \<Rightarrow> unit res" where
  "validate_audit_count n = check_res (0 \<le> n \<and> n \<le> max_int64) audit_error"

text \<open>\<^verbatim>\<open>INSERT INTO _audit\<close>: the id is one past the largest ever assigned.\<close>

definition append_audit :: "audit_row \<Rightarrow> tables \<Rightarrow> tables" where
  "append_audit row t = t\<lparr>audit := audit t @ [row\<lparr>au_id := audit_seq t + 1\<rparr>],
     audit_seq := audit_seq t + 1\<rparr>"

definition bind_opt :: "int option \<Rightarrow> int list" where
  "bind_opt v = (case v of None \<Rightarrow> [] | Some n \<Rightarrow> [n])"

definition insert_audit_row :: "audit_row \<Rightarrow> ('a control_scheme, unit) prog" where
  "insert_audit_row row =
     sql (bind_opt (au_record_count row) @ bind_opt (au_byte_size row)) (\<lambda>t.
       if audit_check row \<and> audit_seq t < max_int64 then Some ((), append_audit row t) else None)"

definition audit_caught :: "py_exc \<Rightarrow> bool" where
  "audit_caught e \<longleftrightarrow> e = Sqlite_Error \<or> e = Overflow_Error"

definition time_caught :: "py_exc \<Rightarrow> bool" where
  "time_caught e \<longleftrightarrow> (case e of Overflow_Error \<Rightarrow> True | Time_Error _ \<Rightarrow> True | _ \<Rightarrow> False)"

definition insert_audit ::
  "int \<Rightarrow> string \<Rightarrow> string \<Rightarrow> string \<Rightarrow> string option \<Rightarrow> string \<Rightarrow> int \<Rightarrow> int
    \<Rightarrow> string option \<Rightarrow> string option \<Rightarrow> ('a control_scheme, unit) prog" where
  "insert_audit now action actor outcome resource reason record_count byte_size content file =
     andthen (normalise time_caught audit_error (lift_res (format_timestamp (utc now)))) (\<lambda>stamp.
     normalise audit_caught audit_error (insert_audit_row
       \<lparr>au_id = 0, au_recorded_at = stamp, au_action = action, au_actor = actor, au_outcome = outcome,
        au_resource = resource, au_reason = Some reason, au_record_count = Some record_count,
        au_byte_size = Some byte_size, au_content_sha256 = content, au_file_sha256 = file\<rparr>))"

definition prune_outcome :: "bool \<Rightarrow> string" where
  "prune_outcome undelivered = (if undelivered then ''pruned_undelivered'' else ''pruned'')"

definition prune_reason :: "bool \<Rightarrow> string" where
  "prune_reason undelivered = (if undelivered then ''expired_undelivered'' else ''expired'')"

definition record_retention_prune ::
  "(string \<Rightarrow> string \<Rightarrow> string) option \<Rightarrow> int \<Rightarrow> string \<Rightarrow> int \<Rightarrow> int \<Rightarrow> bool
    \<Rightarrow> ('a control_scheme, unit) prog" where
  "record_retention_prune ps now batch record_count byte_size undelivered =
     andthen (lift_res (validate_resource batch)) (\<lambda>_.
     andthen (lift_res (validate_audit_count record_count)) (\<lambda>_.
     andthen (lift_res (validate_audit_count byte_size)) (\<lambda>_.
     andthen (lift_res (keyed_resource ps batch)) (\<lambda>resource.
     insert_audit now ''retention_prune'' ''maintenance'' (prune_outcome undelivered) resource
       (prune_reason undelivered) record_count byte_size None None))))"

definition audit_rows :: "string option \<Rightarrow> int \<Rightarrow> tables \<Rightarrow> audit_row list" where
  "audit_rows action limit t = take (nat limit) (sort_key au_id
     (case action of None \<Rightarrow> audit t | Some a \<Rightarrow> filter (\<lambda>r. au_action r = a) (audit t)))"

definition list_audit :: "string option \<Rightarrow> int \<Rightarrow> ('a control_scheme, audit_row list) prog" where
  "list_audit action limit =
     andthen (check (0 < limit \<and> limit \<le> 100000) audit_error) (\<lambda>_.
     andthen (check (action \<noteq> Some []) audit_error) (\<lambda>_.
     normalise sqlite_caught audit_error
       (andthen db_connection (\<lambda>_. select [limit] (audit_rows action limit)))))"

section \<open>The trail only grows\<close>

text \<open>Ids ascend strictly and none exceeds the high-water mark: the order of ids is append order.\<close>

definition audit_wf :: "tables \<Rightarrow> bool" where
  "audit_wf t \<longleftrightarrow> sorted_wrt (<) (map au_id (audit t)) \<and> list_all (\<lambda>r. au_id r \<le> audit_seq t) (audit t)"

lemma audit_wf_empty: "audit_wf empty_tables"
  by (simp add: audit_wf_def empty_tables_def)

lemma append_audit_wf: "audit_wf t \<Longrightarrow> audit_wf (append_audit row t)"
  by (fastforce simp: audit_wf_def append_audit_def sorted_wrt_append list_all_iff)

lemma insert_audit_row_Inr:
  "insert_audit_row row s = (Inr u, s') \<Longrightarrow> audit_check row \<and> db s' = append_audit row (db s)"
  by (auto simp: insert_audit_row_def sql_Inr split: if_splits)

text \<open>What a recorded prune leaves: one row, with the codes of the constructor.\<close>

definition prune_row :: "(string \<Rightarrow> string \<Rightarrow> string) option \<Rightarrow> int \<Rightarrow> string \<Rightarrow> int \<Rightarrow> int \<Rightarrow> bool \<Rightarrow> audit_row" where
  "prune_row ps now batch n b undelivered =
     \<lparr>au_id = 0, au_recorded_at = stamp_of now, au_action = ''retention_prune'',
      au_actor = ''maintenance'', au_outcome = prune_outcome undelivered,
      au_resource = projr (keyed_resource ps batch), au_reason = Some (prune_reason undelivered),
      au_record_count = Some n, au_byte_size = Some b, au_content_sha256 = None, au_file_sha256 = None\<rparr>"

lemma record_retention_prune_Inr:
  "record_retention_prune ps now batch n b undelivered s = (Inr u, s') \<Longrightarrow>
     db s' = append_audit (prune_row ps now batch n b undelivered) (db s) \<and>
     (\<exists>r. keyed_resource ps batch = Inr r)"
  by (auto simp: record_retention_prune_def andthen_Inr lift_res_def insert_audit_def normalise_Inr
      prune_row_def format_timestamp_Inr utc_def dest!: insert_audit_row_Inr)

lemma record_retention_prune_wf: "db_keeps audit_wf (record_retention_prune ps now batch n b undelivered)"
  unfolding record_retention_prune_def insert_audit_def insert_audit_row_def
  by (intro keeps_andthen keeps_normalise keeps_lift_res db_rel_order db_keeps_sql)
    (auto split: if_splits intro: append_audit_wf)

text \<open>An identifier reaches the trail only as a keyed token: never as it was given.\<close>

lemma keyed_resource_Inr:
  "keyed_resource ps batch = Inr (Some token) \<Longrightarrow>
     (\<exists>fp. ps = Some fp \<and> token = fp ''batch'' batch) \<and> fingerprint_token token"
  by (auto simp: keyed_resource_def Let_def split: option.splits if_splits)

lemma audit_in_order: "audit_wf t \<Longrightarrow> audit_rows None m t = take (nat m) (audit t)"
proof -
  assume "audit_wf t"
  then have "sorted (map au_id (audit t))"
    by (auto simp: audit_wf_def intro: strict_sorted_imp_sorted)
  then show ?thesis by (simp add: audit_rows_def sort_key_id_if_sorted)
qed

lemma insert_audit_Inl:
  "insert_audit now action actor outcome resource reason n b c f s = (Inl e, s') \<Longrightarrow> db s' = db s"
  by (auto simp: insert_audit_def andthen_Inl normalise_Inl normalise_Inr lift_res_def insert_audit_row_def
      dest: sql_Inl)

lemma record_retention_prune_Inl:
  "record_retention_prune ps now batch n b undelivered s = (Inl e, s') \<Longrightarrow> db s' = db s"
  by (auto simp: record_retention_prune_def andthen_Inl lift_res_def dest: insert_audit_Inl)

text \<open>
  The maintenance trail is append-only and keeps identifiers out: recording a prune adds exactly one
  row behind all others, with a fresh id above every id the trail has used, fixed codes, the counts
  given, no digest, and the batch only as the token of the key (nothing when no key is wired); when
  it fails no table changes. The trail read in id order is the order it was written in.
\<close>

theorem audit_append_only:
  assumes "audit_wf (db s)" "record_retention_prune ps now batch n b undelivered s = (r, s')"
  shows "audit_wf (db s') \<and> audit_rows None m (db s') = take (nat m) (audit (db s')) \<and>
     (case r of
        Inl _ \<Rightarrow> db s' = db s
      | Inr _ \<Rightarrow> \<exists>row. audit (db s') = audit (db s) @ [row] \<and>
          list_all (\<lambda>old. au_id old < au_id row) (audit (db s)) \<and> au_id row = audit_seq (db s) + 1 \<and>
          au_action row = ''retention_prune'' \<and> au_actor row = ''maintenance'' \<and>
          au_outcome row = prune_outcome undelivered \<and> au_record_count row = Some n \<and>
          au_byte_size row = Some b \<and> au_content_sha256 row = None \<and> au_file_sha256 row = None \<and>
          au_resource row = (case ps of None \<Rightarrow> None | Some fp \<Rightarrow> Some (fp ''batch'' batch)))"
proof -
  have wf: "audit_wf (db s')"
    using keepsD [OF record_retention_prune_wf assms(2)] assms(1) by simp
  show ?thesis
  proof (cases r)
    case (Inl e)
    then show ?thesis using record_retention_prune_Inl assms(2) wf audit_in_order by auto
  next
    case (Inr u)
    note ok = record_retention_prune_Inr [OF assms(2) [unfolded Inr]]
    let ?row = "(prune_row ps now batch n b undelivered)\<lparr>au_id := audit_seq (db s) + 1\<rparr>"
    have "au_resource ?row = (case ps of None \<Rightarrow> None | Some fp \<Rightarrow> Some (fp ''batch'' batch))"
      using ok by (auto simp: prune_row_def keyed_resource_def Let_def split: option.splits if_splits)
    moreover have "list_all (\<lambda>old. au_id old < audit_seq (db s) + 1) (audit (db s))"
      using assms(1) by (auto simp: audit_wf_def list_all_iff)
    ultimately show ?thesis
      using ok wf audit_in_order [OF wf] Inr
      by (auto simp: append_audit_def intro!: exI [of _ ?row]) (simp_all add: prune_row_def)
  qed
qed

text \<open>A prune is recorded whenever SQLite does not fail and the instant and the counts are in range.\<close>

lemma prune_codes:
  "sql_length ''retention_prune'' = 15" "sql_length ''maintenance'' = 11"
  "sql_length ''pruned'' = 6" "sql_length ''pruned_undelivered'' = 18"
  by code_simp+

lemma record_retention_prune_quiet:
  assumes "token_match 255 batch" "0 \<le> n" "n \<le> max_int64" "0 \<le> b" "b \<le> max_int64"
    "keyed_resource ps batch = Inr res" "valid_instant now" "\<not> db_closed s" "faults s = []"
    "audit_seq (db s) < max_int64"
  shows "record_retention_prune ps now batch n b undelivered s =
     (Inr (), s\<lparr>db := append_audit (prune_row ps now batch n b undelivered) (db s)\<rparr>)"
  using assms
  by (simp add: record_retention_prune_def andthen_def lift_res_def validate_resource_def check_res_def
      validate_audit_count_def insert_audit_def normalise_def handle_def format_timestamp_utc
      insert_audit_row_def sql_quiet bind_opt_def audit_check_def prune_codes prune_outcome_def in_int64_def prune_row_def
      min_int64_def)

definition audit_now :: int where "audit_now = 63887788800000000"

lemma demo_prune:
  "record_retention_prune None audit_now ''b1'' 1 10 True (fresh_control []) =
     (Inr (), (fresh_control [])\<lparr>db := append_audit (prune_row None audit_now ''b1'' 1 10 True) empty_tables\<rparr>)"
proof -
  have "token_match 255 ''b1''" by code_simp
  then show ?thesis
    by (subst record_retention_prune_quiet [where res = None])
      (simp_all add: keyed_resource_def max_int64_def valid_instant_def datetime_limit_def us_per_day_def
        audit_now_def fresh_control_def empty_tables_def)
qed

theorem audit_append_only_witness:
  "map au_outcome (audit (db (snd (record_retention_prune None audit_now ''b1'' 1 10 True (fresh_control [])))))
     = [''pruned_undelivered'']"
proof -
  have start: "audit (db (fresh_control [])) = []" "audit_wf (db (fresh_control []))"
    by (simp_all add: fresh_control_def empty_tables_def audit_wf_def)
  obtain row where "audit (db (snd (record_retention_prune None audit_now ''b1'' 1 10 True (fresh_control []))))
      = [] @ [row]" "au_outcome row = ''pruned_undelivered''"
    using audit_append_only [OF start(2) demo_prune, where m = 1] start(1)
    by (auto simp: demo_prune prune_outcome_def)
  then show ?thesis by simp
qed

end
