(* ===== verification/Retention.thy ===== *)
theory Retention
  imports Demo_Spool Audit_Log
begin

text \<open>
  \<^verbatim>\<open>src/milhouse/spooling/retention.py\<close>: which committed segments have wholly expired, and the
  pruning of those. A prune is row-first: one transaction detaches cursors, deletes the ledger rows
  and leaves a tombstone and an audit row; the file is unlinked afterwards, and the tombstone goes
  only when the file is durably gone.
\<close>

datatype retention_status = Fully_Expired | Mixed | Live | Unreadable | Disagreeing

record segment_retention =
  re_batch :: string
  re_status :: retention_status
  re_record_count :: int
  re_byte_size :: int
  re_delivered :: bool
  re_code :: "string option"

datatype file_outcome = Removed | Orphaned | Uncertain

record pruned_segment =
  pr_batch :: string
  pr_record_count :: int
  pr_byte_size :: int
  pr_delivered :: bool
  pr_outcome :: file_outcome

record retention_result =
  rr_pruned :: "pruned_segment list"
  rr_skipped :: "segment_retention list"

definition is_delivered_everywhere :: "segment_record \<Rightarrow> bool" where
  "is_delivered_everywhere rec \<longleftrightarrow> list_all (\<lambda>x. xd_status x = ''delivered'') (sr_exporters rec)"

definition retention_report :: "segment_record \<Rightarrow> retention_status \<Rightarrow> string option \<Rightarrow> segment_retention" where
  "retention_report rec status code =
     \<lparr>re_batch = sg_batch (sr_row rec), re_status = status, re_record_count = sg_record_count (sr_row rec),
      re_byte_size = sg_byte_size (sr_row rec), re_delivered = is_delivered_everywhere rec, re_code = code\<rparr>"

definition segment_path :: "string \<Rightarrow> segment_row \<Rightarrow> string" where
  "segment_path root r = pending_path root (sg_day r) (sg_batch r)"

section \<open>Classification\<close>

definition frame_expiries :: "parsed_segment \<Rightarrow> int list" where
  "frame_expiries p = map (\<lambda>f. ev_expires_at (fr_record f)) (ps_frames p)"

definition expiry_status :: "int list \<Rightarrow> int \<Rightarrow> retention_status" where
  "expiry_status expiries now =
     (if expiries = [] then Live
      else if Max (set expiries) \<le> now then Fully_Expired
      else if Min (set expiries) \<le> now then Mixed
      else Live)"

definition classify ::
  "spool_env \<Rightarrow> string \<Rightarrow> string \<Rightarrow> int \<Rightarrow> (string \<times> file_node) list \<Rightarrow> segment_record
    \<Rightarrow> segment_retention res" where
  "classify en root installation now fs rec =
     (case read_trusted_segment en fs (segment_path root (sr_row rec)) installation of
        Inl (Spool_Error c) \<Rightarrow> Inr (retention_report rec Unreadable (Some c))
      | Inl e \<Rightarrow> Inl e
      | Inr p \<Rightarrow>
          (if \<not> agrees p (sg_day (sr_row rec)) (sg_batch (sr_row rec)) rec
           then Inr (retention_report rec Disagreeing (Some ''MH_SPOOL_VERIFY''))
           else Inr (retention_report rec (expiry_status (frame_expiries p) now) None)))"

definition validate_common :: "spool_env \<Rightarrow> string \<Rightarrow> string \<Rightarrow> unit res" where
  "validate_common en root installation =
     (case en_spool_root en of
        None \<Rightarrow> Inl (Spool_Error ''MH_SPOOL_RETENTION'')
      | Some bound \<Rightarrow>
          bind_res (check_res (en_absolute en root = Some bound) (Spool_Error ''MH_SPOOL_RETENTION''))
            (\<lambda>_. check_res (installation_id_match installation) (Spool_Error ''MH_SPOOL_IDENTITY'')))"

definition retention_preview ::
  "spool_env \<Rightarrow> string \<Rightarrow> string \<Rightarrow> int \<Rightarrow> segment_retention list spool_prog" where
  "retention_preview en root installation now =
     andthen (lift_res (validate_common en root installation)) (\<lambda>_.
     andthen (require_now ''MH_SPOOL_RETENTION'' now) (\<lambda>_.
     andthen (list_segment_records None) (\<lambda>records.
     for_each (\<lambda>rec. andthen (getst files) (\<lambda>fs. lift_res (classify en root installation now fs rec)))
       records)))"

section \<open>Pruning\<close>

definition detach_cursors :: "string \<Rightarrow> (spool_world, unit) prog" where
  "detach_cursors b = sql [] (\<lambda>t. Some ((), t\<lparr>cursors :=
     map (\<lambda>(k, c). (k, if cr_batch c = Some b then c\<lparr>cr_batch := None\<rparr> else c)) (cursors t)\<rparr>))"

definition delete_exporters :: "string \<Rightarrow> (spool_world, unit) prog" where
  "delete_exporters b = sql [] (\<lambda>t. Some ((), t\<lparr>seg_exporters :=
     filter (\<lambda>e. ex_batch e \<noteq> b) (seg_exporters t)\<rparr>))"

text \<open>A row some exporter or cursor row still references cannot be deleted.\<close>

definition delete_segment :: "string \<Rightarrow> (spool_world, unit) prog" where
  "delete_segment b = sql [] (\<lambda>t.
     if list_ex (\<lambda>r. sg_batch r = b) (segments t) \<and>
        (list_ex (\<lambda>e. ex_batch e = b) (seg_exporters t) \<or>
         list_ex (\<lambda>(k, c). cr_batch c = Some b) (cursors t)) then None
     else Some ((), t\<lparr>segments := filter (\<lambda>r. sg_batch r \<noteq> b) (segments t)\<rparr>))"

definition insert_retirement :: "retirement_row \<Rightarrow> (spool_world, unit) prog" where
  "insert_retirement row = sql [] (\<lambda>t.
     if retirement_check row \<and> rt_batch row \<notin> set (map rt_batch (retirements t))
     then Some ((), t\<lparr>retirements := retirements t @ [row]\<rparr>) else None)"

definition delete_retirement :: "string \<Rightarrow> (spool_world, unit) prog" where
  "delete_retirement b = sql [] (\<lambda>t. Some ((), t\<lparr>retirements :=
     filter (\<lambda>r. rt_batch r \<noteq> b) (retirements t)\<rparr>))"

text \<open>\<^verbatim>\<open>_clear_retirement\<close>: best effort.\<close>

definition clear_retirement :: "string \<Rightarrow> unit spool_prog" where
  "clear_retirement b = handle (transaction (delete_retirement b))
     (\<lambda>e. if state_caught e then Some (ret ()) else None)"

definition tombstone :: "segment_row \<Rightarrow> string \<Rightarrow> retirement_row" where
  "tombstone r stamp = \<lparr>rt_batch = sg_batch r, rt_day = sg_day r, rt_file_sha256 = sg_file_sha256 r,
     rt_retired_at = stamp\<rparr>"

definition prune_rows :: "segment_record \<Rightarrow> int \<Rightarrow> string \<Rightarrow> bool \<Rightarrow> unit spool_prog" where
  "prune_rows rec now stamp delivered =
     (let r = sr_row rec; b = sg_batch r in
      andthen (detach_cursors b) (\<lambda>_.
      andthen (delete_exporters b) (\<lambda>_.
      andthen (delete_segment b) (\<lambda>_.
      andthen (insert_retirement (tombstone r stamp)) (\<lambda>_.
      record_retention_prune None now b (sg_record_count r) (sg_byte_size r) (\<not> delivered))))))"

text \<open>The unlink and its three outcomes.\<close>

definition unlink_outcome :: "string \<Rightarrow> file_outcome spool_prog" where
  "unlink_outcome path = handle (andthen (remove_file path) (\<lambda>_. ret Removed))
     (\<lambda>e. case e of
        Secure_File_Error Commit_Uncertain \<Rightarrow> Some (ret Uncertain)
      | Secure_File_Error _ \<Rightarrow> Some (ret Orphaned)
      | _ \<Rightarrow> None)"

definition prune_segment ::
  "segment_record \<Rightarrow> string \<Rightarrow> int \<Rightarrow> bool \<Rightarrow> pruned_segment option spool_prog" where
  "prune_segment rec path now delivered =
     (case format_timestamp (utc now) of
        Inl e \<Rightarrow> (if time_caught e then ret None else throw e)
      | Inr stamp \<Rightarrow>
          andthen (handle (andthen (transaction (prune_rows rec now stamp delivered)) (\<lambda>_. ret True))
            (\<lambda>e. if state_caught e then Some (ret False) else None)) (\<lambda>done.
          if \<not> done then ret None
          else
            andthen (unlink_outcome path) (\<lambda>out.
            andthen (if out = Removed then clear_retirement (sg_batch (sr_row rec)) else ret ()) (\<lambda>_.
            ret (Some \<lparr>pr_batch = sg_batch (sr_row rec), pr_record_count = sg_record_count (sr_row rec),
              pr_byte_size = sg_byte_size (sr_row rec), pr_delivered = delivered, pr_outcome = out\<rparr>)))))"

definition apply_one ::
  "spool_env \<Rightarrow> string \<Rightarrow> string \<Rightarrow> int \<Rightarrow> segment_record
    \<Rightarrow> (segment_retention + pruned_segment) spool_prog" where
  "apply_one en root installation now rec =
     andthen (getst files) (\<lambda>fs.
     let path = segment_path root (sr_row rec);
         skip = (\<lambda>status code. ret (Inl (retention_report rec status code)))
     in case read_trusted_segment en fs path installation of
          Inl (Spool_Error c) \<Rightarrow> skip Unreadable (Some c)
        | Inl e \<Rightarrow> throw e
        | Inr p \<Rightarrow>
            (if \<not> agrees p (sg_day (sr_row rec)) (sg_batch (sr_row rec)) rec
             then skip Disagreeing (Some ''MH_SPOOL_VERIFY'')
             else let expiries = frame_expiries p in
               if expiries = [] \<or> now < Max (set expiries)
               then skip (if expiries = [] \<or> now < Min (set expiries) then Live else Mixed) None
               else andthen (prune_segment rec path now (is_delivered_everywhere rec)) (\<lambda>pruned.
                 case pruned of
                   None \<Rightarrow> skip Fully_Expired (Some ''MH_SPOOL_RETENTION'')
                 | Some pr \<Rightarrow> ret (Inr pr))))"

definition retention_apply ::
  "spool_env \<Rightarrow> string \<Rightarrow> string \<Rightarrow> int \<Rightarrow> bool \<Rightarrow> retention_result spool_prog" where
  "retention_apply en root installation now confirm =
     andthen (lift_res (validate_common en root installation)) (\<lambda>_.
     andthen (check (en_barrier_bound en) (Spool_Error ''MH_SPOOL_RETENTION'')) (\<lambda>_.
     andthen (require_now ''MH_SPOOL_RETENTION'' now) (\<lambda>_.
     andthen (check confirm (Spool_Error ''MH_SPOOL_RETENTION'')) (\<lambda>_.
     with_barrier
       (andthen (list_segment_records None) (\<lambda>records.
        andthen (for_each (apply_one en root installation now) records) (\<lambda>outs.
        ret \<lparr>rr_pruned = List.map_filter (\<lambda>out. case out of Inl _ \<Rightarrow> None | Inr p \<Rightarrow> Some p) outs,
             rr_skipped = List.map_filter (\<lambda>out. case out of Inl s \<Rightarrow> Some s | Inr _ \<Rightarrow> None) outs\<rparr>)))))))"

section \<open>Preview and apply agree\<close>

lemma expiry_status_full: "expiry_status es now = Fully_Expired \<longleftrightarrow> es \<noteq> [] \<and> \<not> now < Max (set es)"
  by (simp add: expiry_status_def not_less)

lemma expiry_status_left:
  "es = [] \<or> now < Max (set es) \<Longrightarrow>
     expiry_status es now = (if es = [] \<or> now < Min (set es) then Live else Mixed)"
  by (cases "es = []") (simp_all only: expiry_status_def not_le [symmetric] simp_thms if_True if_False split: if_split, blast?)

lemma report_code: "(retention_report rec st c)\<lparr>re_code := c'\<rparr> = retention_report rec st c'"
  by (simp add: retention_report_def)

lemma report_status [simp]: "re_status (retention_report rec st c) = st"
  by (simp add: retention_report_def)

lemma apply_one_classify:
  "apply_one en root installation now rec w =
     (case classify en root installation now (files w) rec of
        Inl e \<Rightarrow> (Inl e, w)
      | Inr report \<Rightarrow>
          (if re_status report \<noteq> Fully_Expired then (Inr (Inl report), w)
           else andthen (prune_segment rec (segment_path root (sr_row rec)) now (is_delivered_everywhere rec))
             (\<lambda>pruned. ret (case pruned of
                None \<Rightarrow> Inl (report\<lparr>re_code := Some ''MH_SPOOL_RETENTION''\<rparr>) | Some pr \<Rightarrow> Inr pr)) w))"
proof (cases "read_trusted_segment en (files w) (segment_path root (sr_row rec)) installation")
  case (Inl e)
  then show ?thesis
    by (cases e) (simp_all add: apply_one_def classify_def andthen_def getst_def Let_def ret_def throw_def)
next
  case (Inr p)
  let ?es = "frame_expiries p"
  have run: "apply_one en root installation now rec w =
      (if \<not> agrees p (sg_day (sr_row rec)) (sg_batch (sr_row rec)) rec
       then (Inr (Inl (retention_report rec Disagreeing (Some ''MH_SPOOL_VERIFY''))), w)
       else if ?es = [] \<or> now < Max (set ?es)
       then (Inr (Inl (retention_report rec (expiry_status ?es now) None)), w)
       else andthen (prune_segment rec (segment_path root (sr_row rec)) now (is_delivered_everywhere rec))
         (\<lambda>pruned. case pruned of
            None \<Rightarrow> ret (Inl (retention_report rec Fully_Expired (Some ''MH_SPOOL_RETENTION'')))
          | Some pr \<Rightarrow> ret (Inr pr)) w)"
    using Inr expiry_status_left [of ?es now]
    by (simp only: apply_one_def andthen_def getst_def Let_def ret_def prod.case sum.case)
      (simp only: if_distrib [of "\<lambda>f. f w"] cong: if_cong)
  have same: "(\<lambda>pruned. case pruned of
      None \<Rightarrow> ret (Inl (retention_report rec Fully_Expired c)) | Some pr \<Rightarrow> ret (Inr pr)) =
    (\<lambda>pruned. ret (case pruned of None \<Rightarrow> Inl (retention_report rec Fully_Expired c) | Some pr \<Rightarrow> Inr pr))"
    for c by (auto split: option.split)
  have status: "expiry_status ?es now = Fully_Expired" if "\<not> (?es = [] \<or> now < Max (set ?es))"
    using that by (simp only: expiry_status_full simp_thms de_Morgan_disj)
  have left: "expiry_status ?es now \<noteq> Fully_Expired" if "?es = [] \<or> now < Max (set ?es)"
    using that by (simp only: expiry_status_full) blast
  show ?thesis
    unfolding run using Inr left status
    by (cases "?es = [] \<or> now < Max (set ?es)") (simp_all add: classify_def report_code same cong: option.case_cong)
qed

text \<open>
  What preview reports is what apply does: on the same files, apply leaves every segment whose
  preview status is not fully expired untouched and skips it with exactly the previewed report, and
  attempts the prune of every segment the preview calls fully expired.
\<close>

theorem apply_follows_preview:
  "apply_one en root installation now rec w =
     (case classify en root installation now (files w) rec of
        Inl e \<Rightarrow> (Inl e, w)
      | Inr report \<Rightarrow>
          (if re_status report \<noteq> Fully_Expired then (Inr (Inl report), w)
           else andthen (prune_segment rec (segment_path root (sr_row rec)) now (is_delivered_everywhere rec))
             (\<lambda>pruned. ret (case pruned of
                None \<Rightarrow> Inl (report\<lparr>re_code := Some ''MH_SPOOL_RETENTION''\<rparr>) | Some pr \<Rightarrow> Inr pr)) w))"
  by (rule apply_one_classify)

section \<open>What a prune does\<close>

definition pruned_tables :: "segment_record \<Rightarrow> int \<Rightarrow> string \<Rightarrow> bool \<Rightarrow> tables \<Rightarrow> tables" where
  "pruned_tables rec now stamp delivered t =
     (let r = sr_row rec; b = sg_batch r in
      append_audit (prune_row None now b (sg_record_count r) (sg_byte_size r) (\<not> delivered))
        (t\<lparr>cursors := map (\<lambda>(k, c). (k, if cr_batch c = Some b then c\<lparr>cr_batch := None\<rparr> else c)) (cursors t),
           seg_exporters := filter (\<lambda>e. ex_batch e \<noteq> b) (seg_exporters t),
           segments := filter (\<lambda>r. sg_batch r \<noteq> b) (segments t),
           retirements := retirements t @ [tombstone r stamp]\<rparr>))"

lemma prune_rows_Inr:
  "prune_rows rec now stamp delivered w = (Inr u, w') \<Longrightarrow> db w' = pruned_tables rec now stamp delivered (db w)"
  by (auto simp: prune_rows_def Let_def andthen_Inr detach_cursors_def delete_exporters_def
      delete_segment_def insert_retirement_def sql_Inr pruned_tables_def split: if_splits
      dest!: record_retention_prune_Inr)

lemma prune_rows_files:
  "prune_rows rec now stamp delivered w = (r, w') \<Longrightarrow> files w' = files w"
proof -
  let ?R = "\<lambda>w w' :: spool_world. files w' = files w"
  have order: "reflp ?R" "transp ?R" by (auto simp: reflp_def transp_def)
  have stmts: "keeps ?R (sql bs f)" for bs and f :: "tables \<Rightarrow> ('r \<times> tables) option"
    by (auto simp: keeps_def sql_cases split: if_splits option.splits)
  have "keeps ?R (prune_rows rec now stamp delivered)"
    unfolding prune_rows_def Let_def detach_cursors_def delete_exporters_def delete_segment_def
      insert_retirement_def record_retention_prune_def insert_audit_def insert_audit_row_def
    by (intro keeps_andthen keeps_lift_res keeps_normalise order stmts)
  then show "prune_rows rec now stamp delivered w = (r, w') \<Longrightarrow> files w' = files w"
    by (rule keepsD)
qed

lemma db_clear_retirement:
  "clear_retirement b w = (r, w') \<Longrightarrow> files w' = files w \<and>
     (db w' = db w \<or> db w' = (db w)\<lparr>retirements := filter (\<lambda>t. rt_batch t \<noteq> b) (retirements (db w))\<rparr>)"
  by (auto simp: clear_retirement_def handle_def transaction_cases delete_retirement_def sql_cases ret_def
      split: prod.splits sum.splits if_splits option.splits)

lemma remove_file_cases:
  assumes "remove_file path w = (r, w')"
  shows "db w' = db w \<and>
     ((r = Inr () \<or> r = Inl (Secure_File_Error Commit_Uncertain)) \<and> files w' = AList.delete path (files w) \<or>
      (\<exists>k. k \<noteq> Commit_Uncertain \<and> r = Inl (Secure_File_Error k) \<and> files w' = files w))"
proof (cases "unlinks w")
  case Nil
  then show ?thesis using assms by (auto simp: remove_file_def split: if_splits)
next
  case (Cons u us)
  show ?thesis
  proof (cases u)
    case None
    then show ?thesis using assms Cons by (auto simp: remove_file_def split: if_splits)
  next
    case (Some k)
    then show ?thesis using assms Cons by (cases k) (auto simp: remove_file_def)
  qed
qed

lemma unlink_outcome_cases:
  assumes "unlink_outcome path w = (r, w')"
  shows "db w' = db w \<and> (\<exists>out. r = Inr out \<and>
     files w' = (if out = Orphaned then files w else AList.delete path (files w)))"
proof -
  obtain r1 w1 where rm: "remove_file path w = (r1, w1)" by fastforce
  show ?thesis
  proof (cases "r1 = Inr ()")
    case True
    then show ?thesis
      using remove_file_cases [OF rm] assms rm
      by (auto simp: unlink_outcome_def handle_def andthen_def ret_def)
  next
    case False
    then obtain k where k: "r1 = Inl (Secure_File_Error k)" using remove_file_cases [OF rm] by auto
    then show ?thesis
      using remove_file_cases [OF rm] assms rm
      by (cases k) (auto simp: unlink_outcome_def handle_def andthen_def ret_def)
  qed
qed

text \<open>The three things a prune can do; it never raises.\<close>

definition reclaimed ::
  "string \<Rightarrow> segment_record \<Rightarrow> int \<Rightarrow> bool \<Rightarrow> file_outcome \<Rightarrow> spool_world \<Rightarrow> spool_world \<Rightarrow> bool" where
  "reclaimed path rec now delivered out w w' \<longleftrightarrow>
     (let t = pruned_tables rec now (stamp_of now) delivered (db w); b = sg_batch (sr_row rec) in
      (db w' = t \<or> out = Removed \<and> db w' = t\<lparr>retirements := filter (\<lambda>t. rt_batch t \<noteq> b) (retirements t)\<rparr>) \<and>
      files w' = (if out = Orphaned then files w else AList.delete path (files w)))"

text \<open>Everything the transaction can raise is caught.\<close>

lemma format_utc_Inl: "format_timestamp (utc us) = Inl e \<Longrightarrow> time_caught e"
  by (auto simp: format_timestamp_def truncate_to_milliseconds_def utc_def bind_res_def Let_def
      time_caught_def split: if_splits)

lemma sql_Inl_state: "sql [] f w = (Inl e, w') \<Longrightarrow> state_caught e"
  by (auto simp: sql_cases state_caught_def split: if_splits option.splits)

lemma audit_Inl_state:
  "record_retention_prune ps now b n m u w = (Inl e, w') \<Longrightarrow> e = audit_error"
  by (auto simp: record_retention_prune_def insert_audit_def andthen_Inl normalise_Inl normalise_Inr
      lift_res_def validate_resource_def validate_audit_count_def check_res_def keyed_resource_def Let_def
      insert_audit_row_def sql_cases audit_caught_def
      split: if_splits option.splits dest!: format_utc_Inl)

lemma prune_rows_Inl: "prune_rows rec now stamp delivered w = (Inl e, w') \<Longrightarrow> state_caught e"
  by (auto simp: prune_rows_def Let_def andthen_Inl detach_cursors_def delete_exporters_def
      delete_segment_def insert_retirement_def audit_error_def state_caught_def
      dest!: sql_Inl_state audit_Inl_state)

lemma clear_retirement_Inr: "\<exists>u w'. clear_retirement b w = (Inr u, w')"
proof -
  obtain r w' where txn: "transaction (delete_retirement b) w = (r, w')" by fastforce
  show ?thesis
  proof (cases r)
    case (Inl e)
    have "state_caught e"
      using transaction_Inl [OF txn [unfolded Inl]]
      by (auto simp: state_caught_def delete_retirement_def sql_cases split: if_splits)
    then show ?thesis using txn Inl by (simp add: clear_retirement_def handle_def ret_def)
  qed (use txn in \<open>auto simp: clear_retirement_def handle_def\<close>)
qed

lemma prune_segment_cases:
  assumes "prune_segment rec path now delivered w = (r, w')"
  shows "(r = Inr None \<and> db w' = db w \<and> files w' = files w) \<or>
     (\<exists>out. r = Inr (Some \<lparr>pr_batch = sg_batch (sr_row rec), pr_record_count = sg_record_count (sr_row rec),
         pr_byte_size = sg_byte_size (sr_row rec), pr_delivered = delivered, pr_outcome = out\<rparr>) \<and>
        reclaimed path rec now delivered out w w')"
proof (cases "format_timestamp (utc now)")
  case (Inl e)
  then show ?thesis using assms format_utc_Inl by (simp add: prune_segment_def ret_def)
next
  case (Inr stamp)
  then have stamp: "stamp = stamp_of now" by (auto simp: format_timestamp_Inr utc_def)
  obtain r1 w1 where txn: "transaction (prune_rows rec now stamp delivered) w = (r1, w1)" by fastforce
  have files: "files w1 = files w"
    using txn prune_rows_files by (fastforce simp: transaction_cases split: if_splits prod.splits sum.splits)
  show ?thesis
  proof (cases r1)
    case (Inl e)
    have "state_caught e"
      using transaction_Inl [OF txn [unfolded Inl]] prune_rows_Inl by (auto simp: state_caught_def)
    then show ?thesis
      using assms Inl Inr txn files transaction_Inl_db [OF txn [unfolded Inl]]
      by (simp add: prune_segment_def andthen_def handle_def ret_def)
  next
    case ok: (Inr u)
    obtain out w2 where unlink: "unlink_outcome path w1 = (Inr out, w2)"
      using unlink_outcome_cases by (metis surj_pair)
    have rows: "db w1 = pruned_tables rec now stamp delivered (db w)"
      using txn ok prune_rows_Inr by (fastforce simp: transaction_Inr)
    note unlinked = unlink_outcome_cases [OF unlink]
    have run: "prune_segment rec path now delivered w =
        andthen (if out = Removed then clear_retirement (sg_batch (sr_row rec)) else ret ()) (\<lambda>_. ret (Some
          \<lparr>pr_batch = sg_batch (sr_row rec), pr_record_count = sg_record_count (sr_row rec),
           pr_byte_size = sg_byte_size (sr_row rec), pr_delivered = delivered, pr_outcome = out\<rparr>)) w2"
      using Inr txn ok unlink by (simp add: prune_segment_def andthen_def handle_def ret_def)
    obtain u2 w3 where clear: "clear_retirement (sg_batch (sr_row rec)) w2 = (Inr u2, w3)"
      using clear_retirement_Inr by metis
    show ?thesis
    proof (cases "out = Removed")
      case True
      then have "r = Inr (Some \<lparr>pr_batch = sg_batch (sr_row rec), pr_record_count = sg_record_count (sr_row rec),
           pr_byte_size = sg_byte_size (sr_row rec), pr_delivered = delivered, pr_outcome = out\<rparr>)" "w' = w3"
        using run assms clear by (simp_all add: andthen_def ret_def)
      moreover have "reclaimed path rec now delivered out w w3"
        using db_clear_retirement [OF clear] unlinked rows files True
        by (auto simp: reclaimed_def Let_def stamp)
      ultimately show ?thesis by blast
    next
      case False
      then have "r = Inr (Some \<lparr>pr_batch = sg_batch (sr_row rec), pr_record_count = sg_record_count (sr_row rec),
           pr_byte_size = sg_byte_size (sr_row rec), pr_delivered = delivered, pr_outcome = out\<rparr>)" "w' = w2"
        using run assms by (simp_all add: andthen_def ret_def)
      moreover have "reclaimed path rec now delivered out w w2"
        using unlinked rows files by (simp add: reclaimed_def Let_def stamp)
      ultimately show ?thesis by blast
    qed
  qed
qed

section \<open>A whole pass\<close>

definition reclaimable ::
  "spool_env \<Rightarrow> string \<Rightarrow> string \<Rightarrow> int \<Rightarrow> (string \<times> file_node) list \<Rightarrow> segment_record \<Rightarrow> bool" where
  "reclaimable en root installation now fs rec \<longleftrightarrow>
     (case read_trusted_segment en fs (segment_path root (sr_row rec)) installation of
        Inl _ \<Rightarrow> False
      | Inr p \<Rightarrow> agrees p (sg_day (sr_row rec)) (sg_batch (sr_row rec)) rec \<and> ps_frames p \<noteq> [] \<and>
          list_all (\<lambda>f. ev_expires_at (fr_record f) \<le> now) (ps_frames p))"

lemma classify_full:
  "classify en root installation now fs rec = Inr rep \<Longrightarrow> re_status rep = Fully_Expired \<Longrightarrow>
     reclaimable en root installation now fs rec"
  by (auto simp: classify_def reclaimable_def frame_expiries_def expiry_status_full list_all_iff not_less
      split: sum.splits py_exc.splits if_splits)

lemma apply_one_cases:
  assumes "apply_one en root installation now rec w = (r, w')"
  shows "(db w' = db w \<and> files w' = files w) \<or>
     (reclaimable en root installation now (files w) rec \<and>
      (\<exists>out. reclaimed (segment_path root (sr_row rec)) rec now (is_delivered_everywhere rec) out w w'))"
proof (cases "classify en root installation now (files w) rec")
  case (Inl e)
  then show ?thesis using assms by (simp add: apply_one_classify)
next
  case (Inr rep)
  show ?thesis
  proof (cases "re_status rep = Fully_Expired")
    case True
    obtain r1 w1 where prune: "prune_segment rec (segment_path root (sr_row rec)) now
        (is_delivered_everywhere rec) w = (r1, w1)" by fastforce
    then have "w' = w1" using assms Inr True
      by (auto simp: apply_one_classify andthen_def ret_def split: sum.splits)
    then show ?thesis
      using prune_segment_cases [OF prune] classify_full [OF Inr True] by blast
  qed (use assms Inr in \<open>simp add: apply_one_classify\<close>)
qed

text \<open>Where a removed segment can still be accounted for: no file, or a tombstone with its digest.\<close>

definition accounted :: "string \<Rightarrow> segment_row \<Rightarrow> spool_world \<Rightarrow> bool" where
  "accounted root x w \<longleftrightarrow> map_of (files w) (segment_path root x) = None \<or>
     list_ex (\<lambda>t. rt_batch t = sg_batch x \<and> rt_file_sha256 t = sg_file_sha256 x) (retirements (db w))"

lemma reclaimed_effects:
  assumes "reclaimed path rec now delivered out w w'" "path = segment_path root (sr_row rec)"
  shows "segments (db w') = filter (\<lambda>r. sg_batch r \<noteq> sg_batch (sr_row rec)) (segments (db w))"
    and "accounted root (sr_row rec) w'"
    and "p \<noteq> path \<Longrightarrow> map_of (files w') p = map_of (files w) p"
    and "map_of (files w) p = None \<Longrightarrow> map_of (files w') p = None"
    and "filter (\<lambda>t. rt_batch t \<noteq> sg_batch (sr_row rec)) (retirements (db w')) =
      filter (\<lambda>t. rt_batch t \<noteq> sg_batch (sr_row rec)) (retirements (db w))"
  using assms
  by (auto simp: reclaimed_def Let_def pruned_tables_def append_audit_def accounted_def tombstone_def
      delete_conv' split: if_splits)

lemma reclaimable_cong:
  "map_of fs (segment_path root (sr_row rec)) = map_of fs' (segment_path root (sr_row rec)) \<Longrightarrow>
     reclaimable en root installation now fs rec = reclaimable en root installation now fs' rec"
  by (simp add: reclaimable_def read_trusted_segment_def open_regular_def)

text \<open>What one iteration or a whole pass over \<open>recs\<close> may have done, between \<open>w\<close> and \<open>w'\<close>.\<close>

definition pass_rel ::
  "spool_env \<Rightarrow> string \<Rightarrow> string \<Rightarrow> int \<Rightarrow> segment_record list \<Rightarrow> spool_world \<Rightarrow> spool_world \<Rightarrow> bool" where
  "pass_rel en root installation now recs w w' \<longleftrightarrow>
     (\<forall>x \<in> set (segments (db w)). x \<in> set (segments (db w')) \<or>
        (\<exists>rec \<in> set recs. sg_batch (sr_row rec) = sg_batch x \<and>
           reclaimable en root installation now (files w) rec \<and> accounted root (sr_row rec) w')) \<and>
     set (segments (db w')) \<subseteq> set (segments (db w)) \<and>
     (\<forall>p. p \<notin> (\<lambda>rec. segment_path root (sr_row rec)) ` set recs \<longrightarrow> map_of (files w') p = map_of (files w) p) \<and>
     (\<forall>p. map_of (files w) p = None \<longrightarrow> map_of (files w') p = None) \<and>
     (\<forall>b. b \<notin> (\<lambda>rec. sg_batch (sr_row rec)) ` set recs \<longrightarrow>
        filter (\<lambda>t. rt_batch t = b) (retirements (db w')) = filter (\<lambda>t. rt_batch t = b) (retirements (db w)))"

lemma filter_other:
  "filter (\<lambda>t. k t \<noteq> c) xs = filter (\<lambda>t. k t \<noteq> c) ys \<Longrightarrow> b \<noteq> c \<Longrightarrow>
     filter (\<lambda>t. k t = b) xs = filter (\<lambda>t. k t = b) ys"
proof -
  assume eq: "filter (\<lambda>t. k t \<noteq> c) xs = filter (\<lambda>t. k t \<noteq> c) ys" and "b \<noteq> c"
  have "filter (\<lambda>t. k t = b) zs = filter (\<lambda>t. k t = b) (filter (\<lambda>t. k t \<noteq> c) zs)" for zs
    using \<open>b \<noteq> c\<close> by (induction zs) auto
  then show ?thesis using eq by metis
qed

lemma apply_one_pass:
  assumes "apply_one en root installation now rec w = (r, w')"
  shows "pass_rel en root installation now [rec] w w'"
  using apply_one_cases [OF assms]
proof (elim disjE conjE exE)
  assume "db w' = db w" "files w' = files w"
  then show ?thesis by (simp add: pass_rel_def)
next
  fix out assume can: "reclaimable en root installation now (files w) rec"
    and did: "reclaimed (segment_path root (sr_row rec)) rec now (is_delivered_everywhere rec) out w w'"
  note eff = reclaimed_effects [OF did refl]
  show ?thesis
    unfolding pass_rel_def using can eff filter_other [OF eff(5)] by auto
qed

lemma pass_rel_append:
  assumes "pass_rel en root installation now [rec] u v" "pass_rel en root installation now recs v w"
    "segment_path root (sr_row rec) \<notin> (\<lambda>rec. segment_path root (sr_row rec)) ` set recs"
    "sg_batch (sr_row rec) \<notin> (\<lambda>rec. sg_batch (sr_row rec)) ` set recs"
  shows "pass_rel en root installation now (rec # recs) u w"
proof -
  have keep: "accounted root (sr_row rec) w" if "accounted root (sr_row rec) v"
  proof -
    have "filter (\<lambda>t. rt_batch t = sg_batch (sr_row rec)) (retirements (db w)) =
        filter (\<lambda>t. rt_batch t = sg_batch (sr_row rec)) (retirements (db v))"
      using assms(2,4) unfolding pass_rel_def by blast
    then have "{t \<in> set (retirements (db w)). rt_batch t = sg_batch (sr_row rec)} =
        {t \<in> set (retirements (db v)). rt_batch t = sg_batch (sr_row rec)}"
      by (metis set_filter)
    then have "t \<in> set (retirements (db w)) \<longleftrightarrow> t \<in> set (retirements (db v))"
      if "rt_batch t = sg_batch (sr_row rec)" for t
      using that by blast
    then show ?thesis
      using that assms(2) unfolding accounted_def pass_rel_def list_ex_iff by metis
  qed
  have same: "reclaimable en root installation now (files v) rec' =
      reclaimable en root installation now (files u) rec'" if "rec' \<in> set recs" for rec'
  proof -
    have "segment_path root (sr_row rec') \<noteq> segment_path root (sr_row rec)"
      using assms(3) that by (metis image_eqI)
    then show ?thesis using assms(1) by (intro reclaimable_cong) (simp add: pass_rel_def)
  qed
  show ?thesis
    using assms(1,2) keep same unfolding pass_rel_def
    by (intro conjI ballI) (fastforce | blast)+
qed

lemma pass_rel_refl: "pass_rel en root installation now [] w w"
  by (simp add: pass_rel_def)

lemma apply_pass:
  assumes "for_each (apply_one en root installation now) recs w = (r, w')"
    "distinct (map (\<lambda>rec. segment_path root (sr_row rec)) recs)"
    "distinct (map (\<lambda>rec. sg_batch (sr_row rec)) recs)"
  shows "\<exists>done. (\<exists>rest. recs = done @ rest) \<and> pass_rel en root installation now done w w'"
  using assms
proof (induction recs arbitrary: w r)
  case Nil
  then show ?case using pass_rel_refl by (auto simp: ret_def)
next
  case (Cons rec recs)
  obtain r1 w1 where one: "apply_one en root installation now rec w = (r1, w1)" by fastforce
  note first = apply_one_pass [OF one]
  show ?case
  proof (cases r1)
    case (Inl e)
    then show ?thesis using one first Cons.prems(1)
      by (intro exI [of _ "[rec]"]) (auto simp: andthen_def)
  next
    case (Inr out)
    obtain r2 w2 where rest: "for_each (apply_one en root installation now) recs w1 = (r2, w2)" by fastforce
    then have loop: "for_each (apply_one en root installation now) recs w1 = (r2, w')"
      using Cons.prems(1) one Inr by (auto simp: andthen_def ret_def split: sum.splits)
    then obtain dn rs where dn: "recs = dn @ rs" "pass_rel en root installation now dn w1 w'"
      using Cons.IH [OF loop] Cons.prems(2,3) by auto
    have "segment_path root (sr_row rec) \<notin> (\<lambda>rec. segment_path root (sr_row rec)) ` set dn"
        "sg_batch (sr_row rec) \<notin> (\<lambda>rec. sg_batch (sr_row rec)) ` set dn"
      using Cons.prems(2,3) dn(1) by simp_all
    with pass_rel_append [OF first dn(2)]
    have "pass_rel en root installation now (rec # dn) w w'" by blast
    moreover have "rec # recs = (rec # dn) @ rs" using dn(1) by simp
    ultimately show ?thesis by blast
  qed
qed

lemma segment_path_inj:
  "segment_path root x = segment_path root y \<Longrightarrow> length (sg_day x) = 10 \<Longrightarrow> length (sg_day y) = 10 \<Longrightarrow>
     sg_batch x = sg_batch y"
  by (simp add: segment_path_def pending_path_def)

lemma listed_distinct:
  fixes w :: spool_world
  assumes "list_segment_records None w = (Inr recs, w1)" "ledger_wf (db w)"
  shows "distinct (map (\<lambda>rec. sg_batch (sr_row rec)) recs)"
    and "distinct (map (\<lambda>rec. segment_path root (sr_row rec)) recs)"
proof -
  note listed = list_records_Inr [OF assms(1)] segment_rows_all
  have "distinct (map sg_batch (map sr_row recs))"
    using assms(2) unfolding listed(1) listed(3) ledger_wf_def
    by (metis mset_eq_imp_distinct_iff mset_map mset_sort)
  then show batches: "distinct (map (\<lambda>rec. sg_batch (sr_row rec)) recs)" by (simp add: comp_def)
  then have "inj_on (\<lambda>rec. sg_batch (sr_row rec)) (set recs)" "distinct recs"
    by (simp_all add: distinct_map)
  then have "inj_on (\<lambda>rec. segment_path root (sr_row rec)) (set recs)"
    using segment_path_inj listed(2) unfolding inj_on_def list_all_iff by (metis image_eqI list.set_map)
  then show "distinct (map (\<lambda>rec. segment_path root (sr_row rec)) recs)"
    using \<open>distinct recs\<close> by (simp add: distinct_map)
qed

lemma retention_apply_cases:
  assumes "retention_apply en root installation now confirm w = (r, w')"
  shows "same_spool w w' \<or> (confirm \<and> (\<exists>recs w1 r1. same_spool w w1 \<and>
     list_segment_records None (w\<lparr>locks := tl (locks w)\<rparr>) = (Inr recs, w1) \<and>
     for_each (apply_one en root installation now) recs w1 = (r1, w')))"
proof -
  let ?w0 = "w\<lparr>locks := tl (locks w)\<rparr>"
  obtain r1 w1 where list: "list_segment_records None ?w0 = (r1, w1)" by fastforce
  have w1: "same_spool w w1"
    using keepsD [OF same_spool_list list] by (simp add: same_spool_def)
  show ?thesis
  proof (cases "isl r1 \<or> isl (validate_common en root installation) \<or> \<not> en_barrier_bound en \<or>
      \<not> valid_instant now \<or> \<not> confirm \<or> (\<exists>c ls. locks w = Some c # ls)")
    case True
    then have "same_spool w w'"
      using assms list w1
      by (auto simp: retention_apply_def andthen_def lift_res_def check_def require_now_def with_barrier_def
          same_spool_def isl_def split: sum.splits if_splits list.splits option.splits)
    then show ?thesis by simp
  next
    case False
    then obtain recs where recs: "r1 = Inr recs" "confirm" "en_barrier_bound en" "valid_instant now"
        "\<forall>c ls. locks w \<noteq> Some c # ls" "\<not> isl (validate_common en root installation)"
      by (cases r1) auto
    obtain r2 w2 where loop: "for_each (apply_one en root installation now) recs w1 = (r2, w2)" by fastforce
    have "with_barrier b w = b ?w0" for b :: "retention_result spool_prog"
      using recs(5) by (auto simp: with_barrier_def split: list.splits option.splits)
    then have "w' = w2"
      using assms recs list loop
      by (auto simp: retention_apply_def andthen_def lift_res_def check_def require_now_def ret_def
          split: sum.splits)
    then show ?thesis using recs list loop w1 by blast
  qed
qed

section \<open>Properties of a pass\<close>

text \<open>C6
  Retention loses no live record: whatever a pass returns or raises, a segment that is no longer in
  the ledger was, when the pass began, a trusted file that agreed with its ledger row and held at
  least one record, and every record in it had expired; and the segment is accounted for, because
  its file is gone or a tombstone with its digest tells reconciliation to finish. Without
  confirmation nothing is pruned at all.
\<close>

theorem retention_loses_no_live_record:
  assumes "retention_apply en root installation now confirm w = (r, w')" "ledger_wf (db w)"
    "x \<in> set (segments (db w))" "x \<notin> set (segments (db w'))"
  shows "confirm \<and> accounted root x w' \<and>
     (\<exists>p. read_trusted_segment en (files w) (segment_path root x) installation = Inr p \<and>
        ps_file_sha256 p = sg_file_sha256 x \<and> hd_content_sha256 (ps_header p) = sg_content_sha256 x \<and>
        ps_frames p \<noteq> [] \<and> list_all (\<lambda>f. ev_expires_at (fr_record f) \<le> now) (ps_frames p))"
  using retention_apply_cases [OF assms(1)]
proof (elim disjE conjE exE)
  assume "same_spool w w'"
  then show ?thesis using assms(3,4) by (simp add: same_spool_def)
next
  let ?w0 = "w\<lparr>locks := tl (locks w)\<rparr>"
  fix recs w1 r1
  assume ok: "confirm" "same_spool w w1" "list_segment_records None ?w0 = (Inr recs, w1)"
    "for_each (apply_one en root installation now) recs w1 = (r1, w')"
  have wf: "ledger_wf (db ?w0)" using assms(2) by simp
  note distinct = listed_distinct [OF ok(3) wf] and rows = list_records_Inr(1) [OF ok(3)]
  obtain dn rest where dn: "recs = dn @ rest" "pass_rel en root installation now dn w1 w'"
    using apply_pass [OF ok(4) distinct(2,1)] by blast
  have "db w1 = db w" "files w1 = files w" using ok(2) by (simp_all add: same_spool_def)
  with dn(2) assms(3,4) obtain rec where rec: "rec \<in> set dn" "sg_batch (sr_row rec) = sg_batch x"
      "reclaimable en root installation now (files w) rec" "accounted root (sr_row rec) w'"
    unfolding pass_rel_def by metis
  have "sr_row rec \<in> set (segments (db w))"
  proof -
    have "sr_row rec \<in> set (map sr_row recs)" using rec(1) dn(1) by simp
    then show ?thesis unfolding rows segment_rows_all by simp
  qed
  moreover have "inj_on sg_batch (set (segments (db w)))"
    using assms(2) by (simp add: ledger_wf_def distinct_map)
  ultimately have "sr_row rec = x"
    using rec(2) assms(3) by (blast dest: inj_onD)
  then show ?thesis
    using rec(3,4) ok(1) by (cases "read_trusted_segment en (files w) (segment_path root x) installation")
      (simp_all add: reclaimable_def agrees_def Let_def)
qed

text \<open>Integrity of the ledger and of the trail.\<close>

lemma ledger_wf_retirements: "ledger_wf (t\<lparr>retirements := rs\<rparr>) = ledger_wf t"
  by (simp add: ledger_wf_def)

lemma audit_wf_retirements: "audit_wf (t\<lparr>retirements := rs\<rparr>) = audit_wf t"
  by (simp add: audit_wf_def)

lemma pruned_tables_sound:
  assumes "ledger_wf t" "audit_wf t"
  shows "ledger_wf (pruned_tables rec now stamp delivered t) \<and> audit_wf (pruned_tables rec now stamp delivered t)"
proof
  show "audit_wf (pruned_tables rec now stamp delivered t)"
    unfolding pruned_tables_def Let_def
    by (rule append_audit_wf) (use assms(2) in \<open>simp add: audit_wf_def\<close>)
  show "ledger_wf (pruned_tables rec now stamp delivered t)"
    using assms(1)
    by (fastforce simp: pruned_tables_def Let_def append_audit_def ledger_wf_def list_all_iff
        distinct_map_filter split: if_splits)
qed

text \<open>The trail grows by whole prunes only.\<close>

definition trail_rel :: "spool_world \<Rightarrow> spool_world \<Rightarrow> bool" where
  "trail_rel w w' \<longleftrightarrow> (ledger_wf (db w) \<and> audit_wf (db w) \<longrightarrow> ledger_wf (db w') \<and> audit_wf (db w')) \<and>
     (\<exists>new. audit (db w') = audit (db w) @ new \<and>
        list_all (\<lambda>a. au_action a = ''retention_prune'' \<and> au_resource a = None) new)"

lemma trail_order: "reflp trail_rel" "transp trail_rel"
proof -
  show "reflp trail_rel" by (auto simp: reflp_def trail_rel_def)
  show "transp trail_rel"
  proof (rule transpI)
    fix u v w assume rel: "trail_rel u v" "trail_rel v w"
    obtain n1 where n1: "audit (db v) = audit (db u) @ n1"
        "list_all (\<lambda>a. au_action a = ''retention_prune'' \<and> au_resource a = None) n1"
      using rel(1) unfolding trail_rel_def by blast
    obtain n2 where n2: "audit (db w) = audit (db v) @ n2"
        "list_all (\<lambda>a. au_action a = ''retention_prune'' \<and> au_resource a = None) n2"
      using rel(2) unfolding trail_rel_def by blast
    have "audit (db w) = audit (db u) @ (n1 @ n2)" using n1(1) n2(1) by simp
    moreover have "list_all (\<lambda>a. au_action a = ''retention_prune'' \<and> au_resource a = None) (n1 @ n2)"
      using n1(2) n2(2) by simp
    ultimately show "trail_rel u w"
      using rel unfolding trail_rel_def by blast
  qed
qed

lemma trail_apply_one: "keeps trail_rel (apply_one en root installation now rec)"
proof -
  have "trail_rel w w'" if "apply_one en root installation now rec w = (r, w')" for w r w'
    using apply_one_cases [OF that]
  proof (elim disjE conjE exE)
    assume "db w' = db w"
    then show ?thesis by (simp add: trail_rel_def)
  next
    let ?d = "is_delivered_everywhere rec"
    let ?t = "pruned_tables rec now (stamp_of now) ?d (db w)"
    let ?row = "(prune_row None now (sg_batch (sr_row rec)) (sg_record_count (sr_row rec))
        (sg_byte_size (sr_row rec)) (\<not> ?d))\<lparr>au_id := audit_seq (db w) + 1\<rparr>"
    fix out assume "reclaimed (segment_path root (sr_row rec)) rec now ?d out w w'"
    then have db: "db w' = ?t \<or> (\<exists>rs. db w' = ?t\<lparr>retirements := rs\<rparr>)"
      by (auto simp: reclaimed_def Let_def)
    have "audit (db w') = audit (db w) @ [?row]"
      using db by (auto simp: pruned_tables_def Let_def append_audit_def)
    moreover have "au_action ?row = ''retention_prune'' \<and> au_resource ?row = None"
      by (simp add: prune_row_def keyed_resource_def)
    ultimately show ?thesis
      using db pruned_tables_sound [of "db w" rec now "stamp_of now" ?d] ledger_wf_retirements audit_wf_retirements
      by (auto simp: trail_rel_def)
  qed
  then show ?thesis by (auto simp: keeps_def)
qed


section \<open>A concrete pass\<close>

lemma demo_pruned:
  "prune_rows demo_record 1000 (stamp_of 1000) False ((demo_disk demo_ledger fs)\<lparr>in_txn := True\<rparr>) =
     (Inr (), (demo_disk (pruned_tables demo_record 1000 (stamp_of 1000) False demo_ledger) fs)\<lparr>in_txn := True\<rparr>)"
proof -
  have check: "retirement_check (tombstone demo_segment (stamp_of 1000))"
    by (simp add: tombstone_def retirement_check_def demo_segment_def) code_simp
  have id: "token_match 255 ''b1''" by code_simp
  have sizes: "sg_record_count demo_segment = 1" "sg_byte_size demo_segment = 427"
    by (simp_all add: demo_segment_def)
  have now: "valid_instant 1000" by (simp add: valid_instant_def datetime_limit_def us_per_day_def)
  let ?t = "demo_ledger\<lparr>cursors := [], seg_exporters := [], segments := [],
      retirements := [tombstone demo_segment (stamp_of 1000)]\<rparr>"
  have seq: "audit_seq ?t = 0" by (simp add: demo_rows)
  have rec: "record_retention_prune None 1000 ''b1'' 1 427 True ((demo_disk ?t fs)\<lparr>in_txn := True\<rparr>) =
      (Inr (), ((demo_disk ?t fs)\<lparr>in_txn := True\<rparr>)\<lparr>db := append_audit (prune_row None 1000 ''b1'' 1 427 True) ?t\<rparr>)"
    by (subst record_retention_prune_quiet [where res = None])
      (simp_all add: id now keyed_resource_def max_int64_def demo_rows)
  have upd: "((demo_disk t fs)\<lparr>in_txn := True\<rparr>)\<lparr>db := t'\<rparr> = (demo_disk t' fs)\<lparr>in_txn := True\<rparr>" for t t'
    by (simp add: demo_disk_def)
  show ?thesis
    using rec check
    by (simp add: prune_rows_def Let_def andthen_def detach_cursors_def delete_exporters_def delete_segment_def
        insert_retirement_def sql_quiet demo_rows delivery_row_def upd sizes pruned_tables_def)
qed

lemma demo_removed:
  "remove_file demo_path (demo_disk t [(demo_path, demo_node)]) = (Inr (), demo_disk t [])"
  by (simp add: remove_file_def)

definition demo_after :: spool_world where
  "demo_after = snd (clear_retirement ''b1''
     (demo_disk (pruned_tables demo_record 1000 (stamp_of 1000) False demo_ledger) []))"

lemma demo_prune_segment:
  "\<exists>pr. prune_segment demo_record demo_path 1000 False (demo_disk demo_ledger [(demo_path, demo_node)]) =
     (Inr (Some pr), demo_after)"
proof -
  let ?t = "pruned_tables demo_record 1000 (stamp_of 1000) False demo_ledger"
  have now: "format_timestamp (utc 1000) = Inr (stamp_of 1000)"
    by (simp add: format_timestamp_utc valid_instant_def datetime_limit_def us_per_day_def)
  have txn: "transaction (prune_rows demo_record 1000 (stamp_of 1000) False) (demo_disk demo_ledger fs) =
      (Inr (), demo_disk ?t fs)" for fs
    by (simp add: transaction_quiet demo_pruned)
  have unlink: "unlink_outcome demo_path (demo_disk t [(demo_path, demo_node)]) = (Inr Removed, demo_disk t [])" for t
    by (simp add: unlink_outcome_def andthen_def handle_def demo_removed ret_def)
  obtain u w' where clear: "clear_retirement ''b1'' (demo_disk ?t []) = (Inr u, w')"
    using clear_retirement_Inr by blast
  then show ?thesis
    by (simp add: prune_segment_def now andthen_def handle_def txn ret_def unlink demo_rows demo_after_def)
qed

lemma demo_apply:
  "\<exists>res. retention_apply demo_env ''/s/spool'' demo_installation 1000 True
     (demo_disk demo_ledger [(demo_path, demo_node)]) = (Inr res, demo_after)"
proof -
  let ?w = "demo_disk demo_ledger [(demo_path, demo_node)]"
  obtain pr where prune: "prune_segment demo_record demo_path 1000 False ?w = (Inr (Some pr), demo_after)"
    using demo_prune_segment by blast
  have path: "segment_path ''/s/spool'' demo_segment = demo_path" by (simp add: demo_path_def segment_path_def demo_rows)
  have pending: "\<not> is_delivered_everywhere demo_record"
    by (simp add: is_delivered_everywhere_def demo_rows)
  have expired: "frame_expiries demo_parsed = [1000]"
    by (simp add: frame_expiries_def demo_parsed_def demo_frame_def)
  have one: "apply_one demo_env ''/s/spool'' demo_installation 1000 demo_record ?w = (Inr (Inr pr), demo_after)"
    using prune pending
    by (simp add: apply_one_def andthen_def getst_def Let_def demo_rows path demo_trusted demo_agrees expired ret_def)
  then show ?thesis
    by (simp add: retention_apply_def andthen_def lift_res_def validate_common_def demo_env_simps
        demo_installation_ok check_def require_now_def valid_instant_def datetime_limit_def us_per_day_def
        with_barrier_def demo_listed one ret_def)
qed

lemma demo_after_rows: "segments (db demo_after) = []"
proof -
  obtain u w' where "clear_retirement ''b1''
      (demo_disk (pruned_tables demo_record 1000 (stamp_of 1000) False demo_ledger) []) = (Inr u, w')"
    using clear_retirement_Inr by blast
  from this db_clear_retirement [OF this] show ?thesis
    by (auto simp: demo_after_def pruned_tables_def Let_def append_audit_def demo_rows)
qed

lemma demo_ledger_wf: "ledger_wf demo_ledger" "audit_wf demo_ledger"
  by (simp_all add: ledger_wf_def audit_wf_def demo_rows demo_checks delivery_row_def exporter_check_def)

theorem retention_loses_no_live_record_witness:
  "accounted ''/s/spool'' demo_segment demo_after \<and>
     isl (read_trusted_segment demo_env [(demo_path, demo_node)] demo_path demo_installation) = False"
proof -
  obtain res where run: "retention_apply demo_env ''/s/spool'' demo_installation 1000 True
     (demo_disk demo_ledger [(demo_path, demo_node)]) = (Inr res, demo_after)"
    using demo_apply by blast
  from retention_loses_no_live_record [OF run, of demo_segment] show ?thesis
    by (auto simp: demo_ledger_wf demo_rows demo_after_rows demo_path_def segment_path_def)
qed


end
