(* ===== verification/Verify.thy ===== *)
theory Verify
  imports Demo_Spool
begin

text \<open>
  \<^verbatim>\<open>src/milhouse/spooling/verify.py\<close>: the read-only audit of every committed segment against
  its ledger row. A broken file is reported with its code, a broken ledger row stops the pass.
\<close>

record segment_verification =
  sv_batch :: string
  sv_intact :: bool
  sv_code :: "string option"
  sv_delivered :: bool

definition require_bound_spool_root :: "spool_env \<Rightarrow> string \<Rightarrow> string res" where
  "require_bound_spool_root en root =
     (case en_spool_root en of
        None \<Rightarrow> Inl (Spool_Error ''MH_SPOOL_VERIFY'')
      | Some bound \<Rightarrow> (case en_absolute en root of
          None \<Rightarrow> Inl (Spool_Error ''MH_SPOOL_VERIFY'')
        | Some resolved \<Rightarrow>
            (if resolved \<noteq> bound then Inl (Spool_Error ''MH_SPOOL_VERIFY'') else Inr resolved)))"

definition verify_segment ::
  "spool_env \<Rightarrow> string \<Rightarrow> string \<Rightarrow> (string \<times> file_node) list \<Rightarrow> segment_record \<Rightarrow> string option res" where
  "verify_segment en root installation fs rec =
     (case read_trusted_segment en fs (pending_path root (sg_day (sr_row rec)) (sg_batch (sr_row rec))) installation of
        Inl (Spool_Error c) \<Rightarrow> Inr (Some c)
      | Inl e \<Rightarrow> Inl e
      | Inr p \<Rightarrow>
          (if \<not> agrees p (sg_day (sr_row rec)) (sg_batch (sr_row rec)) rec
           then Inr (Some ''MH_SPOOL_VERIFY'') else Inr None))"

definition verification_of :: "segment_record \<Rightarrow> string option \<Rightarrow> segment_verification" where
  "verification_of rec code =
     \<lparr>sv_batch = sg_batch (sr_row rec), sv_intact = (code = None), sv_code = code,
      sv_delivered = list_all (\<lambda>x. xd_status x = ''delivered'') (sr_exporters rec)\<rparr>"

definition verify_spool ::
  "spool_env \<Rightarrow> string \<Rightarrow> string \<Rightarrow> segment_verification list spool_prog" where
  "verify_spool en spool_root installation =
     andthen (lift_res (require_bound_spool_root en spool_root)) (\<lambda>root.
     andthen (check (installation_id_match installation) (Spool_Error ''MH_SPOOL_IDENTITY'')) (\<lambda>_.
     andthen (list_segment_records None) (\<lambda>records.
     for_each (\<lambda>rec. andthen (getst files) (\<lambda>fs.
       andthen (lift_res (verify_segment en root installation fs rec)) (\<lambda>code.
       ret (verification_of rec code)))) records)))"

text \<open>\<^verbatim>\<open>VerifyReport.intact\<close> and \<^verbatim>\<open>VerifyReport.compromised\<close>.\<close>

definition report_intact :: "segment_verification list \<Rightarrow> bool" where
  "report_intact report \<longleftrightarrow> list_all sv_intact report"

definition compromised :: "segment_verification list \<Rightarrow> segment_verification list" where
  "compromised report = filter (\<lambda>v. \<not> sv_intact v) report"

section \<open>A clean report\<close>

lemma verify_spool_same: "keeps same_spool (verify_spool en spool_root installation)"
  unfolding verify_spool_def
  by (intro keeps_andthen keeps_for_each keeps_lift_res keeps_check keeps_ret keeps_getst same_spool_list
      same_spool_order)

lemma verify_loop_Inr:
  "for_each (\<lambda>rec. andthen (getst files) (\<lambda>fs. andthen (lift_res (f fs rec)) (\<lambda>code. ret (g rec code)))) recs w =
     (Inr ys, w') \<Longrightarrow>
   w' = w \<and> list_all2 (\<lambda>rec y. \<exists>code. f (files w) rec = Inr code \<and> y = g rec code) recs ys"
  by (induction recs arbitrary: ys) (auto simp: andthen_Inr getst_def lift_res_def ret_def)

lemma list_all2_left: "list_all2 P xs ys \<Longrightarrow> x \<in> set xs \<Longrightarrow> \<exists>y \<in> set ys. P x y"
  by (induction rule: list_all2_induct) auto

text \<open>What a committed segment's file must be: the bytes its row promises, in canonical form.\<close>

definition stored_as_committed ::
  "spool_env \<Rightarrow> string \<Rightarrow> (string \<times> file_node) list \<Rightarrow> string \<Rightarrow> segment_row \<Rightarrow> bool" where
  "stored_as_committed en root fs installation x \<longleftrightarrow>
     (\<exists>node h frames. map_of fs (pending_path root (sg_day x) (sg_batch x)) = Some node \<and> fn_owner_only node \<and>
        build_segment_bytes en h frames = Inr (fn_content node) \<and>
        en_sha_hex en (fn_content node) = sg_file_sha256 x \<and>
        int (length (fn_content node)) = sg_byte_size x \<and>
        hd_batch h = sg_batch x \<and> hd_content_sha256 h = sg_content_sha256 x \<and>
        hd_record_count h = sg_record_count x \<and> int (length frames) = sg_record_count x \<and>
        list_all (\<lambda>f. en_identity en installation (fr_record f)) frames)"

lemma verify_segment_intact:
  assumes "verify_segment en root installation fs rec = Inr None"
  shows "stored_as_committed en root fs installation (sr_row rec)"
proof -
  obtain p where p: "read_trusted_segment en fs (pending_path root (sg_day (sr_row rec)) (sg_batch (sr_row rec)))
      installation = Inr p" and ag: "agrees p (sg_day (sr_row rec)) (sg_batch (sr_row rec)) rec"
    using assms by (auto simp: verify_segment_def split: sum.splits py_exc.splits if_splits)
  obtain node where node: "map_of fs (pending_path root (sg_day (sr_row rec)) (sg_batch (sr_row rec))) = Some node"
      "fn_owner_only node" "parse_segment_bytes en (fn_content node) = Inr p"
      "list_all (\<lambda>f. en_identity en installation (fr_record f)) (ps_frames p)"
    using p by (auto simp: read_trusted_segment_def bind_res_eq_Inr open_regular_def read_descriptor_def
        verify_identity_def split: option.splits if_splits)
  note canonical = parse_canonical [OF node(3)]
  have "int (length (ps_frames p)) = hd_record_count (ps_header p)"
    using node(3) by (auto simp: parse_segment_bytes_def bind_res_eq_Inr split: prod.splits)
  then show ?thesis
    using ag node(1,2,4) canonical unfolding stored_as_committed_def agrees_def Let_def
    by (intro exI [of _ node] exI [of _ "ps_header p"] exI [of _ "ps_frames p"]) simp
qed

text \<open>C8
  A clean verification is a proof of the spool: the pass changes nothing, reports every committed
  segment once in batch order, and when every verdict is intact, each ledger row has its file, owner
  only, holding the canonical bytes of a header and frames with the row's digests, size, count and
  batch, minted by this installation.
\<close>

theorem clean_report_certifies_spool:
  assumes "verify_spool en spool_root installation w = (Inr report, w')" "report_intact report"
  shows "db w' = db w \<and> files w' = files w \<and>
     map sv_batch report = map sg_batch (sort_key sg_batch (segments (db w))) \<and>
     (\<exists>root. en_absolute en spool_root = Some root \<and>
        (\<forall>x \<in> set (segments (db w)). stored_as_committed en root (files w) installation x))"
proof -
  have same: "db w' = db w" "files w' = files w"
    using keepsD [OF verify_spool_same assms(1)] by (simp_all add: same_spool_def)
  obtain root recs w1 where run: "require_bound_spool_root en spool_root = Inr root"
      "list_segment_records None w = (Inr recs, w1)"
      "for_each (\<lambda>rec. andthen (getst files) (\<lambda>fs. andthen (lift_res (verify_segment en root installation fs rec))
        (\<lambda>code. ret (verification_of rec code)))) recs w1 = (Inr report, w')"
    using assms(1) by (auto simp: verify_spool_def andthen_Inr lift_res_def check_def split: if_splits)
  note rows = list_records_Inr(1) [OF run(2)]
  have files: "files w1 = files w" using keepsD [OF same_spool_list run(2)] by (simp add: same_spool_def)
  have each: "list_all2 (\<lambda>rec y. \<exists>code. verify_segment en root installation (files w) rec = Inr code \<and>
      y = verification_of rec code) recs report"
    using verify_loop_Inr [OF run(3)] files by simp
  then have "map sv_batch report = map sg_batch (map sr_row recs)"
    by (induction recs report rule: list_all2_induct) (auto simp: verification_of_def)
  moreover have "stored_as_committed en root (files w) installation (sr_row rec)" if "rec \<in> set recs" for rec
  proof -
    obtain y where "y \<in> set report" and y: "\<exists>code. verify_segment en root installation (files w) rec = Inr code \<and>
        y = verification_of rec code"
      using list_all2_left [OF each \<open>rec \<in> set recs\<close>] by blast
    then have "sv_intact y" using assms(2) by (simp add: report_intact_def list_all_iff)
    then show ?thesis using y verify_segment_intact by (auto simp: verification_of_def)
  qed
  then have "\<forall>x \<in> set (map sr_row recs). stored_as_committed en root (files w) installation x" by simp
  moreover have "en_absolute en spool_root = Some root"
    using run(1) by (auto simp: require_bound_spool_root_def split: option.splits if_splits)
  ultimately show ?thesis
    using same rows by (simp add: segment_rows_all)
qed

theorem clean_report_certifies_spool_witness:
  "stored_as_committed demo_env ''/s/spool'' [(demo_path, demo_node)] demo_installation demo_segment"
proof -
  let ?w = "demo_disk demo_ledger [(demo_path, demo_node)]"
  have path: "pending_path ''/s/spool'' (sg_day demo_segment) ''b1'' = demo_path" by (simp add: demo_path_def)
  have run: "verify_spool demo_env ''/s/spool'' demo_installation ?w = (Inr [verification_of demo_record None], ?w)"
    by (simp add: verify_spool_def andthen_def lift_res_def require_bound_spool_root_def demo_env_simps
        check_def demo_installation_ok demo_listed getst_def verify_segment_def demo_rows path demo_trusted
        demo_agrees ret_def)
  have "report_intact [verification_of demo_record None]"
    by (simp add: report_intact_def verification_of_def)
  from clean_report_certifies_spool [OF run this] show ?thesis
    by (simp add: demo_env_simps demo_rows)
qed

end
