(* ===== verification/Exporter.thy ===== *)
theory Exporter
  imports Reader
begin

text \<open>
  \<^verbatim>\<open>src/milhouse/spooling/exporter.py\<close>: delivery of one committed segment to its exporters. The
  ledger row is reloaded, the frames are bound to its digest, an expired segment is withheld, and
  each outcome is recorded by a compare-and-set that never overwrites a terminal row.

  An exporter object is the least trusted input: its id may raise (\<open>None\<close>), and whether
  \<^verbatim>\<open>deliver\<close> returns may depend on everything it was given before.
\<close>

record exporter_obj =
  xo_id :: "string option"
  xo_deliver :: "delivery_log \<Rightarrow> segment_record \<Rightarrow> spool_frame list \<Rightarrow> bool"

datatype cas_result = Advanced | Already | Gone

datatype outcome = Delivered | Failed | Already_Delivered | No_Exporter | Expired | Segment_Gone

record exporter_attempt =
  at_batch :: string
  at_exporter :: string
  at_outcome :: outcome

section \<open>Binding the frames to the ledger row\<close>

definition reload_record :: "segment_record \<Rightarrow> segment_record spool_prog" where
  "reload_record rec = andthen (read_segment_record (sg_batch (sr_row rec))) (\<lambda>found.
     case found of
       None \<Rightarrow> throw (Spool_Error ''MH_SPOOL_EXPORT'')
     | Some live \<Rightarrow>
         (if sg_content_sha256 (sr_row live) \<noteq> sg_content_sha256 (sr_row rec)
             \<or> sg_file_sha256 (sr_row live) \<noteq> sg_file_sha256 (sr_row rec)
             \<or> sg_record_count (sr_row live) \<noteq> sg_record_count (sr_row rec)
             \<or> sg_byte_size (sr_row live) \<noteq> sg_byte_size (sr_row rec)
          then throw (Spool_Error ''MH_SPOOL_EXPORT'') else ret live))"

definition require_frames_belong ::
  "spool_env \<Rightarrow> segment_record \<Rightarrow> spool_frame list \<Rightarrow> unit res" where
  "require_frames_belong en rec frames =
     bind_res (check_res (int (length frames) = sg_record_count (sr_row rec)) (Spool_Error ''MH_SPOOL_EXPORT'')) (\<lambda>_.
     bind_res (check_res (list_all (\<lambda>f. fr_batch f = sg_batch (sr_row rec)) frames)
        (Spool_Error ''MH_SPOOL_EXPORT'')) (\<lambda>_.
     bind_res (map_res (spool_frame_line (en_nfc en)) frames) (\<lambda>lines.
     check_res (spool_content_sha256 (en_sha_hex en) lines = sg_content_sha256 (sr_row rec))
        (Spool_Error ''MH_SPOOL_EXPORT''))))"

definition segment_is_expired :: "spool_frame list \<Rightarrow> int \<Rightarrow> bool" where
  "segment_is_expired frames now \<longleftrightarrow>
     (if frames = [] then False
      else Min (set (map (\<lambda>f. ev_expires_at (fr_record f)) frames)) \<le> now)"

section \<open>The status compare-and-set\<close>

definition not_terminal :: "string \<Rightarrow> string \<Rightarrow> exporter_row \<Rightarrow> bool" where
  "not_terminal b x e \<longleftrightarrow> ex_batch e = b \<and> ex_exporter e = x \<and> ex_status e \<noteq> ''delivered''"

text \<open>The \<^verbatim>\<open>UPDATE\<close> and its row count; the new status must satisfy the column's \<^verbatim>\<open>CHECK\<close>.\<close>

definition update_status :: "string \<Rightarrow> string \<Rightarrow> string \<Rightarrow> (spool_world, int) prog" where
  "update_status b x status = sql [] (\<lambda>t.
     if status \<notin> set delivery_states \<and> list_ex (not_terminal b x) (seg_exporters t) then None
     else Some (int (length (filter (not_terminal b x) (seg_exporters t))),
       t\<lparr>seg_exporters := map (\<lambda>e. if not_terminal b x e then e\<lparr>ex_status := status\<rparr> else e)
          (seg_exporters t)\<rparr>))"

definition exporter_status :: "string \<Rightarrow> string \<Rightarrow> tables \<Rightarrow> string option" where
  "exporter_status b x t =
     map_option ex_status (find (\<lambda>e. ex_batch e = b \<and> ex_exporter e = x) (seg_exporters t))"

definition advance_status_locked :: "string \<Rightarrow> string \<Rightarrow> string \<Rightarrow> cas_result spool_prog" where
  "advance_status_locked b x status =
     normalise state_caught (Spool_Error ''MH_SPOOL_EXPORT'')
       (transaction (andthen (update_status b x status) (\<lambda>n.
          if n = 1 then ret Advanced
          else andthen (select [] (exporter_status b x)) (\<lambda>row.
            ret (if row = None then Gone else Already)))))"

section \<open>Delivery\<close>

text \<open>
  One call of \<^verbatim>\<open>exporter.deliver\<close>: it is logged with what it answered, and meanwhile another
  process may have committed a change.
\<close>

definition attempt_delivery ::
  "string \<Rightarrow> exporter_obj \<Rightarrow> segment_record \<Rightarrow> spool_frame list \<Rightarrow> bool spool_prog" where
  "attempt_delivery x obj rec frames = (\<lambda>w.
     let ok = xo_deliver obj (forwarded w) rec frames;
         w1 = w\<lparr>forwarded := forwarded w @ [(x, rec, frames, ok)]\<rparr>
     in case others w1 of
          [] \<Rightarrow> (Inr ok, w1)
        | g # gs \<Rightarrow> (Inr ok, w1\<lparr>db := g (db w1), others := gs\<rparr>))"

fun delivered_outcome :: "cas_result \<Rightarrow> outcome" where
  "delivered_outcome Advanced = Delivered"
| "delivered_outcome Already = Already_Delivered"
| "delivered_outcome Gone = Segment_Gone"

definition usable_exporter :: "(string \<times> exporter_obj) list \<Rightarrow> string \<Rightarrow> exporter_obj option" where
  "usable_exporter exporters x =
     (case map_of exporters x of
        None \<Rightarrow> None
      | Some obj \<Rightarrow> (if token_match 63 x \<and> xo_id obj = Some x then Some obj else None))"

definition deliver_one ::
  "(string \<times> exporter_obj) list \<Rightarrow> segment_record \<Rightarrow> spool_frame list \<Rightarrow> exporter_delivery
    \<Rightarrow> exporter_attempt spool_prog" where
  "deliver_one exporters live frames row =
     (let b = sg_batch (sr_row live); x = xd_exporter row;
          report = (\<lambda>out. ret \<lparr>at_batch = b, at_exporter = x, at_outcome = out\<rparr>)
      in if xd_status row = ''delivered'' then report Already_Delivered
         else case usable_exporter exporters x of
           None \<Rightarrow> report No_Exporter
         | Some obj \<Rightarrow>
             andthen (attempt_delivery x obj live frames) (\<lambda>ok.
             if ok then andthen (advance_status_locked b x ''delivered'') (\<lambda>c. report (delivered_outcome c))
             else andthen (advance_status_locked b x ''failed'') (\<lambda>_. report Failed)))"

definition withheld :: "segment_record \<Rightarrow> exporter_attempt list" where
  "withheld live = map (\<lambda>row. \<lparr>at_batch = sg_batch (sr_row live), at_exporter = xd_exporter row,
     at_outcome = (if xd_status row = ''delivered'' then Already_Delivered else Expired)\<rparr>)
     (sr_exporters live)"

definition deliver_segment ::
  "spool_env \<Rightarrow> (string \<times> exporter_obj) list \<Rightarrow> int \<Rightarrow> segment_record \<Rightarrow> spool_frame list
    \<Rightarrow> exporter_attempt list spool_prog" where
  "deliver_segment en exporters now rec frames =
     andthen (require_now ''MH_SPOOL_EXPORT'' now) (\<lambda>_.
     andthen (check (en_barrier_bound en) (Spool_Error ''MH_SPOOL_EXPORT'')) (\<lambda>_.
     with_barrier
       (andthen (reload_record rec) (\<lambda>live.
        andthen (lift_res (require_frames_belong en live frames)) (\<lambda>_.
        if segment_is_expired frames now then ret (withheld live)
        else for_each (deliver_one exporters live frames) (sr_exporters live))))))"

section \<open>Lemmas\<close>

lemma segment_is_expired_iff:
  "segment_is_expired frames now \<longleftrightarrow> (\<exists>f \<in> set frames. ev_expires_at (fr_record f) \<le> now)"
  by (auto simp: segment_is_expired_def Min_le_iff)

lemma reload_record_same: "keeps same_spool (reload_record rec)"
  unfolding reload_record_def
  by (intro keeps_andthen same_spool_order same_spool_read)
    (auto split: option.split intro!: keeps_throw keeps_ret)

lemma reload_record_Inr:
  assumes "reload_record rec w = (Inr live, w')"
  shows "find_segment (sg_batch (sr_row rec)) (db w) = Some (sr_row live) \<and>
     sg_batch (sr_row live) = sg_batch (sr_row rec) \<and>
     map_res checked_exporter (exporters_of (sg_batch (sr_row rec)) (db w)) = Inr (sr_exporters live) \<and>
     same_spool w w'"
proof -
  have "same_spool w w'" by (rule keepsD [OF reload_record_same assms])
  with assms show ?thesis
    by (auto simp: reload_record_def andthen_Inr ret_def throw_def split: option.splits if_splits
        dest!: read_segment_record_Inr)
qed

lemma reload_record_others: "reload_record rec w = (Inr live, w') \<Longrightarrow> others w' = others w"
  by (auto simp: reload_record_def read_segment_record_def load_record_def load_exporters_def
      andthen_Inr normalise_Inr db_connection_def select_Inr lift_res_def ret_def throw_def
      split: option.splits if_splits)

text \<open>What the log may gain: calls of usable exporters, with these very frames, for undelivered rows.\<close>

definition sanctioned ::
  "(string \<times> exporter_obj) list \<Rightarrow> segment_record \<Rightarrow> spool_frame list \<Rightarrow> string \<Rightarrow> bool" where
  "sanctioned exporters live frames x \<longleftrightarrow> usable_exporter exporters x \<noteq> None \<and>
     (\<exists>row \<in> set (sr_exporters live). xd_exporter row = x \<and> xd_status row \<noteq> ''delivered'')"

definition log_grows ::
  "(string \<times> exporter_obj) list \<Rightarrow> segment_record \<Rightarrow> spool_frame list \<Rightarrow> spool_world \<Rightarrow> spool_world \<Rightarrow> bool" where
  "log_grows exporters live frames w w' \<longleftrightarrow>
     (\<exists>new. forwarded w' = forwarded w @ new \<and>
        (\<forall>(x, r, fs, ok) \<in> set new. r = live \<and> fs = frames \<and> sanctioned exporters live frames x))"

lemma log_grows_order [simp]: "reflp (log_grows xs live frames)" "transp (log_grows xs live frames)"
proof -
  show "reflp (log_grows xs live frames)" by (auto simp: reflp_def log_grows_def)
  show "transp (log_grows xs live frames)"
  proof (rule transpI)
    fix u v w assume "log_grows xs live frames u v" "log_grows xs live frames v w"
    then obtain n1 n2 where "forwarded v = forwarded u @ n1" "forwarded w = forwarded v @ n2"
      "\<forall>(x, r, fs, ok) \<in> set n1. r = live \<and> fs = frames \<and> sanctioned xs live frames x"
      "\<forall>(x, r, fs, ok) \<in> set n2. r = live \<and> fs = frames \<and> sanctioned xs live frames x"
      unfolding log_grows_def by blast
    then show "log_grows xs live frames u w"
      unfolding log_grows_def by (intro exI [of _ "n1 @ n2"]) auto
  qed
qed

lemma log_same: "(\<And>w r w'. m w = (r, w') \<Longrightarrow> forwarded w' = forwarded w) \<Longrightarrow> keeps (log_grows xs live frames) m"
  by (auto simp: keeps_def log_grows_def)

lemma forwarded_transaction:
  "(\<And>w r w'. body w = (r, w') \<Longrightarrow> forwarded w' = forwarded w) \<Longrightarrow>
     transaction body w = (r, w') \<Longrightarrow> forwarded w' = forwarded w"
  by (fastforce simp: transaction_cases split: prod.splits sum.splits if_splits)

lemma forwarded_advance: "advance_status_locked b x st w = (r, w') \<Longrightarrow> forwarded w' = forwarded w"
proof -
  let ?R = "\<lambda>w w' :: spool_world. forwarded w' = forwarded w"
  have order: "reflp ?R" "transp ?R" by (auto simp: reflp_def transp_def)
  have stmts: "keeps ?R (sql bs f)" for bs and f :: "tables \<Rightarrow> ('r \<times> tables) option"
    by (auto simp: keeps_def sql_cases split: if_splits option.splits)
  have "keeps ?R (andthen (update_status b x st) (\<lambda>n. if n = 1 then ret Advanced
      else andthen (select [] (exporter_status b x)) (\<lambda>row. ret (if row = None then Gone else Already))))"
    unfolding update_status_def select_def
    by (intro keeps_andthen order stmts) (auto intro!: keeps_ret keeps_andthen order stmts)
  then have "keeps ?R (transaction (andthen (update_status b x st) (\<lambda>n. if n = 1 then ret Advanced
      else andthen (select [] (exporter_status b x)) (\<lambda>row. ret (if row = None then Gone else Already)))))"
    using forwarded_transaction unfolding keeps_def by blast
  then have "keeps ?R (advance_status_locked b x st)"
    unfolding advance_status_locked_def by (intro keeps_normalise order)
  then show "advance_status_locked b x st w = (r, w') \<Longrightarrow> forwarded w' = forwarded w"
    by (rule keepsD)
qed

lemma advance_log: "keeps (log_grows xs live frames) (advance_status_locked b x st)"
  by (rule log_same) (rule forwarded_advance)

lemma deliver_one_log:
  assumes "row \<in> set (sr_exporters live)"
  shows "keeps (log_grows exporters live frames) (deliver_one exporters live frames row)"
proof (cases "xd_status row = ''delivered'' \<or> usable_exporter exporters (xd_exporter row) = None")
  case True
  then show ?thesis
    by (auto simp: deliver_one_def Let_def intro!: keeps_ret)
next
  case False
  then obtain obj where obj: "usable_exporter exporters (xd_exporter row) = Some obj"
      "xd_status row \<noteq> ''delivered''" by auto
  have "sanctioned exporters live frames (xd_exporter row)"
    using assms obj by (auto simp: sanctioned_def)
  then have call: "keeps (log_grows exporters live frames) (attempt_delivery (xd_exporter row) obj live frames)"
    by (auto simp: keeps_def attempt_delivery_def log_grows_def Let_def split: list.splits)
  show ?thesis
    using obj unfolding deliver_one_def Let_def
    by (auto intro!: keeps_andthen [OF log_grows_order(2) call]
        keeps_andthen [OF log_grows_order(2) advance_log] keeps_ret)
qed

section \<open>What a delivery pass does\<close>

lemma deliver_segment_Inr:
  assumes "deliver_segment en exporters now rec frames w = (Inr atts, w')"
  shows "\<exists>live w1. reload_record rec (w\<lparr>locks := tl (locks w)\<rparr>) = (Inr live, w1) \<and>
     require_frames_belong en live frames = Inr () \<and> 
     (if segment_is_expired frames now then ret (withheld live) w1
      else for_each (deliver_one exporters live frames) (sr_exporters live) w1) = (Inr atts, w')"
  using assms
  by (auto simp: deliver_segment_def andthen_Inr require_now_def check_def with_barrier_def lift_res_def
      split: if_splits list.splits option.splits)

lemma deliver_segment_cases:
  assumes "deliver_segment en exporters now rec frames w = (r, w')"
  obtains (same) "same_spool w w'"
  | (sent) live w1 where "reload_record rec (w\<lparr>locks := tl (locks w)\<rparr>) = (Inr live, w1)"
      "require_frames_belong en live frames = Inr ()" "\<not> segment_is_expired frames now"
      "for_each (deliver_one exporters live frames) (sr_exporters live) w1 = (r, w')"
proof -
  let ?w0 = "w\<lparr>locks := tl (locks w)\<rparr>"
  obtain r1 w1 where reload: "reload_record rec ?w0 = (r1, w1)" by fastforce
  have w1: "same_spool w w1"
    using keepsD [OF reload_record_same reload] by (simp add: same_spool_def)
  show thesis
  proof (cases "\<exists>live. r1 = Inr live \<and> require_frames_belong en live frames = Inr () \<and>
      \<not> segment_is_expired frames now \<and> valid_instant now \<and> en_barrier_bound en \<and> 
      (\<forall>c ls. locks w \<noteq> Some c # ls)")
    case True
    then obtain live where "r1 = Inr live" "require_frames_belong en live frames = Inr ()"
      "\<not> segment_is_expired frames now" "valid_instant now" "en_barrier_bound en"
      "\<forall>c ls. locks w \<noteq> Some c # ls" by blast
    then show ?thesis
      using assms reload by (intro sent)
        (auto simp: deliver_segment_def andthen_def require_now_def check_def with_barrier_def
          lift_res_def split: list.splits option.splits)
  next
    case False
    then have "same_spool w w'"
      using assms reload w1
      by (auto simp: deliver_segment_def andthen_def require_now_def check_def with_barrier_def
          lift_res_def ret_def same_spool_def split: list.splits option.splits if_splits sum.splits)
    then show ?thesis by (rule same)
  qed
qed

lemma require_frames_belong_Inr:
  "require_frames_belong en rec frames = Inr u \<longleftrightarrow>
     int (length frames) = sg_record_count (sr_row rec) \<and>
     list_all (\<lambda>f. fr_batch f = sg_batch (sr_row rec)) frames \<and>
     (\<exists>lines. map_res (spool_frame_line (en_nfc en)) frames = Inr lines \<and>
        spool_content_sha256 (en_sha_hex en) lines = sg_content_sha256 (sr_row rec))"
  by (auto simp: require_frames_belong_def bind_res_eq_Inr)

section \<open>The delivery state machine\<close>

definition is_delivered :: "string \<Rightarrow> string \<Rightarrow> tables \<Rightarrow> bool" where
  "is_delivered b x t \<longleftrightarrow>
     list_ex (\<lambda>e. ex_batch e = b \<and> ex_exporter e = x \<and> ex_status e = ''delivered'') (seg_exporters t)"

definition set_status :: "string \<Rightarrow> string \<Rightarrow> string \<Rightarrow> tables \<Rightarrow> tables" where
  "set_status b x st t = t\<lparr>seg_exporters :=
     map (\<lambda>e. if not_terminal b x e then e\<lparr>ex_status := st\<rparr> else e) (seg_exporters t)\<rparr>"

text \<open>The compare-and-set, branch by branch.\<close>

lemma advance_status_Inr:
  assumes "advance_status_locked b x st w = (Inr c, w')"
  shows "db w' = set_status b x st (db w) \<and> others w' = others w \<and>
     (c = Advanced \<longleftrightarrow> length (filter (not_terminal b x) (seg_exporters (db w))) = 1) \<and>
     (c = Gone \<longleftrightarrow> length (filter (not_terminal b x) (seg_exporters (db w))) \<noteq> 1 \<and>
        exporter_status b x (set_status b x st (db w)) = None)"
  using assms
  by (auto simp: advance_status_locked_def normalise_Inr transaction_Inr andthen_Inr ret_def
      update_status_def sql_Inr select_Inr set_status_def split: if_splits)

lemma advance_status_Inl: "advance_status_locked b x st w = (Inl e, w') \<Longrightarrow> db w' = db w \<and> others w' = others w"
  by (auto simp: advance_status_locked_def normalise_Inl transaction_cases andthen_def ret_def
      update_status_def sql_cases select_def split: if_splits option.splits prod.splits sum.splits)

lemma set_status_delivered:
  "is_delivered b' x' t \<Longrightarrow> is_delivered b' x' (set_status b x st t)"
  by (auto simp: is_delivered_def set_status_def list_ex_iff not_terminal_def)

lemma set_status_advances:
  "length (filter (not_terminal b x) (seg_exporters t)) = 1 \<Longrightarrow>
     is_delivered b x (set_status b x ''delivered'' t)"
proof -
  assume "length (filter (not_terminal b x) (seg_exporters t)) = 1"
  then obtain e where "e \<in> set (seg_exporters t)" "not_terminal b x e"
    by (metis One_nat_def filter_False length_greater_0_conv less_Suc0 list.size(3))
  then have "e\<lparr>ex_status := ''delivered''\<rparr> \<in> set (seg_exporters (set_status b x ''delivered'' t))"
    unfolding set_status_def by force
  moreover have "ex_batch e = b" "ex_exporter e = x"
    using \<open>not_terminal b x e\<close> by (simp_all add: not_terminal_def)
  ultimately show ?thesis
    unfolding is_delivered_def list_ex_iff
    by (intro bexI [of _ "e\<lparr>ex_status := ''delivered''\<rparr>"]) simp_all
qed

text \<open>Other processes respect the terminal state when none of their changes takes it back.\<close>

definition respects_delivered :: "string \<Rightarrow> string \<Rightarrow> spool_world \<Rightarrow> bool" where
  "respects_delivered b x w \<longleftrightarrow> (\<forall>g \<in> set (others w). \<forall>t. is_delivered b x t \<longrightarrow> is_delivered b x (g t))"

definition terminal_rel :: "string \<Rightarrow> string \<Rightarrow> spool_world \<Rightarrow> spool_world \<Rightarrow> bool" where
  "terminal_rel b x w w' \<longleftrightarrow> (respects_delivered b x w \<longrightarrow> respects_delivered b x w' \<and>
     (is_delivered b x (db w) \<longrightarrow> is_delivered b x (db w')))"

lemma terminal_order [simp]: "reflp (terminal_rel b x)" "transp (terminal_rel b x)"
  by (auto simp: reflp_def transp_def terminal_rel_def)

lemma terminal_advance: "keeps (terminal_rel b x) (advance_status_locked b' x' st)"
proof -
  have "terminal_rel b x w w'" if run: "advance_status_locked b' x' st w = (r, w')" for w r w'
  proof (cases r)
    case (Inl e)
    then show ?thesis using advance_status_Inl run by (simp add: terminal_rel_def respects_delivered_def)
  next
    case (Inr c)
    then show ?thesis using advance_status_Inr run set_status_delivered
      by (simp add: terminal_rel_def respects_delivered_def)
  qed
  then show ?thesis by (auto simp: keeps_def)
qed

lemma terminal_attempt: "keeps (terminal_rel b x) (attempt_delivery x' obj live frames)"
  by (auto simp: keeps_def terminal_rel_def respects_delivered_def attempt_delivery_def Let_def
      split: list.splits)

lemma terminal_deliver_one: "keeps (terminal_rel b x) (deliver_one exporters live frames row)"
  unfolding deliver_one_def Let_def
  by (auto intro!: keeps_andthen [OF terminal_order(2) terminal_attempt]
      keeps_andthen [OF terminal_order(2) terminal_advance] keeps_ret split: option.split)

text \<open>What a reported delivery rests on.\<close>

lemma attempt_delivery_log:
  "attempt_delivery x obj live frames w = (Inr ok, w') \<Longrightarrow>
     forwarded w' = forwarded w @ [(x, live, frames, ok)]"
  unfolding attempt_delivery_def Let_def by (cases "others w") auto

lemma deliver_one_Delivered:
  assumes "deliver_one exporters live frames row w = (Inr a, w')" "at_outcome a = Delivered"
  shows "at_exporter a = xd_exporter row \<and>
     forwarded w' = forwarded w @ [(at_exporter a, live, frames, True)] \<and>
     is_delivered (sg_batch (sr_row live)) (at_exporter a) (db w')"
proof -
  obtain obj w1 c where run: "usable_exporter exporters (xd_exporter row) = Some obj"
      "attempt_delivery (xd_exporter row) obj live frames w = (Inr True, w1)"
      "advance_status_locked (sg_batch (sr_row live)) (xd_exporter row) ''delivered'' w1 = (Inr c, w')"
      "at_exporter a = xd_exporter row" "delivered_outcome c = Delivered"
    using assms by (auto simp: deliver_one_def Let_def andthen_Inr ret_def split: if_splits option.splits)
  then have "c = Advanced" by (cases c) auto
  with advance_status_Inr [OF run(3)]
  have "is_delivered (sg_batch (sr_row live)) (xd_exporter row) (db w')"
    using set_status_advances by simp
  then show ?thesis
    using run(4) attempt_delivery_log [OF run(2)] forwarded_advance [OF run(3)] by auto
qed

section \<open>Properties\<close>

lemma usable_iff: "usable_exporter exporters x \<noteq> None \<longleftrightarrow>
    (\<exists>obj. map_of exporters x = Some obj \<and> xo_id obj = Some x) \<and> token_match 63 x"
  by (auto simp: usable_exporter_def split: option.splits)

text \<open>What entitles a call of exporter \<open>x\<close> for a segment: the frames are the committed ones.\<close>

definition entitled ::
  "spool_env \<Rightarrow> (string \<times> exporter_obj) list \<Rightarrow> int \<Rightarrow> spool_frame list \<Rightarrow> tables \<Rightarrow> string
    \<Rightarrow> segment_record \<Rightarrow> bool" where
  "entitled en exporters now frames t x live \<longleftrightarrow>
     find_segment (sg_batch (sr_row live)) t = Some (sr_row live) \<and>
     int (length frames) = sg_record_count (sr_row live) \<and>
     list_all (\<lambda>f. fr_batch f = sg_batch (sr_row live)) frames \<and>
     map_res (spool_frame_line (en_nfc en)) frames \<in>
       {Inr lines | lines. en_sha_hex en (concat lines) = sg_content_sha256 (sr_row live)} \<and>
     list_all (\<lambda>f. now < ev_expires_at (fr_record f)) frames \<and>
     list_ex (\<lambda>row. xd_exporter row = x \<and> xd_status row \<noteq> ''delivered'') (sr_exporters live) \<and>
     (\<exists>obj. map_of exporters x = Some obj \<and> xo_id obj = Some x)"

lemma sent_log:
  assumes "for_each (deliver_one exporters live frames) (sr_exporters live) w1 = (r, w')"
  shows "log_grows exporters live frames w1 w'"
  by (rule keepsD [OF keeps_for_each [OF log_grows_order deliver_one_log] assms])

text \<open>C3
  Integrity of delivery: whatever a pass forwards is exactly the given frames, under the reloaded
  ledger row of that batch, whose count, batch id and content digest the frames match; no frame has
  expired; and the destination is a registered exporter that identifies itself and was not yet
  delivered to. Nothing already in the log is touched, and this holds on every error path.
\<close>

theorem delivery_only_entitled:
  assumes "deliver_segment en exporters now rec frames w = (r, w')"
  shows "\<exists>new. forwarded w' = forwarded w @ new \<and>
     (\<forall>(x, live, fs, ok) \<in> set new. fs = frames \<and> sg_batch (sr_row live) = sg_batch (sr_row rec) \<and>
        entitled en exporters now frames (db w) x live)"
  using assms
proof (cases rule: deliver_segment_cases)
  case same
  then show ?thesis by (simp add: same_spool_def)
next
  case (sent live w1)
  note reload = reload_record_Inr [OF sent(1)]
  obtain new where new: "forwarded w' = forwarded w1 @ new"
      "\<forall>(x, l, fs, ok) \<in> set new. l = live \<and> fs = frames \<and> sanctioned exporters live frames x"
    using sent_log [OF sent(4)] unfolding log_grows_def by blast
  have "entitled en exporters now frames (db w) x live" if "sanctioned exporters live frames x" for x
    using that sent(2,3) reload usable_iff [of exporters x]
    by (auto simp: entitled_def sanctioned_def require_frames_belong_Inr segment_is_expired_iff
        list_all_iff list_ex_iff spool_content_sha256_def not_le)
  then show ?thesis
    using new reload by (intro exI [of _ new]) (auto simp: same_spool_def)
qed

text \<open>C5
  Privacy expiry is a hard bound: when a record of the segment has expired, a pass forwards nothing
  and changes no row, and its report says of every exporter that it was delivered before or expired.
\<close>

theorem expired_segment_withheld:
  assumes "deliver_segment en exporters now rec frames w = (r, w')"
    "list_ex (\<lambda>f. ev_expires_at (fr_record f) \<le> now) frames"
  shows "forwarded w' = forwarded w \<and> db w' = db w \<and>
     (case r of Inl _ \<Rightarrow> True | Inr atts \<Rightarrow>
        list_all (\<lambda>a. at_outcome a \<in> {Already_Delivered, Expired}) atts)"
proof -
  have expired: "segment_is_expired frames now"
    using assms(2) by (auto simp: segment_is_expired_iff list_ex_iff)
  have "same_spool w w'"
    using assms(1) expired by (cases rule: deliver_segment_cases) simp_all
  moreover have "list_all (\<lambda>a. at_outcome a \<in> {Already_Delivered, Expired}) atts" if "r = Inr atts" for atts
    using deliver_segment_Inr [of en exporters now rec frames w atts w'] assms(1) that expired
    by (auto simp: ret_def withheld_def list_all_iff split: if_splits)
  ultimately show ?thesis by (auto simp: same_spool_def split: sum.split)
qed

text \<open>
  A delivery that was recorded stays recorded: \<^verbatim>\<open>delivered\<close> is terminal under every pass, whatever
  it returns or raises, as long as no other process takes the row back.
\<close>

theorem delivered_is_terminal:
  assumes "deliver_segment en exporters now rec frames w = (r, w')"
    "is_delivered b x (db w)" "respects_delivered b x w"
  shows "is_delivered b x (db w')"
  using assms(1)
proof (cases rule: deliver_segment_cases)
  case same
  then show ?thesis using assms(2) by (simp add: same_spool_def)
next
  case (sent live w1)
  have "terminal_rel b x w1 w'"
    using sent(4) by (rule keepsD [OF keeps_for_each [OF terminal_order terminal_deliver_one]])
  then show ?thesis
    using assms(2,3) reload_record_Inr [OF sent(1)] reload_record_others [OF sent(1)]
    by (simp add: terminal_rel_def same_spool_def respects_delivered_def)
qed

text \<open>C4
  A reported delivery is real: the destination was called with these frames in this pass and
  returned, and the ledger row is \<^verbatim>\<open>delivered\<close> when the pass ends, as long as no other process
  takes it back. A row that vanished meanwhile is never reported delivered.
\<close>

theorem delivered_report_sound:
  assumes "deliver_segment en exporters now rec frames w = (Inr atts, w')"
    "a \<in> set atts" "at_outcome a = Delivered"
    "respects_delivered (sg_batch (sr_row rec)) (at_exporter a) w"
  shows "\<exists>live new. forwarded w' = forwarded w @ new \<and>
     (at_exporter a, live, frames, True) \<in> set new \<and>
     is_delivered (sg_batch (sr_row rec)) (at_exporter a) (db w')"
proof -
  let ?b = "sg_batch (sr_row rec)" and ?x = "at_exporter a"
  obtain live w1 where run: "reload_record rec (w\<lparr>locks := tl (locks w)\<rparr>) = (Inr live, w1)"
    "(if segment_is_expired frames now then ret (withheld live) w1
      else for_each (deliver_one exporters live frames) (sr_exporters live) w1) = (Inr atts, w')"
    using deliver_segment_Inr [OF assms(1)] by blast
  have "\<not> segment_is_expired frames now"
  proof
    assume "segment_is_expired frames now"
    then have "a \<in> set (withheld live)" using run(2) assms(2) by (simp add: ret_def)
    then show False using assms(3) by (auto simp: withheld_def split: if_splits)
  qed
  with run(2) have loop: "for_each (deliver_one exporters live frames) (sr_exporters live) w1 = (Inr atts, w')"
    by simp
  let ?R = "\<lambda>u v. terminal_rel ?b ?x u v \<and> log_grows exporters live frames u v"
  have order: "reflp ?R" "transp ?R"
    using terminal_order [of ?b ?x] log_grows_order [of exporters live frames]
    unfolding reflp_def transp_def by blast+
  have "keeps ?R (deliver_one exporters live frames row)" if "row \<in> set (sr_exporters live)" for row
    using terminal_deliver_one deliver_one_log [OF that] unfolding keeps_def by blast
  from for_each_result [OF order this loop assms(2)]
  obtain row u v where step: "deliver_one exporters live frames row u = (Inr a, v)" "?R w1 u" "?R v w'"
    by blast
  note told = deliver_one_Delivered [OF step(1) assms(3)]
  have "respects_delivered ?b ?x v"
    using step(2) reload_record_others [OF run(1)] assms(4)
      keepsD [OF terminal_deliver_one step(1), of ?b ?x]
    by (simp add: terminal_rel_def respects_delivered_def)
  moreover have "is_delivered ?b ?x (db v)"
    using told reload_record_Inr [OF run(1)] by metis
  ultimately have "is_delivered ?b ?x (db w')" using step(3) by (simp add: terminal_rel_def)
  moreover obtain n1 n2 where "forwarded u = forwarded w1 @ n1" "forwarded w' = forwarded v @ n2"
    using step(2,3) unfolding log_grows_def by blast
  ultimately show ?thesis
    using told reload_record_Inr [OF run(1)]
    by (intro exI [of _ live] exI [of _ "n1 @ (?x, live, frames, True) # n2"])
      (simp add: same_spool_def)
qed

section \<open>A concrete pass\<close>

definition demo_exporters :: "(string \<times> exporter_obj) list" where
  "demo_exporters = [(''ch'', \<lparr>xo_id = Some ''ch'', xo_deliver = (\<lambda>_ _ _. True)\<rparr>)]"

definition demo_spool :: "tables \<Rightarrow> delivery_log \<Rightarrow> spool_world" where
  "demo_spool t log = \<lparr>db = t, db_closed = False, in_txn = False, faults = [], files = [],
     unlinks = [], locks = [], forwarded = log, others = []\<rparr>"

lemma demo_batch: "sg_batch (sr_row demo_record) = ''b1''" "sr_row demo_record = demo_segment"
    "sg_batch demo_segment = ''b1''" "sr_exporters demo_record = [\<lparr>xd_exporter = ''ch'', xd_status = ''pending''\<rparr>]"
  by (simp_all add: demo_record_def demo_segment_def)

lemma demo_ledger_rows: "segments demo_ledger = [demo_segment]"
    "seg_exporters demo_ledger = [delivery_row ''b1'' \<lparr>xd_exporter = ''ch'', xd_status = ''pending''\<rparr>]"
  by (simp_all add: demo_ledger_def demo_batch)

lemma demo_reload: "reload_record demo_record (demo_spool demo_ledger []) =
    (Inr demo_record, demo_spool demo_ledger [])"
proof -
  have "read_segment_record ''b1'' (demo_spool demo_ledger []) = (Inr (Some demo_record), demo_spool demo_ledger [])"
    by (rule read_found [where r = demo_segment and xs = "sr_exporters demo_record"])
      (simp_all add: demo_checks(1) [unfolded demo_batch(4)] demo_checks(3) demo_batch demo_spool_def find_segment_def demo_ledger_rows exporters_of_def
        delivery_row_def delivery_states_def)
  then show ?thesis
    by (simp add: reload_record_def andthen_def demo_batch ret_def)
qed

lemma demo_belongs: "require_frames_belong demo_env demo_record [demo_frame] = Inr ()"
  unfolding require_frames_belong_Inr
  by (simp add: demo_env_simps demo_lines demo_batch spool_content_sha256_def)
    (simp add: demo_frame_def demo_segment_def)

lemma demo_advance: "advance_status_locked ''b1'' ''ch'' ''delivered'' (demo_spool demo_ledger log) =
    (Inr Advanced, demo_spool (set_status ''b1'' ''ch'' ''delivered'' demo_ledger) log)"
  by (simp add: advance_status_locked_def normalise_def handle_def transaction_quiet quiet_def demo_spool_def
      andthen_def update_status_def sql_quiet set_status_def ret_def demo_ledger_rows delivery_states_def
      delivery_row_def not_terminal_def quiet_simps)

lemma demo_delivery:
  "deliver_segment demo_env demo_exporters 0 demo_record [demo_frame] (demo_spool demo_ledger []) =
     (Inr [\<lparr>at_batch = ''b1'', at_exporter = ''ch'', at_outcome = Delivered\<rparr>],
      demo_spool (set_status ''b1'' ''ch'' ''delivered'' demo_ledger)
        [(''ch'', demo_record, [demo_frame], True)])"
proof -
  have w: "(demo_spool demo_ledger [])\<lparr>locks := []\<rparr> = demo_spool demo_ledger []"
    "locks (demo_spool demo_ledger []) = []" "en_barrier_bound demo_env" "ev_expires_at (fr_record demo_frame) = 1000"
    by (simp_all add: demo_spool_def demo_env_def demo_frame_def)
  have obj: "usable_exporter demo_exporters ''ch'' = Some \<lparr>xo_id = Some ''ch'', xo_deliver = (\<lambda>_ _ _. True)\<rparr>"
    by (simp add: usable_exporter_def demo_exporters_def demo_checks)
  have call: "attempt_delivery ''ch'' \<lparr>xo_id = Some ''ch'', xo_deliver = (\<lambda>_ _ _. True)\<rparr> demo_record [demo_frame]
      (demo_spool demo_ledger []) = (Inr True, demo_spool demo_ledger [(''ch'', demo_record, [demo_frame], True)])"
    by (simp add: attempt_delivery_def demo_spool_def)
  have loop: "for_each (deliver_one demo_exporters demo_record [demo_frame]) (sr_exporters demo_record)
      (demo_spool demo_ledger []) = (Inr [\<lparr>at_batch = ''b1'', at_exporter = ''ch'', at_outcome = Delivered\<rparr>],
      demo_spool (set_status ''b1'' ''ch'' ''delivered'' demo_ledger) [(''ch'', demo_record, [demo_frame], True)])"
    by (simp add: demo_batch deliver_one_def Let_def obj andthen_def call demo_advance ret_def)
  show ?thesis
    unfolding deliver_segment_def
    by (simp add: andthen_def require_now_def check_def with_barrier_def valid_instant_def datetime_limit_def
        us_per_day_def w demo_reload lift_res_def demo_belongs segment_is_expired_def loop)
qed

theorem delivery_only_entitled_witness:
  "entitled demo_env demo_exporters 0 [demo_frame] demo_ledger ''ch'' demo_record"
proof -
  have "forwarded (demo_spool demo_ledger []) = []" "db (demo_spool demo_ledger []) = demo_ledger"
    by (simp_all add: demo_spool_def)
  then show ?thesis
    using delivery_only_entitled [OF demo_delivery] by (simp add: demo_spool_def)
qed

theorem expired_segment_withheld_witness:
  "forwarded (snd (deliver_segment demo_env demo_exporters 1000 demo_record [demo_frame]
     (demo_spool demo_ledger []))) = []"
  using expired_segment_withheld [of demo_env demo_exporters 1000 demo_record "[demo_frame]"
      "demo_spool demo_ledger []", OF prod.collapse [symmetric]]
  by (simp add: demo_frame_def demo_spool_def)

theorem delivered_is_terminal_witness:
  "is_delivered ''b1'' ''ch'' (db (snd (deliver_segment demo_env demo_exporters 0 demo_record [demo_frame]
     (demo_spool (set_status ''b1'' ''ch'' ''delivered'' demo_ledger) []))))"
  by (rule delivered_is_terminal [OF prod.collapse [symmetric]])
    (simp_all add: demo_spool_def respects_delivered_def is_delivered_def set_status_def demo_ledger_rows
      not_terminal_def delivery_row_def)

theorem delivered_report_sound_witness:
  "is_delivered ''b1'' ''ch'' (set_status ''b1'' ''ch'' ''delivered'' demo_ledger)"
  using delivered_report_sound [OF demo_delivery] by (simp add: demo_spool_def respects_delivered_def demo_batch)

end
