(* ===== verification/Replay.thy ===== *)
theory Replay
  imports Exporter Demo_Spool
begin

text \<open>
  \<^verbatim>\<open>src/milhouse/spooling/replay.py\<close>: every committed segment in batch order, re-read as trusted
  state, matched with its ledger row, and driven through delivery.
\<close>

record replay_report =
  rp_segments :: "string list"
  rp_record_ids :: "string list"
  rp_attempts :: "exporter_attempt list"

definition verify_against_ledger :: "parsed_segment \<Rightarrow> segment_record \<Rightarrow> unit res" where
  "verify_against_ledger p rec =
     check_res (ps_file_sha256 p = sg_file_sha256 (sr_row rec) \<and> ps_byte_size p = sg_byte_size (sr_row rec) \<and>
        hd_content_sha256 (ps_header p) = sg_content_sha256 (sr_row rec) \<and>
        int (length (ps_frames p)) = sg_record_count (sr_row rec))
       (Spool_Error ''MH_SPOOL_REPLAY'')"

definition bound_replay_root :: "spool_env \<Rightarrow> string \<Rightarrow> string res" where
  "bound_replay_root en root =
     (case en_spool_root en of
        None \<Rightarrow> Inl (Spool_Error ''MH_SPOOL_REPLAY'')
      | Some bound \<Rightarrow> (case en_absolute en root of
          None \<Rightarrow> Inl (Spool_Error ''MH_SPOOL_REPLAY'')
        | Some resolved \<Rightarrow>
            (if resolved \<noteq> bound then Inl (Spool_Error ''MH_SPOOL_REPLAY'') else Inr resolved)))"

text \<open>One turn of the loop: what it adds to the three lists.\<close>

definition replay_one ::
  "spool_env \<Rightarrow> (string \<times> exporter_obj) list \<Rightarrow> string \<Rightarrow> string \<Rightarrow> int \<Rightarrow> segment_record
    \<Rightarrow> (string \<times> string list \<times> exporter_attempt list) spool_prog" where
  "replay_one en exporters root installation now rec =
     andthen (getst files) (\<lambda>fs.
     andthen (lift_res (read_trusted_segment en fs
       (pending_path root (sg_day (sr_row rec)) (sg_batch (sr_row rec))) installation)) (\<lambda>p.
     andthen (lift_res (verify_against_ledger p rec)) (\<lambda>_.
     andthen (deliver_segment en exporters now rec (ps_frames p)) (\<lambda>attempts.
     ret (sg_batch (sr_row rec), map (\<lambda>f. ev_record_id (fr_record f)) (ps_frames p), attempts)))))"

definition replay_segments ::
  "spool_env \<Rightarrow> (string \<times> exporter_obj) list \<Rightarrow> string \<Rightarrow> string \<Rightarrow> int \<Rightarrow> string option
    \<Rightarrow> replay_report spool_prog" where
  "replay_segments en exporters spool_root installation now status =
     andthen (check (installation_id_match installation) (Spool_Error ''MH_SPOOL_IDENTITY'')) (\<lambda>_.
     andthen (lift_res (bound_replay_root en spool_root)) (\<lambda>root.
     andthen (list_segment_records status) (\<lambda>records.
     andthen (for_each (replay_one en exporters root installation now) records) (\<lambda>parts.
     ret \<lparr>rp_segments = map fst parts, rp_record_ids = concat (map (\<lambda>p. fst (snd p)) parts),
          rp_attempts = concat (map (\<lambda>p. snd (snd p)) parts)\<rparr>))))"

section \<open>The stream is a function of the rows and the files\<close>

text \<open>What delivery leaves alone while no other process interferes.\<close>

definition undisturbed :: "spool_world \<Rightarrow> spool_world \<Rightarrow> bool" where
  "undisturbed w w' \<longleftrightarrow> files w' = files w \<and>
     (others w = [] \<longrightarrow> others w' = [] \<and> segments (db w') = segments (db w) \<and> cursors (db w') = cursors (db w))"

lemma undisturbed_order [simp]: "reflp undisturbed" "transp undisturbed"
  by (auto simp: reflp_def transp_def undisturbed_def)

lemma undisturbed_sql:
  "(\<And>t r t'. f t = Some (r, t') \<Longrightarrow> segments t' = segments t \<and> cursors t' = cursors t) \<Longrightarrow> keeps undisturbed (sql bs f)"
  by (fastforce simp: keeps_def undisturbed_def sql_cases split: if_splits option.splits)

lemma undisturbed_select: "keeps undisturbed (select bs q)"
  unfolding select_def by (rule undisturbed_sql) simp

lemma undisturbed_transaction: "keeps undisturbed m \<Longrightarrow> keeps undisturbed (transaction m)"
proof -
  assume m: "keeps undisturbed m"
  have "undisturbed w w'" if "transaction m w = (r, w')" for w r w'
  proof -
    obtain r1 w1 where "m (w\<lparr>faults := tl (faults w), in_txn := True\<rparr>) = (r1, w1)" by fastforce
    with keepsD [OF m this] that show ?thesis
      by (auto simp: transaction_cases undisturbed_def split: if_splits sum.splits)
  qed
  then show ?thesis by (auto simp: keeps_def)
qed

lemma undisturbed_connection: "keeps undisturbed db_connection"
  by (auto simp: keeps_def db_connection_def undisturbed_def split: if_splits)

lemma undisturbed_load: "keeps undisturbed (load_record r)"
  unfolding load_record_def load_exporters_def
  by (intro keeps_andthen keeps_lift_res undisturbed_select undisturbed_order)

lemma undisturbed_read: "keeps undisturbed (read_segment_record b)"
  unfolding read_segment_record_def
  by (intro keeps_normalise keeps_andthen undisturbed_order undisturbed_connection undisturbed_select)
    (auto split: option.split intro!: keeps_ret keeps_andthen undisturbed_load)

lemma undisturbed_list: "keeps undisturbed (list_segment_records st)"
  unfolding list_segment_records_def
  by (intro keeps_normalise keeps_andthen keeps_for_each undisturbed_order undisturbed_connection
      undisturbed_select undisturbed_load)

lemma undisturbed_advance: "keeps undisturbed (advance_status_locked b x st)"
  unfolding advance_status_locked_def update_status_def
  by (intro keeps_normalise undisturbed_order undisturbed_transaction keeps_andthen undisturbed_sql)
    (auto split: if_splits intro!: keeps_ret keeps_andthen undisturbed_select)

lemma undisturbed_deliver_one: "keeps undisturbed (deliver_one exporters live frames row)"
proof -
  have call: "keeps undisturbed (attempt_delivery x obj live frames)" for x obj
    by (auto simp: keeps_def undisturbed_def attempt_delivery_def Let_def split: list.splits)
  show ?thesis
    unfolding deliver_one_def Let_def
    by (auto intro!: keeps_andthen [OF undisturbed_order(2) call]
        keeps_andthen [OF undisturbed_order(2) undisturbed_advance] keeps_ret split: option.split)
qed

lemma undisturbed_reload: "keeps undisturbed (reload_record rec)"
  unfolding reload_record_def
  by (intro keeps_andthen undisturbed_order undisturbed_read)
    (auto split: option.split intro!: keeps_throw keeps_ret)

lemma undisturbed_barrier: "keeps undisturbed m \<Longrightarrow> keeps undisturbed (with_barrier m)"
proof -
  assume m: "keeps undisturbed m"
  have "undisturbed w w'" if "with_barrier m w = (r, w')" for w r w'
  proof -
    obtain r1 w1 where "m (w\<lparr>locks := tl (locks w)\<rparr>) = (r1, w1)" by fastforce
    with keepsD [OF m this] that show ?thesis
      by (auto simp: with_barrier_def undisturbed_def split: list.splits option.splits)
  qed
  then show ?thesis by (auto simp: keeps_def)
qed

lemma undisturbed_deliver: "keeps undisturbed (deliver_segment en exporters now rec frames)"
  unfolding deliver_segment_def require_now_def
  by (intro keeps_andthen undisturbed_order keeps_check undisturbed_barrier undisturbed_reload keeps_lift_res)
    (auto intro!: keeps_ret keeps_for_each undisturbed_deliver_one)

definition segment_ids ::
  "spool_env \<Rightarrow> string \<Rightarrow> string \<Rightarrow> (string \<times> file_node) list \<Rightarrow> segment_row \<Rightarrow> string list" where
  "segment_ids en root installation fs r =
     (case read_trusted_segment en fs (pending_path root (sg_day r) (sg_batch r)) installation of
        Inl _ \<Rightarrow> [] | Inr p \<Rightarrow> map (\<lambda>f. ev_record_id (fr_record f)) (ps_frames p))"

lemma replay_one_Inr:
  assumes "replay_one en exporters root installation now rec w = (Inr part, w')"
  shows "undisturbed w w' \<and> fst part = sg_batch (sr_row rec) \<and>
     fst (snd part) = segment_ids en root installation (files w) (sr_row rec)"
proof -
  obtain p attempts where run: "read_trusted_segment en (files w)
      (pending_path root (sg_day (sr_row rec)) (sg_batch (sr_row rec))) installation = Inr p"
    "deliver_segment en exporters now rec (ps_frames p) w = (Inr attempts, w')"
    "part = (sg_batch (sr_row rec), map (\<lambda>f. ev_record_id (fr_record f)) (ps_frames p), attempts)"
    using assms by (auto simp: replay_one_def andthen_Inr getst_def lift_res_def ret_def)
  then show ?thesis
    using keepsD [OF undisturbed_deliver run(2)] by (simp add: segment_ids_def)
qed

lemma replay_loop_Inr:
  "for_each (replay_one en exporters root installation now) recs w = (Inr parts, w') \<Longrightarrow>
     undisturbed w w' \<and> map fst parts = map (\<lambda>rec. sg_batch (sr_row rec)) recs \<and>
     map (\<lambda>p. fst (snd p)) parts = map (\<lambda>rec. segment_ids en root installation (files w) (sr_row rec)) recs"
proof (induction recs arbitrary: w parts)
  case Nil
  then show ?case by (simp add: ret_def undisturbed_def)
next
  case (Cons rec recs)
  then obtain part w1 rest where run: "replay_one en exporters root installation now rec w = (Inr part, w1)"
      "for_each (replay_one en exporters root installation now) recs w1 = (Inr rest, w')" "parts = part # rest"
    by (auto simp: andthen_Inr ret_def)
  note one = replay_one_Inr [OF run(1)] and IH = Cons.IH [OF run(2)]
  have "files w1 = files w" using one by (simp add: undisturbed_def)
  then show ?case
    using one IH run(3) transpD [OF undisturbed_order(2)] by auto
qed

lemma replay_stream:
  assumes "replay_segments en exporters spool_root installation now status w = (Inr rep, w')"
  obtains root where "en_absolute en spool_root = Some root" "undisturbed w w'"
    "rp_segments rep = map sg_batch (segment_rows status (db w))"
    "rp_record_ids rep = concat (map (segment_ids en root installation (files w)) (segment_rows status (db w)))"
proof -
  obtain root recs w1 parts where run: "bound_replay_root en spool_root = Inr root"
      "list_segment_records status w = (Inr recs, w1)"
      "for_each (replay_one en exporters root installation now) recs w1 = (Inr parts, w')"
      "rp_segments rep = map fst parts" "rp_record_ids rep = concat (map (\<lambda>p. fst (snd p)) parts)"
    using assms by (auto simp: replay_segments_def andthen_Inr lift_res_def check_def ret_def split: if_splits)
  note rows = list_records_Inr(1) [OF run(2)] and loop = replay_loop_Inr [OF run(3)]
  have w1: "undisturbed w w1" "files w1 = files w"
    using keepsD [OF undisturbed_list run(2)] by (simp_all add: undisturbed_def)
  have "map fst parts = map sg_batch (map sr_row recs)"
       "map (\<lambda>p. fst (snd p)) parts = map (segment_ids en root installation (files w)) (map sr_row recs)"
    using loop w1(2) by (simp_all add: comp_def)
  moreover have "undisturbed w w'" using w1(1) loop transpD [OF undisturbed_order(2)] by blast
  moreover have "en_absolute en spool_root = Some root"
    using run(1) by (auto simp: bound_replay_root_def split: option.splits if_splits)
  ultimately show ?thesis using that run(4,5) by (simp only: rows)
qed


section \<open>Replaying delivered work\<close>

definition all_delivered :: "tables \<Rightarrow> bool" where
  "all_delivered t \<longleftrightarrow> list_all (\<lambda>e. ex_status e = ''delivered'') (seg_exporters t)"

lemma checked_delivered:
  "map_res checked_exporter es = Inr xs \<Longrightarrow> list_all (\<lambda>e. ex_status e = ''delivered'') es \<Longrightarrow>
     list_all (\<lambda>x. xd_status x = ''delivered'') xs"
  by (induction es arbitrary: xs) (auto simp: bind_res_eq_Inr checked_exporter_def split: if_splits)

lemma deliver_nothing:
  "list_all (\<lambda>x. xd_status x = ''delivered'') rows \<Longrightarrow>
     for_each (deliver_one exporters live frames) rows w = (r, w') \<Longrightarrow> w' = w"
  by (induction rows arbitrary: r) (auto simp: deliver_one_def Let_def ret_def andthen_def split: sum.splits prod.splits)

lemma deliver_delivered:
  assumes "deliver_segment en exporters now rec frames w = (r, w')" "all_delivered (db w)"
  shows "same_spool w w'"
  using assms(1)
proof (cases rule: deliver_segment_cases)
  case (sent live w1)
  note reload = reload_record_Inr [OF sent(1)]
  have "list_all (\<lambda>e. ex_status e = ''delivered'') (exporters_of (sg_batch (sr_row rec)) (db w))"
    using assms(2) by (auto simp: all_delivered_def exporters_of_def list_all_iff)
  then have "list_all (\<lambda>x. xd_status x = ''delivered'') (sr_exporters live)"
    using reload by (auto intro: checked_delivered)
  from deliver_nothing [OF this sent(4)] show ?thesis using reload by (simp add: same_spool_def)
qed

text \<open>
  A replay over a fully delivered ledger is a no-op: it forwards no frame, changes no table and no
  file, whatever it returns or raises.
\<close>

theorem replay_delivered_noop:
  assumes "replay_segments en exporters spool_root installation now status w = (r, w')"
    "all_delivered (db w)"
  shows "forwarded w' = forwarded w \<and> db w' = db w \<and> files w' = files w"
proof -
  let ?R = "\<lambda>w w'. all_delivered (db w) \<longrightarrow> same_spool w w'"
  have order: "reflp ?R" "transp ?R" by (auto simp: reflp_def transp_def same_spool_def)
  have "keeps ?R (deliver_segment en exporters now rec frames)" for rec frames
    using deliver_delivered by (auto simp: keeps_def)
  then have one: "keeps ?R (replay_one en exporters root installation now rec)" for root rec
    unfolding replay_one_def by (intro keeps_andthen keeps_getst keeps_lift_res keeps_ret order)
  have "keeps ?R (list_segment_records status)"
    using same_spool_list by (auto simp: keeps_def)
  then have "keeps ?R (replay_segments en exporters spool_root installation now status)"
    unfolding replay_segments_def
    by (intro keeps_andthen keeps_check keeps_lift_res keeps_for_each keeps_ret order one)
  from keepsD [OF this assms(1)] assms(2) show ?thesis by (simp add: same_spool_def)
qed

lemma demo_read_record:
  "read_segment_record ''b1'' (demo_disk demo_ledger fs) = (Inr (Some demo_record), demo_disk demo_ledger fs)"
  by (rule read_found [where r = demo_segment and xs = "sr_exporters demo_record"])
    (simp_all add: demo_checks(1) [unfolded demo_rows(3)] demo_checks(3) demo_rows find_segment_def
      exporters_of_def delivery_row_def delivery_states_def)

lemma demo_unexported:
  "deliver_segment demo_env [] 0 demo_record [demo_frame] (demo_disk demo_ledger fs) =
     (Inr [\<lparr>at_batch = ''b1'', at_exporter = ''ch'', at_outcome = No_Exporter\<rparr>], demo_disk demo_ledger fs)"
proof -
  have reload: "reload_record demo_record (demo_disk demo_ledger fs) = (Inr demo_record, demo_disk demo_ledger fs)"
    by (simp add: reload_record_def andthen_def demo_rows demo_read_record ret_def)
  have live: "\<not> segment_is_expired [demo_frame] 0"
    by (simp add: segment_is_expired_def demo_frame_def)
  show ?thesis
    by (simp add: deliver_segment_def andthen_def require_now_def check_def with_barrier_def valid_instant_def
        datetime_limit_def us_per_day_def reload lift_res_def demo_belongs demo_env_simps live demo_rows
        deliver_one_def Let_def usable_exporter_def ret_def)
qed

lemma demo_replay:
  "replay_segments demo_env [] ''/s/spool'' demo_installation 0 None (demo_disk demo_ledger [(demo_path, demo_node)]) =
     (Inr \<lparr>rp_segments = [''b1''], rp_record_ids = [''r''],
       rp_attempts = [\<lparr>at_batch = ''b1'', at_exporter = ''ch'', at_outcome = No_Exporter\<rparr>]\<rparr>,
      demo_disk demo_ledger [(demo_path, demo_node)])"
proof -
  have path: "pending_path ''/s/spool'' (sg_day demo_segment) ''b1'' = demo_path" by (simp add: demo_path_def)
  have parsed: "ps_frames demo_parsed = [demo_frame]" by (simp add: demo_parsed_def)
  have match: "verify_against_ledger demo_parsed demo_record = Inr ()"
    using demo_agrees by (simp add: verify_against_ledger_def demo_rows)
      (simp add: agrees_def Let_def demo_rows demo_parsed_def demo_segment_def)
  have one: "replay_one demo_env [] ''/s/spool'' demo_installation 0 demo_record
      (demo_disk demo_ledger [(demo_path, demo_node)]) =
      (Inr (''b1'', [''r''], [\<lparr>at_batch = ''b1'', at_exporter = ''ch'', at_outcome = No_Exporter\<rparr>]),
       demo_disk demo_ledger [(demo_path, demo_node)])"
    by (simp add: replay_one_def andthen_def getst_def lift_res_def demo_rows path demo_trusted match parsed
        demo_unexported ret_def) (simp add: demo_frame_def)
  then show ?thesis
    by (simp add: replay_segments_def andthen_def check_def demo_installation_ok lift_res_def
        bound_replay_root_def demo_env_simps demo_listed ret_def)
qed


theorem replay_delivered_noop_witness:
  "forwarded (snd (replay_segments demo_env demo_exporters ''/s/spool'' demo_installation 0 None
     (demo_disk (set_status ''b1'' ''ch'' ''delivered'' demo_ledger) [(demo_path, demo_node)]))) = []"
proof -
  have "all_delivered (db (demo_disk (set_status ''b1'' ''ch'' ''delivered'' demo_ledger) [(demo_path, demo_node)]))"
    by (simp add: all_delivered_def set_status_def demo_rows not_terminal_def delivery_row_def)
  from replay_delivered_noop [OF prod.collapse [symmetric] this] show ?thesis
    by (simp add: demo_disk_def)
qed

end
