(* ===== verification/Barrier.thy ===== *)
theory Barrier
  imports Prelude "HOL-Library.AList"
begin

text \<open>
  \<^verbatim>\<open>src/milhouse/state/barrier.py\<close>: the readers-writer turnstile of two \<^verbatim>\<open>flock\<close>ed files. Each
  hold (one use of a context manager, in any process) is a client with its own descriptors; an event
  takes one client through one lock operation of its context manager. The kernel's conversion of a
  held \<^verbatim>\<open>flock\<close> is not atomic: it drops the old lock and then waits for the new one, so the
  conversion is two steps here, with every other client free to move in between.
\<close>

section \<open>The lock files\<close>

record lock_meta =
  lm_links :: int
  lm_mode :: int
  lm_uid :: int

text \<open>
  \<^verbatim>\<open>_secure_lock_descriptor\<close>: \<open>first\<close> and \<open>second\<close> are what the secure open answers before and
  after the file was created, \<open>create\<close> what creating it answers.
\<close>

definition check_lock_meta :: "int \<Rightarrow> lock_meta \<Rightarrow> unit res" where
  "check_lock_meta uid m =
     check_res (lm_links m = 1 \<and> lm_mode m = 384 \<and> lm_uid m = uid) (State_Error ''MH_STATE_BARRIER_UNSAFE'')"

definition create_lock_if_absent :: "file_error option \<Rightarrow> unit res" where
  "create_lock_if_absent create =
     check_res (create = None \<or> create = Some Already_Exists) (State_Error ''MH_STATE_BARRIER'')"

definition secure_lock_descriptor ::
  "int \<Rightarrow> file_error + lock_meta \<Rightarrow> file_error option \<Rightarrow> file_error + lock_meta \<Rightarrow> unit res" where
  "secure_lock_descriptor uid first create second =
     (case first of
        Inr m \<Rightarrow> check_lock_meta uid m
      | Inl Not_Found \<Rightarrow>
          bind_res (create_lock_if_absent create) (\<lambda>_.
          case second of Inr m \<Rightarrow> check_lock_meta uid m | Inl _ \<Rightarrow> Inl (State_Error ''MH_STATE_BARRIER''))
      | Inl _ \<Rightarrow> Inl (State_Error ''MH_STATE_BARRIER''))"

definition gate_path :: "string \<Rightarrow> string" where
  "gate_path lock = lock @ ''.gate''"

definition is_bound_barrier :: "string \<times> string \<Rightarrow> string \<Rightarrow> bool" where
  "is_bound_barrier barrier lock \<longleftrightarrow> fst barrier = lock \<and> snd barrier = gate_path lock"

section \<open>Advisory locks\<close>

datatype lock_mode = Sh | Ex

type_synonym flock = "(nat \<times> lock_mode) list"

definition grantable :: "flock \<Rightarrow> nat \<Rightarrow> lock_mode \<Rightarrow> bool" where
  "grantable lock i m \<longleftrightarrow> list_all (\<lambda>(j, n). j = i \<or> (m = Sh \<and> n = Sh)) lock"

definition acquire_flock :: "nat \<Rightarrow> lock_mode \<Rightarrow> flock \<Rightarrow> flock option" where
  "acquire_flock i m lock = (if grantable lock i m then Some (AList.update i m lock) else None)"

definition release_flock :: "nat \<Rightarrow> flock \<Rightarrow> flock" where
  "release_flock i lock = AList.delete i lock"

section \<open>Clients\<close>

text \<open>
  Where a client stands: waiting for the gate or the main lock in one of the three context managers,
  in a body, or between two releases.
\<close>

datatype pc =
    Idle
  | S_Gate | S_Main | S_Both | S_Body
  | X_Gate | X_Main | X_Body | X_Unlock
  | T_Gate | T_Main | T_Body | T_Convert | T_Converted | T_Shared

datatype event = Start_Shared | Start_Exclusive | Start_Recovery | Proceed | Transition | Give_Up | Leave | Crash

record turnstile =
  main_lock :: flock
  gate_lock :: flock
  pcs :: "nat \<Rightarrow> pc"

definition goto :: "nat \<Rightarrow> pc \<Rightarrow> turnstile \<Rightarrow> turnstile" where
  "goto i p s = s\<lparr>pcs := (pcs s)(i := p)\<rparr>"

definition take_gate :: "nat \<Rightarrow> lock_mode \<Rightarrow> pc \<Rightarrow> turnstile \<Rightarrow> turnstile option" where
  "take_gate i m p s = map_option (\<lambda>l. goto i p (s\<lparr>gate_lock := l\<rparr>)) (acquire_flock i m (gate_lock s))"

definition take_main :: "nat \<Rightarrow> lock_mode \<Rightarrow> pc \<Rightarrow> turnstile \<Rightarrow> turnstile option" where
  "take_main i m p s = map_option (\<lambda>l. goto i p (s\<lparr>main_lock := l\<rparr>)) (acquire_flock i m (main_lock s))"

definition drop_gate :: "nat \<Rightarrow> pc \<Rightarrow> turnstile \<Rightarrow> turnstile option" where
  "drop_gate i p s = Some (goto i p (s\<lparr>gate_lock := release_flock i (gate_lock s)\<rparr>))"

definition drop_main :: "nat \<Rightarrow> pc \<Rightarrow> turnstile \<Rightarrow> turnstile option" where
  "drop_main i p s = Some (goto i p (s\<lparr>main_lock := release_flock i (main_lock s)\<rparr>))"

text \<open>
  One event of client \<open>i\<close>, \<open>None\<close> when it cannot happen: an acquisition that is not grantable
  blocks. \<open>Give_Up\<close> is an acquisition that raises (busy, or an error), with the \<^verbatim>\<open>finally\<close> clause
  that follows; a crashed process loses every lock it holds.
\<close>

fun proceed :: "nat \<Rightarrow> pc \<Rightarrow> turnstile \<Rightarrow> turnstile option" where
  "proceed i S_Gate s = take_gate i Sh S_Main s"
| "proceed i S_Main s = take_main i Sh S_Both s"
| "proceed i S_Both s = drop_gate i S_Body s"
| "proceed i X_Gate s = take_gate i Ex X_Main s"
| "proceed i X_Main s = take_main i Ex X_Body s"
| "proceed i X_Unlock s = drop_gate i Idle s"
| "proceed i T_Gate s = take_gate i Ex T_Main s"
| "proceed i T_Main s = take_main i Ex T_Body s"
| "proceed i T_Convert s = take_main i Sh T_Converted s"
| "proceed i T_Converted s = drop_gate i T_Shared s"
| "proceed i _ s = None"

fun give_up :: "nat \<Rightarrow> pc \<Rightarrow> turnstile \<Rightarrow> turnstile option" where
  "give_up i S_Gate s = Some (goto i Idle s)"
| "give_up i S_Main s = drop_gate i Idle s"
| "give_up i X_Gate s = Some (goto i Idle s)"
| "give_up i X_Main s = drop_gate i Idle s"
| "give_up i T_Gate s = Some (goto i Idle s)"
| "give_up i T_Main s = drop_gate i Idle s"
| "give_up i T_Convert s = drop_gate i Idle s"
| "give_up i _ s = None"

fun leave :: "nat \<Rightarrow> pc \<Rightarrow> turnstile \<Rightarrow> turnstile option" where
  "leave i S_Body s = drop_main i Idle s"
| "leave i X_Body s = drop_main i X_Unlock s"
| "leave i T_Body s = drop_main i X_Unlock s"
| "leave i T_Shared s = drop_main i Idle s"
| "leave i _ s = None"

definition crash :: "nat \<Rightarrow> turnstile \<Rightarrow> turnstile" where
  "crash i s = goto i Idle (s\<lparr>main_lock := release_flock i (main_lock s),
     gate_lock := release_flock i (gate_lock s)\<rparr>)"

fun advance :: "event \<Rightarrow> nat \<Rightarrow> turnstile \<Rightarrow> turnstile option" where
  "advance Start_Shared i s = (if pcs s i = Idle then Some (goto i S_Gate s) else None)"
| "advance Start_Exclusive i s = (if pcs s i = Idle then Some (goto i X_Gate s) else None)"
| "advance Start_Recovery i s = (if pcs s i = Idle then Some (goto i T_Gate s) else None)"
| "advance Proceed i s = proceed i (pcs s i) s"
| "advance Transition i s = (if pcs s i = T_Body then drop_main i T_Convert s else None)"
| "advance Give_Up i s = give_up i (pcs s i) s"
| "advance Leave i s = leave i (pcs s i) s"
| "advance Crash i s = Some (crash i s)"

definition idle_turnstile :: turnstile where
  "idle_turnstile = \<lparr>main_lock = [], gate_lock = [], pcs = (\<lambda>_. Idle)\<rparr>"

inductive reachable :: "turnstile \<Rightarrow> bool" where
  start: "reachable idle_turnstile"
| step: "reachable s \<Longrightarrow> advance e i s = Some s' \<Longrightarrow> reachable s'"

section \<open>The exclusive hold inside one process\<close>

text \<open>
  The barrier objects of a process and its \<^verbatim>\<open>_EXCLUSIVE_OWNERS\<close>. \<open>absolute\<close> is
  \<^verbatim>\<open>lexical_absolute_path\<close>; \<open>locked\<close> is the outcome of opening and locking both files.
\<close>

record barrier_object =
  bo_path :: string
  bo_gate_path :: string
  bo_depth :: int
  bo_key :: "(string \<times> string) option"
  bo_thread :: "nat option"

record barrier_process =
  objects :: "nat \<Rightarrow> barrier_object"
  owners :: "string \<rightharpoonup> nat \<times> nat"

definition new_barrier :: "(string \<Rightarrow> string) \<Rightarrow> string \<Rightarrow> barrier_object" where
  "new_barrier absolute lock =
     \<lparr>bo_path = absolute lock, bo_gate_path = gate_path (absolute lock), bo_depth = 0, bo_key = None,
      bo_thread = None\<rparr>"

definition barrier_key :: "(string \<Rightarrow> string) \<Rightarrow> barrier_object \<Rightarrow> string \<times> string" where
  "barrier_key absolute b = (absolute (bo_path b), absolute (bo_gate_path b))"

definition enter_exclusive ::
  "(string \<Rightarrow> string) \<Rightarrow> unit res \<Rightarrow> nat \<Rightarrow> nat \<Rightarrow> barrier_process \<Rightarrow> barrier_process res" where
  "enter_exclusive absolute locked me o1 p =
     (let b = objects p o1; key = barrier_key absolute b in
      if bo_depth b > 0 \<and> bo_thread b = Some me then
        (if bo_key b \<noteq> Some key then Inl (State_Error ''MH_STATE_BARRIER'')
         else Inr (p\<lparr>objects := (objects p)(o1 := b\<lparr>bo_depth := bo_depth b + 1\<rparr>)\<rparr>))
      else if (case owners p (fst key) of Some (o2, t) \<Rightarrow> t = me \<and> o2 \<noteq> o1 | None \<Rightarrow> False) then
        Inl (State_Error ''MH_STATE_BARRIER'')
      else bind_res locked (\<lambda>_.
        Inr \<lparr>objects = (objects p)(o1 := b\<lparr>bo_depth := 1, bo_key := Some key, bo_thread := Some me\<rparr>),
             owners = (owners p)(fst key \<mapsto> (o1, me))\<rparr>))"

text \<open>The end of the innermost hold: a nested one counts down, the outermost one clears the record.\<close>

definition leave_exclusive :: "nat \<Rightarrow> barrier_process \<Rightarrow> barrier_process" where
  "leave_exclusive o1 p =
     (let b = objects p o1 in
      if bo_depth b > 1 then p\<lparr>objects := (objects p)(o1 := b\<lparr>bo_depth := bo_depth b - 1\<rparr>)\<rparr>
      else case bo_key b of None \<Rightarrow> p | Some key \<Rightarrow>
        \<lparr>objects = (objects p)(o1 := b\<lparr>bo_depth := 0, bo_key := None, bo_thread := None\<rparr>),
         owners = (case owners p (fst key) of
             Some (o2, t) \<Rightarrow> (if o2 = o1 then (owners p)(fst key := None) else owners p)
           | None \<Rightarrow> owners p)\<rparr>)"

text \<open>The paths of an object are plain attributes: nothing stops code from changing them.\<close>

definition mutate_paths :: "nat \<Rightarrow> string \<Rightarrow> string \<Rightarrow> barrier_process \<Rightarrow> barrier_process" where
  "mutate_paths o1 path gate p =
     p\<lparr>objects := (objects p)(o1 := (objects p o1)\<lparr>bo_path := path, bo_gate_path := gate\<rparr>)\<rparr>"

text \<open>
  The processes the operations reach. The last premise of \<open>enter\<close> says that an entry that does not
  nest finds the lock file unheld in this process, which is the kernel's exclusion, and the object
  itself not held by another thread under a path that was changed since.
\<close>

inductive process_reach :: "(string \<Rightarrow> string) \<Rightarrow> barrier_process \<Rightarrow> bool" for absolute where
  boot: "process_reach absolute \<lparr>objects = (\<lambda>n. new_barrier absolute (locks n)), owners = Map.empty\<rparr>"
| enter: "process_reach absolute p \<Longrightarrow> enter_exclusive absolute locked me o1 p = Inr p' \<Longrightarrow>
    (bo_depth (objects p o1) > 0 \<and> bo_thread (objects p o1) = Some me) \<or>
      (bo_depth (objects p o1) = 0 \<and> owners p (fst (barrier_key absolute (objects p o1))) = None) \<Longrightarrow>
    process_reach absolute p'"
| leave: "process_reach absolute p \<Longrightarrow> process_reach absolute (leave_exclusive o1 p)"
| mutate: "process_reach absolute p \<Longrightarrow> process_reach absolute (mutate_paths o1 path gate p)"

section \<open>The invariant\<close>

fun gate_of :: "pc \<Rightarrow> lock_mode option" where
  "gate_of S_Main = Some Sh" | "gate_of S_Both = Some Sh"
| "gate_of X_Main = Some Ex" | "gate_of X_Body = Some Ex" | "gate_of X_Unlock = Some Ex"
| "gate_of T_Main = Some Ex" | "gate_of T_Body = Some Ex" | "gate_of T_Convert = Some Ex"
| "gate_of T_Converted = Some Ex"
| "gate_of _ = None"

fun main_of :: "pc \<Rightarrow> lock_mode option" where
  "main_of S_Both = Some Sh" | "main_of S_Body = Some Sh"
| "main_of X_Body = Some Ex" | "main_of T_Body = Some Ex"
| "main_of T_Converted = Some Sh" | "main_of T_Shared = Some Sh"
| "main_of _ = None"

definition lock_ok :: "flock \<Rightarrow> bool" where
  "lock_ok lock \<longleftrightarrow> distinct (map fst lock) \<and>
     (\<forall>i j. i \<noteq> j \<longrightarrow> map_of lock i = Some Ex \<longrightarrow> map_of lock j = None)"

definition turnstile_inv :: "turnstile \<Rightarrow> bool" where
  "turnstile_inv s \<longleftrightarrow> lock_ok (main_lock s) \<and> lock_ok (gate_lock s) \<and>
     (\<forall>i. map_of (main_lock s) i = main_of (pcs s i)) \<and>
     (\<forall>i. map_of (gate_lock s) i = gate_of (pcs s i)) \<and>
     (\<forall>i j. i \<noteq> j \<longrightarrow> pcs s i = T_Convert \<longrightarrow> main_of (pcs s j) = None)"

lemma grantable_iff:
  "distinct (map fst lock) \<Longrightarrow>
     grantable lock i m \<longleftrightarrow> (\<forall>j n. j \<noteq> i \<longrightarrow> map_of lock j = Some n \<longrightarrow> m = Sh \<and> n = Sh)"
  by (auto simp: grantable_def list_all_iff)

lemma lock_ok_acquire:
  assumes "lock_ok lock" "acquire_flock i m lock = Some lock'"
  shows "lock_ok lock' \<and> map_of lock' = (map_of lock)(i \<mapsto> m) \<and>
     (\<forall>j n. j \<noteq> i \<longrightarrow> map_of lock j = Some n \<longrightarrow> m = Sh \<and> n = Sh)"
proof -
  have lock': "lock' = AList.update i m lock" "grantable lock i m"
    using assms(2) by (auto simp: acquire_flock_def split: if_splits)
  then have others: "\<forall>j n. j \<noteq> i \<longrightarrow> map_of lock j = Some n \<longrightarrow> m = Sh \<and> n = Sh"
    using assms(1) grantable_iff by (simp add: lock_ok_def)
  have "lock_ok lock'"
    unfolding lock_ok_def
  proof (intro conjI allI impI)
    show "distinct (map fst lock')" using assms(1) lock' by (simp add: lock_ok_def distinct_update)
    fix k j assume kj: "k \<noteq> j" "map_of lock' k = Some Ex"
    show "map_of lock' j = None"
    proof (cases "k = i")
      case True
      then have "m = Ex" using kj lock' by (simp add: update_conv')
      then show ?thesis using others kj(1) True lock' by (cases "map_of lock j") (auto simp: update_conv')
    next
      case False
      then have "map_of lock k = Some Ex" using kj lock' by (simp add: update_conv')
      then show ?thesis using others False by blast
    qed
  qed
  then show ?thesis using others lock' by (simp add: update_conv')
qed

lemma lock_ok_release:
  "lock_ok lock \<Longrightarrow> lock_ok (release_flock i lock) \<and> map_of (release_flock i lock) = (map_of lock)(i := None)"
  by (auto simp: release_flock_def lock_ok_def delete_conv' distinct_delete)

lemma inv_locks:
  assumes "turnstile_inv s"
  shows "lock_ok (main_lock s)" "lock_ok (gate_lock s)"
    "map_of (main_lock s) i = main_of (pcs s i)" "map_of (gate_lock s) i = gate_of (pcs s i)"
  using assms by (simp_all add: turnstile_inv_def)

lemma main_alone:
  assumes "turnstile_inv s" "i \<noteq> j" "main_of (pcs s i) = Some Ex"
  shows "main_of (pcs s j) = None"
proof -
  have "map_of (main_lock s) i = Some Ex" using assms(1,3) by (simp add: inv_locks)
  then have "map_of (main_lock s) j = None"
    using inv_locks(1) [OF assms(1)] assms(2) unfolding lock_ok_def by blast
  then show ?thesis using inv_locks(3) [OF assms(1)] by simp
qed

lemma gate_alone:
  assumes "turnstile_inv s" "i \<noteq> j" "gate_of (pcs s i) = Some Ex"
  shows "gate_of (pcs s j) = None"
proof -
  have "map_of (gate_lock s) i = Some Ex" using assms(1,3) by (simp add: inv_locks)
  then have "map_of (gate_lock s) j = None"
    using inv_locks(2) [OF assms(1)] assms(2) unfolding lock_ok_def by blast
  then show ?thesis using inv_locks(4) [OF assms(1)] by simp
qed

lemma convert_alone:
  "turnstile_inv s \<Longrightarrow> i \<noteq> j \<Longrightarrow> pcs s i = T_Convert \<Longrightarrow> main_of (pcs s j) = None"
  unfolding turnstile_inv_def by blast

lemma inv_goto:
  "turnstile_inv s \<Longrightarrow> gate_of p = gate_of (pcs s i) \<Longrightarrow> main_of p = main_of (pcs s i) \<Longrightarrow> p \<noteq> T_Convert \<Longrightarrow>
     turnstile_inv (goto i p s)"
  by (auto simp: turnstile_inv_def goto_def)

lemma inv_take_gate:
  assumes "turnstile_inv s" "take_gate i m p s = Some s'" "gate_of p = Some m"
    "main_of p = main_of (pcs s i)" "p \<noteq> T_Convert"
  shows "turnstile_inv s'"
proof -
  obtain l where l: "acquire_flock i m (gate_lock s) = Some l" "s' = goto i p (s\<lparr>gate_lock := l\<rparr>)"
    using assms(2) by (auto simp: take_gate_def)
  then show ?thesis
    using assms lock_ok_acquire [of "gate_lock s" i m l] by (auto simp: turnstile_inv_def goto_def)
qed

lemma inv_take_main:
  assumes inv: "turnstile_inv s" and take: "take_main i m p s = Some s'" and p: "main_of p = Some m"
    "gate_of p = gate_of (pcs s i)" "gate_of p \<noteq> None"
  shows "turnstile_inv s'"
proof -
  obtain l where l: "acquire_flock i m (main_lock s) = Some l" "s' = goto i p (s\<lparr>main_lock := l\<rparr>)"
    using take by (auto simp: take_main_def)
  have other: "pcs s j \<noteq> T_Convert" if "j \<noteq> i" for j
    using gate_alone [OF inv that] p by auto
  have "p \<noteq> T_Convert" using p(1) by auto
  then show ?thesis
    using inv p l lock_ok_acquire [OF inv_locks(1) [OF inv] l(1)] other
    by (auto simp: turnstile_inv_def goto_def)
qed

lemma inv_drop_gate:
  assumes inv: "turnstile_inv s" and drop: "drop_gate i p s = Some s'" and p: "gate_of p = None"
    "main_of p = main_of (pcs s i)"
  shows "turnstile_inv s'"
proof -
  have s': "s' = goto i p (s\<lparr>gate_lock := release_flock i (gate_lock s)\<rparr>)"
    using drop by (simp add: drop_gate_def)
  have "p \<noteq> T_Convert" using p(1) by auto
  then show ?thesis
    using inv p lock_ok_release [of "gate_lock s" i] unfolding s' by (auto simp: turnstile_inv_def goto_def)
qed

lemma inv_drop_main:
  assumes inv: "turnstile_inv s" and drop: "drop_main i p s = Some s'" and p: "main_of p = None"
    "gate_of p = gate_of (pcs s i)" and convert: "p = T_Convert \<Longrightarrow> main_of (pcs s i) = Some Ex"
  shows "turnstile_inv s'"
proof -
  have s': "s' = goto i p (s\<lparr>main_lock := release_flock i (main_lock s)\<rparr>)"
    using drop by (simp add: drop_main_def)
  have alone: "main_of (pcs s j) = None" if "p = T_Convert" "j \<noteq> i" for j
    using main_alone [OF inv] convert that by metis
  have locks: "lock_ok (main_lock s')" "lock_ok (gate_lock s')"
      "map_of (main_lock s') = (map_of (main_lock s))(i := None)" "gate_lock s' = gate_lock s"
      "pcs s' = (pcs s)(i := p)"
    using inv_locks(1,2) [OF inv] lock_ok_release [of "main_lock s" i] by (simp_all add: s' goto_def)
  have "main_of (pcs s' j) = None" if "k \<noteq> j" "pcs s' k = T_Convert" for k j
  proof (cases "j = i")
    case True then show ?thesis using p(1) locks(5) by simp
  next
    case False
    then show ?thesis
      using that alone convert_alone [OF inv that(1)] unfolding locks(5) by (cases "k = i") simp_all
  qed
  then show ?thesis
    using locks(1,2,3,4,5) p inv_locks(3,4) [OF inv] unfolding turnstile_inv_def by simp
qed

lemma inv_crash: "turnstile_inv s \<Longrightarrow> turnstile_inv (crash i s)"
  using lock_ok_release [of "main_lock s" i] lock_ok_release [of "gate_lock s" i]
  by (auto simp: turnstile_inv_def goto_def crash_def)

lemma inv_proceed:
  assumes inv: "turnstile_inv s" and step: "proceed i (pcs s i) s = Some s'"
  shows "turnstile_inv s'"
  using step
  by (cases "pcs s i")
    (auto dest: inv_take_gate [OF inv] inv_take_main [OF inv] inv_drop_gate [OF inv])

lemma inv_give_up: "turnstile_inv s \<Longrightarrow> give_up i (pcs s i) s = Some s' \<Longrightarrow> turnstile_inv s'"
  by (cases "pcs s i") (auto intro: inv_goto dest: inv_drop_gate)

lemma inv_leave: "turnstile_inv s \<Longrightarrow> leave i (pcs s i) s = Some s' \<Longrightarrow> turnstile_inv s'"
  by (cases "pcs s i") (auto dest: inv_drop_main)

lemma turnstile_inv_step:
  assumes inv: "turnstile_inv s" and step: "advance e i s = Some s'"
  shows "turnstile_inv s'"
proof (cases e)
  case Transition
  then have "drop_main i T_Convert s = Some s'" "pcs s i = T_Body" using step by (auto split: if_splits)
  then show ?thesis using inv_drop_main [OF inv] by simp
next
  case Crash
  then show ?thesis using step inv_crash [OF inv, of i] by simp
next
  case Proceed then show ?thesis using step inv_proceed [OF inv] by simp
next
  case Give_Up then show ?thesis using step inv_give_up [OF inv] by simp
next
  case Leave then show ?thesis using step inv_leave [OF inv] by simp
next
  case Start_Shared then show ?thesis using step inv_goto [OF inv, of S_Gate i] by (simp split: if_splits)
next
  case Start_Exclusive then show ?thesis using step inv_goto [OF inv, of X_Gate i] by (simp split: if_splits)
next
  case Start_Recovery then show ?thesis using step inv_goto [OF inv, of T_Gate i] by (simp split: if_splits)
qed

lemma reachable_inv: "reachable s \<Longrightarrow> turnstile_inv s"
proof (induction rule: reachable.induct)
  case start
  show ?case by (simp add: turnstile_inv_def idle_turnstile_def lock_ok_def)
next
  case (step s e i s')
  then show ?case by (blast intro: turnstile_inv_step)
qed

text \<open>A client is inside when it runs its body, or is about to; exclusively so, or sharing.\<close>

definition exclusively_in :: "pc \<Rightarrow> bool" where
  "exclusively_in p \<longleftrightarrow> p \<in> {X_Body, T_Body, T_Convert}"

definition inside :: "pc \<Rightarrow> bool" where
  "inside p \<longleftrightarrow> p \<in> {S_Body, X_Body, T_Body, T_Convert, T_Converted, T_Shared}"

lemmas lock_steps = take_gate_def take_main_def drop_gate_def drop_main_def goto_def crash_def

lemma proceed_frame: "proceed j p s = Some s' \<Longrightarrow> k \<noteq> j \<Longrightarrow> pcs s' k = pcs s k"
  by (cases p) (auto simp: lock_steps)

lemma give_up_frame: "give_up j p s = Some s' \<Longrightarrow> k \<noteq> j \<Longrightarrow> pcs s' k = pcs s k"
  by (cases p) (auto simp: lock_steps)

lemma leave_frame: "leave j p s = Some s' \<Longrightarrow> k \<noteq> j \<Longrightarrow> pcs s' k = pcs s k"
  by (cases p) (auto simp: lock_steps)

lemma advance_frame: "advance e j s = Some s' \<Longrightarrow> k \<noteq> j \<Longrightarrow> pcs s' k = pcs s k"
  by (cases e) (auto simp: lock_steps split: if_splits dest: proceed_frame give_up_frame leave_frame)

lemma give_up_outside: "give_up k p s = Some s' \<Longrightarrow> \<not> inside (pcs s' k)"
  by (cases p) (auto simp: lock_steps inside_def)

lemma leave_outside: "leave k p s = Some s' \<Longrightarrow> \<not> inside (pcs s' k)"
  by (cases p) (auto simp: lock_steps inside_def)

lemma proceed_outside: "proceed k p s = Some s' \<Longrightarrow> gate_of p = None \<Longrightarrow> \<not> inside (pcs s' k)"
  by (cases p) (auto simp: lock_steps inside_def)

lemma enters_through_gate:
  assumes step: "advance e k s = Some s'" and gate: "gate_of (pcs s k) = None" and "inside (pcs s' k)"
  shows "inside (pcs s k)"
proof (cases e)
  case Proceed then show ?thesis using step gate assms(3) proceed_outside [of k _ s s'] by simp
next
  case Give_Up then show ?thesis using step assms(3) give_up_outside [of k _ s s'] by simp
next
  case Leave then show ?thesis using step assms(3) leave_outside [of k _ s s'] by simp
qed (use step assms(3) in \<open>auto simp: lock_steps inside_def split: if_splits\<close>)

definition can_move :: "turnstile \<Rightarrow> nat \<Rightarrow> bool" where
  "can_move s i \<longleftrightarrow> advance Proceed i s \<noteq> None \<or> advance Leave i s \<noteq> None"

lemma main_holder_moves: "main_of (pcs s j) \<noteq> None \<Longrightarrow> can_move s j"
  by (cases "pcs s j") (simp_all add: can_move_def lock_steps)

lemma not_grantable:
  assumes "lock_ok lock" "acquire_flock i m lock = None"
  obtains j where "j \<noteq> i" "map_of lock j \<noteq> None"
proof -
  have "\<not> (\<forall>j n. j \<noteq> i \<longrightarrow> map_of lock j = Some n \<longrightarrow> m = Sh \<and> n = Sh)"
    using assms grantable_iff [of lock i m] by (auto simp: acquire_flock_def lock_ok_def split: if_splits)
  then show ?thesis using that by (metis option.distinct(1))
qed

lemma main_waiter_moves:
  assumes inv: "turnstile_inv s" and i: "pcs s i \<in> {S_Main, X_Main, T_Main, T_Convert}"
  shows "\<exists>j. can_move s j"
proof (cases "advance Proceed i s = None")
  case True
  then have "\<exists>m. acquire_flock i m (main_lock s) = None" using i by (auto simp: take_main_def)
  then obtain m where "acquire_flock i m (main_lock s) = None" ..
  then obtain j where "map_of (main_lock s) j \<noteq> None"
    using not_grantable [OF inv_locks(1) [OF inv]] by metis
  then have "main_of (pcs s j) \<noteq> None" using inv_locks(3) [OF inv, of j] by simp
  then show ?thesis using main_holder_moves by blast
qed (auto simp: can_move_def)

lemma gate_holder_moves:
  assumes inv: "turnstile_inv s" and i: "gate_of (pcs s i) \<noteq> None"
  shows "\<exists>j. can_move s j"
proof -
  consider "pcs s i \<in> {S_Main, X_Main, T_Main, T_Convert}" | "main_of (pcs s i) \<noteq> None" | "pcs s i = X_Unlock"
    using i by (cases "pcs s i") auto
  then show ?thesis
  proof cases
    case 1 then show ?thesis by (rule main_waiter_moves [OF inv])
  next
    case 2 then show ?thesis using main_holder_moves by blast
  next
    case 3 then show ?thesis by (intro exI [of _ i]) (simp add: can_move_def lock_steps)
  qed
qed

lemma gate_waiter_moves:
  assumes inv: "turnstile_inv s" and i: "pcs s i \<in> {S_Gate, X_Gate, T_Gate}"
  shows "\<exists>j. can_move s j"
proof (cases "advance Proceed i s = None")
  case True
  then have "\<exists>m. acquire_flock i m (gate_lock s) = None" using i by (auto simp: take_gate_def)
  then obtain m where "acquire_flock i m (gate_lock s) = None" ..
  then obtain j where "map_of (gate_lock s) j \<noteq> None"
    using not_grantable [OF inv_locks(2) [OF inv]] by metis
  then have "gate_of (pcs s j) \<noteq> None" using inv_locks(4) [OF inv, of j] by simp
  then show ?thesis by (rule gate_holder_moves [OF inv])
qed (auto simp: can_move_def)

section \<open>The owner record\<close>

definition object_ok :: "barrier_object \<Rightarrow> bool" where
  "object_ok b \<longleftrightarrow> bo_depth b \<ge> 0 \<and> (bo_depth b > 0 \<longleftrightarrow> bo_key b \<noteq> None) \<and> (bo_depth b > 0 \<longleftrightarrow> bo_thread b \<noteq> None)"

definition holds_path :: "barrier_object \<Rightarrow> string \<Rightarrow> nat \<Rightarrow> bool" where
  "holds_path b k t \<longleftrightarrow> (\<exists>g. bo_key b = Some (k, g)) \<and> bo_thread b = Some t"

definition process_inv :: "barrier_process \<Rightarrow> bool" where
  "process_inv p \<longleftrightarrow> (\<forall>n. object_ok (objects p n)) \<and>
     (\<forall>k n t. owners p k = Some (n, t) \<longleftrightarrow> holds_path (objects p n) k t)"

lemma process_inv_same:
  assumes "process_inv p" "object_ok b" "bo_key b = bo_key (objects p n)" "bo_thread b = bo_thread (objects p n)"
  shows "process_inv (p\<lparr>objects := (objects p)(n := b)\<rparr>)"
  using assms by (simp add: process_inv_def holds_path_def)

lemma process_inv_owner: "process_inv p \<Longrightarrow> owners p k = Some (n, t) \<longleftrightarrow> holds_path (objects p n) k t"
  by (simp add: process_inv_def)

lemma process_invI:
  assumes "\<And>n. object_ok (objs n)" "\<And>k n t. os k = Some (n, t) \<longleftrightarrow> holds_path (objs n) k t"
  shows "process_inv \<lparr>objects = objs, owners = os\<rparr>"
  using assms by (simp add: process_inv_def)

lemma process_inv_lock:
  assumes inv: "process_inv p" and b: "object_ok b" "bo_key b = Some (k, g)" "bo_thread b = Some me"
    and free: "bo_depth (objects p n) = 0" "owners p k = None"
  shows "process_inv \<lparr>objects = (objects p)(n := b), owners = (owners p)(k \<mapsto> (n, me))\<rparr>"
proof (rule process_invI)
  fix n' show "object_ok (((objects p)(n := b)) n')"
    using inv b(1) by (simp add: process_inv_def)
next
  fix k' n' t
  have "object_ok (objects p n)" using inv by (simp add: process_inv_def)
  then have unheld: "\<not> holds_path (objects p n) k' t"
    using free(1) by (simp add: object_ok_def holds_path_def)
  have unlocked: "\<not> holds_path (objects p n') k t"
    using free(2) process_inv_owner [OF inv, of k n' t] by simp
  show "((owners p)(k \<mapsto> (n, me))) k' = Some (n', t) \<longleftrightarrow> holds_path (((objects p)(n := b)) n') k' t"
  proof (cases "n' = n")
    case True
    have "holds_path b k' t \<longleftrightarrow> k' = k \<and> t = me" using b by (auto simp: holds_path_def)
    then show ?thesis using True unheld process_inv_owner [OF inv, of k' n t] by auto
  next
    case False
    then show ?thesis
      using unlocked process_inv_owner [OF inv, of k' n' t] by (cases "k' = k") simp_all
  qed
qed

lemma process_inv_unlock:
  assumes inv: "process_inv p" and key: "bo_key (objects p n) = Some (k, g)"
    and b: "object_ok b" "bo_key b = None"
  shows "process_inv \<lparr>objects = (objects p)(n := b), owners = (owners p)(k := None)\<rparr>"
proof (rule process_invI)
  fix n' show "object_ok (((objects p)(n := b)) n')"
    using inv b(1) by (simp add: process_inv_def)
next
  fix k' n' t'
  have "object_ok (objects p n)" using inv by (simp add: process_inv_def)
  then obtain t where t: "bo_thread (objects p n) = Some t"
    using key by (auto simp: object_ok_def)
  then have mine: "owners p k = Some (n, t)"
    using key process_inv_owner [OF inv, of k n t] by (simp add: holds_path_def)
  show "((owners p)(k := None)) k' = Some (n', t') \<longleftrightarrow> holds_path (((objects p)(n := b)) n') k' t'"
  proof (cases "n' = n")
    case True
    have "\<not> holds_path b k' t'" using b by (simp add: holds_path_def)
    moreover have "k' = k" if "owners p k' = Some (n, t')"
      using that key process_inv_owner [OF inv, of k' n t'] by (simp add: holds_path_def)
    ultimately show ?thesis using True by auto
  next
    case False
    then show ?thesis
      using mine process_inv_owner [OF inv, of k' n' t'] by (cases "k' = k") simp_all
  qed
qed

lemma process_inv_enter:
  assumes inv: "process_inv p" and enter: "enter_exclusive absolute locked me n p = Inr p'"
    and free: "(bo_depth (objects p n) > 0 \<and> bo_thread (objects p n) = Some me) \<or>
      (bo_depth (objects p n) = 0 \<and> owners p (fst (barrier_key absolute (objects p n))) = None)"
  shows "process_inv p'"
proof (cases "bo_depth (objects p n) > 0 \<and> bo_thread (objects p n) = Some me")
  case True
  then have p': "p' = p\<lparr>objects := (objects p)(n := (objects p n)\<lparr>bo_depth := bo_depth (objects p n) + 1\<rparr>)\<rparr>"
    using enter by (auto simp: enter_exclusive_def Let_def split: if_splits)
  have "object_ok (objects p n)" using inv by (simp add: process_inv_def)
  then show ?thesis
    unfolding p' using True by (intro process_inv_same [OF inv]) (auto simp: object_ok_def)
next
  case False
  let ?key = "barrier_key absolute (objects p n)"
  have f: "bo_depth (objects p n) = 0" "owners p (fst ?key) = None" using False free by auto
  have "p' = \<lparr>objects = (objects p)(n := (objects p n)\<lparr>bo_depth := 1, bo_key := Some ?key, bo_thread := Some me\<rparr>),
       owners = (owners p)(fst ?key \<mapsto> (n, me))\<rparr>"
    using enter f by (auto simp: enter_exclusive_def Let_def bind_res_def split: sum.splits)
  then show ?thesis
    using process_inv_lock [OF inv _ _ _ f, of _ "snd ?key" me] by (simp add: object_ok_def)
qed

lemma process_inv_leave:
  assumes inv: "process_inv p"
  shows "process_inv (leave_exclusive n p)"
proof -
  have ok: "object_ok (objects p n)" using inv by (simp add: process_inv_def)
  show ?thesis
  proof (cases "bo_depth (objects p n) > 1")
    case True
    then show ?thesis
      using ok process_inv_same [OF inv, of "(objects p n)\<lparr>bo_depth := bo_depth (objects p n) - 1\<rparr>" n]
      by (simp add: leave_exclusive_def Let_def object_ok_def)
  next
    case False
    show ?thesis
    proof (cases "bo_key (objects p n)")
      case None
      then show ?thesis using False inv by (simp add: leave_exclusive_def Let_def)
    next
      case (Some key)
      then obtain k g where key: "bo_key (objects p n) = Some (k, g)" by (cases key) simp
      obtain t where "bo_thread (objects p n) = Some t"
        using ok key unfolding object_ok_def by (metis option.discI option.exhaust)
      then have "owners p k = Some (n, t)" using inv key by (simp add: process_inv_def holds_path_def)
      then have leave: "leave_exclusive n p =
          \<lparr>objects = (objects p)(n := (objects p n)\<lparr>bo_depth := 0, bo_key := None, bo_thread := None\<rparr>),
           owners = (owners p)(k := None)\<rparr>"
        using False key by (simp add: leave_exclusive_def Let_def)
      show ?thesis
        unfolding leave by (rule process_inv_unlock [OF inv key]) (simp_all add: object_ok_def)
    qed
  qed
qed

lemma process_reach_inv: "process_reach absolute p \<Longrightarrow> process_inv p"
proof (induction rule: process_reach.induct)
  case (boot locks)
  show ?case by (simp add: process_inv_def object_ok_def holds_path_def new_barrier_def)
next
  case (enter p locked me o1 p')
  show ?case by (rule process_inv_enter [OF enter.IH enter.hyps(2,3)])
next
  case (leave p o1)
  show ?case by (rule process_inv_leave [OF leave.IH])
next
  case (mutate p o1 path gate)
  then have "object_ok (objects p o1)" by (simp add: process_inv_def)
  then show ?case
    unfolding mutate_paths_def object_ok_def by (intro process_inv_same [OF mutate.IH]) (auto simp: object_ok_def)
qed

lemma enter_same:
  assumes inv: "process_inv p" and held: "owners p k = Some (n, me)"
  shows "enter_exclusive absolute locked me n p =
      (if bo_key (objects p n) = Some (barrier_key absolute (objects p n))
       then Inr (p\<lparr>objects := (objects p)(n := (objects p n)\<lparr>bo_depth := bo_depth (objects p n) + 1\<rparr>)\<rparr>)
       else Inl (State_Error ''MH_STATE_BARRIER''))"
proof -
  have h: "holds_path (objects p n) k me" using inv held by (simp add: process_inv_def)
  moreover have "object_ok (objects p n)" using inv by (simp add: process_inv_def)
  ultimately have "bo_depth (objects p n) > 0" by (auto simp: holds_path_def object_ok_def)
  then show ?thesis using h by (simp add: enter_exclusive_def Let_def holds_path_def)
qed

lemma enter_other:
  assumes inv: "process_inv p" and held: "owners p k = Some (n, me)"
    and n': "n' \<noteq> n" "fst (barrier_key absolute (objects p n')) = k"
  shows "enter_exclusive absolute locked me n' p = Inl (State_Error ''MH_STATE_BARRIER'')"
proof -
  have "bo_key (objects p n') \<noteq> Some (barrier_key absolute (objects p n'))"
    if "bo_thread (objects p n') = Some me"
  proof
    assume "bo_key (objects p n') = Some (barrier_key absolute (objects p n'))"
    then have "holds_path (objects p n') k me"
      using that n'(2) by (cases "barrier_key absolute (objects p n')") (simp add: holds_path_def)
    then have "owners p k = Some (n', me)" using inv by (simp add: process_inv_def)
    then show False using held n'(1) by simp
  qed
  then show ?thesis using n' held by (simp add: enter_exclusive_def Let_def)
qed

section \<open>Properties\<close>

text \<open>C17
  Mutual exclusion, through the hand-off too: in every reachable state of any number of clients,
  while one is in an exclusive body or converting from recovery to the shared side, no other client
  is inside any body, although the kernel drops the converted lock before it grants the new one and
  although any client may fail, give up or crash at any point.
\<close>

theorem exclusive_is_alone:
  assumes "reachable s" "exclusively_in (pcs s i)" "j \<noteq> i"
  shows "\<not> inside (pcs s j)"
proof
  assume "inside (pcs s j)"
  have inv: "turnstile_inv s" using assms(1) by (rule reachable_inv)
  have "gate_of (pcs s j) = None"
    by (rule gate_alone [OF inv, of i]) (use assms(2,3) in \<open>auto simp: exclusively_in_def\<close>)
  moreover have "main_of (pcs s j) = None"
  proof (cases "pcs s i = T_Convert")
    case True
    show ?thesis by (rule convert_alone [OF inv _ True]) (use assms(3) in simp)
  next
    case False
    show ?thesis
      by (rule main_alone [OF inv, of i]) (use assms(2,3) False in \<open>auto simp: exclusively_in_def\<close>)
  qed
  ultimately show False using \<open>inside (pcs s j)\<close> by (auto simp: inside_def)
qed

text \<open>
  Writer preference: while a maintainer holds the gate, waiting for the main lock or past it, no
  step lets another client in. The clients inside can only drain.
\<close>

theorem queued_maintainer_drains:
  assumes "reachable s" "gate_of (pcs s i) = Some Ex" "advance e j s = Some s'" "k \<noteq> i"
    "inside (pcs s' k)"
  shows "inside (pcs s k)"
proof (cases "k = j")
  case False
  then show ?thesis using advance_frame [OF assms(3)] assms(5) by simp
next
  case True
  have "gate_of (pcs s k) = None"
    by (rule gate_alone [OF reachable_inv [OF assms(1)], of i]) (use assms(2,4) in simp_all)
  then show ?thesis using assms(3,5) True enters_through_gate by blast
qed


text \<open>C18
  No deadlock: in every reachable state in which a client is anywhere but idle, some client can take
  its next lock, release one, or leave its body; no set of clients waits on itself.
\<close>

theorem barrier_never_deadlocks:
  assumes "reachable s" "pcs s i \<noteq> Idle"
  shows "\<exists>j. can_move s j"
proof -
  have inv: "turnstile_inv s" using assms(1) by (rule reachable_inv)
  consider "pcs s i \<in> {S_Gate, X_Gate, T_Gate}" | "gate_of (pcs s i) \<noteq> None" | "main_of (pcs s i) \<noteq> None"
    using assms(2) by (cases "pcs s i") auto
  then show ?thesis
    using gate_waiter_moves [OF inv] gate_holder_moves [OF inv] main_holder_moves by cases blast+
qed

text \<open>
  Re-entry: while object \<open>n\<close> holds a lock path for a thread, an entry of the thread through the same
  object with unchanged paths nests without locking anything; through the same object with a
  changed path, or through any other object whose main path is the held one, it fails closed with
  \<^verbatim>\<open>MH_STATE_BARRIER\<close> and changes nothing, so the thread never waits for its own lock.
\<close>

theorem exclusive_reentry:
  assumes "process_reach absolute p" "owners p k = Some (n, me)"
  shows "enter_exclusive absolute locked me n p =
      (if bo_key (objects p n) = Some (barrier_key absolute (objects p n))
       then Inr (p\<lparr>objects := (objects p)(n := (objects p n)\<lparr>bo_depth := bo_depth (objects p n) + 1\<rparr>)\<rparr>)
       else Inl (State_Error ''MH_STATE_BARRIER'')) \<and>
    (\<forall>n'. n' \<noteq> n \<longrightarrow> fst (barrier_key absolute (objects p n')) = k \<longrightarrow>
      enter_exclusive absolute locked me n' p = Inl (State_Error ''MH_STATE_BARRIER''))"
  using process_reach_inv [OF assms(1)] assms(2) by (simp add: enter_same enter_other)

section \<open>Witnesses\<close>

fun run_events :: "(event \<times> nat) list \<Rightarrow> turnstile \<Rightarrow> turnstile option" where
  "run_events [] s = Some s"
| "run_events ((e, i) # es) s = Option.bind (advance e i s) (run_events es)"

lemma reachable_run: "reachable s \<Longrightarrow> run_events es s = Some s' \<Longrightarrow> reachable s'"
  by (induction es s rule: run_events.induct) (auto simp: bind_eq_Some_conv intro: reachable.step)

lemmas run_simps = lock_steps idle_turnstile_def acquire_flock_def release_flock_def grantable_def

text \<open>A maintainer in the middle of its conversion, a writer queued behind it.\<close>

definition demo_convert :: "(event \<times> nat) list" where
  "demo_convert = [(Start_Recovery, 0), (Proceed, 0), (Start_Shared, 1), (Proceed, 0), (Transition, 0)]"

text \<open>A writer inside, a maintainer queued for the main lock.\<close>

definition demo_queue :: "(event \<times> nat) list" where
  "demo_queue = [(Start_Shared, 0), (Proceed, 0), (Proceed, 0), (Proceed, 0), (Start_Exclusive, 1), (Proceed, 1)]"

theorem exclusive_is_alone_witness:
  "\<exists>s. run_events demo_convert idle_turnstile = Some s \<and> pcs s 0 = T_Convert \<and> \<not> inside (pcs s 1)"
proof -
  obtain s where s: "run_events demo_convert idle_turnstile = Some s" "pcs s 0 = T_Convert"
    by (simp add: demo_convert_def run_simps)
  have "\<not> inside (pcs s 1)"
    by (rule exclusive_is_alone [OF reachable_run [OF reachable.start s(1)], of 0])
      (simp_all add: s(2) exclusively_in_def)
  then show ?thesis using s by blast
qed

theorem queued_maintainer_drains_witness:
  "\<exists>s s'. run_events demo_queue idle_turnstile = Some s \<and> pcs s 1 = X_Main \<and>
     advance Start_Shared 2 s = Some s' \<and> inside (pcs s' 0) \<and> inside (pcs s 0)"
proof -
  obtain s where s: "run_events demo_queue idle_turnstile = Some s" "pcs s 1 = X_Main"
      "pcs s 0 = S_Body" "pcs s 2 = Idle"
    by (simp add: demo_queue_def run_simps)
  obtain s' where s': "advance Start_Shared 2 s = Some s'" "inside (pcs s' 0)"
    using s(3,4) by (simp add: goto_def inside_def)
  have "inside (pcs s 0)"
    by (rule queued_maintainer_drains [OF reachable_run [OF reachable.start s(1)] _ s'(1), of 1])
      (simp_all add: s(2) [simplified] s'(2))
  then show ?thesis using s s' by blast
qed

theorem barrier_never_deadlocks_witness:
  "\<exists>s. run_events demo_queue idle_turnstile = Some s \<and> pcs s 1 = X_Main \<and> (\<exists>j. can_move s j)"
proof -
  obtain s where s: "run_events demo_queue idle_turnstile = Some s" "pcs s 1 = X_Main"
    by (simp add: demo_queue_def run_simps)
  have "\<exists>j. can_move s j"
    by (rule barrier_never_deadlocks [OF reachable_run [OF reachable.start s(1)], of 1]) (simp add: s(2) [simplified])
  then show ?thesis using s by blast
qed


text \<open>Two objects over one path; the first is held by thread 7.\<close>

definition demo_process :: barrier_process where
  "demo_process = \<lparr>objects = (\<lambda>n. new_barrier id ''lock''), owners = Map.empty\<rparr>"

definition demo_held :: barrier_process where
  "demo_held = (case enter_exclusive id (Inr ()) 7 0 demo_process of Inr p \<Rightarrow> p | Inl _ \<Rightarrow> demo_process)"

lemma demo_held_reach: "process_reach id demo_held" "owners demo_held ''lock'' = Some (0, 7)"
    "fst (barrier_key id (objects demo_held 1)) = ''lock''"
proof -
  have start: "process_reach id demo_process"
    unfolding demo_process_def by (rule process_reach.boot [of id "\<lambda>_. ''lock''", simplified])
  have enter: "enter_exclusive id (Inr ()) 7 0 demo_process = Inr demo_held"
    by (simp add: demo_held_def enter_exclusive_def demo_process_def new_barrier_def barrier_key_def Let_def bind_res_def)
  show "process_reach id demo_held"
    by (rule process_reach.enter [OF start enter]) (simp add: demo_process_def new_barrier_def)
  show "owners demo_held ''lock'' = Some (0, 7)" "fst (barrier_key id (objects demo_held 1)) = ''lock''"
    by (simp_all add: demo_held_def enter_exclusive_def demo_process_def new_barrier_def barrier_key_def
        Let_def bind_res_def)
qed

theorem exclusive_reentry_witness:
  "enter_exclusive id (Inr ()) 7 1 demo_held = Inl (State_Error ''MH_STATE_BARRIER'')"
  using exclusive_reentry [OF demo_held_reach(1,2), of "Inr ()"] demo_held_reach(3) by auto

end
