(* ===== verification/Outbox.thy ===== *)
theory Outbox
  imports Reader Cursors
begin

text \<open>
  \<^verbatim>\<open>src/milhouse/outbox\<close>: the position a cursor carries (\<^verbatim>\<open>cursor.py\<close>), the frame parser's
  boundary (\<^verbatim>\<open>frame.py\<close>), and the incremental reader of an append-only, rotating file
  (\<^verbatim>\<open>reader.py\<close>). Parameters: Unicode NFC, SHA-256, \<^verbatim>\<open>json.loads\<close> of a position, and the
  validation of a line by the pydantic model \<^verbatim>\<open>OutboxFrameV1\<close>.
\<close>

section \<open>Positions\<close>

record outbox_position =
  op_device :: int
  op_inode :: int
  op_offset :: int
  op_sha256 :: string

definition position_error :: py_exc where
  "position_error = Outbox_Error ''MH_OUTBOX_POSITION''"

definition canonical_nat :: "int \<Rightarrow> bool" where
  "canonical_nat n \<longleftrightarrow> 0 \<le> n \<and> n \<le> max_int64"

definition position_init :: "outbox_position \<Rightarrow> outbox_position res" where
  "position_init p =
     (if canonical_nat (op_device p) \<and> canonical_nat (op_inode p) \<and> canonical_nat (op_offset p)
         \<and> is_sha256_hex (op_sha256 p)
      then Inr p else Inl position_error)"

definition position_payload :: "outbox_position \<Rightarrow> py_value" where
  "position_payload p = P_Dict [(''dev'', P_Int (op_device p)), (''inode'', P_Int (op_inode p)),
     (''offset'', P_Int (op_offset p)), (''sha256'', P_Str (op_sha256 p)), (''v'', P_Int 1)]"

definition max_position_bytes :: int where "max_position_bytes = 512"

definition encode_outbox_position :: "(string \<Rightarrow> string) \<Rightarrow> outbox_position \<Rightarrow> string res" where
  "encode_outbox_position nfc p =
     (case canonical_json_bytes nfc default_max_depth default_max_nodes max_position_bytes (position_payload p) of
        Inr t \<Rightarrow> Inr t
      | Inl (Canonical_Error _) \<Rightarrow> Inl position_error
      | Inl e \<Rightarrow> Inl e)"

definition position_keys :: "string list" where
  "position_keys = [''dev'', ''inode'', ''offset'', ''sha256'', ''v'']"

text \<open>The four fields, when the identity and offset are integers and the digest a string.\<close>

definition position_fields :: "(string \<times> py_value) list \<Rightarrow> (int \<times> int \<times> int \<times> string) option" where
  "position_fields obj =
     (case (field obj ''dev'', field obj ''inode'', field obj ''offset'', field obj ''sha256'') of
        (P_Int d, P_Int i, P_Int n, P_Str h) \<Rightarrow> Some (d, i, n, h)
      | _ \<Rightarrow> None)"

definition decode_outbox_position ::
  "(string \<Rightarrow> string) \<Rightarrow> (string \<Rightarrow> py_value option) \<Rightarrow> string \<Rightarrow> outbox_position res" where
  "decode_outbox_position nfc loads s =
     (if s = [] \<or> max_position_bytes < int (length s) then Inl position_error
      else case loads s of
        Some (P_Dict obj) \<Rightarrow>
          (if set (map fst obj) \<noteq> set position_keys \<or> \<not> equals_one (field obj ''v'') then Inl position_error
           else case position_fields obj of
             Some (d, i, n, h) \<Rightarrow>
               bind_res (position_init \<lparr>op_device = d, op_inode = i, op_offset = n, op_sha256 = h\<rparr>) (\<lambda>p.
               bind_res (encode_outbox_position nfc p) (\<lambda>t.
               if t \<noteq> s then Inl position_error else Inr p))
           | None \<Rightarrow> Inl position_error)
      | _ \<Rightarrow> Inl position_error)"

definition outbox_position_from_cursor ::
  "(string \<Rightarrow> string) \<Rightarrow> (string \<Rightarrow> py_value option) \<Rightarrow> source_cursor \<Rightarrow> outbox_position res" where
  "outbox_position_from_cursor nfc loads c = decode_outbox_position nfc loads (sc_position c)"

section \<open>Frames, configuration, results\<close>

record outbox_frame =
  fm_producer :: string
  fm_occurred_at :: int
  fm_target :: string
  fm_kind :: string
  fm_actionability :: string
  fm_evidence :: "string list"
  fm_data :: py_value

record outbox_env =
  oe_nfc :: "string \<Rightarrow> string"
  oe_sha_hex :: "string \<Rightarrow> string"
  oe_loads :: "string \<Rightarrow> py_value option"
  oe_frame :: "string \<Rightarrow> outbox_frame option"

definition parse_outbox_frame_line :: "outbox_env \<Rightarrow> string \<Rightarrow> outbox_frame res" where
  "parse_outbox_frame_line en line =
     (case oe_frame en line of None \<Rightarrow> Inl (Outbox_Error ''MH_OUTBOX_FRAME'') | Some f \<Rightarrow> Inr f)"

record reader_config =
  rc_max_line :: int
  rc_max_file :: int
  rc_glob :: "string option"
  rc_allowlist :: "string list"

definition rotation_glob_match :: "string \<Rightarrow> bool" where
  "rotation_glob_match g \<longleftrightarrow> length (filter (\<lambda>c. c = CHR ''*'') g) = 1 \<and>
     list_all (\<lambda>c. c = CHR ''*'' \<or> is_token_char c) g"

definition config_init :: "reader_config \<Rightarrow> reader_config res" where
  "config_init c =
     (if 0 < rc_max_line c \<and> rc_max_line c \<le> max_int64 \<and> 0 < rc_max_file c \<and> rc_max_file c \<le> max_int64
         \<and> rc_max_line c \<le> rc_max_file c
         \<and> (case rc_glob c of None \<Rightarrow> True | Some g \<Rightarrow> g \<noteq> [] \<and> length g \<le> 255 \<and> rotation_glob_match g)
      then Inr c else Inl (Outbox_Error ''MH_OUTBOX_CONFIG''))"

record loss_signal =
  ls_code :: string
  ls_cursor :: outbox_position
  ls_size :: "int option"
  ls_sha256 :: "string option"

record diagnostics =
  dg_frames :: int
  dg_rejected :: int
  dg_codes :: "(string \<times> int) list"
  dg_bytes :: int
  dg_rotations :: int
  dg_torn :: int

record read_result =
  rr_frames :: "outbox_frame list"
  rr_position :: outbox_position
  rr_string :: string
  rr_loss :: "loss_signal option"
  rr_diagnostics :: diagnostics
  rr_max_observed :: "int option"
  rr_offsets :: "int list"

record file_read =
  fd_device :: int
  fd_inode :: int
  fd_content :: string

record parsed =
  pa_frames :: "outbox_frame list"
  pa_offsets :: "int list"
  pa_rejected :: "(string \<times> int) list"

definition nothing_parsed :: parsed where
  "nothing_parsed = \<lparr>pa_frames = [], pa_offsets = [], pa_rejected = []\<rparr>"

section \<open>Reading one file\<close>

text \<open>
  What the platform answers for a path: a failure of the secure open, or an open file with its
  identity and size, the chunks its reads return, whether a read then fails, and the identity of
  the descriptor afterwards.
\<close>

record open_file =
  of_device :: int
  of_inode :: int
  of_size :: int
  of_chunks :: "string list"
  of_fails :: bool
  of_after :: "int \<times> int"

definition open_error :: "file_error \<Rightarrow> py_exc" where
  "open_error k = Outbox_Error (case k of
       Not_Found \<Rightarrow> ''MH_OUTBOX_NOT_FOUND'' | Not_Regular \<Rightarrow> ''MH_OUTBOX_NOT_REGULAR''
     | Security_Unsupported \<Rightarrow> ''MH_OUTBOX_UNSUPPORTED'' | _ \<Rightarrow> ''MH_OUTBOX_READ'')"

fun read_chunks :: "int \<Rightarrow> bool \<Rightarrow> string \<Rightarrow> string list \<Rightarrow> string res" where
  "read_chunks limit fails acc [] =
     (if fails then Inl (Outbox_Error ''MH_OUTBOX_READ'') else Inr acc)"
| "read_chunks limit fails acc (c # cs) =
     (if c = [] then Inr acc
      else if limit < int (length (acc @ c)) then Inl (Outbox_Error ''MH_OUTBOX_FILE_OVERSIZE'')
      else read_chunks limit fails (acc @ c) cs)"

definition read_regular_file :: "int \<Rightarrow> file_error + open_file \<Rightarrow> file_read res" where
  "read_regular_file limit opened =
     (case opened of
        Inl k \<Rightarrow> Inl (open_error k)
      | Inr f \<Rightarrow>
          if limit < of_size f then Inl (Outbox_Error ''MH_OUTBOX_FILE_OVERSIZE'')
          else bind_res (read_chunks limit (of_fails f) [] (of_chunks f)) (\<lambda>content.
            if of_after f \<noteq> (of_device f, of_inode f) then Inl (Outbox_Error ''MH_OUTBOX_READ'')
            else Inr \<lparr>fd_device = of_device f, fd_inode = of_inode f, fd_content = content\<rparr>))"

section \<open>Lines\<close>

definition has_torn_tail :: "string \<Rightarrow> bool" where
  "has_torn_tail content \<longleftrightarrow> content \<noteq> [] \<and> last content \<noteq> LF"

definition iter_complete_lines :: "string \<Rightarrow> string list" where
  "iter_complete_lines region =
     (if region = [] then [] else map (\<lambda>part. part @ [LF]) (butlast (split_on_lf region)))"

text \<open>\<^verbatim>\<open>content.rfind(b"\n") + 1\<close>: the length of the longest prefix that ends in a line feed.\<close>

definition complete_end :: "string \<Rightarrow> nat" where
  "complete_end content = length (dropWhile (\<lambda>c. c \<noteq> LF) (rev content))"

definition bump :: "string \<Rightarrow> (string \<times> int) list \<Rightarrow> (string \<times> int) list" where
  "bump code counts = AList.map_default code 1 (\<lambda>n. n + 1) counts"

definition parse_line :: "outbox_env \<Rightarrow> reader_config \<Rightarrow> int \<Rightarrow> string \<Rightarrow> parsed \<Rightarrow> parsed" where
  "parse_line en c line_offset line into =
     (if rc_max_line c < int (length line)
      then into\<lparr>pa_rejected := bump ''MH_OUTBOX_LINE_OVERSIZE'' (pa_rejected into)\<rparr>
      else case parse_outbox_frame_line en (if last line = LF then butlast line else line) of
        Inl (Outbox_Error code) \<Rightarrow> into\<lparr>pa_rejected := bump code (pa_rejected into)\<rparr>
      | Inl _ \<Rightarrow> into
      | Inr f \<Rightarrow>
          (if rc_allowlist c \<noteq> [] \<and> fm_producer f \<notin> set (rc_allowlist c)
           then into\<lparr>pa_rejected := bump ''MH_OUTBOX_PRODUCER_DENIED'' (pa_rejected into)\<rparr>
           else into\<lparr>pa_frames := pa_frames into @ [f], pa_offsets := pa_offsets into @ [line_offset]\<rparr>))"

fun parse_lines :: "outbox_env \<Rightarrow> reader_config \<Rightarrow> int \<Rightarrow> string list \<Rightarrow> parsed \<Rightarrow> parsed" where
  "parse_lines en c offset [] into = into"
| "parse_lines en c offset (l # ls) into =
     parse_lines en c (offset + int (length l)) ls (parse_line en c offset l into)"

definition parse_region :: "outbox_env \<Rightarrow> reader_config \<Rightarrow> int \<Rightarrow> string \<Rightarrow> parsed \<Rightarrow> parsed" where
  "parse_region en c base region into = parse_lines en c base (iter_complete_lines region) into"

fun parse_regions :: "outbox_env \<Rightarrow> reader_config \<Rightarrow> (string \<times> int) list \<Rightarrow> parsed \<Rightarrow> parsed" where
  "parse_regions en c [] into = into"
| "parse_regions en c ((region, base) # rs) into =
     parse_regions en c rs (parse_region en c base region into)"

section \<open>Results\<close>

definition loss ::
  "string \<Rightarrow> outbox_position \<Rightarrow> string \<Rightarrow> int option \<Rightarrow> string option \<Rightarrow> int option \<Rightarrow> read_result" where
  "loss code prior prior_string bytes sha observed =
     \<lparr>rr_frames = [], rr_position = prior, rr_string = prior_string,
      rr_loss = Some \<lparr>ls_code = code, ls_cursor = prior, ls_size = bytes, ls_sha256 = sha\<rparr>,
      rr_diagnostics = \<lparr>dg_frames = 0, dg_rejected = 0, dg_codes = [], dg_bytes = 0, dg_rotations = 0, dg_torn = 0\<rparr>,
      rr_max_observed = observed, rr_offsets = []\<rparr>"

definition success ::
  "outbox_env \<Rightarrow> parsed \<Rightarrow> outbox_position \<Rightarrow> int \<Rightarrow> int \<Rightarrow> int \<Rightarrow> int option \<Rightarrow> read_result res" where
  "success en p next consumed crossed torn observed =
     bind_res (encode_outbox_position (oe_nfc en) next) (\<lambda>text. Inr
       \<lparr>rr_frames = pa_frames p, rr_position = next, rr_string = text, rr_loss = None,
        rr_diagnostics = \<lparr>dg_frames = int (length (pa_frames p)),
          dg_rejected = sum_list (map snd (pa_rejected p)), dg_codes = pa_rejected p, dg_bytes = consumed,
          dg_rotations = crossed, dg_torn = torn\<rparr>,
        rr_max_observed = observed, rr_offsets = pa_offsets p\<rparr>)"

definition next_position :: "outbox_env \<Rightarrow> file_read \<Rightarrow> nat \<Rightarrow> outbox_position res" where
  "next_position en active n =
     position_init \<lparr>op_device = fd_device active, op_inode = fd_inode active, op_offset = int n,
       op_sha256 = oe_sha_hex en (take n (fd_content active))\<rparr>"

definition loss_no_cursor :: "outbox_env \<Rightarrow> file_read \<Rightarrow> string \<Rightarrow> int option \<Rightarrow> read_result res" where
  "loss_no_cursor en active code observed =
     bind_res (next_position en active 0) (\<lambda>synthetic.
     bind_res (encode_outbox_position (oe_nfc en) synthetic) (\<lambda>text.
     Inr (loss code synthetic text None None observed)))"

section \<open>Discovery of retained rotations\<close>

text \<open>
  A directory is its entries by name, each with what opening it answers. \<open>glob_matches\<close> is
  \<^verbatim>\<open>Path.glob\<close> for a single component with one wildcard; \<open>rotation_sequence\<close> is the regular
  expression derived from it, a run of ASCII digits in the place of the wildcard, read as an integer.
\<close>

type_synonym directory = "(string \<times> (file_error + open_file)) list"

definition glob_prefix :: "string \<Rightarrow> string" where
  "glob_prefix g = takeWhile (\<lambda>c. c \<noteq> CHR ''*'') g"

definition glob_suffix :: "string \<Rightarrow> string" where
  "glob_suffix g = tl (dropWhile (\<lambda>c. c \<noteq> CHR ''*'') g)"

definition glob_matches :: "string \<Rightarrow> string \<Rightarrow> bool" where
  "glob_matches g name \<longleftrightarrow> length (glob_prefix g) + length (glob_suffix g) \<le> length name \<and>
     take (length (glob_prefix g)) name = glob_prefix g \<and>
     drop (length name - length (glob_suffix g)) name = glob_suffix g"

definition wildcard_part :: "string \<Rightarrow> string \<Rightarrow> string" where
  "wildcard_part g name =
     drop (length (glob_prefix g)) (take (length name - length (glob_suffix g)) name)"

definition decimal_value :: "string \<Rightarrow> int" where
  "decimal_value ds = foldl (\<lambda>n c. 10 * n + (of_char c - 48)) 0 ds"

definition rotation_sequence :: "string \<Rightarrow> string \<Rightarrow> int option" where
  "rotation_sequence g name =
     (let part = wildcard_part g name in
      if glob_matches g name \<and> part \<noteq> [] \<and> list_all is_digit part then Some (decimal_value part) else None)"

text \<open>The loop over the sorted matches; the dictionary keeps its insertion order.\<close>

fun collect_rotations ::
  "reader_config \<Rightarrow> string \<Rightarrow> file_read \<Rightarrow> directory \<Rightarrow> (int \<times> file_read) list
    \<Rightarrow> ((int \<times> file_read) list \<times> string option) res" where
  "collect_rotations c g active [] found = Inr (found, None)"
| "collect_rotations c g active ((name, opened) # rest) found =
     (case rotation_sequence g name of
        None \<Rightarrow> Inr ([], Some ''MH_OUTBOX_LOSS_ROTATION_UNPARSEABLE'')
      | Some n \<Rightarrow>
          bind_res (read_regular_file (rc_max_file c) opened) (\<lambda>read.
          if fd_device read = fd_device active \<and> fd_inode read = fd_inode active
          then collect_rotations c g active rest found
          else if n \<in> fst ` set found then Inr ([], Some ''MH_OUTBOX_LOSS_ROTATION_AMBIGUOUS'')
          else collect_rotations c g active rest (found @ [(n, read)])))"

definition discover_rotations ::
  "reader_config \<Rightarrow> string \<Rightarrow> directory \<Rightarrow> file_read
    \<Rightarrow> ((int \<times> file_read) list \<times> string option) res" where
  "discover_rotations c g dir active =
     collect_rotations c g active (sort_key fst (filter (\<lambda>e. glob_matches g (fst e)) dir)) []"

section \<open>The three reads\<close>

definition read_tail :: "outbox_env \<Rightarrow> reader_config \<Rightarrow> file_read \<Rightarrow> nat \<Rightarrow> read_result res" where
  "read_tail en c active start =
     (let content = fd_content active; end0 = complete_end content; end1 = max end0 start in
      bind_res (next_position en active end1) (\<lambda>next.
      success en (parse_region en c (int start) (drop start (take end1 content)) nothing_parsed) next
        (int (end1 - start)) 0 (int (length content) - int end1) None))"

definition read_same_file ::
  "outbox_env \<Rightarrow> reader_config \<Rightarrow> file_read \<Rightarrow> outbox_position option \<Rightarrow> read_result res" where
  "read_same_file en c active prior =
     (case prior of
        None \<Rightarrow> read_tail en c active 0
      | Some p \<Rightarrow>
          bind_res (encode_outbox_position (oe_nfc en) p) (\<lambda>text.
          let content = fd_content active; digest = oe_sha_hex en (take (nat (op_offset p)) content) in
          if int (length content) < op_offset p
          then Inr (loss ''MH_OUTBOX_LOSS_TRUNCATED'' p text (Some (int (length content))) None None)
          else if digest \<noteq> op_sha256 p
          then Inr (loss ''MH_OUTBOX_LOSS_REWRITE'' p text (Some (int (length content))) (Some digest) None)
          else read_tail en c active (nat (op_offset p))))"

definition contiguous :: "int list \<Rightarrow> bool" where
  "contiguous ns \<longleftrightarrow> (case ns of [] \<Rightarrow> True | n # _ \<Rightarrow> ns = map (\<lambda>k. n + int k) [0..<length ns])"

definition read_chain ::
  "outbox_env \<Rightarrow> reader_config \<Rightarrow> file_read \<Rightarrow> (string \<times> int) list \<Rightarrow> int \<Rightarrow> int option \<Rightarrow> read_result res" where
  "read_chain en c active regions crossed observed =
     (let content = fd_content active; n = complete_end content; all = regions @ [(take n content, 0)] in
      bind_res (next_position en active n) (\<lambda>next.
      success en (parse_regions en c all nothing_parsed) next
        (sum_list (map (\<lambda>r. int (length (fst r))) all)) crossed (int (length content) - int n) observed))"

definition read_from_start ::
  "outbox_env \<Rightarrow> reader_config \<Rightarrow> directory \<Rightarrow> file_read \<Rightarrow> read_result res" where
  "read_from_start en c dir active =
     (case rc_glob c of
        None \<Rightarrow> read_same_file en c active None
      | Some g \<Rightarrow>
          bind_res (discover_rotations c g dir active) (\<lambda>(found, bad).
          case bad of
            Some code \<Rightarrow> loss_no_cursor en active code None
          | None \<Rightarrow>
              if found = [] then read_same_file en c active None
              else let observed = Some (Max (set (map fst found)));
                       rotated = sort_key fst found
                in if \<not> contiguous (map fst rotated)
                   then loss_no_cursor en active ''MH_OUTBOX_LOSS_ROTATION_GONE'' observed
                   else if list_ex (\<lambda>(_, read). has_torn_tail (fd_content read)) rotated
                   then loss_no_cursor en active ''MH_OUTBOX_LOSS_ROTATED_TORN'' observed
                   else read_chain en c active (map (\<lambda>(_, read). (fd_content read, 0)) rotated)
                          (int (length rotated)) observed))"

text \<open>\<^verbatim>\<open>next(sequence for sequence, read in by_sequence.items() if ...)\<close>.\<close>

definition cursor_rotation :: "outbox_position \<Rightarrow> (int \<times> file_read) list \<Rightarrow> (int \<times> file_read) option" where
  "cursor_rotation p found =
     find (\<lambda>(_, read). fd_device read = op_device p \<and> fd_inode read = op_inode p) found"

definition rotations_above :: "int \<Rightarrow> (int \<times> file_read) list \<Rightarrow> (int \<times> file_read) list" where
  "rotations_above n found = sort_key fst (filter (\<lambda>e. n < fst e) found)"

definition first_torn :: "(int \<times> file_read) list \<Rightarrow> file_read option" where
  "first_torn rs = map_option snd (find (\<lambda>(_, read). has_torn_tail (fd_content read)) rs)"

definition recover_chain ::
  "outbox_env \<Rightarrow> reader_config \<Rightarrow> file_read \<Rightarrow> outbox_position \<Rightarrow> string \<Rightarrow> int option
    \<Rightarrow> file_read \<Rightarrow> (int \<times> file_read) list \<Rightarrow> read_result res" where
  "recover_chain en c active p text observed cursor_file later =
     (let content = fd_content cursor_file; n = nat (op_offset p); digest = oe_sha_hex en (take n content);
          lost = (\<lambda>code bytes sha. Inr (loss code p text (Some (int bytes)) sha observed))
      in if int (length content) < op_offset p then lost ''MH_OUTBOX_LOSS_TRUNCATED'' (length content) None
         else if digest \<noteq> op_sha256 p then lost ''MH_OUTBOX_LOSS_REWRITE'' (length content) (Some digest)
         else if has_torn_tail content then lost ''MH_OUTBOX_LOSS_ROTATED_TORN'' (length content) None
         else case first_torn later of
           Some read \<Rightarrow> lost ''MH_OUTBOX_LOSS_ROTATED_TORN'' (length (fd_content read)) None
         | None \<Rightarrow>
             read_chain en c active
               ((drop n content, op_offset p) # map (\<lambda>(_, read). (fd_content read, 0)) later)
               (1 + int (length later)) observed)"

definition recover_rotation ::
  "outbox_env \<Rightarrow> reader_config \<Rightarrow> directory \<Rightarrow> file_read \<Rightarrow> outbox_position \<Rightarrow> string \<Rightarrow> int option
    \<Rightarrow> read_result res" where
  "recover_rotation en c dir active p text high_water =
     (case rc_glob c of
        None \<Rightarrow> Inr (loss ''MH_OUTBOX_LOSS_INODE_REUSE'' p text None None None)
      | Some g \<Rightarrow>
          bind_res (discover_rotations c g dir active) (\<lambda>(found, bad).
          case bad of
            Some code \<Rightarrow> Inr (loss code p text None None None)
          | None \<Rightarrow>
              let observed = (if found = [] then None else Some (Max (set (map fst found)))) in
              case cursor_rotation p found of
                None \<Rightarrow> Inr (loss ''MH_OUTBOX_LOSS_ROTATION_GONE'' p text None None observed)
              | Some (n, cursor_file) \<Rightarrow>
                  let later = rotations_above n found in
                  if map fst later \<noteq> map (\<lambda>k. n + 1 + int k) [0..<length later]
                  then Inr (loss ''MH_OUTBOX_LOSS_ROTATION_GONE'' p text None None observed)
                  else if (case (high_water, observed) of (Some h, Some m) \<Rightarrow> m < h | _ \<Rightarrow> False)
                  then Inr (loss ''MH_OUTBOX_LOSS_TOP_RUN_GONE'' p text None None observed)
                  else recover_chain en c active p text observed cursor_file later))"

definition read_outbox ::
  "outbox_env \<Rightarrow> reader_config \<Rightarrow> file_error + open_file \<Rightarrow> directory \<Rightarrow> source_cursor option \<Rightarrow> int option
    \<Rightarrow> read_result res" where
  "read_outbox en c file dir cursor high_water =
     bind_res (check_res (case high_water of None \<Rightarrow> True | Some h \<Rightarrow> canonical_nat h)
       (Outbox_Error ''MH_OUTBOX_HIGH_WATER'')) (\<lambda>_.
     bind_res (case cursor of None \<Rightarrow> Inr None
       | Some sc \<Rightarrow> bind_res (outbox_position_from_cursor (oe_nfc en) (oe_loads en) sc) (\<lambda>p. Inr (Some p))) (\<lambda>prior.
     bind_res (read_regular_file (rc_max_file c) file) (\<lambda>active.
     case prior of
       None \<Rightarrow> read_from_start en c dir active
     | Some p \<Rightarrow>
         if fd_device active = op_device p \<and> fd_inode active = op_inode p
         then read_same_file en c active (Some p)
         else recover_rotation en c dir active p (case cursor of Some sc \<Rightarrow> sc_position sc | None \<Rightarrow> []) high_water)))"

section \<open>One text per position\<close>

text \<open>\<open>ascii_stable\<close> is documented behaviour of Unicode NFC: ASCII text is its own normal form.\<close>

definition ascii_stable :: "(string \<Rightarrow> string) \<Rightarrow> bool" where
  "ascii_stable nfc \<longleftrightarrow> (\<forall>s. list_all (\<lambda>c. (of_char c :: nat) < 128) s \<longrightarrow> nfc s = s)"

definition position_text :: "outbox_position \<Rightarrow> string" where
  "position_text p = ''{\"dev\":'' @ int_text (op_device p) @ '',\"inode\":'' @ int_text (op_inode p)
     @ '',\"offset\":'' @ int_text (op_offset p) @ '',\"sha256\":\"'' @ op_sha256 p @ ''\",\"v\":1}''"

lemma hex_plain:
  assumes "is_lower_hex c"
  shows "(of_char c :: nat) < 128" "escape_char c = [c]" "(of_char c :: nat) \<noteq> 237" "c \<noteq> CR" "c \<noteq> CHR 0x22"
proof -
  have n: "(48 :: nat) \<le> of_char c \<and> (of_char c :: nat) \<le> 57 \<or> (97 :: nat) \<le> of_char c \<and> (of_char c :: nat) \<le> 102"
    using assms by (simp add: is_lower_hex_def Let_def)
  show "(of_char c :: nat) < 128" "escape_char c = [c]" "(of_char c :: nat) \<noteq> 237"
    using n by (auto simp: escape_char_def Let_def)
  show "c \<noteq> CR" "c \<noteq> CHR 0x22" using n by (auto simp: CR_def)
qed

lemma hex_no_surrogate: "list_all is_lower_hex s \<Longrightarrow> \<not> has_surrogate s"
  by (induction s rule: has_surrogate.induct) (simp_all add: hex_plain)

lemma hex_newlines: "list_all is_lower_hex s \<Longrightarrow> unify_newlines s = s"
  by (induction s rule: unify_newlines.induct) (auto simp: hex_plain)

lemma quote_hex:
  assumes "ascii_stable nfc" "list_all is_lower_hex s"
  shows "quote_string nfc s = Inr (CHR 0x22 # s @ [CHR 0x22])"
proof -
  have "list_all (\<lambda>c. (of_char c :: nat) < 128) s"
    using assms(2) hex_plain(1) by (auto simp: list_all_iff)
  then have "nfc s = s" using assms(1) by (simp add: ascii_stable_def)
  moreover have "concat (map escape_char s) = s"
    using assms(2) by (induction s) (simp_all add: hex_plain)
  ultimately show ?thesis
    using assms(2)
    by (simp add: quote_string_def normalize_string_def hex_no_surrogate hex_newlines json_quote_def)
qed

lemma position_key_quotes:
  assumes "ascii_stable nfc" "k \<in> set position_keys"
  shows "normalize_string nfc k = Inr k" "quote_string nfc k = Inr (CHR 0x22 # k @ [CHR 0x22])"
proof -
  have nfc: "nfc k = k"
    using assms by (auto simp: position_keys_def ascii_stable_def)
  show "normalize_string nfc k = Inr k"
    using assms(2) nfc by (auto simp: normalize_string_def position_keys_def CR_def)
  then show "quote_string nfc k = Inr (CHR 0x22 # k @ [CHR 0x22])"
    using assms(2) by (auto simp: quote_string_def json_quote_def position_keys_def escape_char_def)
qed

lemma encode_int_value:
  "encode_value nfc mn d (P_Int i) n =
     (if mn < n + 1 then (Inl (Canonical_Error ''MH_CANONICAL_NODES''), n + 1)
      else (serialize_integer i, n + 1))"
  by (cases d) (simp_all add: prog_simps count_node_def encode_scalar_def)

lemma encode_str_value:
  "encode_value nfc mn d (P_Str s) n =
     (if mn < n + 1 then (Inl (Canonical_Error ''MH_CANONICAL_NODES''), n + 1)
      else (quote_string nfc s, n + 1))"
  by (cases d) (simp_all add: prog_simps count_node_def encode_scalar_def)

lemma serialize_nat: "canonical_nat i \<Longrightarrow> serialize_integer i = Inr (int_text i)"
  by (simp add: canonical_nat_def serialize_integer_def max_int64_def min_int64_def)

lemma encode_position_value:
  assumes nfc: "ascii_stable nfc" and p: "position_init p = Inr p"
  shows "fst (encode_value nfc default_max_nodes (nat default_max_depth) (position_payload p) 0) =
      Inr (position_text p)"
proof -
  have ok: "canonical_nat (op_device p)" "canonical_nat (op_inode p)" "canonical_nat (op_offset p)"
      "list_all is_lower_hex (op_sha256 p)"
    using p by (auto simp: position_init_def is_sha256_hex_def position_error_def split: if_splits)
  note keys = position_key_quotes [OF nfc, unfolded position_keys_def]
  let ?items = "[(''dev'', P_Int (op_device p)), (''inode'', P_Int (op_inode p)),
     (''offset'', P_Int (op_offset p)), (''sha256'', P_Str (op_sha256 p)), (''v'', P_Int 1)]"
  have sorted: "sort_key fst ?items = ?items"
    by (rule sort_key_id_if_sorted) (simp add: less_eq_char_def)
  have norm: "normalize_keys nfc ?items [] = Inr ?items" by (simp add: keys)
  have first: "count_node 10000 0 = (Inr (), 1)" by (simp add: count_node_def)
  have item: "encode_item nfc (encode_value nfc 10000 31) (k, v) n = (Inr (CHR 0x22 # k @ ''\":'' @ x), n + 1)"
    if "encode_value nfc 10000 31 v n = (Inr x, n + 1)" "k \<in> set position_keys" for k v n x
    using that position_key_quotes(2) [OF nfc] by (simp add: encode_item_def andthen_def lift_res_def ret_def)
  have ints: "encode_value nfc 10000 31 (P_Int i) n = (Inr (int_text i), n + 1)"
    if "canonical_nat i" "n < 10000" for i n
    using that by (simp add: encode_int_value serialize_nat)
  have digest: "encode_value nfc 10000 31 (P_Str (op_sha256 p)) n = (Inr (CHR 0x22 # op_sha256 p @ [CHR 0x22]), n + 1)"
    if "n < 10000" for n
    using that ok by (simp add: encode_str_value quote_hex [OF nfc])
  have one: "canonical_nat 1" "int_text 1 = ''1''"
    by (simp_all add: canonical_nat_def max_int64_def int_text_def) (subst nat_text.simps, simp add: digit_char_numerals)
  have each: "for_each (encode_item nfc (encode_value nfc 10000 31)) ?items 1 =
     (Inr [''\"dev\":'' @ int_text (op_device p), ''\"inode\":'' @ int_text (op_inode p),
        ''\"offset\":'' @ int_text (op_offset p), ''\"sha256\":\"'' @ op_sha256 p @ [CHR 0x22], ''\"v\":1''], 6)"
    by (simp add: andthen_def ret_def item ints digest ok one position_keys_def)
  have "encode_value nfc 10000 (Suc 31) (position_payload p) 0 = (Inr (position_text p), 6)"
    unfolding encode_value.simps position_payload_def
    by (simp add: andthen_def ret_def lift_res_def first norm sorted each position_text_def
        del: encode_value.simps for_each.simps normalize_keys.simps)
  then show ?thesis
    by (simp add: default_max_nodes_def default_max_depth_def del: encode_value.simps flip: numeral_eq_Suc)
qed

lemma encode_position_Inr:
  assumes "ascii_stable nfc" "position_init p = Inr p" "int (length (position_text p)) \<le> max_position_bytes"
  shows "encode_outbox_position nfc p = Inr (position_text p)"
  using assms(3) encode_position_value [OF assms(1,2)]
  by (simp add: encode_outbox_position_def canonical_json_bytes_def default_max_depth_def
      default_max_nodes_def max_position_bytes_def)

lemma encode_position_text:
  assumes "ascii_stable nfc" "position_init p = Inr p" "encode_outbox_position nfc p = Inr t"
  shows "t = position_text p"
  using assms(3) encode_position_value [OF assms(1,2)]
  by (auto simp: encode_outbox_position_def canonical_json_bytes_def
      split: sum.splits py_exc.splits if_splits)

lemma nat_text_small: "n < 10 \<Longrightarrow> nat_text n = [digit_char n]"
  by (subst nat_text.simps) simp

lemma is_digit_char: "d < 10 \<Longrightarrow> is_digit (digit_char d)"
  by (simp add: is_digit_def of_digit_char)

lemma nat_text_digits: "list_all is_digit (nat_text n)"
  by (induction n rule: nat_text.induct) (subst nat_text.simps, simp add: is_digit_char)

lemma decimal_value_nat_text: "decimal_value (nat_text n) = int n"
proof (induction n rule: nat_text.induct)
  case (1 n)
  show ?case
  proof (cases "n < 10")
    case True
    have "of_char (digit_char n) = (48 + int n :: int)"
      using True of_digit_char [of n] by (metis of_nat_add of_nat_numeral of_nat_of_char)
    then show ?thesis using True by (subst nat_text.simps) (simp add: decimal_value_def)
  next
    case False
    have "of_char (digit_char (n mod 10)) = (48 + int (n mod 10) :: int)"
      using of_digit_char [of "n mod 10"] by (metis mod_less_divisor of_nat_add of_nat_numeral of_nat_of_char zero_less_numeral)
    then show ?thesis
      using False 1 by (subst nat_text.simps) (simp add: decimal_value_def zdiv_int zmod_int)
  qed
qed

lemma int_text_nat: "canonical_nat i \<Longrightarrow> list_all is_digit (int_text i) \<and> decimal_value (int_text i) = i"
  by (simp add: canonical_nat_def int_text_def nat_text_digits decimal_value_nat_text)

lemma digits_split:
  assumes "list_all is_digit xs" "list_all is_digit ys" "\<not> is_digit c" "xs @ c # us = ys @ c # vs"
  shows "xs = ys \<and> us = vs"
proof -
  have "takeWhile is_digit (xs @ c # us) = xs" "takeWhile is_digit (ys @ c # vs) = ys"
    using assms(1-3) by (simp_all add: takeWhile_append list_all_iff)
  then show ?thesis using assms(4) by simp
qed

lemma int_field_split:
  assumes "canonical_nat i" "canonical_nat j" "int_text i @ CHR '','' # us = int_text j @ CHR '','' # vs"
  shows "i = j \<and> us = vs"
proof -
  have "\<not> is_digit (CHR '','')" by (simp add: is_digit_def)
  then have "int_text i = int_text j \<and> us = vs"
    using digits_split assms int_text_nat by blast
  then show ?thesis using assms(1,2) int_text_nat by metis
qed

lemma position_valid:
  "position_init p = Inr q \<Longrightarrow> canonical_nat (op_device p) \<and> canonical_nat (op_inode p) \<and>
     canonical_nat (op_offset p) \<and> length (op_sha256 p) = 64"
  by (simp add: position_init_def is_sha256_hex_def split: if_splits)

lemma position_text_inj:
  assumes p: "position_init p = Inr p" and q: "position_init q = Inr q" and eq: "position_text p = position_text q"
  shows "p = q"
proof -
  note vp = position_valid [OF p] and vq = position_valid [OF q]
  let ?r3 = "\<lambda>p :: outbox_position. ''\"sha256\":\"'' @ op_sha256 p @ ''\",\"v\":1}''"
  let ?r2 = "\<lambda>p :: outbox_position. ''\"offset\":'' @ int_text (op_offset p) @ CHR '','' # ?r3 p"
  let ?r1 = "\<lambda>p :: outbox_position. ''\"inode\":'' @ int_text (op_inode p) @ CHR '','' # ?r2 p"
  have "int_text (op_device p) @ CHR '','' # ?r1 p = int_text (op_device q) @ CHR '','' # ?r1 q"
    using eq by (simp add: position_text_def)
  then have 1: "op_device p = op_device q \<and> ?r1 p = ?r1 q"
    using vp vq by (intro int_field_split) simp_all
  then have "int_text (op_inode p) @ CHR '','' # ?r2 p = int_text (op_inode q) @ CHR '','' # ?r2 q" by simp
  then have 2: "op_inode p = op_inode q \<and> ?r2 p = ?r2 q"
    using vp vq by (intro int_field_split) simp_all
  then have "int_text (op_offset p) @ CHR '','' # ?r3 p = int_text (op_offset q) @ CHR '','' # ?r3 q" by simp
  then have 3: "op_offset p = op_offset q \<and> ?r3 p = ?r3 q"
    using vp vq by (intro int_field_split) simp_all
  then have "op_sha256 p = op_sha256 q" using vp vq by simp
  then show ?thesis using 1 2 3 by simp
qed

lemma position_init_same: "position_init p = Inr q \<Longrightarrow> q = p"
  by (simp add: position_init_def split: if_splits)

lemma decode_Inr:
  assumes "decode_outbox_position nfc loads s = Inr p"
  shows "position_init p = Inr p \<and> encode_outbox_position nfc p = Inr s"
proof -
  obtain obj where obj: "loads s = Some (P_Dict obj)"
    using assms by (auto simp: decode_outbox_position_def position_error_def
        split: if_splits option.splits py_value.splits)
  with assms obtain q where q: "position_init q = Inr p" "encode_outbox_position nfc p = Inr s"
    by (auto simp: decode_outbox_position_def bind_res_eq_Inr position_error_def
        split: if_splits option.splits)
  then show ?thesis using position_init_same [OF q(1)] by simp
qed

text \<open>A stored position decodes to the position it was written for, or not at all.\<close>

lemma decode_encoded:
  assumes "ascii_stable nfc" "position_init p = Inr p" "encode_outbox_position nfc p = Inr t"
    "decode_outbox_position nfc loads t = Inr q"
  shows "q = p"
  using decode_Inr [OF assms(4)] assms(1-3) encode_position_text position_text_inj by metis

end
