(* ===== verification/Outbox_Stream.thy ===== *)
theory Outbox_Stream
  imports Outbox "HOL-Library.Multiset"
begin

text \<open>
  What the outbox reader promises over time. A producer appends to the active file, rotates it under
  the next sequence number and removes rotated files whose bytes were consumed; a consumer reads
  with its cursor and its high-water mark and keeps what the result says. The reader then delivers
  every accepted line of the stream exactly once and in order, whatever the interleaving.
\<close>

section \<open>Whole lines\<close>

definition whole :: "string \<Rightarrow> bool" where
  "whole s \<longleftrightarrow> s = [] \<or> last s = LF"

lemma whole_not_torn: "has_torn_tail s \<longleftrightarrow> \<not> whole s"
  by (auto simp: has_torn_tail_def whole_def)

lemma lines_cons: "LF \<notin> set l \<Longrightarrow> iter_complete_lines (l @ LF # s) = (l @ [LF]) # iter_complete_lines s"
  by (auto simp: iter_complete_lines_def split_on_lf_line split_on_lf_not_Nil)

lemma whole_split:
  assumes "whole s" "s \<noteq> []"
  obtains l r where "s = l @ LF # r" "LF \<notin> set l" "whole r" "length r < length s"
proof -
  have "last s \<in> set s" using assms(2) by (rule last_in_set)
  moreover have "last s = LF" using assms by (simp add: whole_def)
  ultimately have "LF \<in> set s" by simp
  then obtain l r where s: "s = l @ LF # r" "LF \<notin> set l" using split_list_first by fastforce
  moreover have "whole r" using assms(1) s(1) by (auto simp: whole_def split: if_splits)
  ultimately show ?thesis using that by simp
qed

lemma lines_append: "whole a \<Longrightarrow> iter_complete_lines (a @ b) = iter_complete_lines a @ iter_complete_lines b"
proof (induction "length a" arbitrary: a rule: less_induct)
  case less
  show ?case
  proof (cases "a = []")
    case False
    then obtain l r where a: "a = l @ LF # r" "LF \<notin> set l" "whole r" "length r < length a"
      using whole_split [OF less.prems] by blast
    then show ?thesis using less.hyps [OF a(4,3)] by (simp add: lines_cons)
  qed (simp add: iter_complete_lines_def)
qed

lemma concat_lines: "whole a \<Longrightarrow> concat (iter_complete_lines a) = a"
proof (induction "length a" arbitrary: a rule: less_induct)
  case less
  show ?case
  proof (cases "a = []")
    case False
    then obtain l r where a: "a = l @ LF # r" "LF \<notin> set l" "whole r" "length r < length a"
      using whole_split [OF less.prems] by blast
    then show ?thesis using less.hyps [OF a(4,3)] by (simp add: lines_cons)
  qed (simp add: iter_complete_lines_def)
qed

lemma complete_end_le: "complete_end s \<le> length s"
  by (simp add: complete_end_def) (metis length_dropWhile_le length_rev)

lemma complete_end_snoc: "complete_end (s @ [c]) = (if c = LF then Suc (length s) else complete_end s)"
  by (simp add: complete_end_def)

lemma whole_complete: "whole (take (complete_end s) s)"
proof (induction s rule: rev_induct)
  case (snoc c s)
  then show ?case using complete_end_le [of s] by (auto simp: complete_end_snoc whole_def)
qed (simp add: complete_end_def whole_def)

lemma complete_whole: "whole s \<Longrightarrow> complete_end s = length s"
  by (cases s rule: rev_cases) (auto simp: complete_end_snoc whole_def complete_end_def)

lemma complete_end_max: "n \<le> length s \<Longrightarrow> whole (take n s) \<Longrightarrow> n \<le> complete_end s"
proof (induction s arbitrary: n rule: rev_induct)
  case (snoc c s)
  show ?case
  proof (cases "n \<le> length s")
    case True
    then have "n \<le> complete_end s" using snoc by simp
    then show ?thesis using complete_end_le [of s] by (simp add: complete_end_snoc)
  next
    case False
    then have n: "n = Suc (length s)" using snoc.prems(1) by simp
    then show ?thesis using snoc.prems(2) by (auto simp: complete_end_snoc whole_def)
  qed
qed simp

section \<open>The accepted frames of a region\<close>

text \<open>The reference: each accepted line with its byte offset in its file.\<close>

definition accept_line :: "outbox_env \<Rightarrow> reader_config \<Rightarrow> string \<Rightarrow> outbox_frame option" where
  "accept_line en c line =
     (if rc_max_line c < int (length line) then None
      else case oe_frame en (butlast line) of None \<Rightarrow> None
        | Some f \<Rightarrow> if rc_allowlist c = [] \<or> fm_producer f \<in> set (rc_allowlist c) then Some f else None)"

fun line_frames :: "outbox_env \<Rightarrow> reader_config \<Rightarrow> int \<Rightarrow> string list \<Rightarrow> (outbox_frame \<times> int) list" where
  "line_frames en c offset [] = []"
| "line_frames en c offset (l # ls) =
     (case accept_line en c l of None \<Rightarrow> [] | Some f \<Rightarrow> [(f, offset)])
       @ line_frames en c (offset + int (length l)) ls"

definition region_frames :: "outbox_env \<Rightarrow> reader_config \<Rightarrow> int \<Rightarrow> string \<Rightarrow> (outbox_frame \<times> int) list" where
  "region_frames en c base region = line_frames en c base (iter_complete_lines region)"

definition file_frames :: "outbox_env \<Rightarrow> reader_config \<Rightarrow> string list \<Rightarrow> (outbox_frame \<times> int) list" where
  "file_frames en c contents = concat (map (region_frames en c 0) contents)"

lemma line_frames_append:
  "line_frames en c n (as @ bs) = line_frames en c n as @ line_frames en c (n + int (length (concat as))) bs"
  by (induction as arbitrary: n) (simp_all add: add.assoc)

lemma region_frames_append:
  "whole a \<Longrightarrow> region_frames en c n (a @ b) = region_frames en c n a @ region_frames en c (n + int (length a)) b"
  by (simp add: region_frames_def lines_append line_frames_append concat_lines)

lemma region_frames_Nil [simp]: "region_frames en c n [] = []"
  by (simp add: region_frames_def iter_complete_lines_def)

lemma file_frames_append: "file_frames en c (xs @ ys) = file_frames en c xs @ file_frames en c ys"
  by (simp add: file_frames_def)

definition pairs_of :: "parsed \<Rightarrow> (outbox_frame \<times> int) list" where
  "pairs_of p = zip (pa_frames p) (pa_offsets p)"

definition balanced :: "parsed \<Rightarrow> bool" where
  "balanced p \<longleftrightarrow> length (pa_frames p) = length (pa_offsets p)"

lemma parse_line_pairs:
  assumes "balanced into" "l \<noteq> []" "last l = LF"
  shows "balanced (parse_line en c n l into) \<and>
     pairs_of (parse_line en c n l into) = pairs_of into @ (case accept_line en c l of None \<Rightarrow> [] | Some f \<Rightarrow> [(f, n)])"
  using assms
  by (auto simp: balanced_def pairs_of_def parse_line_def accept_line_def parse_outbox_frame_line_def
      split: option.splits)

lemma parse_lines_pairs:
  "balanced into \<Longrightarrow> list_all (\<lambda>l. l \<noteq> [] \<and> last l = LF) ls \<Longrightarrow>
     balanced (parse_lines en c n ls into) \<and>
     pairs_of (parse_lines en c n ls into) = pairs_of into @ line_frames en c n ls"
proof (induction ls arbitrary: n into)
  case (Cons l ls)
  then have "balanced (parse_line en c n l into)"
      "pairs_of (parse_line en c n l into) = pairs_of into @ (case accept_line en c l of None \<Rightarrow> [] | Some f \<Rightarrow> [(f, n)])"
    using parse_line_pairs [of into l] by simp_all
  then show ?case using Cons by simp
qed simp

lemma lines_end: "list_all (\<lambda>l. l \<noteq> [] \<and> last l = LF) (iter_complete_lines r)"
  by (simp add: iter_complete_lines_def list_all_iff)

lemma parse_region_pairs:
  "balanced into \<Longrightarrow> balanced (parse_region en c n r into) \<and>
     pairs_of (parse_region en c n r into) = pairs_of into @ region_frames en c n r"
  unfolding parse_region_def region_frames_def by (rule parse_lines_pairs [OF _ lines_end])

lemma parse_regions_pairs:
  "balanced into \<Longrightarrow> balanced (parse_regions en c rs into) \<and>
     pairs_of (parse_regions en c rs into) = pairs_of into @ concat (map (\<lambda>(r, n). region_frames en c n r) rs)"
proof (induction rs arbitrary: into)
  case (Cons rn rs)
  obtain r n where rn: "rn = (r, n)" by (cases rn)
  then show ?case using parse_region_pairs [OF Cons.prems, of en c n r] Cons.IH by simp
qed simp

lemma nothing_balanced [simp]: "balanced nothing_parsed" "pairs_of nothing_parsed = []"
  by (simp_all add: balanced_def pairs_of_def nothing_parsed_def)

section \<open>What a read of the live chain returns\<close>

text \<open>
  A path \<open>yields\<close> a file when reading it, if it succeeds within the size bound, returns the file. A
  directory \<open>shows_rotations\<close> when the names the glob matches are exactly the retained rotations,
  in whatever order the platform lists them.
\<close>

type_synonym rotation = "int \<times> string \<times> file_read"

definition yields :: "reader_config \<Rightarrow> file_error + open_file \<Rightarrow> file_read \<Rightarrow> bool" where
  "yields c opened f \<longleftrightarrow> (case read_regular_file (rc_max_file c) opened of Inl _ \<Rightarrow> True | Inr f' \<Rightarrow> f' = f)"

definition shows_rotation :: "reader_config \<Rightarrow> string \<Rightarrow> rotation \<Rightarrow> string \<times> (file_error + open_file) \<Rightarrow> bool" where
  "shows_rotation c g r e \<longleftrightarrow> fst e = fst (snd r) \<and> rotation_sequence g (fst e) = Some (fst r) \<and>
     yields c (snd e) (snd (snd r))"

definition shows_rotations :: "reader_config \<Rightarrow> string \<Rightarrow> rotation list \<Rightarrow> directory \<Rightarrow> bool" where
  "shows_rotations c g rs dir \<longleftrightarrow>
     (\<exists>es. mset es = mset (filter (\<lambda>e. glob_matches g (fst e)) dir) \<and> list_all2 (shows_rotation c g) rs es)"

definition rotation_entry :: "rotation \<Rightarrow> int \<times> file_read" where
  "rotation_entry r = (fst r, snd (snd r))"

lemma entry_key [simp]: "fst (rotation_entry r) = fst r" "fst \<circ> rotation_entry = fst"
  by (auto simp: rotation_entry_def)

definition identity_of :: "file_read \<Rightarrow> int \<times> int" where
  "identity_of f = (fd_device f, fd_inode f)"

lemma collect_shown:
  assumes "list_all2 (shows_rotation c g) rs es" "distinct (map fst rs)"
    "\<forall>r \<in> set rs. identity_of (snd (snd r)) \<noteq> identity_of active" "fst ` set found \<inter> fst ` set rs = {}"
    "collect_rotations c g active es found = Inr v"
  shows "v = (found @ map rotation_entry rs, None)"
  using assms
proof (induction rs es arbitrary: found rule: list_all2_induct)
  case (Cons r rs e es)
  obtain name opened where e: "e = (name, opened)" by (cases e)
  obtain f where f: "read_regular_file (rc_max_file c) opened = Inr f"
    using Cons.prems(4) Cons.hyps(1) by (auto simp: e shows_rotation_def bind_res_eq_Inr)
  then have same: "f = snd (snd r)" "rotation_sequence g name = Some (fst r)"
    using Cons.hyps(1) by (auto simp: e shows_rotation_def yields_def)
  have "\<not> (fd_device f = fd_device active \<and> fd_inode f = fd_inode active)"
    using Cons.prems(2) same(1) by (auto simp: identity_of_def)
  moreover have "fst r \<notin> fst ` set found" using Cons.prems(3) by auto
  ultimately have "collect_rotations c g active es (found @ [rotation_entry r]) = Inr v"
    using Cons.prems(4) same f by (auto simp: e rotation_entry_def split: if_splits)
  from Cons.IH [OF _ _ _ this] show ?case
    using Cons.prems(1-3) by (auto simp: rotation_entry_def)
qed simp

text \<open>Consecutive sequence numbers, the last one before \<open>n\<close>.\<close>

definition numbered :: "int \<Rightarrow> rotation list \<Rightarrow> bool" where
  "numbered n rs \<longleftrightarrow> map fst rs = map (\<lambda>k. n - int (length rs) + int k) [0..<length rs]"

lemma numbered_nth: "numbered n rs \<Longrightarrow> k < length rs \<Longrightarrow> fst (rs ! k) = n - int (length rs) + int k"
  using nth_map [of k rs fst] by (simp add: numbered_def)

lemma numbered_distinct: "numbered n rs \<Longrightarrow> distinct (map fst rs)"
  by (simp add: numbered_def distinct_map inj_on_def)

lemma numbered_sorted: "numbered n rs \<Longrightarrow> sorted (map fst rs)"
  by (simp add: numbered_def sorted_map sorted_wrt_iff_nth_less)

lemma discover_shown:
  assumes shown: "shows_rotations c g rs dir" and num: "numbered n rs"
    and ids: "\<forall>r \<in> set rs. identity_of (snd (snd r)) \<noteq> identity_of active"
    and disc: "discover_rotations c g dir active = Inr v"
  obtains found where "v = (found, None)" "mset found = mset (map rotation_entry rs)"
    "sort_key fst found = map rotation_entry rs"
proof -
  let ?es = "sort_key fst (filter (\<lambda>e. glob_matches g (fst e)) dir)"
  obtain es where es: "mset es = mset ?es" "list_all2 (shows_rotation c g) rs es"
    using shown by (auto simp: shows_rotations_def)
  have "list_all2 (\<lambda>e r. shows_rotation c g r e) es rs"
    using es(2) by (simp add: list_all2_conv_all_nth)
  then obtain rs' where flipped: "list_all2 (\<lambda>e r. shows_rotation c g r e) ?es rs'" "mset rs' = mset rs"
    using list_all2_reorder_left_invariance es(1) by metis
  have rs': "list_all2 (shows_rotation c g) rs' ?es" "mset rs' = mset rs"
    using flipped by (simp_all add: list_all2_conv_all_nth)
  have dist: "distinct (map fst rs')"
    using numbered_distinct [OF num] rs'(2) by (metis mset_eq_imp_distinct_iff mset_map)
  have "v = ([] @ map rotation_entry rs', None)"
  proof (rule collect_shown [OF rs'(1) dist])
    show "\<forall>r\<in>set rs'. identity_of (snd (snd r)) \<noteq> identity_of active"
      using ids mset_eq_setD [OF rs'(2)] by simp
  qed (use disc in \<open>simp_all add: discover_rotations_def\<close>)
  moreover have ms: "mset (map rotation_entry rs') = mset (map rotation_entry rs)"
    using rs'(2) by simp
  moreover have "sort_key fst (map rotation_entry rs') = map rotation_entry rs"
  proof -
    have keys: "map fst (map rotation_entry rs) = map fst rs" by simp
    have "sort_key fst (map rotation_entry rs') = sort_key fst (map rotation_entry rs)"
      by (rule sort_items_unique) (use ms numbered_distinct [OF num] keys in \<open>simp_all del: map_map\<close>)
    also have "\<dots> = map rotation_entry rs"
      by (rule sort_key_id_if_sorted) (use numbered_sorted [OF num] keys in simp)
    finally show ?thesis .
  qed
  ultimately show ?thesis using that by simp
qed

text \<open>A result that moves the cursor to the end of the active file's last complete line.\<close>

definition advanced :: "outbox_env \<Rightarrow> file_read \<Rightarrow> read_result \<Rightarrow> bool" where
  "advanced en active r \<longleftrightarrow> rr_loss r = None \<and>
     rr_position r = \<lparr>op_device = fd_device active, op_inode = fd_inode active,
       op_offset = int (complete_end (fd_content active)),
       op_sha256 = oe_sha_hex en (take (complete_end (fd_content active)) (fd_content active))\<rparr> \<and>
     position_init (rr_position r) = Inr (rr_position r) \<and>
     encode_outbox_position (oe_nfc en) (rr_position r) = Inr (rr_string r)"

definition result_pairs :: "read_result \<Rightarrow> (outbox_frame \<times> int) list" where
  "result_pairs r = zip (rr_frames r) (rr_offsets r)"

lemma success_Inr:
  assumes "next_position en active n = Inr np" "success en p np a b d obs = Inr r" "n = complete_end (fd_content active)"
  shows "advanced en active r \<and> result_pairs r = pairs_of p \<and> rr_max_observed r = obs"
proof -
  have np: "np = \<lparr>op_device = fd_device active, op_inode = fd_inode active, op_offset = int n,
      op_sha256 = oe_sha_hex en (take n (fd_content active))\<rparr>" "position_init np = Inr np"
    using assms(1) position_init_same unfolding next_position_def by fastforce+
  obtain t where "encode_outbox_position (oe_nfc en) np = Inr t" "rr_string r = t" "rr_position r = np"
      "rr_loss r = None" "rr_frames r = pa_frames p" "rr_offsets r = pa_offsets p" "rr_max_observed r = obs"
    using assms(2) by (auto simp: success_def bind_res_eq_Inr)
  then show ?thesis using np assms(3) by (simp add: advanced_def result_pairs_def pairs_of_def)
qed

lemma read_chain_Inr:
  assumes "read_chain en c active regions crossed obs = Inr r"
  shows "advanced en active r \<and> rr_max_observed r = obs \<and>
     result_pairs r = concat (map (\<lambda>(s, n). region_frames en c n s) regions)
       @ region_frames en c 0 (take (complete_end (fd_content active)) (fd_content active))"
proof -
  let ?n = "complete_end (fd_content active)"
  let ?all = "regions @ [(take ?n (fd_content active), 0)]"
  obtain np a b d where "next_position en active ?n = Inr np"
      "success en (parse_regions en c ?all nothing_parsed) np a b d obs = Inr r"
    using assms by (auto simp: read_chain_def Let_def bind_res_eq_Inr)
  from success_Inr [OF this refl] show ?thesis
    using parse_regions_pairs [OF nothing_balanced(1), of en c ?all] by simp
qed

lemma read_tail_Inr:
  assumes "read_tail en c active n = Inr r" "n \<le> length (fd_content active)" "whole (take n (fd_content active))"
  shows "advanced en active r \<and> rr_max_observed r = None \<and>
     result_pairs r = region_frames en c (int n) (drop n (take (complete_end (fd_content active)) (fd_content active)))"
proof -
  let ?e = "complete_end (fd_content active)"
  have e: "max ?e n = ?e" using complete_end_max [OF assms(2,3)] by simp
  obtain np a b d where "next_position en active ?e = Inr np"
      "success en (parse_region en c (int n) (drop n (take ?e (fd_content active))) nothing_parsed) np a b d None = Inr r"
    using assms(1) by (auto simp: read_tail_def Let_def bind_res_eq_Inr e)
  from success_Inr [OF this refl] show ?thesis
    using parse_region_pairs [OF nothing_balanced(1), of en c "int n"] by simp
qed

section \<open>Sequence numbers\<close>

lemma numbered_split:
  assumes "numbered n (pre @ x # post)"
  shows "fst x = n - int (length post) - 1"
    and "\<forall>r \<in> set pre. fst r < fst x" and "\<forall>r \<in> set post. fst x < fst r"
    and "map fst post = map (\<lambda>k. fst x + 1 + int k) [0..<length post]"
proof -
  let ?rs = "pre @ x # post"
  have nth: "fst (?rs ! k) = n - int (length ?rs) + int k" if "k < length ?rs" for k
    using numbered_nth [OF assms that] .
  show x: "fst x = n - int (length post) - 1" using nth [of "length pre"] by simp
  show "\<forall>r \<in> set pre. fst r < fst x"
  proof
    fix r assume "r \<in> set pre"
    then obtain k where "k < length pre" "r = pre ! k" by (auto simp: in_set_conv_nth)
    then show "fst r < fst x" using nth [of k] x by (simp add: nth_append)
  qed
  have post: "fst (post ! k) = fst x + 1 + int k" if "k < length post" for k
    using nth [of "length pre + 1 + k"] that x by (simp add: nth_append)
  show "\<forall>r \<in> set post. fst x < fst r"
  proof
    fix r assume "r \<in> set post"
    then obtain k where "k < length post" "r = post ! k" by (metis in_set_conv_nth)
    then show "fst x < fst r" using post [of k] by simp
  qed
  show "map fst post = map (\<lambda>k. fst x + 1 + int k) [0..<length post]"
    by (rule nth_equalityI) (simp_all add: post)
qed

lemma numbered_contiguous: "numbered n rs \<Longrightarrow> contiguous (map fst rs)"
proof -
  assume num: "numbered n rs"
  show ?thesis
  proof (cases rs)
    case (Cons x post)
    have "map fst rs = map (\<lambda>k. fst x + int k) [0..<length rs]"
      using numbered_nth [OF num, of 0] num Cons by (simp add: numbered_def del: upt_Suc)
    then have "fst x # map fst post = map (\<lambda>k. fst x + int k) [0..<length (fst x # map fst post)]"
      by (simp add: Cons del: upt_Suc)
    then show ?thesis unfolding Cons list.map contiguous_def list.case .
  qed (simp add: contiguous_def)
qed

lemma numbered_Max:
  assumes "numbered n rs" "rs \<noteq> []"
  shows "Max (set (map fst rs)) = n - 1"
proof -
  obtain pre x where rs: "rs = pre @ [x]" using assms(2) by (cases rs rule: rev_cases) auto
  then have "fst x = n - 1" "\<forall>r \<in> set pre. fst r < fst x"
    using numbered_split [of n pre x "[]"] assms(1) by simp_all
  then show ?thesis
    unfolding rs by (intro Max_eqI) auto
qed

lemma rotations_after:
  assumes "numbered n (pre @ x # post)" "sort_key fst found = map rotation_entry (pre @ x # post)"
  shows "rotations_above (fst x) found = map rotation_entry post"
proof -
  have "rotations_above (fst x) found = filter (\<lambda>e. fst x < fst e) (map rotation_entry (pre @ x # post))"
    unfolding rotations_above_def assms(2) [symmetric] by (simp add: filter_sort)
  also have "\<dots> = map rotation_entry (filter (\<lambda>r. fst x < fst r) (pre @ x # post))"
    by (simp add: filter_map comp_def)
  also have "filter (\<lambda>r. fst x < fst r) (pre @ x # post) = post"
    using numbered_split(2,3) [OF assms(1)] by (auto simp: filter_empty_conv filter_id_conv)
  finally show ?thesis .
qed

section \<open>The stream and its consumer\<close>

record stream =
  st_gone :: "string list"
  st_rotated :: "rotation list"
  st_active :: file_read
  st_next :: int
  st_cursor :: "string option"
  st_high :: "int option"
  st_taken :: "(outbox_frame \<times> int) list"

definition fold_high_water :: "int option \<Rightarrow> int option \<Rightarrow> int option" where
  "fold_high_water prior observed =
     (case observed of None \<Rightarrow> prior
      | Some n \<Rightarrow> (case prior of None \<Rightarrow> Some n | Some m \<Rightarrow> Some (max m n)))"

text \<open>
  What a collection keeps of a result: nothing of a loss, nothing of a read without frames, else the
  frames, the new position and the folded high-water mark.
\<close>

definition take_result :: "read_result \<Rightarrow> stream \<Rightarrow> stream" where
  "take_result r s =
     (if rr_loss r \<noteq> None \<or> rr_frames r = [] then s
      else s\<lparr>st_cursor := Some (rr_string r), st_high := fold_high_water (st_high s) (rr_max_observed r),
             st_taken := st_taken s @ result_pairs r\<rparr>)"

definition chain :: "stream \<Rightarrow> file_read list" where
  "chain s = map (\<lambda>r. snd (snd r)) (st_rotated s) @ [st_active s]"

definition position_identity :: "outbox_position \<Rightarrow> int \<times> int" where
  "position_identity p = (op_device p, op_inode p)"

definition consumer_reads ::
  "outbox_env \<Rightarrow> reader_config \<Rightarrow> string \<Rightarrow> stream \<Rightarrow> read_result \<Rightarrow> bool" where
  "consumer_reads en c g s r \<longleftrightarrow>
     (\<exists>file dir cursor. yields c file (st_active s) \<and> shows_rotations c g (st_rotated s) dir \<and>
        map_option sc_position cursor = st_cursor s \<and>
        read_outbox en c file dir cursor (st_high s) = Inr r)"

text \<open>
  The compliant producer: it rotates a whole file to the next sequence number and goes on in a file
  of a fresh identity, and removes only the oldest file, once the consumer's position has left it.
\<close>

inductive stream_step :: "outbox_env \<Rightarrow> reader_config \<Rightarrow> string \<Rightarrow> stream \<Rightarrow> stream \<Rightarrow> bool"
  for en c g where
  append: "stream_step en c g s
     (s\<lparr>st_active := (st_active s)\<lparr>fd_content := fd_content (st_active s) @ bytes\<rparr>\<rparr>)"
| rotate: "whole (fd_content (st_active s)) \<Longrightarrow> identity_of new \<notin> identity_of ` set (chain s) \<Longrightarrow>
     fd_content new = [] \<Longrightarrow>
     stream_step en c g s (s\<lparr>st_rotated := st_rotated s @ [(st_next s, name, st_active s)],
       st_active := new, st_next := st_next s + 1\<rparr>)"
| remove: "st_rotated s = x # rest \<Longrightarrow> st_cursor s = Some text \<Longrightarrow>
     encode_outbox_position (oe_nfc en) p = Inr text \<Longrightarrow> position_init p = Inr p \<Longrightarrow>
     position_identity p \<noteq> identity_of (snd (snd x)) \<Longrightarrow>
     stream_step en c g s (s\<lparr>st_gone := st_gone s @ [fd_content (snd (snd x))], st_rotated := rest\<rparr>)"
| read: "consumer_reads en c g s r \<Longrightarrow> stream_step en c g s (take_result r s)"

inductive stream_run :: "outbox_env \<Rightarrow> reader_config \<Rightarrow> string \<Rightarrow> stream \<Rightarrow> bool" for en c g where
  fresh: "numbered n rs \<Longrightarrow> distinct (map (\<lambda>r. identity_of (snd (snd r))) rs @ [identity_of f]) \<Longrightarrow>
     list_all (\<lambda>r. whole (fd_content (snd (snd r)))) rs \<Longrightarrow>
     stream_run en c g \<lparr>st_gone = [], st_rotated = rs, st_active = f, st_next = n, st_cursor = None,
       st_high = None, st_taken = []\<rparr>"
| onward: "stream_run en c g s \<Longrightarrow> stream_step en c g s s' \<Longrightarrow> stream_run en c g s'"

section \<open>The invariant\<close>

definition at_cursor :: "outbox_env \<Rightarrow> reader_config \<Rightarrow> stream \<Rightarrow> outbox_position \<Rightarrow> bool" where
  "at_cursor en c s p \<longleftrightarrow>
     (\<exists>pre f post n. chain s = pre @ f # post \<and> identity_of f = position_identity p \<and> op_offset p = int n \<and>
        n \<le> length (fd_content f) \<and> whole (take n (fd_content f)) \<and>
        op_sha256 p = oe_sha_hex en (take n (fd_content f)) \<and>
        st_taken s = file_frames en c (st_gone s @ map fd_content pre)
          @ region_frames en c 0 (take n (fd_content f)))"

definition stream_inv :: "outbox_env \<Rightarrow> reader_config \<Rightarrow> stream \<Rightarrow> bool" where
  "stream_inv en c s \<longleftrightarrow> numbered (st_next s) (st_rotated s) \<and> distinct (map identity_of (chain s)) \<and>
     list_all (\<lambda>r. whole (fd_content (snd (snd r)))) (st_rotated s) \<and>
     (\<forall>h. st_high s = Some h \<longrightarrow> h < st_next s) \<and>
     (case st_cursor s of
        None \<Rightarrow> st_gone s = [] \<and> st_taken s = []
      | Some text \<Rightarrow> \<exists>p. position_init p = Inr p \<and> encode_outbox_position (oe_nfc en) p = Inr text \<and>
          at_cursor en c s p)"

text \<open>The frames of the whole stream, up to the last complete line.\<close>

definition stream_frames :: "outbox_env \<Rightarrow> reader_config \<Rightarrow> stream \<Rightarrow> (outbox_frame \<times> int) list" where
  "stream_frames en c s =
     (let content = fd_content (st_active s) in
      file_frames en c (st_gone s @ map (\<lambda>r. fd_content (snd (snd r))) (st_rotated s))
        @ region_frames en c 0 (take (complete_end content) content))"

section \<open>A read of a live stream\<close>

text \<open>What a read that returns gives in a state with the invariant: never a loss.\<close>

definition good_read :: "outbox_env \<Rightarrow> reader_config \<Rightarrow> stream \<Rightarrow> read_result \<Rightarrow> bool" where
  "good_read en c s r \<longleftrightarrow> advanced en (st_active s) r \<and> st_taken s @ result_pairs r = stream_frames en c s \<and>
     (\<forall>m. rr_max_observed r = Some m \<longrightarrow> m < st_next s)"

lemma active_identity:
  assumes "distinct (map identity_of (chain s))"
  shows "\<forall>r \<in> set (st_rotated s). identity_of (snd (snd r)) \<noteq> identity_of (st_active s)"
  using assms by (force simp: chain_def)

lemma good_from_start:
  assumes inv: "stream_inv en c s" and fresh: "st_cursor s = None"
    and dir: "shows_rotations c g (st_rotated s) dir" and glob: "rc_glob c = Some g"
    and read: "read_from_start en c dir (st_active s) = Inr r"
  shows "good_read en c s r"
proof -
  have empty: "st_gone s = []" "st_taken s = []" using inv fresh by (simp_all add: stream_inv_def)
  have num: "numbered (st_next s) (st_rotated s)"
    and ids: "distinct (map identity_of (chain s))"
    and wholes: "list_all (\<lambda>r. whole (fd_content (snd (snd r)))) (st_rotated s)"
    using inv by (simp_all add: stream_inv_def)
  obtain v where v: "discover_rotations c g dir (st_active s) = Inr v"
    using read glob by (auto simp: read_from_start_def bind_res_eq_Inr)
  obtain found where found: "v = (found, None)" "mset found = mset (map rotation_entry (st_rotated s))"
      "sort_key fst found = map rotation_entry (st_rotated s)"
    by (rule discover_shown [OF dir num active_identity [OF ids] v])
  show ?thesis
  proof (cases "st_rotated s = []")
    case True
    then have "read_tail en c (st_active s) 0 = Inr r"
      using read glob v found(1,2) by (simp add: read_from_start_def read_same_file_def)
    from read_tail_Inr [OF this] show ?thesis
      using empty True by (simp add: good_read_def stream_frames_def Let_def whole_def file_frames_def)
  next
    case False
    then have ne: "found \<noteq> []" using found(2) by auto
    have keys: "set (map fst found) = set (map fst (st_rotated s))"
      using found(3) by (metis entry_key(2) map_map set_map set_sort)
    have whole_all: "\<not> list_ex (\<lambda>(_, read). has_torn_tail (fd_content read)) (map rotation_entry (st_rotated s))"
      using wholes by (auto simp: list_ex_iff list_all_iff rotation_entry_def whole_not_torn)
    have contig: "contiguous (map fst (map rotation_entry (st_rotated s)))"
      using numbered_contiguous [OF num] by simp
    have "read_chain en c (st_active s)
        (map (\<lambda>(_, read). (fd_content read, 0)) (map rotation_entry (st_rotated s)))
        (int (length (map rotation_entry (st_rotated s)))) (Some (st_next s - 1)) = Inr r"
      using read glob v ne contig whole_all numbered_Max [OF num False]
      by (simp add: read_from_start_def found(1,3) Let_def keys del: map_map set_map)
    from read_chain_Inr [OF this] show ?thesis
      using empty by (simp add: good_read_def stream_frames_def Let_def file_frames_def rotation_entry_def comp_def)
  qed
qed

lemma same_identity:
  assumes "distinct (map identity_of xs)" "f \<in> set xs" "h \<in> set xs" "identity_of f = identity_of h"
  shows "f = h"
  using assms by (metis distinct_map inj_onD)

lemma good_same_file:
  assumes ids: "distinct (map identity_of (chain s))" and at: "at_cursor en c s p"
    and same: "identity_of (st_active s) = position_identity p"
    and read: "read_same_file en c (st_active s) (Some p) = Inr r"
  shows "good_read en c s r"
proof -
  obtain pre f post n where f: "chain s = pre @ f # post" "identity_of f = position_identity p"
      "op_offset p = int n" "n \<le> length (fd_content f)" "whole (take n (fd_content f))"
      "op_sha256 p = oe_sha_hex en (take n (fd_content f))"
      "st_taken s = file_frames en c (st_gone s @ map fd_content pre) @ region_frames en c 0 (take n (fd_content f))"
    using at by (auto simp: at_cursor_def)
  have "f \<in> set (chain s)" using f(1) by simp
  moreover have "st_active s \<in> set (chain s)" by (simp add: chain_def)
  ultimately have "f = st_active s" using same_identity [OF ids] f(2) same by simp
  have "post = []"
  proof (rule ccontr)
    assume "post \<noteq> []"
    then obtain post' where "post = post' @ [st_active s]"
      using f(1) by (cases post rule: rev_cases) (auto simp: chain_def)
    then show False using ids \<open>f = st_active s\<close> unfolding f(1) by simp
  qed
  then have pre: "pre = map (\<lambda>r. snd (snd r)) (st_rotated s)"
    using f(1) \<open>f = st_active s\<close> by (simp add: chain_def)
  let ?c = "fd_content (st_active s)"
  have tail: "read_tail en c (st_active s) n = Inr r"
    using read f \<open>f = st_active s\<close> by (auto simp: read_same_file_def bind_res_eq_Inr Let_def)
  note tail_r = read_tail_Inr [OF tail]
  have n: "n \<le> length ?c" "whole (take n ?c)" using f \<open>f = st_active s\<close> by simp_all
  have parts: "take (complete_end ?c) ?c = take n ?c @ drop n (take (complete_end ?c) ?c)"
    using complete_end_max [OF n] by (metis append_take_drop_id min.absorb1 take_take)
  have "region_frames en c 0 (take (complete_end ?c) ?c) =
      region_frames en c 0 (take n ?c) @ region_frames en c (int n) (drop n (take (complete_end ?c) ?c))"
    by (subst parts) (use region_frames_append [OF n(2), of en c 0] n(1) in simp)
  then show ?thesis
    using tail_r [OF n] f(7) pre \<open>f = st_active s\<close>
    by (simp add: good_read_def stream_frames_def Let_def comp_def)
qed

lemma find_SomeD: "find P xs = Some x \<Longrightarrow> x \<in> set xs \<and> P x"
  by (induction xs) (auto split: if_splits)

lemma good_recovery:
  assumes inv: "stream_inv en c s" and at: "at_cursor en c s p"
    and other: "identity_of (st_active s) \<noteq> position_identity p"
    and dir: "shows_rotations c g (st_rotated s) dir" and glob: "rc_glob c = Some g"
    and read: "recover_rotation en c dir (st_active s) p text (st_high s) = Inr r"
  shows "good_read en c s r"
proof -
  have num: "numbered (st_next s) (st_rotated s)" and ids: "distinct (map identity_of (chain s))"
    and wholes: "list_all (\<lambda>r. whole (fd_content (snd (snd r)))) (st_rotated s)"
    and high: "\<forall>h. st_high s = Some h \<longrightarrow> h < st_next s"
    using inv by (simp_all add: stream_inv_def)
  obtain pre f post n where f: "chain s = pre @ f # post" "identity_of f = position_identity p"
      "op_offset p = int n" "n \<le> length (fd_content f)" "whole (take n (fd_content f))"
      "op_sha256 p = oe_sha_hex en (take n (fd_content f))"
      "st_taken s = file_frames en c (st_gone s @ map fd_content pre) @ region_frames en c 0 (take n (fd_content f))"
    using at by (auto simp: at_cursor_def)
  have "post \<noteq> []"
    using f(1,2) other by (auto simp: chain_def)
  then obtain later where later: "post = later @ [st_active s]"
      "map (\<lambda>r. snd (snd r)) (st_rotated s) = pre @ f # later"
    using f(1) by (cases post rule: rev_cases) (auto simp: chain_def)
  then obtain rpre x rpost where rs: "st_rotated s = rpre @ x # rpost" "map (\<lambda>r. snd (snd r)) rpre = pre"
      "snd (snd x) = f" "map (\<lambda>r. snd (snd r)) rpost = later"
    by (auto simp: map_eq_append_conv map_eq_Cons_conv)
  obtain v where v: "discover_rotations c g dir (st_active s) = Inr v"
    using read glob by (auto simp: recover_rotation_def bind_res_eq_Inr)
  obtain found where found: "v = (found, None)" "mset found = mset (map rotation_entry (st_rotated s))"
      "sort_key fst found = map rotation_entry (st_rotated s)"
    by (rule discover_shown [OF dir num active_identity [OF ids] v])
  have set_found: "set found = rotation_entry ` set (st_rotated s)"
    using found(3) by (metis list.set_map set_sort)
  have x_in: "rotation_entry x \<in> set found" using set_found rs(1) by simp
  have "cursor_rotation p found = Some (fst x, f)"
  proof -
    let ?P = "\<lambda>(_ :: int, read). fd_device read = op_device p \<and> fd_inode read = op_inode p"
    have Px: "?P (rotation_entry x)"
      using f(2) rs(3) by (simp add: rotation_entry_def identity_of_def position_identity_def)
    have only: "e = rotation_entry x" if mem: "e \<in> set found" "?P e" for e
    proof -
      obtain r where r: "r \<in> set (st_rotated s)" "e = rotation_entry r"
        using mem(1) set_found by blast
      then have "identity_of (snd (snd r)) = identity_of (snd (snd x))"
        using mem(2) f(2) rs(3) by (simp add: rotation_entry_def identity_of_def position_identity_def)
      moreover have "inj_on (\<lambda>r. identity_of (snd (snd r))) (set (st_rotated s))"
        using ids by (simp add: chain_def distinct_map comp_def)
      ultimately have "r = x"
        using r(1) rs(1) by (elim inj_onD) simp_all
      then show ?thesis using r(2) by simp
    qed
    have "find ?P found \<noteq> None"
      by (simp only: find_None_iff not_not) (rule exI [of _ "rotation_entry x"], rule conjI [OF x_in Px])
    then obtain e where e: "find ?P found = Some e" by blast
    have "e = rotation_entry x" by (rule only) (use find_SomeD [OF e] in blast)+
    then show ?thesis using e rs(3) by (simp add: cursor_rotation_def rotation_entry_def)
  qed
  note cursor = this
  have above: "rotations_above (fst x) found = map rotation_entry rpost"
    by (rule rotations_after) (use num found(3) rs(1) in simp_all)
  have run: "map fst (map rotation_entry rpost) = map (\<lambda>k. fst x + 1 + int k) [0..<length (map rotation_entry rpost)]"
    using numbered_split(4) [of "st_next s" rpre x rpost] num rs(1) by simp
  have observed: "Max (set (map fst found)) = st_next s - 1"
    using numbered_Max [OF num] rs(1) found(3) by (metis Nil_is_append_conv entry_key(2) list.distinct(1) map_map set_map set_sort)
  have torn: "\<not> has_torn_tail (fd_content f)" "first_torn (map rotation_entry rpost) = None"
    using wholes rs by (auto simp: first_torn_def find_None_iff list_all_iff rotation_entry_def whole_not_torn)
  have high_ok: "\<not> (case (st_high s, Some (st_next s - 1)) of (Some h, Some m) \<Rightarrow> m < h | _ \<Rightarrow> False)"
    using high by (cases "st_high s") auto
  have ne: "found \<noteq> []" using x_in by auto
  have "read_chain en c (st_active s)
      ((drop n (fd_content f), int n) # map (\<lambda>(_, read). (fd_content read, 0)) (map rotation_entry rpost))
      (1 + int (length (map rotation_entry rpost))) (Some (st_next s - 1)) = Inr r"
    using read glob v found(1) cursor above run observed ne high_ok torn f(3,4,6)
    by (simp add: recover_rotation_def recover_chain_def Let_def del: map_map set_map list.map)
  from read_chain_Inr [OF this] have r: "advanced en (st_active s) r" "rr_max_observed r = Some (st_next s - 1)"
      "result_pairs r = region_frames en c (int n) (drop n (fd_content f)) @
        file_frames en c (map fd_content later) @
        region_frames en c 0 (take (complete_end (fd_content (st_active s))) (fd_content (st_active s)))"
    using rs(4) by (auto simp: rotation_entry_def comp_def file_frames_def)
  have "region_frames en c 0 (fd_content f) =
      region_frames en c 0 (take n (fd_content f)) @ region_frames en c (int n) (drop n (fd_content f))"
    using region_frames_append [OF f(5), of en c 0 "drop n (fd_content f)"] f(4) by simp
  moreover have "map (\<lambda>r. fd_content (snd (snd r))) (st_rotated s) = map fd_content pre @ fd_content f # map fd_content later"
    using arg_cong [OF later(2), of "map fd_content"] by (simp add: comp_def)
  ultimately show ?thesis
    using r f(7) by (simp add: good_read_def stream_frames_def Let_def file_frames_def)
qed

lemma consumer_read_good:
  assumes inv: "stream_inv en c s" and nfc: "ascii_stable (oe_nfc en)" and glob: "rc_glob c = Some g"
    and reads: "consumer_reads en c g s r"
  shows "good_read en c s r"
proof -
  obtain opened dir cursor where w: "yields c opened (st_active s)" "shows_rotations c g (st_rotated s) dir"
      "map_option sc_position cursor = st_cursor s" "read_outbox en c opened dir cursor (st_high s) = Inr r"
    using reads by (auto simp: consumer_reads_def)
  have ids: "distinct (map identity_of (chain s))" using inv by (simp add: stream_inv_def)
  obtain prior active where run: "read_regular_file (rc_max_file c) opened = Inr active"
    using w(4) by (auto simp: read_outbox_def bind_res_eq_Inr)
  then have active: "active = st_active s" using w(1) by (simp add: yields_def)
  show ?thesis
  proof (cases cursor)
    case None
    then have "read_from_start en c dir (st_active s) = Inr r" "st_cursor s = None"
      using w(3,4) run active by (auto simp: read_outbox_def bind_res_eq_Inr)
    then show ?thesis using good_from_start [OF inv _ w(2) glob] by blast
  next
    case (Some sc)
    then have cur: "st_cursor s = Some (sc_position sc)" using w(3) by simp
    obtain p where p: "position_init p = Inr p" "encode_outbox_position (oe_nfc en) p = Inr (sc_position sc)"
        "at_cursor en c s p"
      using inv cur by (auto simp: stream_inv_def)
    obtain q where q: "decode_outbox_position (oe_nfc en) (oe_loads en) (sc_position sc) = Inr q"
        "(if fd_device active = op_device q \<and> fd_inode active = op_inode q
          then read_same_file en c active (Some q)
          else recover_rotation en c dir active q (sc_position sc) (st_high s)) = Inr r"
      using w(4) run Some by (auto simp: read_outbox_def bind_res_eq_Inr outbox_position_from_cursor_def cong: if_cong)
    have "q = p" by (rule decode_encoded [OF nfc p(1,2) q(1)])
    show ?thesis
    proof (cases "identity_of (st_active s) = position_identity p")
      case True
      then have "read_same_file en c (st_active s) (Some p) = Inr r"
        using q(2) \<open>q = p\<close> active by (simp add: identity_of_def position_identity_def)
      then show ?thesis by (rule good_same_file [OF ids p(3) True])
    next
      case False
      then have "recover_rotation en c dir (st_active s) p (sc_position sc) (st_high s) = Inr r"
        using q(2) \<open>q = p\<close> active by (auto simp: identity_of_def position_identity_def)
      then show ?thesis by (rule good_recovery [OF inv p(3) False w(2) glob])
    qed
  qed
qed

section \<open>The steps keep the invariant\<close>

lemma at_cursor_chain:
  assumes at: "at_cursor en c s p" and taken: "st_taken s' = st_taken s" and gone: "st_gone s' = st_gone s"
    and grows: "chain s = xs @ [a]" "chain s' = xs @ [a'] @ extra" "identity_of a' = identity_of a"
      "fd_content a' = fd_content a @ bytes"
  shows "at_cursor en c s' p"
proof -
  obtain pre f post n where f: "chain s = pre @ f # post" "identity_of f = position_identity p"
      "op_offset p = int n" "n \<le> length (fd_content f)" "whole (take n (fd_content f))"
      "op_sha256 p = oe_sha_hex en (take n (fd_content f))"
      "st_taken s = file_frames en c (st_gone s @ map fd_content pre) @ region_frames en c 0 (take n (fd_content f))"
    using at by (auto simp: at_cursor_def)
  show ?thesis
  proof (cases post rule: rev_cases)
    case Nil
    then have "pre = xs" "f = a" using f(1) grows(1) by simp_all
    then show ?thesis
      using f taken gone grows unfolding at_cursor_def
      by (intro exI [of _ pre] exI [of _ a'] exI [of _ extra] exI [of _ n]) simp
  next
    case (snoc post' z)
    then have "xs = pre @ f # post'" using f(1) grows(1) by simp
    then show ?thesis
      using f taken gone grows unfolding at_cursor_def
      by (intro exI [of _ pre] exI [of _ f] exI [of _ "post' @ [a'] @ extra"] exI [of _ n]) simp
  qed
qed

lemma inv_append:
  assumes "stream_inv en c s"
  shows "stream_inv en c (s\<lparr>st_active := (st_active s)\<lparr>fd_content := fd_content (st_active s) @ bytes\<rparr>\<rparr>)"
    (is "stream_inv en c ?s")
proof -
  have "at_cursor en c ?s p" if "at_cursor en c s p" for p
    by (rule at_cursor_chain [OF that, of _ "map (\<lambda>r. snd (snd r)) (st_rotated s)" "st_active s"
        "(st_active s)\<lparr>fd_content := fd_content (st_active s) @ bytes\<rparr>" "[]" bytes])
      (simp_all add: chain_def identity_of_def)
  moreover have "map identity_of (chain ?s) = map identity_of (chain s)"
    by (simp add: chain_def identity_of_def)
  ultimately show ?thesis
    using assms by (auto simp: stream_inv_def split: option.splits)
qed

lemma inv_rotate:
  assumes inv: "stream_inv en c s" and w: "whole (fd_content (st_active s))"
    and new: "identity_of new \<notin> identity_of ` set (chain s)"
  shows "stream_inv en c (s\<lparr>st_rotated := st_rotated s @ [(st_next s, name, st_active s)],
       st_active := new, st_next := st_next s + 1\<rparr>)" (is "stream_inv en c ?s")
proof -
  have ch: "chain ?s = chain s @ [new]" by (simp add: chain_def)
  have "at_cursor en c ?s p" if "at_cursor en c s p" for p
    by (rule at_cursor_chain [OF that, of _ "map (\<lambda>r. snd (snd r)) (st_rotated s)" "st_active s" "st_active s" "[new]" "[]"])
      (simp_all add: chain_def)
  moreover have "distinct (map identity_of (chain ?s))"
    using inv new by (simp add: ch stream_inv_def)
  moreover have "numbered (st_next ?s) (st_rotated ?s)"
    using inv by (simp add: stream_inv_def numbered_def)
  moreover have "h < st_next ?s" if "st_high ?s = Some h" for h
    using inv that by (fastforce simp: stream_inv_def)
  ultimately show ?thesis
    using inv w by (auto simp: stream_inv_def split: option.splits)
qed

lemma inv_remove:
  assumes inv: "stream_inv en c s" and rot: "st_rotated s = x # rest" and cur: "st_cursor s = Some text"
    and nfc: "ascii_stable (oe_nfc en)"
    and p: "encode_outbox_position (oe_nfc en) p = Inr text" "position_init p = Inr p"
      "position_identity p \<noteq> identity_of (snd (snd x))"
  shows "stream_inv en c (s\<lparr>st_gone := st_gone s @ [fd_content (snd (snd x))], st_rotated := rest\<rparr>)"
    (is "stream_inv en c ?s")
proof -
  obtain q where q: "position_init q = Inr q" "encode_outbox_position (oe_nfc en) q = Inr text" "at_cursor en c s q"
    using inv cur by (auto simp: stream_inv_def)
  have "q = p"
    using encode_position_text [OF nfc q(1,2)] encode_position_text [OF nfc p(2,1)] position_text_inj [OF q(1) p(2)]
    by simp
  then obtain pre f post n where f: "chain s = pre @ f # post" "identity_of f = position_identity p"
      "op_offset p = int n" "n \<le> length (fd_content f)" "whole (take n (fd_content f))"
      "op_sha256 p = oe_sha_hex en (take n (fd_content f))"
      "st_taken s = file_frames en c (st_gone s @ map fd_content pre) @ region_frames en c 0 (take n (fd_content f))"
    using q(3) by (auto simp: at_cursor_def)
  have ch: "chain s = snd (snd x) # chain ?s" by (simp add: chain_def rot)
  obtain pre' where pre': "pre = snd (snd x) # pre'"
    using f(1,2) p(3) ch by (cases pre) auto
  then have "chain ?s = pre' @ f # post" using f(1) ch by simp
  then have "at_cursor en c ?s p"
    using f pre' unfolding at_cursor_def
    by (intro exI [of _ pre'] exI [of _ f] exI [of _ post] exI [of _ n]) simp
  moreover have "numbered (st_next ?s) rest"
    using numbered_split(1,4) [of "st_next s" "[]" x rest] inv rot
    by (simp add: stream_inv_def numbered_def)
  moreover have "distinct (map identity_of (chain ?s))" using inv ch by (simp add: stream_inv_def)
  ultimately show ?thesis
    using inv rot cur p by (auto simp: stream_inv_def)
qed

lemma fold_high_less:
  "(\<And>h. prior = Some h \<Longrightarrow> h < n) \<Longrightarrow> (\<And>m. obs = Some m \<Longrightarrow> m < n) \<Longrightarrow> fold_high_water prior obs = Some h \<Longrightarrow> h < (n :: int)"
  by (auto simp: fold_high_water_def split: option.splits)

lemma inv_take:
  assumes inv: "stream_inv en c s" and good: "good_read en c s r"
  shows "stream_inv en c (take_result r s)"
proof (cases "rr_frames r = []")
  case True
  then show ?thesis using inv by (simp add: take_result_def)
next
  case False
  let ?s = "take_result r s" and ?a = "st_active s"
  let ?n = "complete_end (fd_content ?a)"
  have r: "rr_loss r = None" "rr_position r = \<lparr>op_device = fd_device ?a, op_inode = fd_inode ?a,
      op_offset = int ?n, op_sha256 = oe_sha_hex en (take ?n (fd_content ?a))\<rparr>"
      "position_init (rr_position r) = Inr (rr_position r)"
      "encode_outbox_position (oe_nfc en) (rr_position r) = Inr (rr_string r)"
    using good unfolding good_read_def advanced_def by blast+
  have s: "?s = s\<lparr>st_cursor := Some (rr_string r), st_high := fold_high_water (st_high s) (rr_max_observed r),
      st_taken := stream_frames en c s\<rparr>"
    using False r(1) good by (simp add: take_result_def good_read_def)
  have "at_cursor en c ?s (rr_position r)"
    unfolding at_cursor_def
    by (intro exI [of _ "map (\<lambda>r. snd (snd r)) (st_rotated s)"] exI [of _ ?a] exI [of _ "[]"] exI [of _ ?n])
      (simp add: s chain_def r(2) identity_of_def position_identity_def complete_end_le whole_complete
        stream_frames_def Let_def comp_def)
  moreover have "h < st_next ?s" if "st_high ?s = Some h" for h
    using fold_high_less [of "st_high s" "st_next s" "rr_max_observed r" h] inv good that
    by (simp add: s stream_inv_def good_read_def)
  ultimately show ?thesis
    using inv r(3,4) by (auto simp: stream_inv_def s chain_def)
qed

lemma stream_run_inv:
  assumes "ascii_stable (oe_nfc en)" "rc_glob c = Some g" "stream_run en c g s"
  shows "stream_inv en c s"
  using assms(3)
proof (induction rule: stream_run.induct)
  case (fresh n rs f)
  then show ?case by (simp add: stream_inv_def chain_def comp_def)
next
  case (onward s s')
  from onward.hyps(2) show ?case
  proof cases
    case (append bytes) then show ?thesis using inv_append [OF onward.IH] by simp
  next
    case (rotate new name) then show ?thesis using inv_rotate [OF onward.IH] by simp
  next
    case (remove x rest t p)
    then show ?thesis using inv_remove [OF onward.IH _ _ assms(1)] by simp
  next
    case (read r)
    then show ?thesis using inv_take [OF onward.IH] consumer_read_good [OF onward.IH assms(1,2)] by simp
  qed
qed

section \<open>Properties\<close>

text \<open>C19
  Exactly once: in every state of a compliant producer and of a consumer that keeps what its
  collections return, across appends, rotations and removals, a read that returns reports no loss,
  and the frames taken so far followed by the new ones are exactly the accepted lines of the whole
  stream, each with its byte offset, up to the last complete line, in order, none lost or repeated.
\<close>

theorem outbox_exactly_once:
  assumes "ascii_stable (oe_nfc en)" "rc_glob c = Some g" "stream_run en c g s" "consumer_reads en c g s r"
  shows "rr_loss r = None \<and> st_taken s @ result_pairs r = stream_frames en c s"
  using consumer_read_good [OF stream_run_inv [OF assms(1-3)] assms(1,2,4)]
  by (simp add: good_read_def advanced_def)

lemma success_no_loss: "success en p q a b d obs = Inr r \<Longrightarrow> rr_loss r = None"
  by (auto simp: success_def bind_res_eq_Inr)

lemma read_chain_no_loss: "read_chain en c active rs n obs = Inr r \<Longrightarrow> rr_loss r = None"
  by (auto simp: read_chain_def Let_def bind_res_eq_Inr dest: success_no_loss)

lemma read_tail_no_loss: "read_tail en c active n = Inr r \<Longrightarrow> rr_loss r = None"
  by (auto simp: read_tail_def Let_def bind_res_eq_Inr dest: success_no_loss)

text \<open>A loss under a cursor: the result carries the cursor and nothing else.\<close>

definition stays :: "outbox_position \<Rightarrow> string \<Rightarrow> read_result \<Rightarrow> bool" where
  "stays p t r \<longleftrightarrow> rr_frames r = [] \<and> rr_offsets r = [] \<and> rr_position r = p \<and> rr_string r = t \<and>
     map_option ls_cursor (rr_loss r) = Some p"

lemma stays_loss [simp]: "stays p t (loss code p t a b m)"
  by (simp add: stays_def loss_def)

lemma same_file_loss:
  assumes "read_same_file en c active (Some p) = Inr r" "rr_loss r \<noteq> None" "encode_outbox_position (oe_nfc en) p = Inr t"
  shows "stays p t r"
  using assms by (auto simp: read_same_file_def Let_def bind_res_eq_Inr dest: read_tail_no_loss split: if_splits)

lemma recover_chain_loss:
  "recover_chain en c active p t m f later = Inr r \<Longrightarrow> rr_loss r \<noteq> None \<Longrightarrow> stays p t r"
  by (auto simp: recover_chain_def Let_def dest: read_chain_no_loss split: if_splits option.splits)

lemma recover_rotation_loss:
  assumes "recover_rotation en c dir active p t high = Inr r" "rr_loss r \<noteq> None"
  shows "stays p t r"
proof (cases "rc_glob c")
  case None
  then show ?thesis using assms(1) by (auto simp: recover_rotation_def)
next
  case (Some g)
  then obtain found bad where v: "discover_rotations c g dir active = Inr (found, bad)"
    using assms(1) by (auto simp: recover_rotation_def bind_res_eq_Inr)
  show ?thesis
  proof (cases bad)
    case None
    show ?thesis
    proof (cases "cursor_rotation p found")
      case None
      then show ?thesis using assms(1) v Some \<open>bad = None\<close> by (auto simp: recover_rotation_def Let_def)
    next
      case (Some nf)
      then show ?thesis
        using assms v \<open>rc_glob c = Some g\<close> \<open>bad = None\<close> recover_chain_loss
        by (cases nf) (auto simp: recover_rotation_def Let_def split: if_splits)
    qed
  qed (use assms(1) v Some in \<open>auto simp: recover_rotation_def\<close>)
qed

text \<open>
  A loss advances nothing: a read under a cursor that reports a loss returns no frame and the
  cursor's own position and text, and the collection keeps nothing of it.
\<close>

theorem outbox_loss_advances_nothing:
  assumes "read_outbox en c file dir (Some sc) high = Inr r" "rr_loss r = Some l"
  shows "rr_frames r = [] \<and> rr_string r = sc_position sc \<and>
     outbox_position_from_cursor (oe_nfc en) (oe_loads en) sc = Inr (rr_position r) \<and>
     ls_cursor l = rr_position r \<and> take_result r s = s"
proof -
  obtain p active where p: "outbox_position_from_cursor (oe_nfc en) (oe_loads en) sc = Inr p"
      "(if fd_device active = op_device p \<and> fd_inode active = op_inode p
        then read_same_file en c active (Some p)
        else recover_rotation en c dir active p (sc_position sc) high) = Inr r"
    using assms(1) by (auto simp: read_outbox_def bind_res_eq_Inr cong: if_cong)
  have "encode_outbox_position (oe_nfc en) p = Inr (sc_position sc)"
    using decode_Inr p(1) by (auto simp: outbox_position_from_cursor_def)
  then have "stays p (sc_position sc) r"
    using p(2) assms(2) same_file_loss recover_rotation_loss by (auto split: if_splits)
  then show ?thesis using p(1) assms(2) by (auto simp: stays_def take_result_def)
qed

text \<open>The consumed prefix of a file is the one the position was taken from.\<close>

definition prefix_kept :: "outbox_env \<Rightarrow> outbox_position \<Rightarrow> file_read \<Rightarrow> bool" where
  "prefix_kept en p f \<longleftrightarrow> identity_of f = position_identity p \<and> op_offset p \<le> int (length (fd_content f)) \<and>
     oe_sha_hex en (take (nat (op_offset p)) (fd_content f)) = op_sha256 p"

definition run_kept :: "int \<Rightarrow> int option \<Rightarrow> (int \<times> file_read) list \<Rightarrow> bool" where
  "run_kept n high found \<longleftrightarrow> fst ` set (rotations_above n found) = {n + 1..Max (fst ` set found)} \<and>
     (\<forall>h. high = Some h \<longrightarrow> h \<le> Max (fst ` set found)) \<and>
     (\<forall>e \<in> set (rotations_above n found). \<not> has_torn_tail (fd_content (snd e)))"

lemma cursor_rotation_Some:
  assumes "cursor_rotation p found = Some (n, f)"
  shows "(n, f) \<in> set found \<and> identity_of f = position_identity p"
  using find_SomeD [OF assms [unfolded cursor_rotation_def]] by (simp add: identity_of_def position_identity_def)

lemma run_above:
  assumes run: "map fst (rotations_above n found) = map (\<lambda>k. n + 1 + int k) [0..<length (rotations_above n found)]"
    and n: "n \<in> fst ` set found"
  shows "fst ` set (rotations_above n found) = {n + 1..Max (fst ` set found)}"
proof -
  let ?len = "int (length (rotations_above n found))"
  have "fst ` set (rotations_above n found) = set (map fst (rotations_above n found))" by simp
  also have "\<dots> = (\<lambda>k. n + 1 + int k) ` {0..<length (rotations_above n found)}"
    unfolding run by simp
  also have "\<dots> = {n + 1..n + ?len}"
  proof
    show "{n + 1..n + ?len} \<subseteq> (\<lambda>k. n + 1 + int k) ` {0..<length (rotations_above n found)}"
    proof
      fix x assume "x \<in> {n + 1..n + ?len}"
      then have "x = n + 1 + int (nat (x - n - 1))" "nat (x - n - 1) < length (rotations_above n found)" by auto
      then show "x \<in> (\<lambda>k. n + 1 + int k) ` {0..<length (rotations_above n found)}" by force
    qed
  qed auto
  finally have up: "fst ` set (rotations_above n found) = {n + 1..n + ?len}" .
  moreover have "Max (fst ` set found) = n + ?len"
  proof (rule Max_eqI)
    fix y assume "y \<in> fst ` set found"
    then show "y \<le> n + ?len"
      using up by (cases "n < y") (force simp: rotations_above_def)+
  next
    show "n + ?len \<in> fst ` set found"
    proof (cases "rotations_above n found")
      case (Cons e es)
      then have "n + ?len \<in> fst ` set (rotations_above n found)" unfolding up by simp
      then show ?thesis by (auto simp: rotations_above_def)
    qed (use n in simp)
  qed simp
  ultimately show ?thesis by simp
qed

lemma same_file_success:
  assumes "read_same_file en c active (Some p) = Inr r" "rr_loss r = None" "identity_of active = position_identity p"
  shows "prefix_kept en p active"
  using assms by (auto simp: read_same_file_def Let_def bind_res_eq_Inr prefix_kept_def loss_def split: if_splits)

lemma recover_success:
  assumes "recover_rotation en c dir active p t high = Inr r" "rr_loss r = None" "rc_glob c = Some g"
  shows "\<exists>found n f. discover_rotations c g dir active = Inr (found, None) \<and> (n, f) \<in> set found \<and>
     prefix_kept en p f \<and> \<not> has_torn_tail (fd_content f) \<and> run_kept n high found"
proof -
  obtain found bad where v: "discover_rotations c g dir active = Inr (found, bad)"
    using assms(1,3) by (auto simp: recover_rotation_def bind_res_eq_Inr)
  have bad: "bad = None"
    using assms v by (auto simp: recover_rotation_def loss_def split: option.splits)
  obtain n f where nf: "cursor_rotation p found = Some (n, f)"
    using assms v bad
    by (cases "cursor_rotation p found") (auto simp: recover_rotation_def loss_def Let_def)
  have mem: "(n, f) \<in> set found" "identity_of f = position_identity p"
    using cursor_rotation_Some [OF nf] by simp_all
  let ?observed = "if found = [] then None else Some (Max (set (map fst found)))"
  have ne: "found \<noteq> []" using mem(1) by auto
  have cont: "map fst (rotations_above n found) = map (\<lambda>k. n + 1 + int k) [0..<length (rotations_above n found)]"
    using assms v bad nf by (auto simp: recover_rotation_def loss_def Let_def split: if_splits)
  have high: "\<forall>h. high = Some h \<longrightarrow> h \<le> Max (fst ` set found)"
    using assms v bad nf cont ne
    by (auto simp: recover_rotation_def loss_def Let_def simp del: Max_less_iff split: if_splits)
  have chain: "recover_chain en c active p t ?observed f (rotations_above n found) = Inr r"
    using assms v bad nf cont by (auto simp: recover_rotation_def loss_def Let_def split: if_splits)
  have "first_torn (rotations_above n found) = None" "\<not> has_torn_tail (fd_content f)" "prefix_kept en p f"
    using chain assms(2) mem(2)
    by (auto simp: recover_chain_def Let_def loss_def prefix_kept_def split: if_splits option.splits)
  then have torn: "\<forall>e \<in> set (rotations_above n found). \<not> has_torn_tail (fd_content (snd e))"
    by (force simp: first_torn_def find_None_iff)
  have "run_kept n high found"
    using run_above [OF cont] mem(1) high torn by (force simp: run_kept_def)
  then show ?thesis using v bad mem(1) \<open>prefix_kept en p f\<close> \<open>\<not> has_torn_tail (fd_content f)\<close> by blast
qed

text \<open>C20
  What a read without a loss certifies, under a cursor and with no assumption on the producer: the
  bytes consumed before are still the prefix the cursor's digest was taken from, in the active file
  or in a retained whole rotation; in the second case every sequence number from the cursor's to the
  highest is retained, each file whole, and none that was ever observed is gone.
\<close>

theorem outbox_read_certifies:
  assumes "read_outbox en c file dir (Some sc) high = Inr r" "rr_loss r = None" "rc_glob c = Some g"
  shows "\<exists>p active. outbox_position_from_cursor (oe_nfc en) (oe_loads en) sc = Inr p \<and>
     read_regular_file (rc_max_file c) file = Inr active \<and>
     (prefix_kept en p active \<or>
       (\<exists>found n f. discover_rotations c g dir active = Inr (found, None) \<and> (n, f) \<in> set found \<and>
          prefix_kept en p f \<and> \<not> has_torn_tail (fd_content f) \<and> run_kept n high found))"
proof -
  obtain p active where p: "outbox_position_from_cursor (oe_nfc en) (oe_loads en) sc = Inr p"
      "read_regular_file (rc_max_file c) file = Inr active"
      "(if fd_device active = op_device p \<and> fd_inode active = op_inode p
        then read_same_file en c active (Some p)
        else recover_rotation en c dir active p (sc_position sc) high) = Inr r"
    using assms(1) by (auto simp: read_outbox_def bind_res_eq_Inr cong: if_cong)
  show ?thesis
  proof (cases "identity_of active = position_identity p")
    case True
    then have "prefix_kept en p active"
      using p(3) by (intro same_file_success [OF _ assms(2)]) (simp_all add: identity_of_def position_identity_def)
    then show ?thesis using p by blast
  next
    case False
    then have "recover_rotation en c dir active p (sc_position sc) high = Inr r"
      using p(3) by (auto simp: identity_of_def position_identity_def)
    from recover_success [OF this assms(2,3)] show ?thesis using p by blast
  qed
qed

section \<open>Witnesses\<close>

text \<open>
  A producer writes a line, rotates in the middle of the consumer's life and writes another. The
  digest is the length of its text, a frame's producer the text of its line.
\<close>

definition demo_position :: "int \<Rightarrow> outbox_position" where
  "demo_position inode = \<lparr>op_device = 1, op_inode = inode, op_offset = 2, op_sha256 = replicate 64 (CHR ''0'')\<rparr>"

definition demo_line_frame :: outbox_frame where
  "demo_line_frame = \<lparr>fm_producer = ''p'', fm_occurred_at = 0, fm_target = ''t'', fm_kind = ''k'',
     fm_actionability = ''observe'', fm_evidence = [], fm_data = P_Dict []\<rparr>"

definition demo_outbox :: "outbox_env" where
  "demo_outbox = \<lparr>oe_nfc = id, oe_sha_hex = (\<lambda>_. replicate 64 (CHR ''0'')),
     oe_loads = (\<lambda>_. Some (position_payload (demo_position 1))), oe_frame = (\<lambda>_. Some demo_line_frame)\<rparr>"

definition demo_reader :: reader_config where
  "demo_reader = \<lparr>rc_max_line = 9, rc_max_file = 99, rc_glob = Some ''o.*'', rc_allowlist = []\<rparr>"

definition demo_file :: "int \<Rightarrow> string \<Rightarrow> file_read" where
  "demo_file inode content = \<lparr>fd_device = 1, fd_inode = inode, fd_content = content\<rparr>"

definition demo_open :: "file_read \<Rightarrow> file_error + open_file" where
  "demo_open f = Inr \<lparr>of_device = fd_device f, of_inode = fd_inode f, of_size = int (length (fd_content f)),
     of_chunks = [fd_content f], of_fails = False, of_after = (fd_device f, fd_inode f)\<rparr>"

definition demo_cursor :: source_cursor where
  "demo_cursor = \<lparr>sc_source = ''s'', sc_position = position_text (demo_position 1), sc_batch = None,
     sc_revision = 1, sc_updated_at = []\<rparr>"

abbreviation demo_old :: file_read where "demo_old \<equiv> demo_file 1 (CHR ''a'' # [LF])"
abbreviation demo_new :: file_read where "demo_new \<equiv> demo_file 2 (CHR ''b'' # LF # ''c'')"

definition demo_first :: stream where
  "demo_first = \<lparr>st_gone = [], st_rotated = [], st_active = demo_old, st_next = 1,
     st_cursor = None, st_high = None, st_taken = []\<rparr>"

lemma demo_position_ok: "i \<in> {1, 2} \<Longrightarrow> position_init (demo_position i) = Inr (demo_position i)"
    "i \<in> {1, 2} \<Longrightarrow> encode_outbox_position id (demo_position i) = Inr (position_text (demo_position i))"
proof -
  show init: "position_init (demo_position i) = Inr (demo_position i)" if "i \<in> {1, 2}" for i
    using that by (auto simp: position_init_def demo_position_def canonical_nat_def max_int64_def
        is_sha256_hex_def list_all_iff is_lower_hex_def)
  have "length (position_text (demo_position i)) \<le> 200" if "i \<in> {1, 2}" for i
    using that by (auto simp: position_text_def demo_position_def int_text_def nat_text_small)
  then show "encode_outbox_position id (demo_position i) = Inr (position_text (demo_position i))" if "i \<in> {1, 2}"
    using that init encode_position_Inr [of id "demo_position i"]
    by (fastforce simp: ascii_stable_def max_position_bytes_def)
qed

lemma demo_decode:
  "decode_outbox_position id (oe_loads demo_outbox) (position_text (demo_position 1)) = Inr (demo_position 1)"
proof -
  have "length (position_text (demo_position 1)) \<le> 200"
    by (simp add: position_text_def demo_position_def int_text_def nat_text_small)
  moreover have "position_text (demo_position 1) \<noteq> []" by (simp add: position_text_def)
  ultimately show ?thesis
    using demo_position_ok [of 1]
    by (simp add: decode_outbox_position_def max_position_bytes_def demo_outbox_def position_payload_def
        position_keys_def field_def equals_one_def position_fields_def)
      (simp add: demo_position_def)
qed

lemma demo_config [simp]: "rc_glob demo_reader = Some ''o.*''" "rc_max_file demo_reader = 99"
    "rc_max_line demo_reader = 9" "rc_allowlist demo_reader = []"
  by (simp_all add: demo_reader_def)

lemma demo_opens:
  "read_regular_file 99 (demo_open demo_old) = Inr demo_old" "read_regular_file 99 (demo_open demo_new) = Inr demo_new"
  by (simp_all add: read_regular_file_def demo_open_def demo_file_def)

lemma demo_ends: "complete_end (fd_content demo_old) = 2" "complete_end (fd_content demo_new) = 2"
  by (simp_all add: complete_end_def demo_file_def LF_def)

lemma demo_next: "next_position demo_outbox demo_old 2 = Inr (demo_position 1)"
    "next_position demo_outbox demo_new 2 = Inr (demo_position 2)"
  using demo_position_ok(1) [of 1] demo_position_ok(1) [of 2]
  by (simp_all add: next_position_def demo_outbox_def demo_file_def demo_position_def)

lemma demo_encode: "i \<in> {1, 2} \<Longrightarrow>
    encode_outbox_position (oe_nfc demo_outbox) (demo_position i) = Inr (position_text (demo_position i))"
  using demo_position_ok(2) by (simp add: demo_outbox_def)

lemma demo_read1:
  "\<exists>r. read_outbox demo_outbox demo_reader (demo_open demo_old) [] None None = Inr r \<and>
     rr_string r = position_text (demo_position 1) \<and> rr_frames r = [demo_line_frame] \<and> rr_offsets r = [0] \<and>
     rr_loss r = None \<and> rr_max_observed r = None"
  using demo_ends
  by (simp add: read_outbox_def demo_opens read_from_start_def discover_rotations_def
      read_same_file_def read_tail_def Let_def demo_next success_def demo_encode)
    (simp add: demo_file_def demo_outbox_def parse_region_def iter_complete_lines_def LF_def parse_line_def
      parse_outbox_frame_line_def nothing_parsed_def)

lemma demo_glob: "rotation_sequence ''o.*'' ''o.1'' = Some 1" "glob_matches ''o.*'' ''o.1''"
  by (simp_all add: rotation_sequence_def glob_matches_def glob_prefix_def glob_suffix_def wildcard_part_def
      decimal_value_def is_digit_def)

lemma demo_from_cursor: "outbox_position_from_cursor (oe_nfc demo_outbox) (oe_loads demo_outbox) demo_cursor = Inr (demo_position 1)"
  using demo_decode by (simp add: outbox_position_from_cursor_def demo_cursor_def demo_outbox_def)

lemma demo_discover: "discover_rotations demo_reader ''o.*'' [(''o.1'', demo_open demo_old)] demo_new = Inr ([(1, demo_old)], None)"
  by (simp add: discover_rotations_def demo_glob demo_opens) (simp add: demo_file_def)

lemma demo_read2:
  "\<exists>r. read_outbox demo_outbox demo_reader (demo_open demo_new) [(''o.1'', demo_open demo_old)] (Some demo_cursor) None
     = Inr r \<and> rr_frames r = [demo_line_frame] \<and> rr_offsets r = [0] \<and> rr_loss r = None"
proof -
  have "cursor_rotation (demo_position 1) [(1, demo_old)] = Some (1, demo_old)"
    by (simp add: cursor_rotation_def demo_file_def demo_position_def)
  moreover have "rotations_above 1 [(1, demo_old)] = []" by (simp add: rotations_above_def)
  moreover have "recover_chain demo_outbox demo_reader demo_new (demo_position 1) t (Some 1) demo_old [] =
      read_chain demo_outbox demo_reader demo_new [([], 2)] 1 (Some 1)" for t
    by (simp add: recover_chain_def demo_position_def demo_file_def demo_outbox_def has_torn_tail_def
        first_torn_def LF_def Let_def)
  moreover have "\<exists>r. read_chain demo_outbox demo_reader demo_new [([], 2)] 1 (Some 1) = Inr r \<and>
      rr_frames r = [demo_line_frame] \<and> rr_offsets r = [0] \<and> rr_loss r = None"
    using demo_ends
    by (simp add: read_chain_def Let_def demo_next success_def demo_encode)
      (simp add: demo_file_def demo_outbox_def parse_region_def iter_complete_lines_def LF_def
        parse_line_def parse_outbox_frame_line_def nothing_parsed_def)
  ultimately have "\<exists>r. recover_rotation demo_outbox demo_reader [(''o.1'', demo_open demo_old)] demo_new (demo_position 1) t None
      = Inr r \<and> rr_frames r = [demo_line_frame] \<and> rr_offsets r = [0] \<and> rr_loss r = None" for t
    by (simp add: recover_rotation_def demo_discover Let_def)
  then show ?thesis
    by (simp add: read_outbox_def demo_from_cursor demo_opens) (simp add: demo_position_def demo_file_def)
qed

theorem outbox_exactly_once_witness:
  "\<exists>s r. stream_run demo_outbox demo_reader ''o.*'' s \<and> consumer_reads demo_outbox demo_reader ''o.*'' s r \<and>
     st_rotated s \<noteq> [] \<and> st_taken s \<noteq> [] \<and> result_pairs r \<noteq> [] \<and> rr_loss r = None \<and>
     st_taken s @ result_pairs r = stream_frames demo_outbox demo_reader s"
proof -
  obtain r1 where r1: "read_outbox demo_outbox demo_reader (demo_open demo_old) [] None None = Inr r1"
      "rr_string r1 = position_text (demo_position 1)" "rr_frames r1 = [demo_line_frame]" "rr_offsets r1 = [0]" "rr_loss r1 = None"
      "rr_max_observed r1 = None" using demo_read1 by blast
  obtain r2 where r2: "read_outbox demo_outbox demo_reader (demo_open demo_new) [(''o.1'', demo_open demo_old)]
      (Some demo_cursor) None = Inr r2" "rr_frames r2 = [demo_line_frame]" "rr_offsets r2 = [0]" using demo_read2 by blast
  let ?s1 = "take_result r1 demo_first"
  let ?s2 = "?s1\<lparr>st_rotated := st_rotated ?s1 @ [(st_next ?s1, ''o.1'', st_active ?s1)],
    st_active := demo_file 2 [], st_next := st_next ?s1 + 1\<rparr>"
  let ?s3 = "?s2\<lparr>st_active := (st_active ?s2)\<lparr>fd_content := fd_content (st_active ?s2) @ (CHR ''b'' # LF # ''c'')\<rparr>\<rparr>"
  let ?run = "stream_run demo_outbox demo_reader ''o.*''"
  have nfc: "ascii_stable (oe_nfc demo_outbox)" by (simp add: demo_outbox_def ascii_stable_def)
  have s1: "?s1 = demo_first\<lparr>st_cursor := Some (position_text (demo_position 1)), st_taken := result_pairs r1\<rparr>"
    using r1 by (simp add: take_result_def fold_high_water_def demo_first_def)
  have "?run demo_first"
    unfolding demo_first_def by (rule stream_run.fresh) (simp_all add: numbered_def)
  moreover have "consumer_reads demo_outbox demo_reader ''o.*'' demo_first r1"
    unfolding consumer_reads_def
    by (rule exI [of _ "demo_open demo_old"], rule exI [of _ "[]"], rule exI [of _ None])
      (simp add: demo_first_def yields_def demo_opens shows_rotations_def r1(1))
  ultimately have "?run ?s1" by (rule stream_run.onward [OF _ stream_step.read])
  moreover have "stream_step demo_outbox demo_reader ''o.*'' ?s1 ?s2"
    by (rule stream_step.rotate, unfold s1)
      (simp_all add: demo_first_def demo_file_def whole_def chain_def identity_of_def)
  ultimately have "?run ?s2" by (rule stream_run.onward)
  then have run: "?run ?s3" by (rule stream_run.onward [OF _ stream_step.append])
  have s3: "st_active ?s3 = demo_new" "st_rotated ?s3 = [(1, ''o.1'', demo_old)]" "st_high ?s3 = None"
      "st_cursor ?s3 = Some (position_text (demo_position 1))" "st_taken ?s3 = result_pairs r1"
    unfolding s1 by (simp_all add: demo_first_def demo_file_def)
  have read: "consumer_reads demo_outbox demo_reader ''o.*'' ?s3 r2"
    unfolding consumer_reads_def s3
    by (rule exI [of _ "demo_open demo_new"], rule exI [of _ "[(''o.1'', demo_open demo_old)]"],
        rule exI [of _ "Some demo_cursor"])
      (simp add: yields_def demo_opens shows_rotations_def shows_rotation_def demo_glob r2(1)
        exI [of _ "[(''o.1'', demo_open demo_old)]"], simp add: demo_cursor_def)
  have once: "rr_loss r2 = None \<and> st_taken ?s3 @ result_pairs r2 = stream_frames demo_outbox demo_reader ?s3"
    by (rule outbox_exactly_once [OF nfc _ run read]) simp
  have "result_pairs r1 \<noteq> []" "result_pairs r2 \<noteq> []"
    using r1(3,4) r2(2,3) by (simp_all add: result_pairs_def)
  then have "st_rotated ?s3 \<noteq> []" "st_taken ?s3 \<noteq> []" using s3 by simp_all
  then show ?thesis using run read once \<open>result_pairs r2 \<noteq> []\<close> by blast
qed

text \<open>The same cursor after the producer cut its file.\<close>

abbreviation demo_cut :: file_read where "demo_cut \<equiv> demo_file 1 ''a''"

theorem outbox_loss_advances_nothing_witness:
  "\<exists>r l. read_outbox demo_outbox demo_reader (demo_open demo_cut) [] (Some demo_cursor) None = Inr r \<and>
     rr_loss r = Some l \<and> ls_code l = ''MH_OUTBOX_LOSS_TRUNCATED'' \<and> take_result r demo_first = demo_first"
proof -
  have cut: "read_regular_file 99 (demo_open demo_cut) = Inr demo_cut"
    by (simp add: read_regular_file_def demo_open_def demo_file_def)
  have same: "fd_device demo_cut = op_device (demo_position 1) \<and> fd_inode demo_cut = op_inode (demo_position 1)"
      "int (length (fd_content demo_cut)) < op_offset (demo_position 1)"
    by (simp_all add: demo_file_def demo_position_def)
  obtain r l where r: "read_outbox demo_outbox demo_reader (demo_open demo_cut) [] (Some demo_cursor) None = Inr r"
      "rr_loss r = Some l" "ls_code l = ''MH_OUTBOX_LOSS_TRUNCATED''"
    using same by (simp add: read_outbox_def demo_from_cursor cut read_same_file_def demo_encode Let_def loss_def)
  then show ?thesis using outbox_loss_advances_nothing [OF r(1,2)] by blast
qed

theorem outbox_read_certifies_witness:
  "\<exists>r p active. read_outbox demo_outbox demo_reader (demo_open demo_new) [(''o.1'', demo_open demo_old)] (Some demo_cursor) None
     = Inr r \<and> outbox_position_from_cursor (oe_nfc demo_outbox) (oe_loads demo_outbox) demo_cursor = Inr p \<and>
     (prefix_kept demo_outbox p active \<or> prefix_kept demo_outbox p demo_old)"
proof -
  obtain r where r: "read_outbox demo_outbox demo_reader (demo_open demo_new) [(''o.1'', demo_open demo_old)]
      (Some demo_cursor) None = Inr r" "rr_loss r = None" using demo_read2 by blast
  have glob: "rc_glob demo_reader = Some ''o.*''" by simp
  show ?thesis using outbox_read_certifies [OF r glob] r(1) demo_discover by fastforce
qed

end
