(* ===== verification/Migrations.thy ===== *)
theory Migrations
  imports Audit_Log Canonical "HOL-Library.Sublist"
begin

text \<open>
  Ordered, checksummed migrations: \<^verbatim>\<open>state/migrations.py\<close> over SQLite, one transaction per
  migration under the exclusive barrier, and \<^verbatim>\<open>storage/runner.py\<close> over a ClickHouse client that has
  no transactions. Both refuse a ledger that is not an unmodified prefix of the definitions; the
  locale \<open>migrator\<close> states what both promise and is interpreted on both.
\<close>

section \<open>The ledger prefix\<close>

text \<open>
  A definition as the ledger records it: version, name, checksum. \<open>validate_applied_prefix\<close> is the
  function of that name in both modules; the dictionary it is given has one entry per version.
\<close>

type_synonym ledger_entry = "int \<times> string \<times> string"

fun check_recorded :: "py_exc \<Rightarrow> ledger_entry list \<Rightarrow> ledger_entry list \<Rightarrow> unit res" where
  "check_recorded err applied [] = Inr ()"
| "check_recorded err applied ((version, nm, checksum) # ds) =
     (case map_of applied version of
        None \<Rightarrow> Inl Foreign_Exception
      | Some (recorded_name, recorded_checksum) \<Rightarrow>
          if recorded_name \<noteq> nm \<or> recorded_checksum \<noteq> checksum then Inl err
          else check_recorded err applied ds)"

definition validate_applied_prefix :: "py_exc \<Rightarrow> ledger_entry list \<Rightarrow> ledger_entry list \<Rightarrow> unit res" where
  "validate_applied_prefix err applied defs =
     (if applied = [] then Inr ()
      else let versions = sort (map fst applied) in
        if versions \<noteq> map (\<lambda>k. 1 + int k) [0..<length versions] then Inl err
        else if int (length defs) < last versions then Inl err
        else check_recorded err applied (take (nat (last versions)) defs))"

section \<open>Control migrations\<close>

record migration =
  mg_version :: int
  mg_name :: string
  mg_statements :: "string list"

definition migration_error :: py_exc where "migration_error = State_Error ''MH_STATE_MIGRATION''"

definition mig_checksum :: "(string \<Rightarrow> string) \<Rightarrow> migration \<Rightarrow> string" where
  "mig_checksum sha_hex m = sha_hex (join [LF] (int_text (mg_version m) # mg_name m # mg_statements m))"

definition ledger_entry_of :: "(string \<Rightarrow> string) \<Rightarrow> migration \<Rightarrow> ledger_entry" where
  "ledger_entry_of sha_hex m = (mg_version m, mg_name m, mig_checksum sha_hex m)"

text \<open>The ASCII characters \<^verbatim>\<open>str.strip()\<close> removes; the packaged definitions are ASCII text.\<close>

definition blank_char :: "char \<Rightarrow> bool" where
  "blank_char c \<longleftrightarrow> c \<in> {CHR 0x20, CHR 0x09, CHR 0x0A, CHR 0x0B, CHR 0x0C, CHR 0x0D, CHR 0x1C, CHR 0x1D, CHR 0x1E, CHR 0x1F}"

text \<open>The loop of \<^verbatim>\<open>_validate_definitions\<close> from index \<open>n\<close>; a statement that strips to nothing is refused.\<close>

fun validate_definitions :: "nat \<Rightarrow> migration list \<Rightarrow> unit res" where
  "validate_definitions n [] = Inr ()"
| "validate_definitions n (m # ms) =
     (if mg_version m \<noteq> int n + 1 \<or> mg_name m = [] \<or> mg_statements m = []
         \<or> list_ex (list_all blank_char) (mg_statements m)
      then Inl migration_error else validate_definitions (n + 1) ms)"

text \<open>
  The database as migrations see it: the statements whose effects it holds, in the order they ran,
  and the rows of \<^verbatim>\<open>_schema_migrations\<close>, \<open>None\<close> before the table exists. \<open>sc_faults\<close> scripts which of the
  next statements SQLite fails; \<open>sc_closed\<close> is a closed handle, \<open>sc_locks\<close> the barrier's answers.
\<close>

record schema_store =
  sc_statements :: "string list"
  sc_ledger :: "(ledger_entry \<times> string) list option"
  sc_faults :: "bool list"
  sc_closed :: bool
  sc_locks :: "string option list"

type_synonym 'r schema_prog = "(schema_store, 'r) prog"

definition sqlite_call :: "(schema_store \<Rightarrow> ('r \<times> schema_store) option) \<Rightarrow> 'r schema_prog" where
  "sqlite_call f = (\<lambda>s.
     let s1 = s\<lparr>sc_faults := tl (sc_faults s)\<rparr> in
     if sc_faults s \<noteq> [] \<and> hd (sc_faults s) then (Inl Sqlite_Error, s1)
     else case f s1 of None \<Rightarrow> (Inl Sqlite_Error, s1) | Some (r, s2) \<Rightarrow> (Inr r, s2))"

definition restore :: "schema_store \<Rightarrow> schema_store \<Rightarrow> schema_store" where
  "restore old s = s\<lparr>sc_statements := sc_statements old, sc_ledger := sc_ledger old\<rparr>"

definition schema_transaction :: "'r schema_prog \<Rightarrow> 'r schema_prog" where
  "schema_transaction body = (\<lambda>s.
     if sc_closed s then (Inl (State_Error ''MH_STATE_CLOSED''), s)
     else case sqlite_call (\<lambda>s. Some ((), s)) s of
       (Inl _, s1) \<Rightarrow> (Inl (State_Error ''MH_STATE_TXN''), s1)
     | (Inr _, s1) \<Rightarrow>
         (case body s1 of
            (Inl e, s2) \<Rightarrow> (Inl e, restore s s2)
          | (Inr r, s2) \<Rightarrow>
              (case sqlite_call (\<lambda>s. Some ((), s)) s2 of
                 (Inl _, s3) \<Rightarrow> (Inl (State_Error ''MH_STATE_TXN''), restore s s3)
               | (Inr _, s3) \<Rightarrow> (Inr r, s3))))"

definition execute :: "string \<Rightarrow> unit schema_prog" where
  "execute statement = sqlite_call (\<lambda>s. Some ((), s\<lparr>sc_statements := sc_statements s @ [statement]\<rparr>))"

definition ensure_schema_table :: "unit schema_prog" where
  "ensure_schema_table = schema_transaction (sqlite_call (\<lambda>s. Some ((),
     case sc_ledger s of None \<Rightarrow> s\<lparr>sc_ledger := Some []\<rparr> | Some _ \<Rightarrow> s)))"

text \<open>The primary key refuses a second row of one version; without the table a read fails.\<close>

definition insert_ledger :: "ledger_entry \<Rightarrow> string \<Rightarrow> unit schema_prog" where
  "insert_ledger e stamp = sqlite_call (\<lambda>s. case sc_ledger s of
       None \<Rightarrow> None
     | Some rows \<Rightarrow> if fst e \<in> fst ` fst ` set rows then None
         else Some ((), s\<lparr>sc_ledger := Some (rows @ [(e, stamp)])\<rparr>))"

definition load_applied :: "ledger_entry list schema_prog" where
  "load_applied = sqlite_call (\<lambda>s. case sc_ledger s of
       None \<Rightarrow> None | Some rows \<Rightarrow> Some (sort_key fst (map fst rows), s))"

definition apply_migration :: "(string \<Rightarrow> string) \<Rightarrow> migration \<Rightarrow> string \<Rightarrow> unit schema_prog" where
  "apply_migration sha_hex m stamp =
     normalise sqlite_caught migration_error
       (schema_transaction
         (andthen (for_each execute (mg_statements m)) (\<lambda>_.
          insert_ledger (ledger_entry_of sha_hex m) stamp)))"

definition highest_version :: "ledger_entry list \<Rightarrow> int" where
  "highest_version applied = (if applied = [] then 0 else Max (set (map fst applied)))"

fun apply_pending :: "(string \<Rightarrow> string) \<Rightarrow> string \<Rightarrow> int \<Rightarrow> migration list \<Rightarrow> int schema_prog" where
  "apply_pending sha_hex stamp highest [] = ret highest"
| "apply_pending sha_hex stamp highest (m # ms) =
     (if mg_version m \<le> highest then apply_pending sha_hex stamp highest ms
      else andthen (apply_migration sha_hex m stamp) (\<lambda>_. apply_pending sha_hex stamp (mg_version m) ms))"

definition apply_all :: "(string \<Rightarrow> string) \<Rightarrow> migration list \<Rightarrow> string \<Rightarrow> int schema_prog" where
  "apply_all sha_hex ms stamp =
     normalise sqlite_caught migration_error
       (andthen ensure_schema_table (\<lambda>_.
        andthen load_applied (\<lambda>applied.
        andthen (lift_res (validate_applied_prefix migration_error applied (map (ledger_entry_of sha_hex) ms))) (\<lambda>_.
        apply_pending sha_hex stamp (highest_version applied) ms))))"

definition exclusive_barrier :: "'r schema_prog \<Rightarrow> 'r schema_prog" where
  "exclusive_barrier body = (\<lambda>s. case sc_locks s of
       Some code # ls \<Rightarrow> (Inl (State_Error code), s\<lparr>sc_locks := ls\<rparr>)
     | _ \<Rightarrow> body (s\<lparr>sc_locks := tl (sc_locks s)\<rparr>))"

definition migrate_control :: "(string \<Rightarrow> string) \<Rightarrow> py_datetime \<Rightarrow> migration list \<Rightarrow> int schema_prog" where
  "migrate_control sha_hex applied_at ms =
     andthen (lift_res (validate_definitions 0 ms)) (\<lambda>_.
     andthen (normalise time_caught migration_error
       (lift_res (format_timestamp applied_at))) (\<lambda>stamp.
     exclusive_barrier (apply_all sha_hex ms stamp)))"

text \<open>\<^verbatim>\<open>schema_version\<close>: the highest recorded version, 0 without the table or without a row.\<close>

definition schema_version :: "int schema_prog" where
  "schema_version = (\<lambda>s.
     if sc_closed s then (Inl (State_Error ''MH_STATE_CLOSED''), s)
     else normalise sqlite_caught migration_error
       (andthen (sqlite_call (\<lambda>s. Some (sc_ledger s \<noteq> None, s))) (\<lambda>present.
        if \<not> present then ret 0
        else sqlite_call (\<lambda>s. Some (case sc_ledger s of None \<Rightarrow> 0
          | Some rows \<Rightarrow> highest_version (map fst rows), s)))) s)"

section \<open>Warehouse migrations\<close>

record storage_migration =
  sm_version :: int
  sm_name :: string
  sm_sql :: string
  sm_checksum :: string

definition storage_error :: py_exc where "storage_error = Storage_Error ''MH_STORAGE_MIGRATION''"

definition is_identifier :: "string \<Rightarrow> bool" where
  "is_identifier v \<longleftrightarrow>
     (case v of [] \<Rightarrow> False
      | c # cs \<Rightarrow> (is_upper c \<or> is_lower c \<or> c = CHR ''_'') \<and> length cs \<le> 127 \<and>
          list_all (\<lambda>d. is_alnum d \<or> d = CHR ''_'') cs)"

definition require_identifier :: "string \<Rightarrow> string \<Rightarrow> unit res" where
  "require_identifier v code = check_res (is_identifier v) (Storage_Error code)"

text \<open>\<^verbatim>\<open>sql.replace("{database}", database)\<close>, comment removal, the split on semicolons.\<close>

fun substitute :: "string \<Rightarrow> string \<Rightarrow> string" where
  "substitute database [] = []"
| "substitute database (c # cs) =
     (if take 10 (c # cs) = ''{database}'' then database @ substitute database (drop 9 cs)
      else c # substitute database cs)"

lemma length_dropWhile_less [termination_simp]:
  "length (dropWhile P xs) < Suc (Suc (length xs))" "length (dropWhile P xs) \<le> Suc (Suc (length xs))"
  using length_dropWhile_le [of P xs] by simp_all

fun strip_comments :: "string \<Rightarrow> string" where
  "strip_comments (c # d # cs) =
     (if c = CHR ''-'' \<and> d = CHR ''-'' then strip_comments (dropWhile (\<lambda>x. x \<noteq> LF) cs)
      else c # strip_comments (d # cs))"
| "strip_comments cs = cs"

fun split_statements :: "string \<Rightarrow> string list" where
  "split_statements [] = [[]]"
| "split_statements (c # cs) =
     (if c = CHR '';'' then [] # split_statements cs
      else (case split_statements cs of [] \<Rightarrow> [[c]] | p # ps \<Rightarrow> (c # p) # ps))"

definition strip_blank :: "string \<Rightarrow> string" where
  "strip_blank s = rev (dropWhile blank_char (rev (dropWhile blank_char s)))"

definition statements_of :: "string \<Rightarrow> string list" where
  "statements_of body = filter (\<lambda>p. p \<noteq> []) (map strip_blank (split_statements (strip_comments body)))"

text \<open>
  The server as the runner sees it: the statements that ran, in order, whether the database exists,
  and the ledger once a statement has created it; \<open>creates\<close> tells which do. Every call may fail, and \<open>wh_faults\<close> says of a
  failed one whether its effect landed before the error was reported.
\<close>

record warehouse =
  wh_statements :: "string list"
  wh_database :: bool
  wh_ledger :: "ledger_entry list option"
  wh_faults :: "(py_exc \<times> bool) option list"

type_synonym 'r warehouse_prog = "(warehouse, 'r) prog"

definition server_call :: "(warehouse \<Rightarrow> ('r \<times> warehouse) option) \<Rightarrow> 'r warehouse_prog" where
  "server_call f = (\<lambda>w.
     let w1 = w\<lparr>wh_faults := tl (wh_faults w)\<rparr> in
     case wh_faults w of
       Some (e, landed) # _ \<Rightarrow> (Inl e, case f w1 of Some (r, w2) \<Rightarrow> if landed then w2 else w1 | None \<Rightarrow> w1)
     | _ \<Rightarrow> (case f w1 of None \<Rightarrow> (Inl (Storage_Error ''MH_STORAGE_QUERY''), w1) | Some (r, w2) \<Rightarrow> (Inr r, w2)))"

definition create_database :: "unit warehouse_prog" where
  "create_database = server_call (\<lambda>w. Some ((), w\<lparr>wh_database := True\<rparr>))"

definition run_statement :: "(string \<Rightarrow> bool) \<Rightarrow> string \<Rightarrow> unit warehouse_prog" where
  "run_statement creates statement = server_call (\<lambda>w. if \<not> wh_database w then None else
     Some ((), w\<lparr>wh_statements := wh_statements w @ [statement],
       wh_ledger := (if creates statement \<and> wh_ledger w = None then Some [] else wh_ledger w)\<rparr>))"

definition load_ledger :: "ledger_entry list warehouse_prog" where
  "load_ledger =
     andthen (server_call (\<lambda>w. Some (wh_database w, w))) (\<lambda>present.
     if \<not> present then ret []
     else andthen (server_call (\<lambda>w. Some (wh_ledger w \<noteq> None, w))) (\<lambda>present.
     if \<not> present then ret []
     else server_call (\<lambda>w. case wh_ledger w of None \<Rightarrow> None | Some rows \<Rightarrow> Some (sort_key fst rows, w))))"

definition insert_entry :: "ledger_entry \<Rightarrow> unit warehouse_prog" where
  "insert_entry e = server_call (\<lambda>w. case wh_ledger w of
       None \<Rightarrow> None | Some rows \<Rightarrow> Some ((), w\<lparr>wh_ledger := Some (rows @ [e])\<rparr>))"

definition storage_entry :: "storage_migration \<Rightarrow> ledger_entry" where
  "storage_entry m = (sm_version m, sm_name m, sm_checksum m)"

record migrate_result =
  mr_now :: "int list"
  mr_already :: "int list"

text \<open>The loop of \<^verbatim>\<open>migrate\<close> over the definitions, with its two lists of versions.\<close>

fun migrate_each ::
  "(string \<Rightarrow> bool) \<Rightarrow> string \<Rightarrow> ledger_entry list \<Rightarrow> storage_migration list \<Rightarrow> int list \<Rightarrow> int list
    \<Rightarrow> migrate_result warehouse_prog" where
  "migrate_each creates database applied [] done_now already = ret \<lparr>mr_now = done_now, mr_already = already\<rparr>"
| "migrate_each creates database applied (m # ms) done_now already =
     (if sm_version m \<in> fst ` set applied
      then migrate_each creates database applied ms done_now (already @ [sm_version m])
      else
        andthen (for_each (run_statement creates) (statements_of (substitute database (sm_sql m)))) (\<lambda>_.
        andthen (insert_entry (storage_entry m)) (\<lambda>_.
        migrate_each creates database applied ms (done_now @ [sm_version m]) already)))"

definition storage_migrate ::
  "(string \<Rightarrow> bool) \<Rightarrow> string \<Rightarrow> py_datetime \<Rightarrow> storage_migration list \<Rightarrow> migrate_result warehouse_prog" where
  "storage_migrate creates database now ms =
     andthen (lift_res (require_identifier database ''MH_STORAGE_MIGRATION'')) (\<lambda>_.
     andthen (normalise time_caught storage_error (lift_res (truncate_to_milliseconds now))) (\<lambda>_.
     andthen create_database (\<lambda>_.
     andthen load_ledger (\<lambda>applied.
     andthen (lift_res (validate_applied_prefix storage_error applied (map storage_entry ms))) (\<lambda>_.
     migrate_each creates database applied ms [] [])))))"

text \<open>\<^verbatim>\<open>plan\<close> and its alias \<^verbatim>\<open>status\<close>: per definition its version, name and whether it is applied.\<close>

definition storage_plan ::
  "string \<Rightarrow> storage_migration list \<Rightarrow> (int \<times> string \<times> bool) list warehouse_prog" where
  "storage_plan database ms =
     andthen (lift_res (require_identifier database ''MH_STORAGE_MIGRATION'')) (\<lambda>_.
     andthen load_ledger (\<lambda>applied.
     andthen (lift_res (validate_applied_prefix storage_error applied (map storage_entry ms))) (\<lambda>_.
     ret (map (\<lambda>m. (sm_version m, sm_name m, sm_version m \<in> fst ` set applied)) ms))))"

definition current_version :: "int list \<Rightarrow> int" where
  "current_version versions = (if versions = [] then 0 else Max (set versions))"

section \<open>The accepted ledgers\<close>

definition in_sequence :: "ledger_entry list \<Rightarrow> bool" where
  "in_sequence defs \<longleftrightarrow> map fst defs = map (\<lambda>k. 1 + int k) [0..<length defs]"

lemma in_sequence_iff: "in_sequence defs \<longleftrightarrow> (\<forall>i < length defs. fst (defs ! i) = 1 + int i)"
  unfolding in_sequence_def by (subst list_eq_iff_nth_eq) simp

lemma in_sequence_nth: "in_sequence defs \<Longrightarrow> i < length defs \<Longrightarrow> fst (defs ! i) = 1 + int i"
  by (simp add: in_sequence_iff)

lemma in_sequence_take: "in_sequence defs \<Longrightarrow> in_sequence (take k defs)"
  by (simp add: in_sequence_iff)

lemma in_sequence_sorted: "in_sequence defs \<Longrightarrow> sorted (map fst defs)"
  unfolding in_sequence_def by (simp add: sorted_wrt_map)

lemma in_sequence_distinct: "in_sequence defs \<Longrightarrow> distinct (map fst defs)"
  unfolding in_sequence_def by (simp add: distinct_map inj_on_def)

lemma in_sequence_last: "in_sequence defs \<Longrightarrow> defs \<noteq> [] \<Longrightarrow> fst (last defs) = int (length defs)"
  by (simp add: last_conv_nth in_sequence_nth Suc_leI)

lemma check_recorded_cases:
  assumes "\<forall>d \<in> set ds. fst d \<in> dom (map_of applied)"
  shows "check_recorded err applied ds =
    (if \<forall>d \<in> set ds. map_of applied (fst d) = Some (snd d) then Inr () else Inl err)"
  using assms by (induction ds) (force split: prod.splits)+

lemma same_keys_nth:
  assumes "map fst xs = map fst ys" "distinct (map fst xs)" "\<forall>d \<in> set ys. map_of xs (fst d) = Some (snd d)"
  shows "xs = ys"
proof (rule nth_equalityI)
  show len: "length xs = length ys" using assms(1) map_eq_imp_length_eq by blast
  fix i assume i: "i < length xs"
  then have key: "fst (xs ! i) = fst (ys ! i)" using assms(1) len by (metis nth_map)
  have "map_of xs (fst (xs ! i)) = Some (snd (xs ! i))"
    using assms(2) i by (metis map_of_is_SomeI nth_mem prod.collapse)
  then show "xs ! i = ys ! i" using assms(3) key i len by (metis nth_mem option.inject prod.collapse)
qed

text \<open>The check accepts exactly the unmodified prefixes of the definitions, and refuses with its one error.\<close>

lemma validate_prefix_cases:
  assumes "in_sequence defs" "distinct (map fst applied)" "sorted (map fst applied)"
  shows "validate_applied_prefix err applied defs =
    (if applied = take (length applied) defs then Inr () else Inl err)"
proof (cases "applied = []")
  case True
  then show ?thesis by (simp add: validate_applied_prefix_def)
next
  case False
  have sorted: "sort (map fst applied) = map fst applied" using assms(3) by (simp add: sorted_sort_id)
  note unfolded = validate_applied_prefix_def Let_def sorted
  show ?thesis
  proof (cases "in_sequence applied \<and> length applied \<le> length defs")
    case False
    have "applied \<noteq> take (length applied) defs"
      using False in_sequence_take [OF assms(1)] by (metis length_take min.cobounded1)
    moreover have "last (map fst applied) = int (length applied)" if "in_sequence applied"
      using in_sequence_last [OF that \<open>applied \<noteq> []\<close>] \<open>applied \<noteq> []\<close> by (simp add: last_map)
    ultimately show ?thesis using False \<open>applied \<noteq> []\<close> by (auto simp: unfolded in_sequence_def)
  next
    case True
    then have top: "last (map fst applied) = int (length applied)"
      using in_sequence_last False by (simp add: last_map)
    let ?ds = "take (length applied) defs"
    have keys: "map fst applied = map fst ?ds"
      using True in_sequence_take [OF assms(1), of "length applied"] by (simp add: in_sequence_def)
    have "fst d \<in> dom (map_of applied)" if "d \<in> set ?ds" for d
      using that by (simp add: dom_map_of_conv_image_fst) (metis keys image_set imageI set_map that)
    moreover have "(\<forall>d \<in> set ?ds. map_of applied (fst d) = Some (snd d)) \<longleftrightarrow> applied = ?ds"
      using same_keys_nth [OF keys assms(2)] assms(2)
      by (metis map_of_is_SomeI prod.collapse)
    ultimately have "check_recorded err applied ?ds = (if applied = ?ds then Inr () else Inl err)"
      by (subst check_recorded_cases) auto
    moreover have "map fst applied = map (\<lambda>k. 1 + int k) [0..<length (map fst applied)]"
      using True by (simp add: in_sequence_def)
    ultimately show ?thesis
      using True False top unfolding unfolded by (simp only: nat_int) simp
  qed
qed

section \<open>What every migrator promises\<close>

text \<open>
  \<open>level ds k s\<close>: the store \<open>s\<close> records the first \<open>k\<close> of the definitions \<open>ds\<close>, with their effects. Any
  outcome of a migration leaves a level that is no lower, and a successful one the last.
\<close>

fun attempts :: "('d list \<Rightarrow> ('s, 'r) prog) \<Rightarrow> 'd list list \<Rightarrow> 's \<Rightarrow> 's" where
  "attempts migrate [] s = s"
| "attempts migrate (ds # dss) s = attempts migrate dss (snd (migrate ds s))"

text \<open>Releases append definitions: each set extends the one before it.\<close>

fun releases :: "'d list \<Rightarrow> 'd list list \<Rightarrow> bool" where
  "releases old [] = True"
| "releases old (ds # dss) \<longleftrightarrow> take (length old) ds = old \<and> releases ds dss"

locale migrator =
  fixes migrate :: "'d list \<Rightarrow> ('s, 'r) prog"
    and level :: "'d list \<Rightarrow> nat \<Rightarrow> 's \<Rightarrow> bool"
    and valid :: "'d list \<Rightarrow> bool"
  assumes migrate_level:
      "valid ds \<Longrightarrow> level ds k s \<Longrightarrow> migrate ds s = (r, s') \<Longrightarrow>
        \<exists>k'. k \<le> k' \<and> level ds k' s' \<and> ((\<exists>x. r = Inr x) \<longrightarrow> k' = length ds)"
    and level_append: "level ds k s \<Longrightarrow> level (ds @ later) k s"
begin

lemma level_release: "level old k s \<Longrightarrow> take (length old) ds = old \<Longrightarrow> level ds k s"
  by (metis append_take_drop_id level_append)

lemma attempts_level:
  "level old k s \<Longrightarrow> releases old dss \<Longrightarrow> \<forall>ds \<in> set dss. valid ds \<Longrightarrow>
    \<exists>k'. k \<le> k' \<and> level (last (old # dss)) k' (attempts migrate dss s)"
proof (induction dss arbitrary: old k s)
  case Nil
  then show ?case by auto
next
  case (Cons ds dss)
  have "level ds k s" using level_release Cons.prems by simp
  then obtain k1 where k1: "k \<le> k1" "level ds k1 (snd (migrate ds s))"
    using migrate_level [of ds k s] Cons.prems by (metis list.set_intros(1) prod.collapse)
  obtain k2 where "k1 \<le> k2" "level (last (ds # dss)) k2 (attempts migrate dss (snd (migrate ds s)))"
    using Cons.IH [OF k1(2)] Cons.prems by auto
  then show ?case using k1(1) by (intro exI [of _ k2]) simp
qed

lemma attempts_finished:
  assumes "level old k s" "releases old (dss @ [ds])" "\<forall>d \<in> set (dss @ [ds]). valid d"
    and "migrate ds (attempts migrate dss s) = (Inr x, s')"
  shows "level ds (length ds) s'"
proof -
  have split: "releases old dss \<and> take (length (last (old # dss))) ds = last (old # dss)"
    using assms(2) by (induction dss arbitrary: old) auto
  obtain k' where "level (last (old # dss)) k' (attempts migrate dss s)"
    using attempts_level [OF assms(1)] split assms(3) by auto
  then have "level ds k' (attempts migrate dss s)" using level_release split by blast
  then show ?thesis using migrate_level assms(3,4) by fastforce
qed

end

section \<open>The control database keeps the promise\<close>

definition control_level :: "(string \<Rightarrow> string) \<Rightarrow> migration list \<Rightarrow> nat \<Rightarrow> schema_store \<Rightarrow> bool" where
  "control_level sha_hex ms k s \<longleftrightarrow> k \<le> length ms \<and>
     map fst (case sc_ledger s of None \<Rightarrow> [] | Some rows \<Rightarrow> rows) = map (ledger_entry_of sha_hex) (take k ms) \<and>
     sc_statements s = concat (map mg_statements (take k ms))"

lemma control_level_append: "control_level sha_hex ms k s \<Longrightarrow> control_level sha_hex (ms @ later) k s"
  by (simp add: control_level_def)

lemma validate_definitions_Inr:
  "validate_definitions n ms = Inr () \<Longrightarrow> i < length ms \<Longrightarrow> mg_version (ms ! i) = int n + int i + 1"
  by (induction n ms arbitrary: i rule: validate_definitions.induct)
    (auto simp: nth_Cons split: if_splits nat.splits)

lemma validated_in_sequence: "validate_definitions 0 ms = Inr () \<Longrightarrow> in_sequence (map (ledger_entry_of sha_hex) ms)"
  using validate_definitions_Inr [of 0 ms] by (simp add: in_sequence_iff ledger_entry_of_def)

lemma sqlite_call_Inr:
  "sqlite_call f s = (Inr r, s') \<Longrightarrow> f (s\<lparr>sc_faults := tl (sc_faults s)\<rparr>) = Some (r, s')"
  by (auto simp: sqlite_call_def Let_def split: if_splits option.splits)

lemma sqlite_call_Inl:
  "sqlite_call f s = (Inl e, s') \<Longrightarrow> e = Sqlite_Error \<and> s' = s\<lparr>sc_faults := tl (sc_faults s)\<rparr>"
  by (auto simp: sqlite_call_def Let_def split: if_splits option.splits)

text \<open>A transaction either keeps all of its body's effects or none.\<close>

lemma schema_transaction_Inl:
  "schema_transaction body s = (Inl e, s') \<Longrightarrow>
     sc_ledger s' = sc_ledger s \<and> sc_statements s' = sc_statements s"
  by (auto simp: schema_transaction_def restore_def split: if_splits prod.splits sum.splits
      dest!: sqlite_call_Inl sqlite_call_Inr)

lemma schema_transaction_Inr:
  assumes "schema_transaction body s = (Inr r, s')"
  shows "\<exists>fs fs' s1. body (s\<lparr>sc_faults := fs\<rparr>) = (Inr r, s1) \<and> s' = s1\<lparr>sc_faults := fs'\<rparr>"
  using assms by (auto simp: schema_transaction_def split: if_splits prod.splits sum.splits
      dest!: sqlite_call_Inr)

lemma execute_all_Inr:
  "for_each execute stmts s = (Inr us, s') \<Longrightarrow>
     sc_ledger s' = sc_ledger s \<and> sc_statements s' = sc_statements s @ stmts"
  by (induction stmts arbitrary: s us)
    (auto simp: ret_def andthen_Inr execute_def dest!: sqlite_call_Inr)

lemma insert_ledger_Inr:
  "insert_ledger e stamp s = (Inr u, s') \<Longrightarrow>
     \<exists>rows. sc_ledger s = Some rows \<and> sc_ledger s' = Some (rows @ [(e, stamp)]) \<and>
       sc_statements s' = sc_statements s"
  by (auto simp: insert_ledger_def dest!: sqlite_call_Inr split: option.splits if_splits)

lemma apply_migration_Inl:
  "apply_migration sha_hex m stamp s = (Inl e, s') \<Longrightarrow>
     sc_ledger s' = sc_ledger s \<and> sc_statements s' = sc_statements s"
  by (auto simp: apply_migration_def normalise_Inl dest: schema_transaction_Inl)

lemma apply_migration_Inr:
  assumes "apply_migration sha_hex m stamp s = (Inr u, s')"
  shows "\<exists>rows. sc_ledger s = Some rows \<and>
    sc_ledger s' = Some (rows @ [(ledger_entry_of sha_hex m, stamp)]) \<and>
    sc_statements s' = sc_statements s @ mg_statements m"
proof -
  let ?body = "andthen (for_each execute (mg_statements m)) (\<lambda>_.
    insert_ledger (ledger_entry_of sha_hex m) stamp)"
  obtain fs fs' s1 where body: "?body (s\<lparr>sc_faults := fs\<rparr>) = (Inr u, s1)" "s' = s1\<lparr>sc_faults := fs'\<rparr>"
    using assms schema_transaction_Inr by (fastforce simp: apply_migration_def normalise_Inr)
  then show ?thesis by (auto simp: andthen_Inr dest!: execute_all_Inr insert_ledger_Inr)
qed

lemma apply_migration_level:
  assumes "control_level sha_hex ms k s" "k < length ms"
    and "apply_migration sha_hex (ms ! k) stamp s = (Inr u, s')"
  shows "control_level sha_hex ms (Suc k) s'"
  using apply_migration_Inr [OF assms(3)] assms(1,2)
  by (auto simp: control_level_def take_Suc_conv_app_nth)

lemma pending_level:
  assumes "in_sequence (map (ledger_entry_of sha_hex) ms)" "control_level sha_hex ms k s"
    and "apply_pending sha_hex stamp (int k) (drop k ms) s = (r, s')"
  shows "\<exists>k'. k \<le> k' \<and> control_level sha_hex ms k' s' \<and>
    (\<forall>v. r = Inr v \<longrightarrow> k' = length ms \<and> v = int (length ms))"
  using assms(2,3)
proof (induction "length ms - k" arbitrary: k s)
  case 0
  then show ?case by (auto simp: control_level_def ret_def)
next
  case (Suc n)
  then have k: "k < length ms" by simp
  have version: "mg_version (ms ! k) = 1 + int k"
    using in_sequence_nth [OF assms(1)] k by (simp add: ledger_entry_of_def)
  have run: "andthen (apply_migration sha_hex (ms ! k) stamp)
      (\<lambda>_. apply_pending sha_hex stamp (int (Suc k)) (drop (Suc k) ms)) s = (r, s')"
    using Suc.prems(2) k version by (simp add: Cons_nth_drop_Suc [symmetric] algebra_simps)
  show ?case
  proof (cases "fst (apply_migration sha_hex (ms ! k) stamp s)")
    case (Inl e)
    then have "apply_migration sha_hex (ms ! k) stamp s = (Inl e, s')" "r = Inl e"
      using run by (auto simp: andthen_def split: prod.splits)
    then show ?thesis using apply_migration_Inl Suc.prems(1) by (fastforce simp: control_level_def)
  next
    case (Inr u)
    then obtain s1 where s1: "apply_migration sha_hex (ms ! k) stamp s = (Inr u, s1)"
      "apply_pending sha_hex stamp (int (Suc k)) (drop (Suc k) ms) s1 = (r, s')"
      using run by (auto simp: andthen_def split: prod.splits)
    have "control_level sha_hex ms (Suc k) s1"
      using apply_migration_level [OF Suc.prems(1) k s1(1)] .
    with Suc.hyps(1) [of "Suc k" s1] Suc.hyps(2) s1(2) show ?thesis
      by (metis Suc_leD diff_Suc_Suc diff_Suc_eq_diff_pred k le_refl Suc_diff_Suc Suc_inject)
  qed
qed

lemma pending_skips:
  "\<forall>m \<in> set ms. mg_version m \<le> highest \<Longrightarrow>
     apply_pending sha_hex stamp highest (ms @ later) = apply_pending sha_hex stamp highest later"
  by (induction ms) auto

lemma ensure_table_keeps:
  "ensure_schema_table s = (r, s') \<Longrightarrow> control_level sha_hex ms k s \<Longrightarrow> control_level sha_hex ms k s'"
  by (cases r) (auto simp: ensure_schema_table_def control_level_def
      dest!: schema_transaction_Inl schema_transaction_Inr sqlite_call_Inr split: option.splits)

lemma load_applied_Inr:
  "load_applied s = (Inr applied, s') \<Longrightarrow> \<exists>rows. sc_ledger s = Some rows \<and>
     applied = sort_key fst (map fst rows) \<and> sc_ledger s' = Some rows \<and> sc_statements s' = sc_statements s"
  by (auto simp: load_applied_def dest!: sqlite_call_Inr split: option.splits)

lemma in_sequence_highest:
  assumes "in_sequence applied" shows "highest_version applied = int (length applied)"
proof (cases "applied = []")
  case False
  have "Max (set (map fst applied)) = int (length applied)"
  proof (rule Max_eqI)
    show "int (length applied) \<in> set (map fst applied)"
      using in_sequence_last [OF assms False] False by (metis last_in_set list.map_disc_iff last_map)
    show "y \<le> int (length applied)" if "y \<in> set (map fst applied)" for y
      using that in_sequence_nth [OF assms] by (fastforce simp: in_set_conv_nth)
  qed simp
  then show ?thesis using False by (simp add: highest_version_def)
qed (simp add: highest_version_def)

lemma control_level_run:
  assumes level: "control_level sha_hex ms k s" and defs: "in_sequence (map (ledger_entry_of sha_hex) ms)"
    and run: "apply_all sha_hex ms stamp s = (r, s')"
  shows "\<exists>k'. k \<le> k' \<and> control_level sha_hex ms k' s' \<and>
    (\<forall>v. r = Inr v \<longrightarrow> k' = length ms \<and> v = int (length ms))"
proof -
  let ?rest = "\<lambda>applied. andthen (lift_res (validate_applied_prefix migration_error applied (map (ledger_entry_of sha_hex) ms)))
    (\<lambda>_. apply_pending sha_hex stamp (highest_version applied) ms)"
  obtain r0 where r0: "andthen ensure_schema_table (\<lambda>_. andthen load_applied ?rest) s = (r0, s')"
    "(\<exists>v. r = Inr v) \<Longrightarrow> r0 = r" "(\<exists>e. r = Inl e) \<Longrightarrow> (\<exists>e. r0 = Inl e)"
    using run by (cases r) (auto simp: apply_all_def normalise_Inr normalise_Inl)
  obtain q s1 where q: "ensure_schema_table s = (q, s1)" by (cases "ensure_schema_table s")
  have level1: "control_level sha_hex ms k s1" using ensure_table_keeps [OF q level] .
  show ?thesis
  proof (cases q)
    case (Inl e)
    then have "s' = s1" "r0 = Inl e" using q r0(1) by (auto simp: andthen_def)
    then show ?thesis using level1 r0 by (intro exI [of _ k]) (cases r, auto)
  next
    case (Inr u)
    then have loaded: "andthen load_applied ?rest s1 = (r0, s')" using q r0(1) by (simp add: andthen_def)
    show ?thesis
    proof (cases "fst (load_applied s1)")
      case (Inl e)
      then have "r0 = Inl e" "load_applied s1 = (Inl e, s')"
        using loaded by (auto simp: andthen_def split: prod.splits)
      moreover have "control_level sha_hex ms k s'"
        using level1 \<open>load_applied s1 = (Inl e, s')\<close>
        by (auto simp: load_applied_def control_level_def dest!: sqlite_call_Inl)
      ultimately show ?thesis using r0 by (intro exI [of _ k]) (cases r, auto)
    next
      case (Inr applied)
      then obtain s2 where s2: "load_applied s1 = (Inr applied, s2)" "?rest applied s2 = (r0, s')"
        using loaded by (auto simp: andthen_def split: prod.splits)
      obtain rows where rows: "sc_ledger s1 = Some rows" "applied = sort_key fst (map fst rows)"
        "sc_ledger s2 = Some rows" "sc_statements s2 = sc_statements s1"
        using load_applied_Inr [OF s2(1)] by blast
      let ?prefix = "take k (map (ledger_entry_of sha_hex) ms)"
      have recorded: "map fst rows = ?prefix" using level1 rows(1) by (simp add: control_level_def take_map)
      note prefix = in_sequence_take [OF defs, of k]
      have applied: "applied = ?prefix"
        using in_sequence_sorted [OF prefix] by (simp add: rows(2) recorded sort_key_id_if_sorted)
      have k: "k \<le> length ms" using level by (simp add: control_level_def)
      have "highest_version applied = int k" using in_sequence_highest [OF prefix] k applied by simp
      moreover have "apply_pending sha_hex stamp (int k) ms = apply_pending sha_hex stamp (int k) (drop k ms)"
      proof -
        have "mg_version m \<le> int k" if "m \<in> set (take k ms)" for m
          using that in_sequence_nth [OF defs] by (fastforce simp: in_set_conv_nth ledger_entry_of_def)
        then show ?thesis by (metis append_take_drop_id pending_skips)
      qed
      ultimately have "(r0, s') = apply_pending sha_hex stamp (int k) (drop k ms) s2 \<or>
          (\<exists>e. r0 = Inl e) \<and> s' = s2"
        using s2(2) by (auto simp: andthen_def lift_res_def split: sum.splits)
      moreover have "control_level sha_hex ms k s2"
        using level1 rows by (simp add: control_level_def)
      ultimately obtain k' where "k \<le> k'" "control_level sha_hex ms k' s'"
        "\<forall>v. r0 = Inr v \<longrightarrow> k' = length ms \<and> v = int (length ms)"
        using pending_level [OF defs] by (metis order_refl sum.distinct(1))
      then show ?thesis using r0 by (cases r) auto
    qed
  qed
qed

lemma migrate_control_level:
  assumes level: "control_level sha_hex ms k s" and run: "migrate_control sha_hex now ms s = (r, s')"
  shows "\<exists>k'. k \<le> k' \<and> control_level sha_hex ms k' s' \<and>
    (\<forall>v. r = Inr v \<longrightarrow> k' = length ms \<and> v = int (length ms))"
proof -
  define s1 where "s1 = s\<lparr>sc_locks := tl (sc_locks s)\<rparr>"
  have level1: "control_level sha_hex ms k s1" using level by (simp add: control_level_def s1_def)
  consider (stopped) "\<exists>e. r = Inl e" "s' = s"
    | (locked) "\<exists>e. r = Inl e" "\<exists>ls. s' = s\<lparr>sc_locks := ls\<rparr>"
    | (ran) stamp where "validate_definitions 0 ms = Inr ()" "apply_all sha_hex ms stamp s1 = (r, s')"
    using run unfolding s1_def
    by (auto simp: migrate_control_def exclusive_barrier_def prog_defs
        split: sum.splits option.splits list.splits if_splits)
  then show ?thesis
  proof cases
    case stopped
    then show ?thesis using level by auto
  next
    case locked
    then have "control_level sha_hex ms k s'" using level by (auto simp: control_level_def)
    then show ?thesis using locked(1) by auto
  next
    case ran
    show ?thesis using control_level_run [OF level1 validated_in_sequence [OF ran(1)] ran(2)] .
  qed
qed

interpretation control: migrator "migrate_control sha_hex now" "control_level sha_hex" "\<lambda>_. True"
  for sha_hex now
proof
  show "\<exists>k'. k \<le> k' \<and> control_level sha_hex ds k' s' \<and> ((\<exists>x. r = Inr x) \<longrightarrow> k' = length ds)"
    if "control_level sha_hex ds k s" "migrate_control sha_hex now ds s = (r, s')" for ds k s r s'
    using migrate_control_level [OF that] by blast
  show "control_level sha_hex (ds @ later) k s" if "control_level sha_hex ds k s" for ds k s later
    using control_level_append [OF that] .
qed

section \<open>The warehouse keeps the promise\<close>

definition warehouse_entries :: "warehouse \<Rightarrow> ledger_entry list" where
  "warehouse_entries w = (case wh_ledger w of None \<Rightarrow> [] | Some rows \<Rightarrow> rows)"

definition effects :: "string \<Rightarrow> storage_migration list \<Rightarrow> string list" where
  "effects database ms = concat (map (\<lambda>m. statements_of (substitute database (sm_sql m))) ms)"

text \<open>
  Without transactions the statements of one more migration may have run, and some twice; those of
  every recorded migration did run, in order.
\<close>

definition warehouse_level :: "string \<Rightarrow> storage_migration list \<Rightarrow> nat \<Rightarrow> warehouse \<Rightarrow> bool" where
  "warehouse_level database ms k w \<longleftrightarrow> k \<le> length ms \<and>
     (wh_ledger w \<noteq> None \<longrightarrow> wh_database w) \<and>
     warehouse_entries w = map storage_entry (take k ms) \<and>
     subseq (effects database (take k ms)) (wh_statements w)"

lemma warehouse_level_append: "warehouse_level database ms k w \<Longrightarrow> warehouse_level database (ms @ later) k w"
  by (simp add: warehouse_level_def)

lemma warehouse_level_faults [simp]:
  "warehouse_level database ms k (w\<lparr>wh_faults := fs\<rparr>) = warehouse_level database ms k w"
  by (simp add: warehouse_level_def warehouse_entries_def)

text \<open>A call either leaves the warehouse or takes the effect it was asked for, whatever it reports.\<close>

lemma server_call_cases:
  assumes "server_call f w = (r, w')"
  obtains (kept) e fs where "r = Inl e" "w' = w\<lparr>wh_faults := fs\<rparr>"
    | (took) x fs where "f (w\<lparr>wh_faults := fs\<rparr>) = Some (x, w')" "r = Inr x \<or> (\<exists>e. r = Inl e)"
  using assms by (fastforce simp: server_call_def Let_def split: list.splits option.splits if_splits)

lemma subseq_extend: "subseq xs ys \<Longrightarrow> subseq xs (ys @ zs)"
  by (metis append_Nil2 list_emb_append_mono list_emb_Nil)

lemma run_statement_level:
  assumes "warehouse_level database ms k w" "run_statement creates st w = (r, w')"
  shows "warehouse_level database ms k w' \<and> (\<exists>new. wh_statements w' = wh_statements w @ new) \<and>
    (\<forall>u. r = Inr u \<longrightarrow> wh_statements w' = wh_statements w @ [st])"
  using assms(2) [unfolded run_statement_def] assms(1)
  by (cases rule: server_call_cases)
    (auto simp: warehouse_level_def warehouse_entries_def subseq_extend split: if_splits option.splits)

lemma run_statements_level:
  assumes "warehouse_level database ms k w" "for_each (run_statement creates) sts w = (r, w')"
  shows "warehouse_level database ms k w' \<and> (\<exists>new. wh_statements w' = wh_statements w @ new) \<and>
    (\<forall>u. r = Inr u \<longrightarrow> wh_statements w' = wh_statements w @ sts)"
  using assms
proof (induction sts arbitrary: w r w')
  case Nil
  then show ?case by (simp add: ret_def)
next
  case (Cons st sts)
  obtain q w1 where q: "run_statement creates st w = (q, w1)" by (cases "run_statement creates st w")
  note step = run_statement_level [OF Cons.prems(1) q]
  show ?case
  proof (cases q)
    case (Inl e)
    then show ?thesis using Cons.prems(2) step q by (auto simp: andthen_def)
  next
    case (Inr u)
    obtain r1 w2 where rest: "for_each (run_statement creates) sts w1 = (r1, w2)"
      by (cases "for_each (run_statement creates) sts w1")
    have "w2 = w'" "(\<exists>u. r = Inr u) \<longleftrightarrow> (\<exists>u. r1 = Inr u)"
      using Cons.prems(2) q Inr rest by (auto simp: andthen_def ret_def split: sum.splits)
    then show ?thesis using Cons.IH [OF _ rest] step Inr by auto
  qed
qed

lemma insert_entry_cases:
  assumes "insert_entry e w = (r, w')"
  obtains (kept) "\<exists>x. r = Inl x" "warehouse_entries w' = warehouse_entries w"
      "wh_statements w' = wh_statements w" "wh_database w' = wh_database w"
      "(wh_ledger w' = None) = (wh_ledger w = None)"
    | (recorded) "wh_ledger w \<noteq> None" "warehouse_entries w' = warehouse_entries w @ [e]"
      "wh_statements w' = wh_statements w" "wh_database w' = wh_database w" "wh_ledger w' \<noteq> None"
  using assms unfolding insert_entry_def
  by (cases rule: server_call_cases) (auto simp: warehouse_entries_def split: option.splits)

lemma effects_Suc:
  "k < length ms \<Longrightarrow> effects database (take (Suc k) ms) =
     effects database (take k ms) @ statements_of (substitute database (sm_sql (ms ! k)))"
  by (simp add: effects_def take_Suc_conv_app_nth)

lemma record_level:
  assumes "warehouse_level database ms k w" "warehouse_level database ms k w1" "k < length ms"
    and "wh_statements w1 = wh_statements w @ statements_of (substitute database (sm_sql (ms ! k)))"
    and "insert_entry (storage_entry (ms ! k)) w1 = (q, w2)"
  shows "warehouse_level database ms (Suc k) w2 \<or> warehouse_level database ms k w2 \<and> (\<exists>e. q = Inl e)"
  using assms(5)
proof (cases rule: insert_entry_cases)
  case kept
  then show ?thesis using assms(2) by (simp add: warehouse_level_def)
next
  case recorded
  have "subseq (effects database (take (Suc k) ms)) (wh_statements w1)"
    unfolding effects_Suc [OF assms(3)] assms(4)
    using assms(1) by (auto simp: warehouse_level_def intro: list_emb_append_mono)
  then show ?thesis
    using recorded assms(2,3) by (simp add: warehouse_level_def take_Suc_conv_app_nth)
qed

lemma migrate_each_level:
  assumes "in_sequence (map storage_entry ms)" "applied = map storage_entry (take n ms)" "n \<le> k"
    and "warehouse_level database ms k w"
    and "migrate_each creates database applied (drop k ms) done_now already w = (r, w')"
  shows "\<exists>k'. k \<le> k' \<and> warehouse_level database ms k' w' \<and> ((\<exists>x. r = Inr x) \<longrightarrow> k' = length ms)"
  using assms(3-5)
proof (induction "length ms - k" arbitrary: k w done_now already)
  case 0
  then show ?case by (auto simp: warehouse_level_def ret_def)
next
  case (Suc d)
  then have k: "k < length ms" by simp
  let ?m = "ms ! k" and ?sts = "statements_of (substitute database (sm_sql (ms ! k)))"
  have version: "sm_version (ms ! i) = 1 + int i" if "i < length ms" for i
    using in_sequence_nth [OF assms(1)] that by (simp add: storage_entry_def)
  have "sm_version ?m \<notin> fst ` set applied"
    using assms(2) Suc.prems(1) k version by (auto simp: in_set_conv_nth storage_entry_def)
  then have run: "andthen (for_each (run_statement creates) ?sts) (\<lambda>_.
      andthen (insert_entry (storage_entry ?m)) (\<lambda>_.
      migrate_each creates database applied (drop (Suc k) ms) (done_now @ [sm_version ?m]) already)) w = (r, w')"
    using Suc.prems(3) k by (simp add: Cons_nth_drop_Suc [symmetric])
  obtain q w1 where q: "for_each (run_statement creates) ?sts w = (q, w1)"
    by (cases "for_each (run_statement creates) ?sts w")
  note ran = run_statements_level [OF Suc.prems(2) q]
  show ?case
  proof (cases q)
    case (Inl e)
    then show ?thesis using run q ran by (auto simp: andthen_def)
  next
    case (Inr us)
    obtain q2 w2 where q2: "insert_entry (storage_entry ?m) w1 = (q2, w2)"
      by (cases "insert_entry (storage_entry ?m) w1")
    note next_level = record_level [OF Suc.prems(2) _ k _ q2]
    have next_level: "warehouse_level database ms (Suc k) w2 \<or> warehouse_level database ms k w2 \<and> (\<exists>e. q2 = Inl e)"
      using ran Inr by (intro next_level) simp_all
    show ?thesis
    proof (cases q2)
      case (Inl e)
      then have "r = Inl e" "w' = w2" using run q Inr q2 by (auto simp: andthen_def)
      then show ?thesis using next_level by (auto intro: le_SucI)
    next
      case r2: (Inr u)
      then have "migrate_each creates database applied (drop (Suc k) ms) (done_now @ [sm_version ?m]) already w2 = (r, w')"
        using run q Inr q2 by (simp add: andthen_def)
      moreover have "warehouse_level database ms (Suc k) w2" using next_level r2 by simp
      ultimately obtain k' where "Suc k \<le> k'" "warehouse_level database ms k' w'"
        "(\<exists>x. r = Inr x) \<longrightarrow> k' = length ms"
        using Suc.hyps(1) [of "Suc k" w2] Suc.hyps(2) Suc.prems(1) by fastforce
      then show ?thesis using Suc_leD by blast
    qed
  qed
qed

lemma migrate_each_skips:
  "\<forall>m \<in> set ms. sm_version m \<in> fst ` set applied \<Longrightarrow>
     migrate_each creates database applied (ms @ later) done_now already =
     migrate_each creates database applied later done_now (already @ map sm_version ms)"
  by (induction ms arbitrary: already) auto

lemma load_ledger_cases:
  assumes "load_ledger w = (r, w')" "wh_ledger w \<noteq> None \<longrightarrow> wh_database w"
  shows "(\<exists>fs. w' = w\<lparr>wh_faults := fs\<rparr>) \<and> (\<forall>a. r = Inr a \<longrightarrow> a = sort_key fst (warehouse_entries w))"
  using assms
  by (auto simp: load_ledger_def prog_defs server_call_def Let_def warehouse_entries_def
      split: list.splits option.splits if_splits sum.splits prod.splits)

lemma create_database_level:
  "create_database w = (r, w') \<Longrightarrow> warehouse_level database ms k w \<Longrightarrow> warehouse_level database ms k w'"
  unfolding create_database_def
  by (erule server_call_cases) (auto simp: warehouse_level_def warehouse_entries_def)

lemma storage_migrate_level:
  assumes defs: "in_sequence (map storage_entry ms)" and level: "warehouse_level database ms k w"
    and run: "storage_migrate creates database now ms w = (r, w')"
  shows "\<exists>k'. k \<le> k' \<and> warehouse_level database ms k' w' \<and> ((\<exists>x. r = Inr x) \<longrightarrow> k' = length ms)"
proof -
  let ?rest = "\<lambda>applied. andthen (lift_res (validate_applied_prefix storage_error applied (map storage_entry ms)))
    (\<lambda>_. migrate_each creates database applied ms [] [])"
  consider (stopped) "\<exists>e. r = Inl e" "w' = w"
    | (ran) "andthen create_database (\<lambda>_. andthen load_ledger ?rest) w = (r, w')"
    using run by (auto simp: storage_migrate_def prog_defs split: sum.splits if_splits)
  then show ?thesis
  proof cases
    case stopped
    then show ?thesis using level by auto
  next
    case ran
    obtain q w1 where q: "create_database w = (q, w1)" by (cases "create_database w")
    note level1 = create_database_level [OF q level]
    obtain q2 w2 where q2: "load_ledger w1 = (q2, w2)" by (cases "load_ledger w1")
    have loaded: "(\<exists>fs. w2 = w1\<lparr>wh_faults := fs\<rparr>) \<and> (\<forall>a. q2 = Inr a \<longrightarrow> a = sort_key fst (warehouse_entries w1))"
      using load_ledger_cases [OF q2] level1 by (simp add: warehouse_level_def)
    then have level2: "warehouse_level database ms k w2" using level1 by auto
    show ?thesis
    proof (cases "(\<exists>e. q = Inl e) \<or> (\<exists>e. q2 = Inl e)")
      case True
      then have "(\<exists>e. r = Inl e) \<and> (w' = w1 \<or> w' = w2)"
        using ran q q2 by (cases q) (auto simp: andthen_def)
      then show ?thesis using level1 level2 by auto
    next
      case False
      then obtain u applied where ok: "q = Inr u" "q2 = Inr applied" by (cases q; cases q2) auto
      let ?prefix = "take k (map storage_entry ms)"
      have "warehouse_entries w1 = ?prefix" using level1 by (simp add: warehouse_level_def take_map)
      then have applied: "applied = ?prefix"
        using loaded ok in_sequence_sorted [OF in_sequence_take [OF defs, of k]]
        by (simp add: sort_key_id_if_sorted)
      have "\<forall>m \<in> set (take k ms). sm_version m \<in> fst ` set applied"
        by (auto simp: applied take_map storage_entry_def image_image)
      then have skip: "migrate_each creates database applied ms [] [] =
          migrate_each creates database applied (drop k ms) [] (map sm_version (take k ms))"
        using migrate_each_skips [of "take k ms" applied creates database "drop k ms" "[]" "[]"] by simp
      have "?rest applied w2 = (r, w')" using ran q q2 ok by (simp add: andthen_def)
      then have "(\<exists>e. r = Inl e) \<and> w' = w2 \<or>
          migrate_each creates database applied (drop k ms) [] (map sm_version (take k ms)) w2 = (r, w')"
        unfolding skip [symmetric] by (auto simp: andthen_def lift_res_def split: sum.splits)
      then show ?thesis
        using migrate_each_level [OF defs _ order_refl level2, of applied] level2 applied by (auto simp: take_map)
    qed
  qed
qed

interpretation warehouse: migrator "storage_migrate creates database now" "warehouse_level database"
    "\<lambda>ms. in_sequence (map storage_entry ms)"
  for creates database now
proof
  show "\<exists>k'. k \<le> k' \<and> warehouse_level database ds k' s' \<and> ((\<exists>x. r = Inr x) \<longrightarrow> k' = length ds)"
    if "in_sequence (map storage_entry ds)" "warehouse_level database ds k s"
      "storage_migrate creates database now ds s = (r, s')" for ds k s r s'
    using storage_migrate_level [OF that] .
  show "warehouse_level database (ds @ later) k s" if "warehouse_level database ds k s" for ds k s later
    using warehouse_level_append [OF that] .
qed

text \<open>C24
  Upgrades of the control database: start from a database that records the first \<open>k\<close> definitions of
  some release with exactly their statements applied, and run any number of migration attempts of
  that release and of later ones that only append definitions, each failing anywhere (a statement,
  a commit, the barrier, the clock) or succeeding. The database still records a prefix of the last
  release with exactly that prefix's statements applied, never a shorter one, and a further attempt
  that returns has applied every definition exactly once, in order, and returns their number.\<close>

theorem control_upgrades_complete:
  assumes "control_level sha_hex old k s" "releases old (dss @ [ds])"
    and s1: "s1 = attempts (migrate_control sha_hex now) dss s"
  shows "(\<exists>k'. k \<le> k' \<and> control_level sha_hex (last (old # dss)) k' s1) \<and>
    (\<forall>v s2. migrate_control sha_hex now ds s1 = (Inr v, s2) \<longrightarrow>
      v = int (length ds) \<and> sc_statements s2 = concat (map mg_statements ds))"
proof -
  have split: "releases old dss" "releases (last (old # dss)) [ds]"
    using assms(2) by (induction dss arbitrary: old) auto
  obtain k' where k': "k \<le> k'" "control_level sha_hex (last (old # dss)) k' s1"
    using control.attempts_level [OF assms(1) split(1)] by (auto simp: s1)
  have "v = int (length ds) \<and> sc_statements s2 = concat (map mg_statements ds)"
    if "migrate_control sha_hex now ds s1 = (Inr v, s2)" for v s2
    using migrate_control_level [OF control.level_release [OF k'(2)] that] split(2)
    by (auto simp: control_level_def)
  then show ?thesis using k' by blast
qed

definition demo_control :: "migration list" where
  "demo_control = [\<lparr>mg_version = 1, mg_name = ''core'', mg_statements = [''a'', ''b'']\<rparr>,
    \<lparr>mg_version = 2, mg_name = ''audit'', mg_statements = [''c'']\<rparr>]"

definition fresh_schema :: schema_store where
  "fresh_schema = \<lparr>sc_statements = [], sc_ledger = None,
     sc_faults = [False, False, False, False, False, False, True], sc_closed = False, sc_locks = []\<rparr>"

text \<open>Of the first release the second statement fails; the second release then applies both.\<close>

definition demo_failed :: schema_store where
  "demo_failed = attempts (migrate_control id (utc 1000)) [take 1 demo_control] fresh_schema"

lemma demo_now: "format_timestamp (utc 1000) = Inr (stamp_of 1000)"
  by (simp add: format_timestamp_utc valid_instant_def datetime_limit_def us_per_day_def)

lemmas control_eval = migrate_control_def apply_all_def apply_migration_def exclusive_barrier_def
  ensure_schema_table_def schema_transaction_def restore_def load_applied_def insert_ledger_def
  execute_def sqlite_call_def demo_control_def demo_now prog_defs Let_def
  validate_applied_prefix_def highest_version_def

lemma demo_failed_value:
  "demo_failed = fresh_schema\<lparr>sc_ledger := Some [], sc_faults := []\<rparr>"
  by (simp add: demo_failed_def fresh_schema_def control_eval numeral_2_eq_2 blank_char_def)

lemma demo_upgraded:
  "\<exists>s2. migrate_control id (utc 1000) demo_control demo_failed = (Inr 2, s2)"
  by (simp add: demo_failed_value fresh_schema_def control_eval blank_char_def ledger_entry_of_def)

theorem control_upgrades_complete_witness:
  "\<exists>s2. migrate_control id (utc 1000) demo_control demo_failed = (Inr 2, s2) \<and>
     sc_statements s2 = concat (map mg_statements demo_control)"
proof -
  have "control_level id [] 0 fresh_schema" "releases [] ([take 1 demo_control] @ [demo_control])"
    by (simp_all add: control_level_def fresh_schema_def demo_control_def)
  note * = control_upgrades_complete [OF this demo_failed_def]
  show ?thesis using * demo_upgraded by (metis prod.collapse)
qed

section \<open>An altered ledger stops every migration\<close>

definition same_schema :: "schema_store \<Rightarrow> schema_store \<Rightarrow> bool" where
  "same_schema s s' \<longleftrightarrow> sc_ledger s' = sc_ledger s \<and> sc_statements s' = sc_statements s"

lemma ensure_table_same:
  "ensure_schema_table s = (r, s') \<Longrightarrow> sc_ledger s = Some rows \<Longrightarrow> same_schema s s'"
  by (cases r) (auto simp: ensure_schema_table_def same_schema_def
      dest!: schema_transaction_Inl schema_transaction_Inr sqlite_call_Inr)

lemma load_applied_same:
  "load_applied s = (r, s') \<Longrightarrow> same_schema s s'"
  by (cases r) (auto simp: load_applied_def same_schema_def
      dest!: sqlite_call_Inl sqlite_call_Inr split: option.splits)

lemma altered_refused:
  assumes "in_sequence defs" "distinct (map fst rows)" "sort_key fst rows \<noteq> take (length rows) defs"
  shows "validate_applied_prefix err (sort_key fst rows) defs = Inl err"
proof -
  have "distinct (map fst (sort_key fst rows))"
    using assms(2) by (metis distinct_map distinct_sort set_sort)
  then show ?thesis using validate_prefix_cases [OF assms(1)] assms(3) by simp
qed

lemma apply_all_refuses:
  assumes "in_sequence (map (ledger_entry_of sha_hex) ms)" "sc_ledger s = Some rows"
    and "distinct (map (fst \<circ> fst) rows)"
    and "sort_key fst (map fst rows) \<noteq> take (length rows) (map (ledger_entry_of sha_hex) ms)"
    and "apply_all sha_hex ms stamp s = (r, s')"
  shows "(\<exists>e. r = Inl e) \<and> same_schema s s'"
proof -
  let ?check = "\<lambda>applied. validate_applied_prefix migration_error applied (map (ledger_entry_of sha_hex) ms)"
  have refused: "?check (sort_key fst (map fst rows)) = Inl migration_error"
    using altered_refused [OF assms(1)] assms(3,4) by simp
  obtain q s1 where q: "ensure_schema_table s = (q, s1)" by (cases "ensure_schema_table s")
  obtain q2 s2 where q2: "load_applied s1 = (q2, s2)" by (cases "load_applied s1")
  note same = ensure_table_same [OF q assms(2)] load_applied_same [OF q2]
  have "applied = sort_key fst (map fst rows)" if "q2 = Inr applied" for applied
    using load_applied_Inr [of s1 applied s2] q2 that same(1) assms(2) by (auto simp: same_schema_def)
  then have "(\<exists>e. r = Inl e) \<and> (s' = s1 \<or> s' = s2)"
    using assms(5) q q2 refused
    by (cases q; cases q2) (auto simp: apply_all_def prog_defs split: if_splits option.splits)
  then show ?thesis using same by (auto simp: same_schema_def)
qed

lemma migrate_control_refuses:
  assumes "sc_ledger s = Some rows" "distinct (map (fst \<circ> fst) rows)"
    and "sort_key fst (map fst rows) \<noteq> take (length rows) (map (ledger_entry_of sha_hex) ms)"
    and run: "migrate_control sha_hex now ms s = (r, s')"
  shows "(\<exists>e. r = Inl e) \<and> same_schema s s'"
proof -
  define s1 where "s1 = s\<lparr>sc_locks := tl (sc_locks s)\<rparr>"
  have s1: "sc_ledger s1 = Some rows" "same_schema s s1" using assms(1) by (simp_all add: s1_def same_schema_def)
  consider (stopped) "\<exists>e. r = Inl e" "same_schema s s'"
    | (ran) stamp where "validate_definitions 0 ms = Inr ()" "apply_all sha_hex ms stamp s1 = (r, s')"
    using run unfolding s1_def same_schema_def
    by (auto simp: migrate_control_def exclusive_barrier_def prog_defs
        split: sum.splits option.splits list.splits if_splits)
  then show ?thesis
  proof cases
    case ran
    then show ?thesis
      using apply_all_refuses [OF validated_in_sequence [OF ran(1)] s1(1) assms(2,3) ran(2)] s1(2)
      by (simp add: same_schema_def)
  qed simp
qed

lemma storage_migrate_refuses:
  assumes defs: "in_sequence (map storage_entry ms)" and ledger: "wh_ledger w = Some rows" "wh_database w"
    and "distinct (map fst rows)" "sort_key fst rows \<noteq> take (length rows) (map storage_entry ms)"
    and run: "storage_migrate creates database now ms w = (r, w')"
  shows "(\<exists>e. r = Inl e) \<and> wh_ledger w' = wh_ledger w \<and> wh_statements w' = wh_statements w"
proof -
  let ?same = "\<lambda>w'. wh_ledger w' = wh_ledger w \<and> wh_statements w' = wh_statements w \<and> wh_database w'"
  have refused: "validate_applied_prefix storage_error (sort_key fst rows) (map storage_entry ms) = Inl storage_error"
    using altered_refused [OF defs] assms(4,5) by simp
  obtain q w1 where q: "create_database w = (q, w1)" by (cases "create_database w")
  have w1: "?same w1"
    using q ledger(2) unfolding create_database_def by (elim server_call_cases) auto
  obtain q2 w2 where q2: "load_ledger w1 = (q2, w2)" by (cases "load_ledger w1")
  have w2: "(\<exists>fs. w2 = w1\<lparr>wh_faults := fs\<rparr>) \<and> (\<forall>a. q2 = Inr a \<longrightarrow> a = sort_key fst rows)"
    using load_ledger_cases [OF q2] w1 ledger by (auto simp: warehouse_entries_def)
  then have "?same w2" using w1 by auto
  then show ?thesis
    using run q q2 w1 w2 refused
    by (cases q; cases q2) (auto simp: storage_migrate_def prog_defs split: sum.splits if_splits)
qed

text \<open>
  A migration ledger that is not an unmodified prefix of the definitions (a changed checksum or name,
  a gap, a version without a definition) stops both migrators: whatever else fails, neither
  the control database nor the warehouse returns a value, and neither runs a statement or
  records a row.\<close>

theorem altered_ledger_refused:
  assumes "sc_ledger s = Some rows" "distinct (map (fst \<circ> fst) rows)"
    and "sort_key fst (map fst rows) \<noteq> take (length rows) (map (ledger_entry_of sha_hex) ms)"
    and "wh_ledger w = Some entries" "wh_database w" "distinct (map fst entries)"
    and "map sm_version sms = map (\<lambda>k. 1 + int k) [0..<length sms]"
    and "sort_key fst entries \<noteq> take (length entries) (map storage_entry sms)"
  shows "(\<exists>e s'. migrate_control sha_hex now ms s = (Inl e, s') \<and>
      sc_ledger s' = sc_ledger s \<and> sc_statements s' = sc_statements s) \<and>
    (\<exists>e w'. storage_migrate creates database now sms w = (Inl e, w') \<and>
      wh_ledger w' = wh_ledger w \<and> wh_statements w' = wh_statements w)"
proof
  show "\<exists>e s'. migrate_control sha_hex now ms s = (Inl e, s') \<and>
      sc_ledger s' = sc_ledger s \<and> sc_statements s' = sc_statements s"
    using migrate_control_refuses [OF assms(1-3)] by (metis same_schema_def surj_pair)
  have "in_sequence (map storage_entry sms)"
    using assms(7) by (simp add: in_sequence_def storage_entry_def comp_def)
  from storage_migrate_refuses [OF this assms(4-6,8)]
  show "\<exists>e w'. storage_migrate creates database now sms w = (Inl e, w') \<and>
      wh_ledger w' = wh_ledger w \<and> wh_statements w' = wh_statements w"
    by (metis surj_pair)
qed

definition forged_schema :: schema_store where
  "forged_schema = fresh_schema\<lparr>sc_ledger := Some [((1, ''core'', ''forged''), ''t'')]\<rparr>"

definition demo_storage :: "storage_migration list" where
  "demo_storage = [\<lparr>sm_version = 1, sm_name = ''core'', sm_sql = ''A {database};--x'' @ [LF] @ ''B'', sm_checksum = ''c1''\<rparr>,
    \<lparr>sm_version = 2, sm_name = ''records'', sm_sql = ''C;'', sm_checksum = ''c2''\<rparr>]"

definition gapped_warehouse :: warehouse where
  "gapped_warehouse = \<lparr>wh_statements = [], wh_database = True,
     wh_ledger = Some [(2, ''records'', ''c2'')], wh_faults = [None]\<rparr>"

theorem altered_ledger_refused_witness:
  "(\<exists>e s'. migrate_control id (utc 1000) demo_control forged_schema = (Inl e, s') \<and>
      sc_ledger s' = sc_ledger forged_schema \<and> sc_statements s' = sc_statements forged_schema) \<and>
   (\<exists>e w'. storage_migrate (\<lambda>_. False) ''db'' (utc 1000) demo_storage gapped_warehouse = (Inl e, w') \<and>
      wh_ledger w' = wh_ledger gapped_warehouse \<and> wh_statements w' = wh_statements gapped_warehouse)"
proof (rule altered_ledger_refused)
  show "sc_ledger forged_schema = Some [((1, ''core'', ''forged''), ''t'')]"
    by (simp add: forged_schema_def)
  show "wh_ledger gapped_warehouse = Some [(2, ''records'', ''c2'')]" "wh_database gapped_warehouse"
    by (simp_all add: gapped_warehouse_def)
  show "map sm_version demo_storage = map (\<lambda>k. 1 + int k) [0..<length demo_storage]"
    by (simp add: demo_storage_def)
  show "sort_key fst [(2::int, ''records'', ''c2'')] \<noteq> take (length [(2::int, ''records'', ''c2'')]) (map storage_entry demo_storage)"
    by (simp add: demo_storage_def storage_entry_def)
  have "mig_checksum id (hd demo_control) \<noteq> ''forged''" by code_simp
  then show "sort_key fst (map fst [((1::int, ''core'', ''forged''), ''t'')]) \<noteq>
      take (length [((1::int, ''core'', ''forged''), ''t'')]) (map (ledger_entry_of id) demo_control)"
    by (simp add: demo_control_def ledger_entry_of_def)
qed simp_all

text \<open>C25
  Upgrades of the warehouse, which has no transactions: start from a warehouse that records the first
  \<open>k\<close> definitions of some release and has run their statements, and run any number of attempts of that
  release and of later ones that only append, where every call to the server may fail before or after
  its effect. The ledger still holds exactly a prefix of the last release, never a shorter one, whose
  statements all ran, in order; and a further attempt that returns has recorded every definition
  once, with all their statements run in order.\<close>

theorem warehouse_upgrades_complete:
  assumes "warehouse_level database old k w" "releases old (dss @ [ds])"
    and "\<forall>ms \<in> set (dss @ [ds]). map sm_version ms = map (\<lambda>k. 1 + int k) [0..<length ms]"
    and w1: "w1 = attempts (storage_migrate creates database now) dss w"
  shows "(\<exists>k'. k \<le> k' \<and> warehouse_level database (last (old # dss)) k' w1) \<and>
    (\<forall>v w2. storage_migrate creates database now ds w1 = (Inr v, w2) \<longrightarrow>
      warehouse_entries w2 = map storage_entry ds \<and> subseq (effects database ds) (wh_statements w2))"
proof -
  have split: "releases old dss" using assms(2) by (induction dss arbitrary: old) auto
  have valid: "\<forall>ms \<in> set (dss @ [ds]). in_sequence (map storage_entry ms)"
    using assms(3) by (simp add: in_sequence_def storage_entry_def comp_def)
  have "warehouse_level database ds (length ds) w2"
    if "storage_migrate creates database now ds w1 = (Inr v, w2)" for v w2
    using warehouse.attempts_finished [OF assms(1,2) valid] that w1 by blast
  moreover have "\<exists>k'. k \<le> k' \<and> warehouse_level database (last (old # dss)) k' w1"
    using warehouse.attempts_level [OF assms(1) split] valid w1 by simp
  ultimately show ?thesis by (fastforce simp: warehouse_level_def)
qed

definition fresh_warehouse :: warehouse where
  "fresh_warehouse = \<lparr>wh_statements = [], wh_database = False, wh_ledger = None,
     wh_faults = [None, None, None, None, None, Some (Storage_Error ''MH_STORAGE_UNAVAILABLE'', True)]\<rparr>"

lemmas storage_eval = storage_migrate_def require_identifier_def create_database_def
  load_ledger_def insert_entry_def run_statement_def server_call_def prog_defs Let_def
  validate_applied_prefix_def

definition demo_warehouse :: warehouse where
  "demo_warehouse = attempts (storage_migrate (\<lambda>st. st = ''A db'') ''db'' (utc 1000)) [take 1 demo_storage] fresh_warehouse"

lemma truncate_demo: "\<exists>t. truncate_to_milliseconds (utc 1000) = Inr t"
  by (simp add: truncate_to_milliseconds_def utc_def datetime_limit_def us_per_day_def)

lemma demo_identifier: "is_identifier ''db''"
  by code_simp

lemma demo_statements:
  "statements_of [CHR ''A'', CHR '' '', CHR ''d'', CHR ''b'', CHR '';'', CHR ''-'', CHR ''-'', CHR ''x'', LF, CHR ''B''] =
     [''A db'', ''B'']"
  "statements_of ''C;'' = [''C'']"
  by code_simp+

lemma demo_storage_run:
  "\<exists>v w2. storage_migrate (\<lambda>st. st = ''A db'') ''db'' (utc 1000) demo_storage demo_warehouse = (Inr v, w2)"
  using truncate_demo
  by (auto simp: demo_warehouse_def storage_eval fresh_warehouse_def demo_storage_def
      demo_statements demo_identifier check_res_def storage_entry_def)

text \<open>The row of the first attempt lands although its insert is reported to fail.\<close>

theorem warehouse_upgrades_complete_witness:
  "\<exists>v w2. storage_migrate (\<lambda>st. st = ''A db'') ''db'' (utc 1000) demo_storage demo_warehouse = (Inr v, w2) \<and>
     warehouse_entries w2 = map storage_entry demo_storage"
proof -
  have base: "warehouse_level ''db'' [] 0 fresh_warehouse" "releases [] ([take 1 demo_storage] @ [demo_storage])"
    "\<forall>ms \<in> set ([take 1 demo_storage] @ [demo_storage]). map sm_version ms = map (\<lambda>k. 1 + int k) [0..<length ms]"
    by (simp_all add: warehouse_level_def warehouse_entries_def effects_def fresh_warehouse_def demo_storage_def)
  obtain v w2 where "storage_migrate (\<lambda>st. st = ''A db'') ''db'' (utc 1000) demo_storage demo_warehouse = (Inr v, w2)"
    using demo_storage_run by blast
  then show ?thesis using warehouse_upgrades_complete [OF base demo_warehouse_def] by blast
qed

end
