(* ===== verification/Reconcile.thy ===== *)
theory Reconcile
  imports Retention Verify "HOL-Library.Word"
begin

unbundle bit_operations_syntax

text \<open>
  \<^verbatim>\<open>src/milhouse/spooling/reconcile.py\<close>: the recovery scan that every writer acquisition and every
  commit runs under the exclusive barrier. It inventories the pending spool, compares it with the
  ledger, and only after a complete classification registers orphans, finishes interrupted prunes and
  quarantines what cannot be trusted.

  The methods of \<^verbatim>\<open>_Scan\<close> are programs over one state, \<open>recon\<close>: its slots, the spool and database
  they act on, and what the platform answers (\<open>spool_view\<close> for the secure enumeration of the
  directories, scripts for durability fences, staging cleanups and moves). The descriptor steps of one
  quarantine move (\<^verbatim>\<open>_move_to_quarantine\<close> and the methods it calls) are its three documented outcomes.
\<close>

section \<open>Names\<close>

definition stage_prefix :: string where "stage_prefix = ''.milhouse-stage-''"
definition retire_prefix :: string where "retire_prefix = ''.milhouse-stage-quarantine-retired-''"
definition segment_suffix :: string where "segment_suffix = ''.jsonl''"

definition starts_with :: "string \<Rightarrow> string \<Rightarrow> bool" where
  "starts_with p s \<longleftrightarrow> take (length p) s = p"

definition ends_with :: "string \<Rightarrow> string \<Rightarrow> bool" where
  "ends_with p s \<longleftrightarrow> length p \<le> length s \<and> drop (length s - length p) s = p"

definition unquarantinable :: "string list" where
  "unquarantinable = [''MH_SPOOL_CHANGED'', ''MH_SPOOL_NOT_FOUND'', ''MH_SPOOL_NOT_REGULAR'']"

definition max_days :: nat where "max_days = 100000"
definition max_total :: nat where "max_total = 1000000"
definition max_anomalies :: nat where "max_anomalies = 100000"

text \<open>\<^verbatim>\<open>_is_valid_day\<close>: the strict shape, then \<^verbatim>\<open>strptime\<close>.\<close>

definition is_valid_day :: "string \<Rightarrow> bool" where
  "is_valid_day s \<longleftrightarrow> length s = 10 \<and>
     list_all2 (\<lambda>p c. if p = CHR ''0'' then is_digit c else c = p) ''0000-00-00'' s \<and> is_date s"

definition safe_id :: "string \<Rightarrow> string" where
  "safe_id b = (if token_match 127 b then b else [])"

text \<open>\<^verbatim>\<open>str.partition\<close>: the text before and after the first separator, if there is one.\<close>

fun partition_at :: "string \<Rightarrow> string \<Rightarrow> (string \<times> string) option" where
  "partition_at sep [] = (if sep = [] then Some ([], []) else None)"
| "partition_at sep (c # cs) =
     (if starts_with sep (c # cs) then Some ([], drop (length sep) (c # cs))
      else map_option (\<lambda>(a, b). (c # a, b)) (partition_at sep cs))"

fun hex_value :: "nat \<Rightarrow> string \<Rightarrow> nat" where
  "hex_value a [] = a"
| "hex_value a (c # cs) =
     hex_value (16 * a + (if is_digit c then of_char c - 48 else of_char c - 87)) cs"

type_synonym file_identity = "nat \<times> nat"

definition retirement_parts :: "string \<Rightarrow> (file_identity \<times> string) option" where
  "retirement_parts nm =
     (if \<not> starts_with retire_prefix nm then None
      else case partition_at ''--'' (drop (length retire_prefix) nm) of
        None \<Rightarrow> None
      | Some (encoded, candidate) \<Rightarrow>
          (case partition_at ''-'' encoded of
             None \<Rightarrow> None
           | Some (device, inode) \<Rightarrow>
               if candidate = [] \<or> device = [] \<or> inode = []
                 \<or> \<not> list_all is_lower_hex device \<or> \<not> list_all is_lower_hex inode then None
               else Some ((hex_value 0 device, hex_value 0 inode), candidate)))"

definition writer_stage :: "string \<Rightarrow> bool" where
  "writer_stage nm \<longleftrightarrow> starts_with stage_prefix nm \<and> length nm = length stage_prefix + 32 \<and>
     list_all is_lower_hex (drop (length stage_prefix) nm)"

text \<open>What \<^verbatim>\<open>os.stat\<close> says of a staged name: type, owner, links, size, permission bits, identity.\<close>

record leaf_info =
  lf_regular :: bool
  lf_owned :: bool
  lf_links :: nat
  lf_length :: nat
  lf_mode :: "12 word"
  lf_identity :: file_identity

definition private_mode :: "12 word" where "private_mode = 384"

definition failed_staging :: "string \<Rightarrow> leaf_info \<Rightarrow> bool" where
  "failed_staging nm info \<longleftrightarrow>
     ((case retirement_parts nm of None \<Rightarrow> False | Some (identity, _) \<Rightarrow> identity \<noteq> lf_identity info) \<or> writer_stage nm)
     \<and> lf_regular info \<and> lf_owned info \<and> lf_links info = 1 \<and> lf_length info = 0
     \<and> lf_mode info \<noteq> private_mode \<and> lf_mode info AND NOT private_mode = 0"

section \<open>The state of a scan\<close>

datatype pending_view = Pending_Refused string | Pending_Absent | Pending_Listed "string list"
datatype day_view = Day_Refused string | Day_Listed "string list"

text \<open>
  \<open>Pending_Refused\<close> and \<open>Day_Refused\<close> carry the fixed detail the code reports. \<open>vw_bound d\<close> answers the
  re-proof of the directory binding after day \<open>d\<close>, \<open>vw_bound_end\<close> the last one.
\<close>

record spool_view =
  vw_pending :: pending_view
  vw_day :: "string \<Rightarrow> day_view"
  vw_bound :: "string \<Rightarrow> bool"
  vw_bound_end :: bool
  vw_stat :: "string \<Rightarrow> string \<Rightarrow> leaf_info option"

text \<open>
  The outcome of a move: the file is in quarantine and gone from pending; uncertain, with the source
  gone or still there; or blocked for a fixed reason, with the file left where it was.
\<close>

datatype move_outcome = Moved | Move_Uncertain bool | Move_Blocked string

record segment_anomaly =
  an_batch :: string
  an_day :: string
  an_kind :: string
  an_detail :: string

record recon =
  rn_world :: spool_world
  rn_view :: spool_view
  rn_cleanups :: "bool list"
  rn_fences :: "bool list"
  rn_moves :: "move_outcome list"
  rn_quarantine :: "(string \<times> string \<times> file_node) list"
  rn_anomalies :: "segment_anomaly list"
  rn_stopped :: bool
  rn_complete :: bool
  rn_recovery_safe :: bool
  rn_healthy :: nat
  rn_scanned :: nat
  rn_registrations :: "(parsed_segment \<times> string \<times> string) list"
  rn_retirements :: "(string \<times> string \<times> string) list"
  rn_tombstones :: "(string \<times> string) list"
  rn_quarantines :: "(string \<times> string \<times> string \<times> string) list"
  rn_stagings :: "(string \<times> string) list"
  rn_registered :: "(string \<times> string) list"
  rn_quarantined :: "(string \<times> string \<times> string) list"
  rn_failures :: "segment_anomaly list"

type_synonym 'r recon_prog = "(recon, 'r) prog"

definition modify :: "(recon \<Rightarrow> recon) \<Rightarrow> unit recon_prog" where
  "modify f = (\<lambda>s. (Inr (), f s))"

text \<open>A step on the spool and its database; \<open>get_state\<close> reads the scan.\<close>

definition on_spool :: "'r spool_prog \<Rightarrow> 'r recon_prog" where
  "on_spool m = (\<lambda>s. case m (rn_world s) of (x, w) \<Rightarrow> (x, s\<lparr>rn_world := w\<rparr>))"

definition get_state :: "(recon \<Rightarrow> 'r recon_prog) \<Rightarrow> 'r recon_prog" where
  "get_state f = (\<lambda>s. f s s)"

definition anomaly :: "string \<Rightarrow> string \<Rightarrow> string \<Rightarrow> string \<Rightarrow> unit recon_prog" where
  "anomaly batch day kind detail = modify (\<lambda>s.
     if length (rn_anomalies s) < max_anomalies
     then s\<lparr>rn_anomalies := rn_anomalies s @
       [\<lparr>an_batch = batch, an_day = day, an_kind = kind, an_detail = detail\<rparr>]\<rparr>
     else if \<not> rn_stopped s
     then s\<lparr>rn_stopped := True, rn_anomalies := rn_anomalies s @
       [\<lparr>an_batch = [], an_day = [], an_kind = ''limit'', an_detail = ''anomaly_limit''\<rparr>]\<rparr>
     else s)"

definition incomplete :: "unit recon_prog" where
  "incomplete = modify (\<lambda>s. s\<lparr>rn_complete := False\<rparr>)"

section \<open>Reading files\<close>

definition leaf_path :: "string \<Rightarrow> string \<Rightarrow> string \<Rightarrow> string" where
  "leaf_path root day nm = root @ ''/pending/'' @ day @ ''/'' @ nm"

text \<open>\<^verbatim>\<open>_raw_sha256\<close> opens without the secure layer's checks of owner, parent and access control.\<close>

definition raw_sha256 :: "spool_env \<Rightarrow> (string \<times> file_node) list \<Rightarrow> string \<Rightarrow> string option" where
  "raw_sha256 en fs path =
     (case map_of fs path of
        None \<Rightarrow> None
      | Some node \<Rightarrow>
          if fn_open node \<notin> {None, Some Parent_Unsafe, Some Access_Control_Unsafe, Some Security_Unsupported}
            \<or> max_segment_file_bytes < int (length (fn_content node)) \<or> fn_read_fails node
          then None else Some (en_sha_hex en (fn_content node)))"

definition inspect_leaf :: "spool_env \<Rightarrow> (string \<times> file_node) list \<Rightarrow> string \<Rightarrow> string option" where
  "inspect_leaf en fs path =
     (case map_of fs path of
        None \<Rightarrow> None
      | Some node \<Rightarrow>
          if fn_open node \<in> {None, Some Parent_Unsafe} \<and> fn_owner_only node
            \<and> int (length (fn_content node)) \<le> max_segment_file_bytes
            \<and> \<not> fn_read_fails node \<and> \<not> fn_changes node
          then Some (en_sha_hex en (fn_content node)) else None)"

definition queue_quarantine ::
  "spool_env \<Rightarrow> string \<Rightarrow> string \<Rightarrow> string \<Rightarrow> string \<Rightarrow> string \<Rightarrow> unit recon_prog" where
  "queue_quarantine en root day nm batch detail = get_state (\<lambda>s.
     case inspect_leaf en (files (rn_world s)) (leaf_path root day nm) of
       None \<Rightarrow> anomaly batch day ''quarantine_blocked'' ''unsafe''
     | Some digest \<Rightarrow> modify (\<lambda>s. s\<lparr>rn_quarantines := rn_quarantines s @ [(day, nm, batch, detail)]\<rparr>))"

text \<open>\<^verbatim>\<open>_trusted_read\<close>: the parsed segment, or the code of the refusal.\<close>

definition trusted_read ::
  "spool_env \<Rightarrow> string \<Rightarrow> string \<Rightarrow> string \<Rightarrow> string \<Rightarrow> (parsed_segment + string) recon_prog" where
  "trusted_read en root installation day batch = get_state (\<lambda>s.
     case read_trusted_segment en (files (rn_world s)) (pending_path root day batch) installation of
       Inr p \<Rightarrow> ret (Inl p)
     | Inl (Spool_Error c) \<Rightarrow> ret (Inr c)
     | Inl e \<Rightarrow> throw e)"

section \<open>Inventory\<close>

definition classify_name :: "string \<Rightarrow> string \<Rightarrow> string option recon_prog" where
  "classify_name day nm =
     (if \<not> ends_with segment_suffix nm
      then andthen (anomaly [] day ''foreign_name'' ''suffix'') (\<lambda>_. ret None)
      else let batch = take (length nm - length segment_suffix) nm in
        if \<not> token_match 127 batch
        then andthen (anomaly [] day ''foreign_name'' ''batch_id'') (\<lambda>_. ret None)
        else ret (Some batch))"

definition staged_entry :: "spool_env \<Rightarrow> string \<Rightarrow> string \<Rightarrow> string \<Rightarrow> unit recon_prog" where
  "staged_entry en root day nm =
     andthen (anomaly [] day ''stale_temp'' ''staged_temporary'') (\<lambda>_.
     get_state (\<lambda>s. case vw_stat (rn_view s) day nm of
         Some info \<Rightarrow>
           if failed_staging nm info
           then modify (\<lambda>s. s\<lparr>rn_stagings := rn_stagings s @ [(day, nm)]\<rparr>)
           else queue_quarantine en root day nm [] ''stale_temp''
       | None \<Rightarrow> queue_quarantine en root day nm [] ''stale_temp''))"

text \<open>
  The entries of one day, then the days: \<open>False\<close> stops the inventory. Candidates are pairs of day and
  batch id, in the order of the enumeration.
\<close>

type_synonym candidates = "(string \<times> string) list"

fun inventory_entries ::
  "spool_env \<Rightarrow> string \<Rightarrow> string \<Rightarrow> string list \<Rightarrow> candidates \<Rightarrow> (bool \<times> candidates) recon_prog" where
  "inventory_entries en root day [] found = ret (True, found)"
| "inventory_entries en root day (nm # nms) found = get_state (\<lambda>s.
     if rn_stopped s then andthen incomplete (\<lambda>_. ret (False, found))
     else if max_total \<le> rn_scanned s then
       andthen (anomaly [] [] ''limit'' ''scan_limit'') (\<lambda>_.
       andthen incomplete (\<lambda>_. ret (False, found)))
     else andthen (modify (\<lambda>s. s\<lparr>rn_scanned := Suc (rn_scanned s)\<rparr>)) (\<lambda>_.
       if starts_with stage_prefix nm
       then andthen (staged_entry en root day nm) (\<lambda>_. inventory_entries en root day nms found)
       else andthen (classify_name day nm) (\<lambda>resolved.
         inventory_entries en root day nms
           (case resolved of None \<Rightarrow> found | Some batch \<Rightarrow> found @ [(day, batch)]))))"

definition inventory_day ::
  "spool_env \<Rightarrow> string \<Rightarrow> string \<Rightarrow> candidates \<Rightarrow> (bool \<times> candidates) recon_prog" where
  "inventory_day en root day found = get_state (\<lambda>s.
     case vw_day (rn_view s) day of
       Day_Refused problem \<Rightarrow>
         andthen (anomaly [] day ''foreign_name'' (''day_'' @ problem)) (\<lambda>_.
         andthen incomplete (\<lambda>_. ret (True, found)))
     | Day_Listed nms \<Rightarrow> inventory_entries en root day nms found)"

fun inventory_days ::
  "spool_env \<Rightarrow> string \<Rightarrow> string list \<Rightarrow> candidates \<Rightarrow> (bool \<times> candidates) recon_prog" where
  "inventory_days en root [] found = ret (True, found)"
| "inventory_days en root (day # days) found = get_state (\<lambda>s.
     if rn_stopped s then andthen incomplete (\<lambda>_. ret (False, found))
     else if \<not> is_valid_day day then
       andthen (anomaly [] [] ''foreign_name'' ''day'') (\<lambda>_. inventory_days en root days found)
     else andthen (inventory_day en root day found) (\<lambda>(go, found).
       if \<not> go then ret (False, found)
       else if \<not> vw_bound (rn_view s) day then
         andthen (anomaly [] [] ''foreign_name'' ''pending_changed'') (\<lambda>_.
         andthen incomplete (\<lambda>_. ret (False, found)))
       else inventory_days en root days found))"

definition inventory :: "spool_env \<Rightarrow> string \<Rightarrow> candidates recon_prog" where
  "inventory en root = get_state (\<lambda>s.
     case vw_pending (rn_view s) of
       Pending_Refused detail \<Rightarrow>
         andthen (anomaly [] [] ''foreign_name'' detail) (\<lambda>_. andthen incomplete (\<lambda>_. ret []))
     | Pending_Absent \<Rightarrow> ret []
     | Pending_Listed days \<Rightarrow>
         if max_days < length days then
           andthen (anomaly [] [] ''limit'' ''day_limit'') (\<lambda>_. andthen incomplete (\<lambda>_. ret []))
         else andthen (inventory_days en root days []) (\<lambda>(go, found).
           if \<not> go then ret found
           else if \<not> vw_bound_end (rn_view s) then
             andthen (anomaly [] [] ''foreign_name'' ''pending_changed'') (\<lambda>_.
             andthen incomplete (\<lambda>_. ret found))
           else get_state (\<lambda>s. if rn_stopped s then andthen incomplete (\<lambda>_. ret found) else ret found)))"

section \<open>Classification\<close>

definition verify_committed ::
  "spool_env \<Rightarrow> string \<Rightarrow> string \<Rightarrow> string \<Rightarrow> string \<Rightarrow> segment_record \<Rightarrow> unit recon_prog" where
  "verify_committed en root installation day batch rec =
     andthen (trusted_read en root installation day batch) (\<lambda>r. case r of
       Inr code \<Rightarrow>
         andthen (anomaly batch day ''corrupt_file'' code) (\<lambda>_.
         if code \<notin> set unquarantinable
         then queue_quarantine en root day (batch @ segment_suffix) batch code else ret ())
     | Inl p \<Rightarrow>
         if \<not> agrees p day batch rec then
           andthen (anomaly batch day ''corrupt_file'' ''ledger_mismatch'') (\<lambda>_.
           queue_quarantine en root day (batch @ segment_suffix) batch ''ledger_mismatch'')
         else modify (\<lambda>s. s\<lparr>rn_healthy := Suc (rn_healthy s)\<rparr>))"

definition reconcile_orphan ::
  "spool_env \<Rightarrow> string \<Rightarrow> string \<Rightarrow> string \<Rightarrow> string \<Rightarrow> unit recon_prog" where
  "reconcile_orphan en root installation day batch =
     andthen (trusted_read en root installation day batch) (\<lambda>r. case r of
       Inr code \<Rightarrow>
         andthen (anomaly batch day ''corrupt_orphan'' code) (\<lambda>_.
         if code \<notin> set unquarantinable
         then queue_quarantine en root day (batch @ segment_suffix) batch code else ret ())
     | Inl p \<Rightarrow>
         if hd_batch (ps_header p) \<noteq> batch
         then anomaly batch day ''foreign_name'' ''header_batch_id''
         else (case authorize_local_persistence (hd_privacy (ps_header p)) of
             Inl (Spool_Error code) \<Rightarrow>
               andthen (anomaly batch day ''corrupt_orphan'' code) (\<lambda>_.
               queue_quarantine en root day (batch @ segment_suffix) batch code)
           | Inl e \<Rightarrow> throw e
           | Inr _ \<Rightarrow> modify (\<lambda>s. s\<lparr>rn_registrations := rn_registrations s @ [(p, batch, day)]\<rparr>)))"

definition tombstone_later :: "string \<Rightarrow> string \<Rightarrow> unit recon_prog" where
  "tombstone_later batch day = modify (\<lambda>s. s\<lparr>rn_tombstones := AList.update batch day (rn_tombstones s)\<rparr>)"

definition classify_retirement ::
  "spool_env \<Rightarrow> string \<Rightarrow> string \<Rightarrow> string \<Rightarrow> string \<Rightarrow> string \<Rightarrow> unit recon_prog" where
  "classify_retirement en root installation day batch digest = get_state (\<lambda>s.
     if raw_sha256 en (files (rn_world s)) (pending_path root day batch) = Some digest
     then modify (\<lambda>s. s\<lparr>rn_retirements := rn_retirements s @ [(day, batch, digest)]\<rparr>)
     else andthen (tombstone_later batch day) (\<lambda>_. reconcile_orphan en root installation day batch))"

text \<open>What the ledger said: the validated records and the batch ids of malformed rows, and the tombstones.\<close>

record ledger_view =
  lv_records :: "segment_record list"
  lv_malformed :: "string list"
  lv_retirements :: "(string \<times> string \<times> string) list"

definition record_for :: "ledger_view \<Rightarrow> string \<Rightarrow> segment_record option" where
  "record_for lv batch = find (\<lambda>rec. sg_batch (sr_row rec) = batch) (lv_records lv)"

definition classify_candidate ::
  "spool_env \<Rightarrow> string \<Rightarrow> string \<Rightarrow> ledger_view \<Rightarrow> candidates \<Rightarrow> string \<Rightarrow> string \<Rightarrow> unit recon_prog" where
  "classify_candidate en root installation lv all day batch =
     (if 1 < count_list (map snd all) batch then anomaly batch day ''conflict'' ''duplicate_batch_id''
      else if batch \<in> set (lv_malformed lv) then ret ()
      else case record_for lv batch of
        Some rec \<Rightarrow> verify_committed en root installation day batch rec
      | None \<Rightarrow> (case map_of (lv_retirements lv) batch of
          Some (_, digest) \<Rightarrow> classify_retirement en root installation day batch digest
        | None \<Rightarrow> reconcile_orphan en root installation day batch))"

text \<open>The loop over the candidates; it returns those it reached before the anomaly cap.\<close>

fun classify_candidates ::
  "spool_env \<Rightarrow> string \<Rightarrow> string \<Rightarrow> ledger_view \<Rightarrow> candidates \<Rightarrow> candidates \<Rightarrow> candidates recon_prog" where
  "classify_candidates en root installation lv all [] = ret []"
| "classify_candidates en root installation lv all ((day, batch) # cs) = get_state (\<lambda>s.
     if rn_stopped s then ret []
     else andthen (classify_candidate en root installation lv all day batch) (\<lambda>_.
       andthen (classify_candidates en root installation lv all cs) (\<lambda>rest. ret ((day, batch) # rest))))"

text \<open>
  Conflicts: every copy of a batch id found more than once is queued, except one that agrees with the
  ledger's own row; equal bytes make it a duplicate, otherwise the histories diverge.
\<close>

definition conflict_detail :: "spool_env \<Rightarrow> (string \<times> file_node) list \<Rightarrow> string \<Rightarrow> string \<Rightarrow> string list \<Rightarrow> string" where
  "conflict_detail en fs root batch days =
     (let digests = set (map (\<lambda>day. raw_sha256 en fs (pending_path root day batch)) days) in
      if None \<in> digests \<or> 1 < card digests then ''conflict_divergent'' else ''conflict_duplicate'')"

definition find_keeper ::
  "spool_env \<Rightarrow> string \<Rightarrow> string \<Rightarrow> ledger_view \<Rightarrow> string \<Rightarrow> string list \<Rightarrow> string option recon_prog" where
  "find_keeper en root installation lv batch days =
     (case record_for lv batch of
        None \<Rightarrow> ret None
      | Some rec \<Rightarrow>
          if sg_day (sr_row rec) \<notin> set days then ret None
          else andthen (trusted_read en root installation (sg_day (sr_row rec)) batch) (\<lambda>r. case r of
              Inr _ \<Rightarrow> ret None
            | Inl p \<Rightarrow>
                if agrees p (sg_day (sr_row rec)) batch rec
                then andthen (modify (\<lambda>s. s\<lparr>rn_healthy := Suc (rn_healthy s)\<rparr>)) (\<lambda>_. ret (Some (sg_day (sr_row rec))))
                else ret None))"

definition queue_copies ::
  "spool_env \<Rightarrow> string \<Rightarrow> string \<Rightarrow> string \<Rightarrow> string list \<Rightarrow> unit list recon_prog" where
  "queue_copies en root batch detail days =
     for_each (\<lambda>day. queue_quarantine en root day (batch @ segment_suffix) batch detail) days"

fun classify_conflicts ::
  "spool_env \<Rightarrow> string \<Rightarrow> string \<Rightarrow> ledger_view \<Rightarrow> candidates \<Rightarrow> string list \<Rightarrow> unit recon_prog" where
  "classify_conflicts en root installation lv seen [] = ret ()"
| "classify_conflicts en root installation lv seen (batch # bs) = get_state (\<lambda>s.
     if rn_stopped s then ret ()
     else let days = map fst (filter (\<lambda>c. snd c = batch) seen) in
       andthen (find_keeper en root installation lv batch days) (\<lambda>keeper.
       andthen (queue_copies en root batch (conflict_detail en (files (rn_world s)) root batch days)
         (filter (\<lambda>day. Some day \<noteq> keeper) days)) (\<lambda>_.
       classify_conflicts en root installation lv seen bs)))"

fun classify_missing :: "candidates \<Rightarrow> segment_record list \<Rightarrow> unit recon_prog" where
  "classify_missing seen [] = ret ()"
| "classify_missing seen (rec # recs) = get_state (\<lambda>s.
     if rn_stopped s then ret ()
     else andthen (if sg_batch (sr_row rec) \<notin> snd ` set seen
         then anomaly (sg_batch (sr_row rec)) (sg_day (sr_row rec)) ''missing_file'' ''absent'' else ret ()) (\<lambda>_.
       classify_missing seen recs))"

fun classify_tombstones :: "candidates \<Rightarrow> ledger_view \<Rightarrow> (string \<times> string \<times> string) list \<Rightarrow> unit recon_prog" where
  "classify_tombstones seen lv [] = ret ()"
| "classify_tombstones seen lv ((batch, day, digest) # rs) = get_state (\<lambda>s.
     if rn_stopped s then ret ()
     else andthen (if batch \<notin> snd ` set seen \<or> record_for lv batch \<noteq> None
         then tombstone_later batch day else ret ()) (\<lambda>_. classify_tombstones seen lv rs))"

definition when_complete :: "unit recon_prog \<Rightarrow> unit recon_prog" where
  "when_complete m = get_state (\<lambda>s. if rn_complete s then m else ret ())"

definition classify_all ::
  "spool_env \<Rightarrow> string \<Rightarrow> string \<Rightarrow> ledger_view \<Rightarrow> candidates \<Rightarrow> unit recon_prog" where
  "classify_all en root installation lv found =
     andthen (when_complete (
       andthen (classify_candidates en root installation lv found found) (\<lambda>seen.
       andthen (get_state (\<lambda>s. if rn_stopped s then ret () else
         classify_conflicts en root installation lv seen
           (sorted_list_of_set {b \<in> snd ` set seen. 1 < count_list (map snd found) b}))) (\<lambda>_.
       andthen (classify_missing seen (lv_records lv)) (\<lambda>_.
       classify_tombstones seen lv (lv_retirements lv)))))) (\<lambda>_.
     get_state (\<lambda>s. if rn_stopped s then incomplete else ret ()))"

section \<open>Mutation\<close>

definition move_failure :: "string \<Rightarrow> string \<Rightarrow> string \<Rightarrow> string \<Rightarrow> unit recon_prog" where
  "move_failure batch day kind detail = modify (\<lambda>s. s\<lparr>rn_failures := rn_failures s @
     [\<lparr>an_batch = batch, an_day = day, an_kind = kind, an_detail = detail\<rparr>]\<rparr>)"

text \<open>Staged debris: removed, or uncertain, which ends the recovery.\<close>

fun clean_stagings :: "string \<Rightarrow> (string \<times> string) list \<Rightarrow> unit recon_prog" where
  "clean_stagings root [] = ret ()"
| "clean_stagings root ((day, nm) # rest) = get_state (\<lambda>s.
     if rn_cleanups s \<noteq> [] \<and> hd (rn_cleanups s)
     then andthen (modify (\<lambda>s. s\<lparr>rn_cleanups := tl (rn_cleanups s), rn_recovery_safe := False\<rparr>)) (\<lambda>_.
       move_failure [] day ''quarantine_uncertain'' ''io'')
     else andthen (modify (\<lambda>s. s\<lparr>rn_cleanups := tl (rn_cleanups s),
         rn_world := (rn_world s)\<lparr>files := AList.delete (leaf_path root day nm) (files (rn_world s))\<rparr>\<rparr>)) (\<lambda>_.
       clean_stagings root rest))"

definition pending_delivery :: "string \<Rightarrow> exporter_delivery" where
  "pending_delivery x = \<lparr>xd_exporter = x, xd_status = ''pending''\<rparr>"

definition reconciled_record :: "parsed_segment \<Rightarrow> string \<Rightarrow> string \<Rightarrow> segment_record" where
  "reconciled_record p batch day =
     (let h = ps_header p in
      \<lparr>sr_row = \<lparr>sg_batch = batch, sg_day = day, sg_schema_version = 1, sg_frame_version = 1,
         sg_config_generation = hd_config_generation h, sg_scope = hd_scope h, sg_target = hd_target h,
         sg_privacy = hd_privacy h, sg_retention_days = hd_retention_days h,
         sg_record_count = hd_record_count h, sg_content_sha256 = hd_content_sha256 h,
         sg_byte_size = ps_byte_size p, sg_file_sha256 = ps_file_sha256 p,
         sg_committed_at = day @ ''T00:00:00.000Z'', sg_origin = ''reconciled''\<rparr>,
       sr_exporters = map pending_delivery (hd_exporters h)\<rparr>)"

definition register :: "parsed_segment \<Rightarrow> string \<Rightarrow> string \<Rightarrow> unit recon_prog" where
  "register p batch day =
     on_spool (normalise state_caught (Spool_Error ''MH_SPOOL_RECONCILE'')
       (transaction (insert_segment_row (reconciled_record p batch day))))"

definition register_all :: "(parsed_segment \<times> string \<times> string) list \<Rightarrow> unit list recon_prog" where
  "register_all = for_each (\<lambda>(p, batch, day).
     andthen (register p batch day) (\<lambda>_.
     modify (\<lambda>s. s\<lparr>rn_registered := rn_registered s @ [(batch, day)]\<rparr>)))"

definition delete_tombstone_fenced :: "string \<Rightarrow> string \<Rightarrow> unit recon_prog" where
  "delete_tombstone_fenced batch day = get_state (\<lambda>s.
     andthen (modify (\<lambda>s. s\<lparr>rn_fences := tl (rn_fences s)\<rparr>)) (\<lambda>_.
     if rn_fences s = [] \<or> hd (rn_fences s) then on_spool (clear_retirement batch)
     else move_failure batch day ''retirement_incomplete'' ''uncertain''))"

definition complete_retirement :: "spool_env \<Rightarrow> string \<Rightarrow> string \<Rightarrow> string \<Rightarrow> string \<Rightarrow> unit recon_prog" where
  "complete_retirement en root day batch expected = get_state (\<lambda>s.
     if raw_sha256 en (files (rn_world s)) (pending_path root day batch) \<noteq> Some expected
     then delete_tombstone_fenced batch day
     else andthen (handle (andthen (on_spool (remove_file (pending_path root day batch))) (\<lambda>_. ret True))
         (\<lambda>e. case e of
            Secure_File_Error k \<Rightarrow> Some (andthen (move_failure batch day ''retirement_incomplete''
              (if k = Commit_Uncertain then ''uncertain'' else ''io'')) (\<lambda>_. ret False))
          | _ \<Rightarrow> None)) (\<lambda>removed.
       if removed then on_spool (clear_retirement batch) else ret ()))"

definition take_away :: "string \<Rightarrow> string \<Rightarrow> string \<Rightarrow> recon \<Rightarrow> recon" where
  "take_away root day nm s =
     (case map_of (files (rn_world s)) (leaf_path root day nm) of
        None \<Rightarrow> s
      | Some node \<Rightarrow> s\<lparr>rn_quarantine := rn_quarantine s @ [(day, nm, node)],
          rn_world := (rn_world s)\<lparr>files := AList.delete (leaf_path root day nm) (files (rn_world s))\<rparr>\<rparr>)"

definition move_to_quarantine :: "string \<Rightarrow> string \<times> string \<times> string \<times> string \<Rightarrow> unit recon_prog" where
  "move_to_quarantine root = (\<lambda>(day, nm, batch, detail). get_state (\<lambda>s.
     andthen (modify (\<lambda>s. s\<lparr>rn_moves := tl (rn_moves s)\<rparr>)) (\<lambda>_.
     case (if rn_moves s = [] then Moved else hd (rn_moves s)) of
       Moved \<Rightarrow> andthen (modify (take_away root day nm)) (\<lambda>_.
         modify (\<lambda>s. s\<lparr>rn_quarantined := rn_quarantined s @ [(batch, day, detail)]\<rparr>))
     | Move_Uncertain gone \<Rightarrow>
         andthen (modify (if gone then take_away root day nm else id)) (\<lambda>_.
         move_failure batch day ''quarantine_uncertain'' ''io'')
     | Move_Blocked reason \<Rightarrow> move_failure batch day ''quarantine_blocked'' reason)))"

definition finish_recovery :: "spool_env \<Rightarrow> string \<Rightarrow> recon \<Rightarrow> unit recon_prog" where
  "finish_recovery en root s =
     andthen (for_each (\<lambda>(day, batch, expected). complete_retirement en root day batch expected)
       (rn_retirements s)) (\<lambda>_.
     andthen (for_each (\<lambda>(batch, day). delete_tombstone_fenced batch day)
       (sort_key fst (rn_tombstones s))) (\<lambda>_.
     andthen (for_each (move_to_quarantine root) (rn_quarantines s)) (\<lambda>_. ret ())))"

definition recover :: "spool_env \<Rightarrow> string \<Rightarrow> unit recon_prog" where
  "recover en root = when_complete (
     andthen (get_state (\<lambda>s. clean_stagings root (rn_stagings s))) (\<lambda>_.
     get_state (\<lambda>s. if \<not> rn_recovery_safe s then ret ()
       else andthen (register_all (rn_registrations s)) (\<lambda>_. finish_recovery en root s))))"

section \<open>The scan\<close>

definition index_row :: "segment_row \<Rightarrow> (segment_record + string) spool_prog" where
  "index_row r = handle (andthen (load_record r) (\<lambda>rec. ret (Inl rec)))
     (\<lambda>e. if e = Value_Error \<or> e = Type_Error then Some (ret (Inr (sg_batch r))) else None)"

definition ledger_index :: "(segment_record + string) list spool_prog" where
  "ledger_index = normalise state_caught (Spool_Error ''MH_SPOOL_LEDGER'')
     (andthen db_connection (\<lambda>_. andthen (select [] segments) (for_each index_row)))"

definition retirement_index :: "(string \<times> string \<times> string) list spool_prog" where
  "retirement_index = normalise state_caught (Spool_Error ''MH_SPOOL_LEDGER'')
     (andthen db_connection (\<lambda>_. select [] (\<lambda>t.
       map (\<lambda>r. (rt_batch r, rt_day r, rt_file_sha256 r)) (retirements t))))"

definition malformed_anomalies :: "string list \<Rightarrow> unit list recon_prog" where
  "malformed_anomalies bs = for_each (\<lambda>b. anomaly (safe_id b) [] ''corrupt_ledger'' ''unreadable_row'') (sort bs)"

record report =
  rp_registered :: "(string \<times> string) list"
  rp_quarantined :: "(string \<times> string \<times> string) list"
  rp_anomalies :: "segment_anomaly list"
  rp_healthy :: nat
  rp_scanned :: nat
  rp_complete :: bool
  rp_recovery_safe :: bool

definition report_of :: "recon \<Rightarrow> report" where
  "report_of s = \<lparr>rp_registered = rn_registered s, rp_quarantined = rn_quarantined s,
     rp_anomalies = rn_anomalies s @ rn_failures s,
     rp_healthy = (if rn_complete s \<and> rn_recovery_safe s then rn_healthy s else 0),
     rp_scanned = rn_scanned s, rp_complete = rn_complete s, rp_recovery_safe = rn_recovery_safe s\<rparr>"

text \<open>\<^verbatim>\<open>_Scan.__init__\<close>: every slot afresh; the spool and the platform stay.\<close>

definition fresh_scan :: "recon \<Rightarrow> recon" where
  "fresh_scan s = s\<lparr>rn_anomalies := [], rn_stopped := False, rn_complete := True, rn_recovery_safe := True,
     rn_healthy := 0, rn_scanned := 0, rn_registrations := [], rn_retirements := [], rn_tombstones := [],
     rn_quarantines := [], rn_stagings := [], rn_registered := [], rn_quarantined := [], rn_failures := []\<rparr>"

text \<open>The pass under the barrier, up to the report.\<close>

definition scan_pass :: "spool_env \<Rightarrow> string \<Rightarrow> string \<Rightarrow> report recon_prog" where
  "scan_pass en root installation =
     andthen (modify fresh_scan) (\<lambda>_.
     andthen (on_spool ledger_index) (\<lambda>rows.
     andthen (on_spool retirement_index) (\<lambda>tombs.
     andthen (malformed_anomalies [b. Inr b \<leftarrow> rows]) (\<lambda>_.
     andthen (inventory en root) (\<lambda>found.
     andthen (classify_all en root installation
       \<lparr>lv_records = [rec. Inl rec \<leftarrow> rows], lv_malformed = [b. Inr b \<leftarrow> rows], lv_retirements = tombs\<rparr> found) (\<lambda>_.
     andthen (recover en root) (\<lambda>_.
     get_state (\<lambda>s. ret (report_of s)))))))))"

definition require_bound_state_root :: "spool_env \<Rightarrow> string \<Rightarrow> string \<Rightarrow> string res" where
  "require_bound_state_root en spool_root installation =
     (case en_spool_root en of
        None \<Rightarrow> Inl (Spool_Error ''MH_SPOOL_STORE'')
      | Some bound \<Rightarrow> (case en_absolute en spool_root of
          None \<Rightarrow> Inl (Spool_Error ''MH_SPOOL_STORE'')
        | Some resolved \<Rightarrow>
            if \<not> en_barrier_bound en then Inl (Spool_Error ''MH_SPOOL_STORE'')
            else if resolved \<noteq> bound then Inl (Spool_Error ''MH_SPOOL_STORE'')
            else if \<not> installation_id_match installation then Inl (Spool_Error ''MH_SPOOL_IDENTITY'')
            else Inr resolved))"

text \<open>Entering the barrier, and the conversion to the shared side before a writer acts, may fail.\<close>

definition take_lock :: "unit recon_prog" where
  "take_lock = (\<lambda>s. let w = rn_world s; s1 = s\<lparr>rn_world := w\<lparr>locks := tl (locks w)\<rparr>\<rparr> in
     case locks w of
       Some _ # _ \<Rightarrow> (Inl (Spool_Error ''MH_SPOOL_BARRIER''), s1)
     | _ \<Rightarrow> (Inr (), s1))"

definition reconcile_under_barrier ::
  "spool_env \<Rightarrow> string \<Rightarrow> string \<Rightarrow> unit recon_prog option \<Rightarrow> report recon_prog" where
  "reconcile_under_barrier en spool_root installation action =
     andthen (lift_res (require_bound_state_root en spool_root installation)) (\<lambda>root.
     andthen take_lock (\<lambda>_.
     andthen (scan_pass en root installation) (\<lambda>rp.
     case action of
       None \<Rightarrow> ret rp
     | Some act \<Rightarrow>
         if rp_complete rp \<and> rp_recovery_safe rp
         then andthen take_lock (\<lambda>_. andthen act (\<lambda>_. ret rp))
         else ret rp)))"

definition spool_reconciler :: "spool_env \<Rightarrow> string \<Rightarrow> string \<Rightarrow> report recon_prog" where
  "spool_reconciler en spool_root installation =
     andthen (lift_res (require_bound_state_root en spool_root installation)) (\<lambda>root.
     reconcile_under_barrier en root installation None)"

section \<open>What a classification may assume and must keep\<close>

text \<open>
  Every queued action carries its evidence: a registration was read and trusted under its own name and
  admitted by the egress policy, a retirement is a tombstone whose digest its file still has, and a
  staged entry to remove is empty debris.
\<close>

definition evidenced ::
  "spool_env \<Rightarrow> string \<Rightarrow> string \<Rightarrow> (string \<times> string \<times> string) list \<Rightarrow> recon \<Rightarrow> bool" where
  "evidenced en root installation tombs s \<longleftrightarrow>
     (\<forall>(p, batch, day) \<in> set (rn_registrations s).
        read_trusted_segment en (files (rn_world s)) (pending_path root day batch) installation = Inr p \<and>
        hd_batch (ps_header p) = batch \<and> authorize_local_persistence (hd_privacy (ps_header p)) = Inr ()) \<and>
     (\<forall>(day, batch, digest) \<in> set (rn_retirements s). \<exists>d. (batch, d, digest) \<in> set tombs) \<and>
     (\<forall>(day, nm) \<in> set (rn_stagings s). \<exists>info. vw_stat (rn_view s) day nm = Some info \<and> failed_staging nm info)"

definition scanning ::
  "spool_env \<Rightarrow> string \<Rightarrow> string \<Rightarrow> (string \<times> string \<times> string) list \<Rightarrow> recon \<Rightarrow> recon \<Rightarrow> bool" where
  "scanning en root installation tombs s s' \<longleftrightarrow>
     rn_world s' = rn_world s \<and> rn_view s' = rn_view s \<and> rn_quarantine s' = rn_quarantine s \<and>
     rn_recovery_safe s' = rn_recovery_safe s \<and> rn_registered s' = rn_registered s \<and>
     rn_quarantined s' = rn_quarantined s \<and>
     (evidenced en root installation tombs s \<longrightarrow> evidenced en root installation tombs s')"

lemma scanning_order [simp]:
  "reflp (scanning en root installation tombs)" "transp (scanning en root installation tombs)"
  by (auto simp: reflp_def transp_def scanning_def)

lemma scanning_refl [simp]: "scanning en root installation tombs s s"
  by (simp add: scanning_def)

lemma keeps_modify: "(\<And>s. R s (f s)) \<Longrightarrow> keeps R (modify f)"
  by (simp add: keeps_def modify_def)

lemma keeps_get_state: "(\<And>s. keeps R (f s)) \<Longrightarrow> keeps R (get_state f)"
  by (auto simp: keeps_def get_state_def)

lemmas scan_intros = keeps_ret keeps_throw keeps_andthen keeps_for_each keeps_get_state scanning_order

lemma scan_anomaly: "keeps (scanning en root installation tombs) (anomaly batch day kind detail)"
  unfolding anomaly_def by (rule keeps_modify) (simp add: scanning_def evidenced_def)

lemma scan_incomplete: "keeps (scanning en root installation tombs) incomplete"
  unfolding incomplete_def by (rule keeps_modify) (simp add: scanning_def evidenced_def)

lemma scan_queue: "keeps (scanning en root installation tombs) (queue_quarantine en' root' day nm batch detail)"
  unfolding queue_quarantine_def
  by (intro keeps_get_state) (auto simp: scanning_def evidenced_def intro!: keeps_modify scan_anomaly split: option.split)

lemma scan_classify_name: "keeps (scanning en root installation tombs) (classify_name day nm)"
  unfolding classify_name_def by (auto simp: Let_def intro!: scan_intros scan_anomaly)

lemma scan_counts:
  "keeps (scanning en root installation tombs) (modify (\<lambda>s. s\<lparr>rn_scanned := Suc (rn_scanned s)\<rparr>))"
  "keeps (scanning en root installation tombs) (modify (\<lambda>s. s\<lparr>rn_healthy := Suc (rn_healthy s)\<rparr>))"
  by (rule keeps_modify, simp add: scanning_def evidenced_def)+

lemma keeps_get_here: "(\<And>s r s'. f s s = (r, s') \<Longrightarrow> R s s') \<Longrightarrow> keeps R (get_state f)"
  by (simp add: keeps_def get_state_def)

lemma scan_staging:
  assumes "vw_stat (rn_view s) day nm = Some info" "failed_staging nm info"
  shows "scanning en root installation tombs s (s\<lparr>rn_stagings := rn_stagings s @ [(day, nm)]\<rparr>)"
  using assms by (simp add: scanning_def evidenced_def)

lemma scan_staged: "keeps (scanning en root installation tombs) (staged_entry en' root' day nm)"
  unfolding staged_entry_def
proof (intro keeps_andthen scanning_order scan_anomaly keeps_get_here)
  fix s r s'
  note queued = scan_queue [THEN keepsD]
  assume "(case vw_stat (rn_view s) day nm of None \<Rightarrow> queue_quarantine en' root' day nm [] ''stale_temp''
     | Some info \<Rightarrow> if failed_staging nm info
         then modify (\<lambda>s. s\<lparr>rn_stagings := rn_stagings s @ [(day, nm)]\<rparr>)
         else queue_quarantine en' root' day nm [] ''stale_temp'') s = (r, s')"
  then show "scanning en root installation tombs s s'"
    using scan_staging by (auto simp: modify_def split: option.splits if_splits dest: queued)
qed

lemma scan_entries: "keeps (scanning en root installation tombs) (inventory_entries en' root' day nms found)"
proof (induction nms arbitrary: found)
  case (Cons nm nms)
  show ?case
    by (auto intro!: scan_intros scan_incomplete scan_anomaly scan_staged scan_classify_name Cons.IH scan_counts)
qed (simp add: keeps_ret)

lemma scan_days: "keeps (scanning en root installation tombs) (inventory_days en root days found)"
proof (induction days arbitrary: found)
  case (Cons day days)
  have "keeps (scanning en root installation tombs) (inventory_day en root day found)" for found
    unfolding inventory_day_def
    by (auto intro!: scan_intros scan_incomplete scan_anomaly scan_entries split: day_view.split)
  then show ?case
    by (auto intro!: scan_intros scan_incomplete scan_anomaly Cons.IH)
qed (simp add: keeps_ret)

lemma scan_inventory: "keeps (scanning en root installation tombs) (inventory en root)"
  unfolding inventory_def
  by (auto intro!: scan_intros scan_incomplete scan_anomaly scan_days split: pending_view.split)

text \<open>A trusted read changes nothing, and says what it read.\<close>

lemma trusted_read_cases:
  "trusted_read en root installation day batch s = (r, s') \<Longrightarrow> s' = s \<and>
     (\<forall>p. r = Inr (Inl p) \<longrightarrow>
        read_trusted_segment en (files (rn_world s)) (pending_path root day batch) installation = Inr p)"
  by (auto simp: trusted_read_def get_state_def ret_def throw_def split: sum.splits py_exc.splits)

lemma scan_trusted_read: "keeps (scanning en root installation tombs) (trusted_read en' root' installation' day batch)"
  using trusted_read_cases by (fastforce simp: keeps_def)

lemma scan_verify_committed:
  "keeps (scanning en root installation tombs) (verify_committed en' root' installation' day batch rec)"
  unfolding verify_committed_def
  by (auto intro!: scan_intros scan_trusted_read scan_anomaly scan_queue scan_counts split: sum.split)

lemma scan_registration:
  assumes "read_trusted_segment en (files (rn_world s)) (pending_path root day batch) installation = Inr p"
    and "hd_batch (ps_header p) = batch" "authorize_local_persistence (hd_privacy (ps_header p)) = Inr u"
  shows "scanning en root installation tombs s (s\<lparr>rn_registrations := rn_registrations s @ [(p, batch, day)]\<rparr>)"
  using assms by (simp add: scanning_def evidenced_def)

lemma scan_orphan: "keeps (scanning en root installation tombs) (reconcile_orphan en root installation day batch)"
  unfolding keeps_def
proof (intro allI impI)
  fix s r s'
  assume run: "reconcile_orphan en root installation day batch s = (r, s')"
  obtain q where q: "trusted_read en root installation day batch s = (q, s)"
    and read: "\<And>p. q = Inr (Inl p) \<Longrightarrow>
      read_trusted_segment en (files (rn_world s)) (pending_path root day batch) installation = Inr p"
    using trusted_read_cases by (metis surj_pair)
  have refused: "keeps (scanning en root installation tombs) (andthen (anomaly batch day ''corrupt_orphan'' code) (\<lambda>_.
      if b then queue_quarantine en root day (batch @ segment_suffix) batch code else ret ()))" for code b
    by (auto intro!: scan_intros scan_anomaly scan_queue)
  note known = keepsD [OF refused] keepsD [OF refused [where b = True, simplified]] keepsD [OF scan_anomaly]
  consider (failed) e where "q = Inl e" | (code) code where "q = Inr (Inr code)" | (parsed) p where "q = Inr (Inl p)"
    by (metis sum.exhaust)
  then show "scanning en root installation tombs s s'"
  proof cases
    case failed
    then show ?thesis using run q by (simp add: reconcile_orphan_def andthen_def)
  next
    case code
    then have "andthen (anomaly batch day ''corrupt_orphan'' code) (\<lambda>_.
        if code \<notin> set unquarantinable then queue_quarantine en root day (batch @ segment_suffix) batch code
        else ret ()) s = (r, s')"
      using run q by (simp add: reconcile_orphan_def andthen_def)
    then show ?thesis by (rule known(1))
  next
    case parsed
    let ?auth = "authorize_local_persistence (hd_privacy (ps_header p))"
    consider (foreign) "anomaly batch day ''foreign_name'' ''header_batch_id'' s = (r, s')"
      | (denied) code where "andthen (anomaly batch day ''corrupt_orphan'' code) (\<lambda>_.
          queue_quarantine en root day (batch @ segment_suffix) batch code) s = (r, s')"
      | (thrown) e where "throw e s = (r, s')"
      | (queued) u where "hd_batch (ps_header p) = batch" "?auth = Inr u"
          "s' = s\<lparr>rn_registrations := rn_registrations s @ [(p, batch, day)]\<rparr>"
    proof -
      have "(if hd_batch (ps_header p) \<noteq> batch then anomaly batch day ''foreign_name'' ''header_batch_id''
          else case ?auth of
            Inl (Spool_Error code) \<Rightarrow> andthen (anomaly batch day ''corrupt_orphan'' code) (\<lambda>_.
              queue_quarantine en root day (batch @ segment_suffix) batch code)
          | Inl e \<Rightarrow> throw e
          | Inr _ \<Rightarrow> modify (\<lambda>s. s\<lparr>rn_registrations := rn_registrations s @ [(p, batch, day)]\<rparr>)) s = (r, s')"
        using run q parsed by (simp add: reconcile_orphan_def andthen_def)
      then show thesis
        by (cases "hd_batch (ps_header p) = batch"; cases ?auth)
          (auto simp: modify_def intro: that split: py_exc.splits)
    qed
    then show ?thesis
    proof cases
      case foreign
      then show ?thesis by (rule known(3))
    next
      case denied
      then show ?thesis by (rule known(2))
    next
      case thrown
      then show ?thesis by (simp add: throw_def)
    next
      case queued
      then show ?thesis using scan_registration [OF read [OF parsed]] by simp
    qed
  qed
qed

lemma scan_tombstone_later: "keeps (scanning en root installation tombs) (tombstone_later batch day)"
  unfolding tombstone_later_def by (rule keeps_modify) (simp add: scanning_def evidenced_def)

lemma scan_retirement:
  assumes "(batch, d, digest) \<in> set tombs"
  shows "keeps (scanning en root installation tombs) (classify_retirement en root installation day batch digest)"
proof -
  have "scanning en root installation tombs s (s\<lparr>rn_retirements := rn_retirements s @ [(day, batch, digest)]\<rparr>)" for s
    using assms by (auto simp: scanning_def evidenced_def)
  then show ?thesis
    unfolding classify_retirement_def
    by (auto intro!: scan_intros scan_tombstone_later scan_orphan keeps_modify)
qed

lemma scan_candidate:
  "keeps (scanning en root installation (lv_retirements lv)) (classify_candidate en root installation lv all day batch)"
  unfolding classify_candidate_def
  by (auto intro!: scan_intros scan_anomaly scan_verify_committed scan_orphan scan_retirement
      split: option.split dest: map_of_SomeD)

lemma scan_candidates:
  "keeps (scanning en root installation (lv_retirements lv)) (classify_candidates en root installation lv all cs)"
proof (induction cs)
  case (Cons c cs)
  then show ?case by (cases c) (auto intro!: scan_intros scan_candidate)
qed (simp add: keeps_ret)

lemma scan_keeper:
  "keeps (scanning en root installation tombs) (find_keeper en' root' installation' lv batch days)"
  unfolding find_keeper_def
  by (auto intro!: scan_intros scan_trusted_read scan_counts split: option.split sum.split)

lemma scan_conflicts:
  "keeps (scanning en root installation tombs) (classify_conflicts en' root' installation' lv seen bs)"
proof (induction bs)
  case (Cons b bs)
  then show ?case
    by (auto simp: queue_copies_def Let_def intro!: scan_intros scan_keeper scan_queue)
qed (simp add: keeps_ret)

lemma scan_missing: "keeps (scanning en root installation tombs) (classify_missing seen recs)"
  by (induction recs) (auto intro!: scan_intros scan_anomaly)

lemma scan_tombstones: "keeps (scanning en root installation tombs) (classify_tombstones seen lv rs)"
  by (induction rs rule: classify_tombstones.induct) (auto intro!: scan_intros scan_tombstone_later)

lemma scan_classify:
  "keeps (scanning en root installation (lv_retirements lv)) (classify_all en root installation lv found)"
  unfolding classify_all_def when_complete_def
  by (intro scan_intros; (intro scan_candidates)?)
    (auto intro!: scan_intros scan_candidates scan_conflicts scan_missing scan_tombstones scan_incomplete)

lemma scan_malformed: "keeps (scanning en root installation tombs) (malformed_anomalies bs)"
  unfolding malformed_anomalies_def by (intro scan_intros scan_anomaly)

section \<open>What a recovery may do\<close>

text \<open>
  Along a recovery the ledger only gains trusted rows; a file that left pending is in quarantine, or was
  empty debris, or carried the digest of a tombstone. \<open>fs\<close> are the files the scan classified.
\<close>

definition adopted :: "spool_env \<Rightarrow> string \<Rightarrow> string \<Rightarrow> (string \<times> file_node) list \<Rightarrow> segment_row \<Rightarrow> bool" where
  "adopted en root installation fs x \<longleftrightarrow> sg_origin x = ''reconciled'' \<and>
     stored_as_committed en root fs installation x \<and> sg_privacy x \<in> {''public'', ''internal'', ''sensitive''}"

definition accounted_for ::
  "spool_env \<Rightarrow> string \<Rightarrow> (string \<times> string \<times> string) list \<Rightarrow> spool_view \<Rightarrow> recon \<Rightarrow> string \<Rightarrow> file_node \<Rightarrow> bool" where
  "accounted_for en root tombs view s path node \<longleftrightarrow>
     map_of (files (rn_world s)) path = Some node \<or>
     (\<exists>day nm. path = leaf_path root day nm \<and> (day, nm, node) \<in> set (rn_quarantine s)) \<or>
     (\<exists>day nm info. path = leaf_path root day nm \<and> vw_stat view day nm = Some info \<and> failed_staging nm info) \<or>
     (\<exists>day batch d. path = pending_path root day batch \<and> (batch, d, en_sha_hex en (fn_content node)) \<in> set tombs)"

definition recovering ::
  "spool_env \<Rightarrow> string \<Rightarrow> string \<Rightarrow> (string \<times> file_node) list \<Rightarrow> (string \<times> string \<times> string) list
    \<Rightarrow> recon \<Rightarrow> recon \<Rightarrow> bool" where
  "recovering en root installation fs tombs s s' \<longleftrightarrow>
     (\<exists>new. segments (db (rn_world s')) = segments (db (rn_world s)) @ new \<and>
        (\<forall>x \<in> set new. adopted en root installation fs x)) \<and>
     rn_view s' = rn_view s \<and> set (rn_quarantine s) \<subseteq> set (rn_quarantine s') \<and>
     (\<forall>path node. accounted_for en root tombs (rn_view s) s path node \<longrightarrow>
        accounted_for en root tombs (rn_view s) s' path node)"

lemma recovering_order [simp]:
  "reflp (recovering en root installation fs tombs)" "transp (recovering en root installation fs tombs)"
proof -
  show "reflp (recovering en root installation fs tombs)" by (simp add: reflp_def recovering_def)
  show "transp (recovering en root installation fs tombs)"
  proof (rule transpI)
    fix a b c
    assume ab: "recovering en root installation fs tombs a b" and bc: "recovering en root installation fs tombs b c"
    obtain n1 where n1: "segments (db (rn_world b)) = segments (db (rn_world a)) @ n1"
      "\<forall>x \<in> set n1. adopted en root installation fs x" using ab by (auto simp: recovering_def)
    obtain n2 where n2: "segments (db (rn_world c)) = segments (db (rn_world b)) @ n2"
      "\<forall>x \<in> set n2. adopted en root installation fs x" using bc by (auto simp: recovering_def)
    have view: "rn_view b = rn_view a" using ab by (simp add: recovering_def)
    have "segments (db (rn_world c)) = segments (db (rn_world a)) @ (n1 @ n2)" using n1 n2 by simp
    moreover have "\<forall>x \<in> set (n1 @ n2). adopted en root installation fs x" using n1 n2 by auto
    ultimately show "recovering en root installation fs tombs a c"
      using ab bc view unfolding recovering_def by (intro conjI exI [of _ "n1 @ n2"]) auto
  qed
qed

lemma recovering_segments:
  "recovering en root installation fs tombs s s' \<Longrightarrow>
     set (segments (db (rn_world s))) \<subseteq> set (segments (db (rn_world s')))"
  by (auto simp: recovering_def)

text \<open>A step that leaves files and quarantine, and appends adopted rows, is a recovery step.\<close>

lemma recovering_rows:
  assumes "segments (db (rn_world s')) = segments (db (rn_world s)) @ new" "\<forall>x \<in> set new. adopted en root installation fs x"
    and "files (rn_world s') = files (rn_world s)" "rn_quarantine s' = rn_quarantine s" "rn_view s' = rn_view s"
  shows "recovering en root installation fs tombs s s'"
  using assms by (auto simp: recovering_def accounted_for_def)

lemma recovering_same:
  "segments (db (rn_world s')) = segments (db (rn_world s)) \<Longrightarrow> files (rn_world s') = files (rn_world s) \<Longrightarrow>
   rn_quarantine s' = rn_quarantine s \<Longrightarrow> rn_view s' = rn_view s \<Longrightarrow>
   recovering en root installation fs tombs s s'"
  by (rule recovering_rows [of _ _ "[]"]) simp_all

text \<open>A step that takes one path away, with a reason, is one too.\<close>

lemma recovering_removal:
  assumes "segments (db (rn_world s')) = segments (db (rn_world s))" "rn_view s' = rn_view s"
    and "files (rn_world s') = AList.delete path (files (rn_world s))"
    and "set (rn_quarantine s) \<subseteq> set (rn_quarantine s')"
    and "\<And>node. map_of (files (rn_world s)) path = Some node \<Longrightarrow>
      accounted_for en root tombs (rn_view s) s' path node"
  shows "recovering en root installation fs tombs s s'"
proof -
  have "accounted_for en root tombs (rn_view s) s' p node"
    if "accounted_for en root tombs (rn_view s) s p node" for p node
  proof (cases "map_of (files (rn_world s)) p = Some node")
    case True
    then show ?thesis
      using assms(3,5) by (cases "p = path") (auto simp: accounted_for_def delete_conv)
  next
    case False
    then show ?thesis using that assms(4) by (auto simp: accounted_for_def)
  qed
  then show ?thesis using assms by (simp add: recovering_def)
qed

lemma files_sql: "keeps (\<lambda>w w'. files w' = files w) (sql binds f)"
  by (auto simp: keeps_def sql_cases split: if_splits option.splits)

lemma files_order [simp]: "reflp (\<lambda>w w'. files w' = files w)" "transp (\<lambda>w w'. files w' = files w)"
  by (auto simp: reflp_def transp_def)

lemma files_transaction: "keeps (\<lambda>w w'. files w' = files w) m \<Longrightarrow> keeps (\<lambda>w w'. files w' = files w) (transaction m)"
  unfolding keeps_def by (fastforce simp: transaction_cases split: prod.splits sum.splits if_splits)

lemma files_insert_row: "keeps (\<lambda>w w'. files w' = files w) (insert_segment_row rec)"
  unfolding insert_segment_row_def insert_segment_def insert_exporter_def
  by (intro keeps_andthen keeps_for_each keeps_ret files_sql files_order)

lemma reconciled_record_agrees:
  "hd_batch (ps_header p) = batch \<Longrightarrow> agrees p day batch (reconciled_record p batch day)"
  by (simp add: agrees_def reconciled_record_def Let_def pending_delivery_def image_image)

lemma reconciled_stored:
  assumes "read_trusted_segment en fs (pending_path root day batch) installation = Inr p"
    and "hd_batch (ps_header p) = batch" "authorize_local_persistence (hd_privacy (ps_header p)) = Inr ()"
  shows "adopted en root installation fs (sr_row (reconciled_record p batch day))"
proof -
  have row: "sg_day (sr_row (reconciled_record p batch day)) = day"
    "sg_batch (sr_row (reconciled_record p batch day)) = batch"
    "sg_origin (sr_row (reconciled_record p batch day)) = ''reconciled''"
    "sg_privacy (sr_row (reconciled_record p batch day)) = hd_privacy (ps_header p)"
    by (simp_all add: reconciled_record_def Let_def)
  have "verify_segment en root installation fs (reconciled_record p batch day) = Inr None"
    using assms(1) reconciled_record_agrees [OF assms(2)] by (simp add: verify_segment_def row)
  then show ?thesis
    using verify_segment_intact assms(3) by (simp add: adopted_def row authorize_local_persistence_Inr)
qed

lemma register_step:
  assumes "adopted en root installation fs (sr_row (reconciled_record p batch day))"
  shows "keeps (recovering en root installation fs tombs) (register p batch day)"
  unfolding keeps_def
proof (intro allI impI)
  fix s r s'
  assume run: "register p batch day s = (r, s')"
  let ?txn = "transaction (insert_segment_row (reconciled_record p batch day)) :: unit spool_prog"
  obtain q w where q: "?txn (rn_world s) = (q, w)" by (cases "?txn (rn_world s)")
  have s': "s' = s\<lparr>rn_world := w\<rparr>"
    using run q by (auto simp: register_def on_spool_def normalise_def handle_def throw_def split: prod.splits sum.splits if_splits)
  have files: "files w = files (rn_world s)" using keepsD [OF files_transaction [OF files_insert_row] q] .
  show "recovering en root installation fs tombs s s'"
  proof (cases q)
    case (Inl e)
    then show ?thesis using transaction_Inl_db [OF q [unfolded Inl]] files by (intro recovering_same) (auto simp: s')
  next
    case (Inr u)
    then have "segments (db w) = segments (db (rn_world s)) @ [sr_row (reconciled_record p batch day)]"
      using q by (auto simp: transaction_Inr dest!: insert_segment_row_Inr)
    then show ?thesis using assms files by (intro recovering_rows) (auto simp: s')
  qed
qed

lemma register_all_step:
  assumes "\<forall>(p, batch, day) \<in> set regs. adopted en root installation fs (sr_row (reconciled_record p batch day))"
  shows "keeps (recovering en root installation fs tombs) (register_all regs)"
  unfolding register_all_def
  using assms
  by (auto intro!: keeps_for_each keeps_andthen register_step keeps_modify recovering_same)

lemma move_failure_step: "keeps (recovering en root installation fs tombs) (move_failure batch day kind detail)"
  unfolding move_failure_def by (intro keeps_modify recovering_same) simp_all

lemma clear_step: "keeps (recovering en root installation fs tombs) (on_spool (clear_retirement batch))"
  unfolding keeps_def on_spool_def
  by (auto split: prod.splits dest!: db_clear_retirement intro!: recovering_same)

lemma fenced_step: "keeps (recovering en root installation fs tombs) (delete_tombstone_fenced batch day)"
  unfolding delete_tombstone_fenced_def
  by (auto intro!: keeps_get_state keeps_andthen keeps_modify recovering_same clear_step move_failure_step)

lemma take_away_step: "recovering en root installation fs tombs s (take_away root day nm s)"
proof (cases "map_of (files (rn_world s)) (leaf_path root day nm)")
  case None
  then show ?thesis by (simp add: take_away_def recovering_same)
next
  case (Some node)
  then show ?thesis
    by (intro recovering_removal [of _ _ "leaf_path root day nm"]) (auto simp: take_away_def accounted_for_def)
qed

lemma move_step: "keeps (recovering en root installation fs tombs) (move_to_quarantine root item)"
  unfolding move_to_quarantine_def
  by (auto split: prod.split move_outcome.split
      intro!: keeps_get_state keeps_andthen keeps_modify take_away_step move_failure_step recovering_same)

lemma staging_step:
  assumes "\<forall>(day, nm) \<in> set xs. \<exists>info. vw_stat (rn_view s) day nm = Some info \<and> failed_staging nm info"
    and "clean_stagings root xs s = (r, s')"
  shows "recovering en root installation fs tombs s s' \<and> rn_registrations s' = rn_registrations s \<and>
    rn_retirements s' = rn_retirements s"
  using assms
proof (induction xs arbitrary: s)
  case Nil
  then show ?case by (simp add: ret_def recovering_same)
next
  case (Cons x xs)
  obtain day nm where x: "x = (day, nm)" by fastforce
  show ?case
  proof (cases "rn_cleanups s \<noteq> [] \<and> hd (rn_cleanups s)")
    case True
    then show ?thesis
      using Cons.prems(2) by (auto simp: x get_state_def andthen_def modify_def move_failure_def intro!: recovering_same)
  next
    case False
    let ?s1 = "s\<lparr>rn_cleanups := tl (rn_cleanups s),
      rn_world := (rn_world s)\<lparr>files := AList.delete (leaf_path root day nm) (files (rn_world s))\<rparr>\<rparr>"
    have rest: "clean_stagings root xs ?s1 = (r, s')"
      using Cons.prems(2) False by (auto simp: x get_state_def andthen_def modify_def)
    have "recovering en root installation fs tombs s ?s1"
      using Cons.prems(1) by (intro recovering_removal [of _ _ "leaf_path root day nm"])
        (auto simp: x accounted_for_def)
    with Cons.IH [OF _ rest] Cons.prems(1) show ?thesis
      using transpD [OF recovering_order(2)] by fastforce
  qed
qed

lemma removal_step:
  assumes "raw_sha256 en (files (rn_world s)) (pending_path root day batch) = Some digest" "(batch, d, digest) \<in> set tombs"
    and "on_spool (remove_file (pending_path root day batch)) s = (r, s')"
  shows "recovering en root installation fs tombs s s'"
proof -
  obtain w where w: "remove_file (pending_path root day batch) (rn_world s) = (r, w)" "s' = s\<lparr>rn_world := w\<rparr>"
    using assms(3) by (auto simp: on_spool_def split: prod.splits)
  have gone: "accounted_for en root tombs view s' (pending_path root day batch) node"
    if "map_of (files (rn_world s)) (pending_path root day batch) = Some node" for view node
    using assms(1,2) that by (auto simp: accounted_for_def raw_sha256_def split: if_splits)
  have tables: "db w = db (rn_world s)"
    and "files w = AList.delete (pending_path root day batch) (files (rn_world s)) \<or> files w = files (rn_world s)"
    using remove_file_cases [OF w(1)] by auto
  from this(2) show ?thesis
  proof
    assume "files w = AList.delete (pending_path root day batch) (files (rn_world s))"
    then show ?thesis
      using gone tables by (intro recovering_removal [of _ _ "pending_path root day batch"]) (simp_all add: w(2))
  next
    assume "files w = files (rn_world s)"
    then show ?thesis using tables by (intro recovering_same) (simp_all add: w(2))
  qed
qed

lemma retirement_step:
  assumes "(batch, d, digest) \<in> set tombs"
  shows "keeps (recovering en root installation fs tombs) (complete_retirement en root day batch digest)"
  unfolding complete_retirement_def
proof (intro keeps_get_here)
  fix s r s'
  let ?remove = "on_spool (remove_file (pending_path root day batch))"
  let ?handler = "\<lambda>e. case e of
      Secure_File_Error k \<Rightarrow> Some (andthen (move_failure batch day ''retirement_incomplete''
        (if k = Commit_Uncertain then ''uncertain'' else ''io'')) (\<lambda>_. ret False))
    | _ \<Rightarrow> None"
  assume run: "(if raw_sha256 en (files (rn_world s)) (pending_path root day batch) \<noteq> Some digest
      then delete_tombstone_fenced batch day
      else andthen (handle (andthen ?remove (\<lambda>_. ret True)) ?handler) (\<lambda>removed.
        if removed then on_spool (clear_retirement batch) else ret ())) s = (r, s')"
  show "recovering en root installation fs tombs s s'"
  proof (cases "raw_sha256 en (files (rn_world s)) (pending_path root day batch) = Some digest")
    case False
    then show ?thesis using run keepsD [OF fenced_step] by auto
  next
    case True
    obtain q s1 where q: "?remove s = (q, s1)" by (cases "?remove s")
    note first = removal_step [OF True assms q]
    have "\<exists>t. recovering en root installation fs tombs s1 t \<and>
        (s' = t \<or> on_spool (clear_retirement batch) t = (r, s') \<or> ret () t = (r, s'))"
    proof (cases q)
      case (Inr u)
      then have "on_spool (clear_retirement batch) s1 = (r, s')"
        using run True q by (auto simp: handle_def andthen_def ret_def)
      then show ?thesis using recovering_same by blast
    next
      case (Inl e)
      show ?thesis
      proof (cases "\<exists>k. e = Secure_File_Error k")
        case True
        then obtain k where e: "e = Secure_File_Error k" by blast
        obtain u t where t: "move_failure batch day ''retirement_incomplete''
            (if k = Commit_Uncertain then ''uncertain'' else ''io'') s1 = (u, t)" by fastforce
        have "u = Inr ()" using t by (simp add: move_failure_def modify_def)
        then have "s' = t"
          using run \<open>raw_sha256 _ _ _ = _\<close> q Inl e t by (auto simp: handle_def andthen_def ret_def)
        then show ?thesis using keepsD [OF move_failure_step t] by blast
      next
        case False
        then have "s' = s1"
          using run \<open>raw_sha256 _ _ _ = _\<close> q Inl by (auto simp: handle_def andthen_def split: py_exc.splits)
        then show ?thesis using recovering_same by blast
      qed
    qed
    then obtain t where t: "recovering en root installation fs tombs s1 t"
      "s' = t \<or> on_spool (clear_retirement batch) t = (r, s') \<or> ret () t = (r, s')" by blast
    have "recovering en root installation fs tombs t s'"
      using t(2) keepsD [OF clear_step] by (auto simp: ret_def recovering_same)
    then show ?thesis using first t(1) transpD [OF recovering_order(2)] by blast
  qed
qed

lemma finish_step:
  assumes "evidenced en root installation tombs s" "rn_retirements s1 = rn_retirements s"
  shows "keeps (recovering en root installation fs tombs) (finish_recovery en root s1)"
  unfolding finish_recovery_def
proof (intro keeps_andthen keeps_for_each keeps_ret recovering_order)
  show "keeps (recovering en root installation fs tombs)
      ((\<lambda>(day, batch, expected). complete_retirement en root day batch expected) x)"
    if x: "x \<in> set (rn_retirements s1)" for x
  proof -
    obtain day batch digest where item: "x = (day, batch, digest)" by (cases x)
    then obtain d where "(batch, d, digest) \<in> set tombs" using assms x by (auto simp: evidenced_def)
    then show ?thesis using retirement_step by (auto simp: item)
  qed
  show "keeps (recovering en root installation fs tombs) ((\<lambda>(batch, day). delete_tombstone_fenced batch day) x)" for x
    by (cases x) (simp add: fenced_step)
  show "keeps (recovering en root installation fs tombs) (move_to_quarantine root x)" for x by (rule move_step)
qed

lemma evidence_adopted:
  assumes "evidenced en root installation tombs s"
  shows "\<forall>(p, batch, day) \<in> set (rn_registrations s).
    adopted en root installation (files (rn_world s)) (sr_row (reconciled_record p batch day))"
  using assms reconciled_stored by (fastforce simp: evidenced_def)

lemma recover_step:
  assumes "evidenced en root installation tombs s" "recover en root s = (r, s')"
  shows "recovering en root installation (files (rn_world s)) tombs s s'"
proof (cases "rn_complete s")
  case False
  then show ?thesis using assms(2) by (simp add: recover_def when_complete_def get_state_def ret_def recovering_same)
next
  case True
  let ?R = "recovering en root installation (files (rn_world s)) tombs"
  obtain q s1 where q: "clean_stagings root (rn_stagings s) s = (q, s1)" by (cases "clean_stagings root (rn_stagings s) s")
  have first: "?R s s1" "rn_registrations s1 = rn_registrations s" "rn_retirements s1 = rn_retirements s"
    using staging_step [OF _ q] assms(1) by (auto simp: evidenced_def)
  let ?rest = "andthen (register_all (rn_registrations s1)) (\<lambda>_. finish_recovery en root s1)"
  have "keeps ?R ?rest"
    using evidence_adopted [OF assms(1)] first(2)
    by (intro keeps_andthen recovering_order register_all_step finish_step [OF assms(1) first(3)]) simp
  note rest = keepsD [OF this]
  have "s' = s1 \<or> ?rest s1 = (r, s')"
    using assms(2) True q
    by (auto simp: recover_def when_complete_def get_state_def andthen_def ret_def split: sum.splits if_splits)
  then show ?thesis using first(1) rest transpD [OF recovering_order(2)] by blast
qed

section \<open>The whole pass\<close>

lemma same_spool_index: "keeps same_spool ledger_index"
  unfolding ledger_index_def index_row_def
  by (intro keeps_normalise keeps_andthen keeps_for_each keeps_handle keeps_ret same_spool_order
      same_spool_connection same_spool_select same_spool_load) (auto intro: keeps_ret split: if_splits)

lemma same_spool_retirements: "keeps same_spool retirement_index"
  unfolding retirement_index_def
  by (intro keeps_normalise keeps_andthen same_spool_order same_spool_connection same_spool_select)

definition recorded_tombs :: "tables \<Rightarrow> (string \<times> string \<times> string) list" where
  "recorded_tombs t = map (\<lambda>r. (rt_batch r, rt_day r, rt_file_sha256 r)) (retirements t)"

lemma retirement_index_Inr:
  "retirement_index w = (Inr tombs, w') \<Longrightarrow> tombs = recorded_tombs (db w)"
  by (auto simp: retirement_index_def normalise_Inr andthen_Inr db_connection_def select_Inr recorded_tombs_def
      split: if_splits)

lemma fresh_evidenced: "evidenced en root installation tombs (fresh_scan s)"
  by (simp add: evidenced_def fresh_scan_def)

lemma recovering_from:
  assumes "recovering en root installation fs tombs s1 s2"
    and "segments (db (rn_world s1)) = segments (db (rn_world s))" "files (rn_world s1) = files (rn_world s)"
    and "rn_quarantine s1 = rn_quarantine s" "rn_view s1 = rn_view s"
  shows "recovering en root installation fs tombs s s2"
  using assms transpD [OF recovering_order(2) recovering_same] by metis

lemma scan_pass_recovers:
  assumes "scan_pass en root installation s = (out, s')"
  shows "recovering en root installation (files (rn_world s)) (recorded_tombs (db (rn_world s))) s s'"
proof -
  let ?R = "recovering en root installation (files (rn_world s)) (recorded_tombs (db (rn_world s)))"
  let ?s0 = "fresh_scan s"
  have s0: "rn_world ?s0 = rn_world s" "rn_quarantine ?s0 = rn_quarantine s" "rn_view ?s0 = rn_view s"
    by (simp_all add: fresh_scan_def)
  obtain q1 w1 where q1: "ledger_index (rn_world s) = (q1, w1)" by (cases "ledger_index (rn_world s)")
  obtain q2 w2 where q2: "retirement_index w1 = (q2, w2)" by (cases "retirement_index w1")
  have same: "same_spool (rn_world s) w1" "same_spool w1 w2"
    using keepsD [OF same_spool_index q1] keepsD [OF same_spool_retirements q2] .
  then have w: "db w1 = db (rn_world s)" "db w2 = db (rn_world s)" "files w1 = files (rn_world s)"
    "files w2 = files (rn_world s)" by (simp_all add: same_spool_def)
  consider (early) "s' = ?s0\<lparr>rn_world := w1\<rparr> \<or> s' = ?s0\<lparr>rn_world := w2\<rparr>"
    | (ran) rows tombs where "q1 = Inr rows" "q2 = Inr tombs"
    using assms q1 q2
    by (cases q1; cases q2) (auto simp: scan_pass_def andthen_def modify_def on_spool_def s0)
  then show ?thesis
  proof cases
    case early
    then show ?thesis using w s0 by (intro recovering_same) auto
  next
    case ran
    let ?s1 = "?s0\<lparr>rn_world := w2\<rparr>"
    have tombs: "tombs = recorded_tombs (db (rn_world s))" using retirement_index_Inr q2 ran(2) w(1) by metis
    let ?lv = "\<lparr>lv_records = [rec. Inl rec \<leftarrow> rows], lv_malformed = [b. Inr b \<leftarrow> rows], lv_retirements = tombs\<rparr>"
    let ?classify = "andthen (malformed_anomalies [b. Inr b \<leftarrow> rows]) (\<lambda>_.
      andthen (inventory en root) (\<lambda>found. classify_all en root installation ?lv found))"
    have rest: "andthen (malformed_anomalies [b. Inr b \<leftarrow> rows]) (\<lambda>_.
      andthen (inventory en root) (\<lambda>found.
      andthen (classify_all en root installation ?lv found) (\<lambda>_.
      andthen (recover en root) (\<lambda>_. get_state (\<lambda>s. ret (report_of s)))))) ?s1 = (out, s')"
      using assms q1 q2 ran by (simp add: scan_pass_def andthen_def modify_def on_spool_def s0)
    obtain q3 s2 where q3: "?classify ?s1 = (q3, s2)" by (cases "?classify ?s1")
    have "keeps (scanning en root installation tombs) ?classify"
      using scan_classify [of en root installation ?lv]
      by (intro keeps_andthen scanning_order scan_malformed scan_inventory) simp
    from keepsD [OF this q3]
    have s2: "rn_world s2 = w2" "rn_view s2 = rn_view s" "rn_quarantine s2 = rn_quarantine s"
      "evidenced en root installation tombs s2"
      using fresh_evidenced [of en root installation tombs s] w s0
      by (auto simp: scanning_def evidenced_def fresh_scan_def)
    have "s' = s2 \<or> (\<exists>q. recover en root s2 = (q, s'))"
      using rest q3 by (auto simp: andthen_def get_state_def ret_def split: sum.splits prod.splits)
    then have "recovering en root installation (files (rn_world s2)) tombs s2 s'"
      using recover_step [OF s2(4)] recovering_same by blast
    then show ?thesis
      unfolding tombs s2(1) w(4) using recovering_from s2 w by (simp add: w)
  qed
qed

lemma take_lock_cases:
  "take_lock s = (r, s') \<Longrightarrow> db (rn_world s') = db (rn_world s) \<and> files (rn_world s') = files (rn_world s) \<and>
     rn_quarantine s' = rn_quarantine s \<and> rn_view s' = rn_view s"
  by (auto simp: take_lock_def Let_def split: list.splits option.splits)

text \<open>Up to the writer's action: what every recovery promises of the state the action starts from.\<close>

lemma reconcile_cases:
  assumes "reconcile_under_barrier en spool_root installation action s = (out, s')"
  obtains (refused) e where "out = Inl e" "s' = s"
    | (recovered) root s1 where "en_absolute en spool_root = Some root"
        "recovering en root installation (files (rn_world s)) (recorded_tombs (db (rn_world s))) s s1"
        "s' = s1 \<or> (\<exists>act rp r. action = Some act \<and> act s1 = (r, s') \<and> rp_complete rp \<and> rp_recovery_safe rp \<and>
            out = (case r of Inl e \<Rightarrow> Inl e | Inr _ \<Rightarrow> Inr rp))"
        "action = None \<Longrightarrow> s' = s1"
        "s' = s1 \<Longrightarrow> (\<exists>rp. out = Inr rp) \<Longrightarrow> action = None \<or> \<not> rp_complete (projr out) \<or>
           \<not> rp_recovery_safe (projr out) \<or> (\<exists>act u. action = Some act \<and> act s1 = (Inr u, s'))"
proof (cases "require_bound_state_root en spool_root installation")
  case (Inl e)
  then have "out = Inl e" "s' = s" using assms by (simp_all add: reconcile_under_barrier_def andthen_def lift_res_def)
  then show ?thesis by (rule refused)
next
  case (Inr root)
  then have root: "en_absolute en spool_root = Some root"
    by (auto simp: require_bound_state_root_def split: option.splits if_splits)
  obtain q0 s0 where q0: "take_lock s = (q0, s0)" by (cases "take_lock s")
  note lock0 = take_lock_cases [OF q0]
  let ?R = "recovering en root installation (files (rn_world s)) (recorded_tombs (db (rn_world s)))"
  show ?thesis
  proof (cases q0)
    case (Inl e)
    then have out: "out = Inl e" "s' = s0"
      using assms Inr q0 by (auto simp: reconcile_under_barrier_def andthen_def lift_res_def)
    have "?R s s'" using lock0 out by (intro recovering_same) simp_all
    then show ?thesis using recovered [OF root] out by auto
  next
    case locked: (Inr u)
    obtain q1 s1 where q1: "scan_pass en root installation s0 = (q1, s1)" by (cases "scan_pass en root installation s0")
    have "?R s s1"
      using recovering_from [OF scan_pass_recovers [OF q1]] lock0 by simp
    show ?thesis
    proof (cases q1)
      case (Inl e)
      then have "out = Inl e" "s' = s1"
        using assms Inr q0 locked q1 by (auto simp: reconcile_under_barrier_def andthen_def lift_res_def)
      then show ?thesis using recovered [OF root \<open>?R s s1\<close>] by auto
    next
      case scanned: (Inr rp)
      have run: "(case action of None \<Rightarrow> ret rp
          | Some act \<Rightarrow> if rp_complete rp \<and> rp_recovery_safe rp
              then andthen take_lock (\<lambda>_. andthen act (\<lambda>_. ret rp)) else ret rp) s1 = (out, s')"
        using assms Inr q0 locked q1 scanned by (simp add: reconcile_under_barrier_def andthen_def lift_res_def)
      show ?thesis
      proof (cases "\<exists>act. action = Some act \<and> rp_complete rp \<and> rp_recovery_safe rp")
        case False
        then have "out = Inr rp" "s' = s1" using run by (auto simp: ret_def split: option.splits)
        then show ?thesis using recovered [OF root \<open>?R s s1\<close>] False by auto
      next
        case True
        then obtain act where act: "action = Some act" "rp_complete rp" "rp_recovery_safe rp" by blast
        obtain q2 s2 where q2: "take_lock s1 = (q2, s2)" by (cases "take_lock s1")
        have "?R s s2"
          using take_lock_cases [OF q2] \<open>?R s s1\<close> transpD [OF recovering_order(2) _ recovering_same] by metis
        obtain q3 s3 where q3: "act s2 = (q3, s3)" by (cases "act s2")
        have "(\<exists>e. q2 = Inl e \<and> out = Inl e \<and> s' = s2) \<or>
            (\<exists>u. q2 = Inr u) \<and> s' = s3 \<and> out = (case q3 of Inl e \<Rightarrow> Inl e | Inr _ \<Rightarrow> Inr rp)"
          using run act q2 q3 by (auto simp: andthen_def ret_def split: sum.splits)
        then show ?thesis
        proof
          assume "\<exists>e. q2 = Inl e \<and> out = Inl e \<and> s' = s2"
          then show ?thesis using recovered [OF root \<open>?R s s2\<close>] act by auto
        next
          assume "(\<exists>u. q2 = Inr u) \<and> s' = s3 \<and> out = (case q3 of Inl e \<Rightarrow> Inl e | Inr _ \<Rightarrow> Inr rp)"
          then show ?thesis using recovered [OF root \<open>?R s s2\<close>] act q3 by (auto split: sum.splits)
        qed
      qed
    qed
  qed
qed

end
