(* ===== verification/Recovery.thy ===== *)
theory Recovery
  imports Reconcile
begin

text \<open>
  What a complete reconciliation promises of the files it was shown: every listed segment file is
  classified, so a trusted file that the ledger does not know is registered. This is the other half of
  crash recovery; \<open>Reconcile\<close> proves that nothing else is.
\<close>

section \<open>A complete pass reaches every listed file\<close>

definition segment_names :: "string list \<Rightarrow> string list" where
  "segment_names nms = map (\<lambda>nm. take (length nm - length segment_suffix) nm)
     (filter (\<lambda>nm. \<not> starts_with stage_prefix nm \<and> ends_with segment_suffix nm \<and>
        token_match 127 (take (length nm - length segment_suffix) nm)) nms)"

text \<open>The flags only ever worsen, and registrations only accumulate, while the scan classifies.\<close>

definition worsening :: "recon \<Rightarrow> recon \<Rightarrow> bool" where
  "worsening s s' \<longleftrightarrow> (rn_complete s' \<longrightarrow> rn_complete s) \<and> (rn_stopped s \<longrightarrow> rn_stopped s') \<and>
     rn_view s' = rn_view s \<and> rn_world s' = rn_world s \<and> set (rn_registrations s) \<subseteq> set (rn_registrations s')"

lemma worsening_order [simp]: "reflp worsening" "transp worsening"
  by (auto simp: reflp_def transp_def worsening_def)

lemmas worsening_intros = keeps_ret keeps_throw keeps_andthen keeps_for_each keeps_get_state worsening_order

lemma worse_anomaly: "keeps worsening (anomaly batch day kind detail)"
  unfolding anomaly_def by (rule keeps_modify) (simp add: worsening_def)

lemma worse_modify:
  "keeps worsening incomplete"
  "keeps worsening (modify (\<lambda>s. s\<lparr>rn_scanned := Suc (rn_scanned s)\<rparr>))"
  "keeps worsening (modify (\<lambda>s. s\<lparr>rn_healthy := Suc (rn_healthy s)\<rparr>))"
  "keeps worsening (modify (\<lambda>s. s\<lparr>rn_stagings := rn_stagings s @ xs\<rparr>))"
  "keeps worsening (modify (\<lambda>s. s\<lparr>rn_registrations := rn_registrations s @ regs\<rparr>))"
  "keeps worsening (modify (\<lambda>s. s\<lparr>rn_retirements := rn_retirements s @ rets\<rparr>))"
  "keeps worsening (modify (\<lambda>s. s\<lparr>rn_quarantines := rn_quarantines s @ qs\<rparr>))"
  "keeps worsening (tombstone_later batch day)"
  unfolding incomplete_def tombstone_later_def by (rule keeps_modify, force simp: worsening_def)+

lemma worse_queue: "keeps worsening (queue_quarantine en root day nm batch detail)"
  unfolding queue_quarantine_def
  by (auto intro!: worsening_intros worse_anomaly worse_modify split: option.split)

lemma worse_staged: "keeps worsening (staged_entry en root day nm)"
  unfolding staged_entry_def
  by (auto intro!: worsening_intros worse_anomaly worse_modify worse_queue split: option.split)

lemma worse_read: "keeps worsening (trusted_read en root installation day batch)"
  using trusted_read_cases by (fastforce simp: keeps_def worsening_def)

lemma worse_classify_name: "keeps worsening (classify_name day nm)"
  unfolding classify_name_def by (auto simp: Let_def intro!: worsening_intros worse_anomaly)

lemma worse_candidate: "keeps worsening (classify_candidate en root installation lv all day batch)"
  unfolding classify_candidate_def verify_committed_def reconcile_orphan_def classify_retirement_def
  by (auto intro!: worsening_intros worse_anomaly worse_modify worse_queue worse_read
      split: option.split sum.split py_exc.split)

lemma worse_candidates: "keeps worsening (classify_candidates en root installation lv all cs)"
proof (induction cs)
  case (Cons c cs)
  then show ?case by (cases c) (auto intro!: worsening_intros worse_candidate)
qed (simp add: keeps_ret)

lemma worse_conflicts: "keeps worsening (classify_conflicts en root installation lv seen bs)"
proof (induction bs)
  case (Cons b bs)
  then show ?case
    by (auto simp: queue_copies_def find_keeper_def Let_def
        intro!: worsening_intros worse_queue worse_read worse_modify split: option.split sum.split)
qed (simp add: keeps_ret)

lemma worse_missing: "keeps worsening (classify_missing seen recs)"
  by (induction recs) (auto intro!: worsening_intros worse_anomaly)

lemma worse_tombstones: "keeps worsening (classify_tombstones seen lv rs)"
  by (induction rs rule: classify_tombstones.induct) (auto intro!: worsening_intros worse_modify)

section \<open>The inventory is complete or says it is not\<close>

lemma incomplete_ends: "andthen incomplete (\<lambda>_. ret x) s = (r, s') \<Longrightarrow> \<not> rn_complete s'"
  by (auto simp: incomplete_def andthen_def modify_def ret_def)

lemma anomaly_incomplete_ends:
  "andthen (anomaly b d k t) (\<lambda>_. andthen incomplete (\<lambda>_. ret x)) s = (r, s') \<Longrightarrow> \<not> rn_complete s'"
  by (auto simp: anomaly_def incomplete_def andthen_def modify_def ret_def)

lemma classify_name_Inr:
  "classify_name day nm s = (Inr r, s') \<Longrightarrow>
     r = (if ends_with segment_suffix nm \<and> token_match 127 (take (length nm - length segment_suffix) nm)
          then Some (take (length nm - length segment_suffix) nm) else None)"
  by (auto simp: classify_name_def Let_def andthen_Inr ret_def split: if_splits)

lemma entries_complete:
  "inventory_entries en root day nms found s = (Inr (go, found'), s') \<Longrightarrow> rn_complete s' \<Longrightarrow>
     go \<and> found' = found @ map (Pair day) (segment_names nms)"
proof (induction nms arbitrary: found s)
  case Nil
  then show ?case by (simp add: ret_def segment_names_def)
next
  case (Cons nm nms)
  have go_on: "\<not> rn_stopped s" "\<not> max_total \<le> rn_scanned s"
    using Cons.prems incomplete_ends anomaly_incomplete_ends
    by (fastforce simp: get_state_def split: if_splits)+
  let ?s1 = "s\<lparr>rn_scanned := Suc (rn_scanned s)\<rparr>"
  show ?case
  proof (cases "starts_with stage_prefix nm")
    case True
    then have "andthen (staged_entry en root day nm) (\<lambda>_. inventory_entries en root day nms found) ?s1 = (Inr (go, found'), s')"
      using Cons.prems(1) go_on by (simp add: get_state_def andthen_def modify_def)
    then obtain u s2 where "inventory_entries en root day nms found s2 = (Inr (go, found'), s')"
      by (auto simp: andthen_Inr)
    from Cons.IH [OF this Cons.prems(2)] True show ?thesis by (simp add: segment_names_def)
  next
    case False
    then have "andthen (classify_name day nm) (\<lambda>resolved. inventory_entries en root day nms
        (case resolved of None \<Rightarrow> found | Some batch \<Rightarrow> found @ [(day, batch)])) ?s1 = (Inr (go, found'), s')"
      using Cons.prems(1) go_on by (simp add: get_state_def andthen_def modify_def)
    then obtain resolved s2 where r: "classify_name day nm ?s1 = (Inr resolved, s2)"
      "inventory_entries en root day nms
        (case resolved of None \<Rightarrow> found | Some batch \<Rightarrow> found @ [(day, batch)]) s2 = (Inr (go, found'), s')"
      by (auto simp: andthen_Inr)
    from Cons.IH [OF r(2) Cons.prems(2)] classify_name_Inr [OF r(1)] False show ?thesis
      by (auto simp: segment_names_def)
  qed
qed

definition listed_days :: "spool_view \<Rightarrow> string list \<Rightarrow> candidates" where
  "listed_days v days = concat (map (\<lambda>day. case vw_day v day of
     Day_Listed nms \<Rightarrow> map (Pair day) (segment_names nms) | Day_Refused _ \<Rightarrow> []) (filter is_valid_day days))"

definition listed :: "spool_view \<Rightarrow> candidates" where
  "listed v = (case vw_pending v of Pending_Listed days \<Rightarrow> listed_days v days | _ \<Rightarrow> [])"

lemma worse_entries: "keeps worsening (inventory_entries en root day nms found)"
proof (induction nms arbitrary: found)
  case (Cons nm nms)
  show ?case
    by (auto intro!: worsening_intros worse_anomaly worse_modify worse_staged worse_classify_name Cons.IH)
qed (simp add: keeps_ret)

lemma worse_day: "keeps worsening (inventory_day en root day found)"
  unfolding inventory_day_def
  by (auto intro!: worsening_intros worse_anomaly worse_modify worse_entries split: day_view.split)

lemma worse_days: "keeps worsening (inventory_days en root days found)"
proof (induction days arbitrary: found)
  case (Cons day days)
  then show ?case by (auto intro!: worsening_intros worse_anomaly worse_modify worse_day)
qed (simp add: keeps_ret)

lemma worse_inventory: "keeps worsening (inventory en root)"
  unfolding inventory_def
  by (auto intro!: worsening_intros worse_anomaly worse_modify worse_days split: pending_view.split)

lemma day_complete:
  assumes "inventory_day en root day found s = (Inr (go, found'), s')" "rn_complete s'"
  shows "go \<and> (\<exists>nms. vw_day (rn_view s) day = Day_Listed nms \<and> found' = found @ map (Pair day) (segment_names nms))"
proof (cases "vw_day (rn_view s) day")
  case (Day_Refused problem)
  then show ?thesis using assms anomaly_incomplete_ends by (fastforce simp: inventory_day_def get_state_def)
next
  case (Day_Listed nms)
  then have "inventory_entries en root day nms found s = (Inr (go, found'), s')"
    using assms(1) by (simp add: inventory_day_def get_state_def)
  then show ?thesis using entries_complete assms(2) Day_Listed by blast
qed

lemma days_complete:
  "inventory_days en root days found s = (Inr (go, found'), s') \<Longrightarrow> rn_complete s' \<Longrightarrow>
     go \<and> found' = found @ listed_days (rn_view s) days"
proof (induction days arbitrary: found s)
  case Nil
  then show ?case by (simp add: ret_def listed_days_def)
next
  case (Cons day days)
  have go_on: "\<not> rn_stopped s"
    using Cons.prems incomplete_ends by (fastforce simp: get_state_def split: if_splits)
  show ?case
  proof (cases "is_valid_day day")
    case False
    then obtain u s2 where s2: "anomaly [] [] ''foreign_name'' ''day'' s = (u, s2)"
      "inventory_days en root days found s2 = (Inr (go, found'), s')"
      using Cons.prems(1) go_on by (auto simp: get_state_def andthen_Inr)
    have "rn_view s2 = rn_view s" using keepsD [OF worse_anomaly s2(1)] by (simp add: worsening_def)
    with Cons.IH [OF s2(2) Cons.prems(2)] False show ?thesis by (simp add: listed_days_def)
  next
    case True
    then obtain go1 found1 s2 where s2: "inventory_day en root day found s = (Inr (go1, found1), s2)"
      and rest: "(if \<not> go1 then ret (False, found1)
       else if \<not> vw_bound (rn_view s) day then
         andthen (anomaly [] [] ''foreign_name'' ''pending_changed'') (\<lambda>_.
         andthen incomplete (\<lambda>_. ret (False, found1)))
       else inventory_days en root days found1) s2 = (Inr (go, found'), s')"
      using Cons.prems(1) go_on by (auto simp: get_state_def andthen_Inr)
    have bound: "go1 \<longrightarrow> vw_bound (rn_view s) day"
      using rest Cons.prems(2) anomaly_incomplete_ends by (fastforce split: if_splits)
    have "rn_complete s2"
    proof (cases go1)
      case False
      then show ?thesis using rest Cons.prems(2) by (simp add: ret_def)
    next
      case go1: True
      then have "inventory_days en root days found1 s2 = (Inr (go, found'), s')" using rest bound by simp
      from keepsD [OF worse_days this] Cons.prems(2) show ?thesis by (simp add: worsening_def)
    qed
    from day_complete [OF s2 this] obtain nms where nms: go1 "vw_day (rn_view s) day = Day_Listed nms"
      "found1 = found @ map (Pair day) (segment_names nms)" by auto
    have "inventory_days en root days found1 s2 = (Inr (go, found'), s')" using rest bound nms(1) by simp
    moreover have "rn_view s2 = rn_view s" using keepsD [OF worse_day s2] by (simp add: worsening_def)
    ultimately show ?thesis using Cons.IH Cons.prems(2) nms True by (fastforce simp: listed_days_def)
  qed
qed

lemma inventory_complete:
  assumes "inventory en root s = (Inr found, s')" "rn_complete s'"
  shows "found = listed (rn_view s)"
proof (cases "vw_pending (rn_view s)")
  case (Pending_Refused detail)
  then show ?thesis
    using assms anomaly_incomplete_ends by (fastforce simp: inventory_def get_state_def)
next
  case Pending_Absent
  then show ?thesis using assms by (simp add: inventory_def get_state_def listed_def ret_def)
next
  case (Pending_Listed days)
  have few: "\<not> max_days < length days"
    using assms Pending_Listed anomaly_incomplete_ends by (fastforce simp: inventory_def get_state_def split: if_splits)
  then obtain go found1 s1 where s1: "inventory_days en root days [] s = (Inr (go, found1), s1)"
    and rest: "(if \<not> go then ret found1
       else if \<not> vw_bound_end (rn_view s) then
         andthen (anomaly [] [] ''foreign_name'' ''pending_changed'') (\<lambda>_.
         andthen incomplete (\<lambda>_. ret found1))
       else get_state (\<lambda>s. if rn_stopped s then andthen incomplete (\<lambda>_. ret found1) else ret found1)) s1 = (Inr found, s')"
    using assms(1) Pending_Listed by (auto simp: inventory_def get_state_def andthen_Inr)
  have "found = found1 \<and> s' = s1"
    using rest assms(2) anomaly_incomplete_ends incomplete_ends
    by (fastforce simp: get_state_def ret_def split: if_splits)
  then show ?thesis
    using days_complete [OF s1] assms(2) Pending_Listed by (simp add: listed_def)
qed

section \<open>Every listed orphan is registered\<close>

lemma orphan_registered:
  assumes "reconcile_orphan en root installation day batch s = (Inr u, s')"
    and "read_trusted_segment en (files (rn_world s)) (pending_path root day batch) installation = Inr p"
    and "hd_batch (ps_header p) = batch" "authorize_local_persistence (hd_privacy (ps_header p)) = Inr ()"
  shows "(p, batch, day) \<in> set (rn_registrations s')"
  using assms by (auto simp: reconcile_orphan_def trusted_read_def get_state_def andthen_def ret_def modify_def)

lemma candidates_complete:
  assumes "classify_candidates en root installation lv all cs s = (Inr seen, s')" "\<not> rn_stopped s'" "(day, batch) \<in> set cs"
  shows "\<exists>s1 s2 u. classify_candidate en root installation lv all day batch s1 = (Inr u, s2) \<and>
    rn_world s1 = rn_world s \<and> set (rn_registrations s2) \<subseteq> set (rn_registrations s')"
  using assms
proof (induction cs arbitrary: s seen)
  case (Cons c cs)
  obtain d b where c: "c = (d, b)" by fastforce
  have "\<not> rn_stopped s"
    using keepsD [OF worse_candidates Cons.prems(1)] Cons.prems(2) by (auto simp: worsening_def)
  then obtain u s1 rest where s1: "classify_candidate en root installation lv all d b s = (Inr u, s1)"
    "classify_candidates en root installation lv all cs s1 = (Inr rest, s')"
    using Cons.prems(1) by (auto simp: c get_state_def andthen_Inr ret_def)
  note later = keepsD [OF worse_candidates s1(2)] keepsD [OF worse_candidate s1(1)]
  show ?case
  proof (cases "(day, batch) = (d, b)")
    case True
    then show ?thesis using s1(1) later(1) by (auto simp: worsening_def)
  next
    case False
    then show ?thesis using Cons.IH [OF s1(2) Cons.prems(2)] Cons.prems(3) later(2) c
      by (auto simp: worsening_def)
  qed
qed simp

lemma classify_complete:
  assumes "classify_all en root installation lv found s = (Inr u, s')" "rn_complete s'" "(day, batch) \<in> set found"
  shows "\<exists>s1 s2 u. classify_candidate en root installation lv found day batch s1 = (Inr u, s2) \<and>
    rn_world s1 = rn_world s \<and> set (rn_registrations s2) \<subseteq> set (rn_registrations s')"
proof -
  let ?later = "\<lambda>seen. andthen (get_state (\<lambda>s. if rn_stopped s then ret () else
         classify_conflicts en root installation lv seen
           (sorted_list_of_set {b \<in> snd ` set seen. 1 < count_list (map snd found) b}))) (\<lambda>_.
       andthen (classify_missing seen (lv_records lv)) (\<lambda>_.
       classify_tombstones seen lv (lv_retirements lv)))"
  let ?steps = "andthen (classify_candidates en root installation lv found found) ?later"
  obtain v s3 where run: "when_complete ?steps s = (Inr v, s3)"
    "get_state (\<lambda>s. if rn_stopped s then incomplete else ret ()) s3 = (Inr u, s')"
    using assms(1) unfolding classify_all_def andthen_Inr by blast
  have "\<not> rn_stopped s3" "s' = s3"
    using run(2) assms(2) by (auto simp: get_state_def incomplete_def modify_def ret_def split: if_splits)
  note s3 = run(1) this
  have "rn_complete s"
    using s3 assms(2) by (auto simp: when_complete_def get_state_def ret_def split: if_splits)
  then obtain seen s1 where s1: "classify_candidates en root installation lv found found s = (Inr seen, s1)"
    "?later seen s1 = (Inr v, s3)"
    using s3(1) by (auto simp: when_complete_def get_state_def andthen_Inr)
  have "keeps worsening (?later seen)"
    by (auto intro!: worsening_intros worse_conflicts worse_missing worse_tombstones)
  from keepsD [OF this s1(2)]
  have "\<not> rn_stopped s1" "set (rn_registrations s1) \<subseteq> set (rn_registrations s')"
    using s3 by (auto simp: worsening_def)
  then show ?thesis using candidates_complete [OF s1(1) _ assms(3)] by blast
qed

lemma classify_orphan:
  assumes "classify_candidate en root installation lv all day batch s1 = (Inr u, s2)"
    and "count_list (map snd all) batch = 1" "batch \<notin> set (lv_malformed lv)" "record_for lv batch = None"
    and "map_of (lv_retirements lv) batch = None"
  shows "reconcile_orphan en root installation day batch s1 = (Inr u, s2)"
  using assms by (simp add: classify_candidate_def)

lemma index_row_Inr:
  "index_row r w = (Inr x, w') \<Longrightarrow> (case x of Inl rec \<Rightarrow> sr_row rec = r | Inr b \<Rightarrow> b = sg_batch r)"
  by (auto simp: index_row_def handle_def andthen_def ret_def dest!: load_record_Inr
      split: prod.splits sum.splits if_splits)

lemma index_rows_Inr:
  "for_each index_row rs w = (Inr rows, w') \<Longrightarrow> x \<in> set rows \<Longrightarrow>
     (case x of Inl rec \<Rightarrow> sr_row rec \<in> set rs | Inr b \<Rightarrow> b \<in> sg_batch ` set rs)"
  by (induction rs arbitrary: w rows) (fastforce simp: andthen_Inr ret_def dest!: index_row_Inr split: sum.splits)+

lemma ledger_index_Inr:
  assumes "ledger_index w = (Inr rows, w')" "x \<in> set rows"
  shows "case x of Inl rec \<Rightarrow> sr_row rec \<in> set (segments (db w)) | Inr b \<Rightarrow> b \<in> sg_batch ` set (segments (db w))"
proof -
  obtain w1 w2 where "for_each index_row (segments (db w)) w1 = (Inr rows, w2)"
    using assms(1) by (auto simp: ledger_index_def normalise_Inr andthen_Inr db_connection_def select_Inr split: if_splits)
  then show ?thesis using index_rows_Inr assms(2) by blast
qed

lemma register_all_Inr:
  assumes "register_all regs s = (Inr us, s')" "(p, batch, day) \<in> set regs"
    and "\<forall>(p, batch, day) \<in> set regs. adopted en root installation fs (sr_row (reconciled_record p batch day))"
  shows "sr_row (reconciled_record p batch day) \<in> set (segments (db (rn_world s')))"
proof -
  let ?step = "\<lambda>(p, batch, day). andthen (register p batch day) (\<lambda>_.
     modify (\<lambda>s. s\<lparr>rn_registered := rn_registered s @ [(batch, day)]\<rparr>))"
  have "\<exists>s1 s2 u. ?step (p, batch, day) s1 = (Inr u, s2) \<and> recovering en root installation fs [] s2 s'"
    using assms unfolding register_all_def
  proof (induction regs arbitrary: s us)
    case (Cons x regs)
    obtain u s1 us1 where s1: "?step x s = (Inr u, s1)" "for_each ?step regs s1 = (Inr us1, s')"
      using Cons.prems(1) by (auto simp: andthen_Inr ret_def)
    have rest: "recovering en root installation fs [] s1 s'"
      using keepsD [OF register_all_step [unfolded register_all_def] s1(2)] Cons.prems(3) by auto
    show ?case
    proof (cases "x = (p, batch, day)")
      case True
      then show ?thesis using s1(1) rest by blast
    next
      case False
      then show ?thesis using Cons.IH [OF s1(2)] Cons.prems(2,3) by auto
    qed
  qed simp
  then obtain s1 s2 u where s2: "?step (p, batch, day) s1 = (Inr u, s2)" "recovering en root installation fs [] s2 s'"
    by blast
  then have "sr_row (reconciled_record p batch day) \<in> set (segments (db (rn_world s2)))"
    by (auto simp: andthen_Inr modify_def register_def on_spool_def normalise_def handle_def throw_def transaction_Inr
        split: prod.splits sum.splits if_splits dest!: insert_segment_row_Inr)
  then show ?thesis using s2(2) by (auto simp: recovering_def)
qed

lemma recover_registers:
  assumes "recover en root s = (Inr u, s')" "rn_complete s'" "rn_recovery_safe s'"
    and "evidenced en root installation tombs s" "(p, batch, day) \<in> set (rn_registrations s)"
  shows "sr_row (reconciled_record p batch day) \<in> set (segments (db (rn_world s')))"
proof -
  have complete: "rn_complete s"
    using assms(1,2) by (auto simp: recover_def when_complete_def get_state_def ret_def split: if_splits)
  obtain q s1 where q: "clean_stagings root (rn_stagings s) s = (q, s1)" by (cases "clean_stagings root (rn_stagings s) s")
  have first: "rn_registrations s1 = rn_registrations s" "rn_retirements s1 = rn_retirements s"
    using staging_step [OF _ q] assms(4) by (auto simp: evidenced_def)
  have run: "(if \<not> rn_recovery_safe s1 then ret ()
      else andthen (register_all (rn_registrations s1)) (\<lambda>_. finish_recovery en root s1)) s1 = (Inr u, s')"
    using assms(1) complete q
    by (auto simp: recover_def when_complete_def get_state_def andthen_def split: sum.splits)
  then have "rn_recovery_safe s1" using assms(3) by (auto simp: ret_def split: if_splits)
  then obtain us s2 where s2: "register_all (rn_registrations s1) s1 = (Inr us, s2)" "finish_recovery en root s1 s2 = (Inr u, s')"
    using run by (auto simp: andthen_Inr)
  have "sr_row (reconciled_record p batch day) \<in> set (segments (db (rn_world s2)))"
    using register_all_Inr [OF s2(1)] evidence_adopted [OF assms(4)] assms(5) first(1) by simp
  then show ?thesis
    using recovering_segments [OF keepsD [OF finish_step [OF assms(4) first(2), where fs = "[]"] s2(2)]] by blast
qed

lemma scan_pass_adopts:
  assumes pass: "scan_pass en root installation s = (Inr rp, s')" "rp_complete rp" "rp_recovery_safe rp"
    and shown: "(day, batch) \<in> set (listed (rn_view s))" "count_list (map snd (listed (rn_view s))) batch = 1"
    and unknown: "batch \<notin> sg_batch ` set (segments (db (rn_world s)))" "batch \<notin> rt_batch ` set (retirements (db (rn_world s)))"
    and trusted: "read_trusted_segment en (files (rn_world s)) (pending_path root day batch) installation = Inr p"
      "hd_batch (ps_header p) = batch" "authorize_local_persistence (hd_privacy (ps_header p)) = Inr ()"
  shows "sr_row (reconciled_record p batch day) \<in> set (segments (db (rn_world s')))"
proof -
  let ?s0 = "fresh_scan s"
  have s0: "rn_world ?s0 = rn_world s" "rn_view ?s0 = rn_view s" by (simp_all add: fresh_scan_def)
  obtain rows w1 tombs w2 where q: "ledger_index (rn_world s) = (Inr rows, w1)" "retirement_index w1 = (Inr tombs, w2)"
    using pass(1) by (auto simp: scan_pass_def andthen_Inr on_spool_def modify_def s0 split: prod.splits)
  let ?lv = "\<lparr>lv_records = [rec. Inl rec \<leftarrow> rows], lv_malformed = [b. Inr b \<leftarrow> rows], lv_retirements = tombs\<rparr>"
  have w: "db w1 = db (rn_world s)" "files w2 = files (rn_world s)"
    using keepsD [OF same_spool_index q(1)] keepsD [OF same_spool_retirements q(2)] by (simp_all add: same_spool_def)
  obtain us s1 found s2 v s3 u s4 where
    s1: "malformed_anomalies [b. Inr b \<leftarrow> rows] (?s0\<lparr>rn_world := w2\<rparr>) = (Inr us, s1)"
    and s2: "inventory en root s1 = (Inr found, s2)"
    and s3: "classify_all en root installation ?lv found s2 = (Inr v, s3)"
    and s4: "recover en root s3 = (Inr u, s4)" "rp = report_of s4" "s' = s4"
    using pass(1) q
    by (auto simp: scan_pass_def andthen_Inr on_spool_def modify_def s0 get_state_def ret_def split: prod.splits)
  have flags: "rn_complete s4" "rn_recovery_safe s4" using pass(2,3) s4(2) by (simp_all add: report_of_def)
  note scan1 = keepsD [OF scan_malformed [of en root installation tombs] s1]
    and scan2 = keepsD [OF scan_inventory [of en root installation tombs] s2]
  have scan3: "scanning en root installation tombs s2 s3" using keepsD [OF scan_classify s3] by simp
  have evidence: "evidenced en root installation tombs s3"
    using scan1 scan2 scan3 fresh_evidenced [of en root installation tombs s]
    by (auto simp: scanning_def evidenced_def fresh_scan_def)
  have complete: "rn_complete s3"
    using s4(1) flags(1) by (auto simp: recover_def when_complete_def get_state_def ret_def split: if_splits)
  have "keeps worsening (classify_all en root installation ?lv found)"
    unfolding classify_all_def when_complete_def
    by (auto intro!: worsening_intros worse_candidates worse_conflicts worse_missing worse_tombstones worse_modify)
  from keepsD [OF this s3] complete have "rn_complete s2" by (simp add: worsening_def)
  with inventory_complete [OF s2] have found: "found = listed (rn_view s)"
    using scan1 s0 by (simp add: scanning_def)
  obtain c1 c2 cu where c: "classify_candidate en root installation ?lv found day batch c1 = (Inr cu, c2)"
    "rn_world c1 = rn_world s2" "set (rn_registrations c2) \<subseteq> set (rn_registrations s3)"
    using classify_complete [OF s3 complete] shown(1) found by blast
  have "batch \<notin> set (lv_malformed ?lv)" "record_for ?lv batch = None" "map_of (lv_retirements ?lv) batch = None"
  proof -
    note known = ledger_index_Inr [OF q(1)]
    show "batch \<notin> set (lv_malformed ?lv)" using known [of "Inr batch"] unknown(1) by auto
    show "record_for ?lv batch = None"
      using known [of "Inl _"] unknown(1) by (auto simp: record_for_def find_None_iff)
    show "map_of (lv_retirements ?lv) batch = None"
      using retirement_index_Inr [OF q(2)] unknown(2) w(1)
      by (auto simp: map_of_eq_None_iff recorded_tombs_def image_image)
  qed
  from classify_orphan [OF c(1) _ this] shown(2) found
  have "reconcile_orphan en root installation day batch c1 = (Inr cu, c2)" by simp
  moreover have "files (rn_world c1) = files (rn_world s)"
    using c(2) scan1 scan2 w(2) by (simp add: scanning_def)
  ultimately have "(p, batch, day) \<in> set (rn_registrations c2)"
    using orphan_registered trusted by simp
  then show ?thesis using recover_registers [OF s4(1) flags evidence] c(3) s4(3) by blast
qed

text \<open>C13
  Recovery only adopts what it can trust: whatever a reconciliation does and however it ends, no ledger
  row is lost or changed, and each row it added is marked reconciled, is of an authorised privacy
  class, and describes a file that was there, owner only, holding the canonical bytes of frames minted by
  this installation, with the row's digests, size, count and batch.\<close>

theorem reconcile_adopts_only_trusted:
  assumes "reconcile_under_barrier en spool_root installation None s = (out, s')"
  shows "\<exists>new. segments (db (rn_world s')) = segments (db (rn_world s)) @ new \<and>
    (\<forall>x \<in> set new. sg_origin x = ''reconciled'' \<and> sg_privacy x \<in> {''public'', ''internal'', ''sensitive''} \<and>
      (\<exists>root. en_absolute en spool_root = Some root \<and>
         stored_as_committed en root (files (rn_world s)) installation x))"
  using assms
proof (cases rule: reconcile_cases)
  case (refused e)
  then show ?thesis by simp
next
  case (recovered root s1)
  then have "s' = s1" by blast
  then show ?thesis using recovered(1,2) by (auto simp: recovering_def adopted_def)
qed



section \<open>A published segment without its row\<close>

definition demo_view :: spool_view where
  "demo_view = \<lparr>vw_pending = Pending_Listed [''2025-07-11''], vw_day = (\<lambda>_. Day_Listed [''b1.jsonl'']),
     vw_bound = (\<lambda>_. True), vw_bound_end = True, vw_stat = (\<lambda>_ _. None)\<rparr>"

definition demo_recon :: "spool_world \<Rightarrow> recon" where
  "demo_recon w = \<lparr>rn_world = w, rn_view = demo_view, rn_cleanups = [], rn_fences = [], rn_moves = [],
     rn_quarantine = [], rn_anomalies = [], rn_stopped = False, rn_complete = True, rn_recovery_safe = True,
     rn_healthy = 0, rn_scanned = 0, rn_registrations = [], rn_retirements = [], rn_tombstones = [],
     rn_quarantines = [], rn_stagings = [], rn_registered = [], rn_quarantined = [], rn_failures = []\<rparr>"

lemma demo_recon_simps [simp]:
  "rn_world (demo_recon w) = w" "(demo_recon w)\<lparr>rn_world := w'\<rparr> = demo_recon w'"
  by (simp_all add: demo_recon_def)

definition demo_orphaned :: recon where
  "demo_orphaned = demo_recon (demo_disk empty_tables [(demo_path, demo_node)])"

lemma demo_day: "sg_day demo_segment = ''2025-07-11''" "is_valid_day ''2025-07-11''"
    "\<not> starts_with stage_prefix ''b1.jsonl''" "ends_with segment_suffix ''b1.jsonl''"
    "take (length ''b1.jsonl'' - length segment_suffix) ''b1.jsonl'' = ''b1''" "token_match 127 ''b1''"
  by code_simp+

lemma demo_inventory:
  "inventory en root (demo_recon w) = (Inr [(''2025-07-11'', ''b1'')], (demo_recon w)\<lparr>rn_scanned := 1\<rparr>)"
  using demo_day
  by (simp add: inventory_def get_state_def demo_recon_def demo_view_def max_days_def andthen_def
      inventory_day_def max_total_def modify_def classify_name_def Let_def ret_def)

definition demo_adopted :: segment_row where
  "demo_adopted = demo_segment\<lparr>sg_origin := ''reconciled''\<rparr>"

lemma demo_reconciled:
  "reconciled_record demo_parsed ''b1'' ''2025-07-11'' =
     \<lparr>sr_row = demo_adopted, sr_exporters = [\<lparr>xd_exporter = ''ch'', xd_status = ''pending''\<rparr>]\<rparr>"
  by (simp add: reconciled_record_def demo_parsed_def demo_header_def demo_adopted_def demo_segment_def Let_def
      pending_delivery_def)

lemma demo_adopted_row: "segment_check demo_adopted" "sg_batch demo_adopted = ''b1''"
    "list_all in_int64 [sg_schema_version demo_adopted, sg_frame_version demo_adopted,
       sg_retention_days demo_adopted, sg_record_count demo_adopted, sg_byte_size demo_adopted]"
  by code_simp+

definition demo_known :: tables where
  "demo_known = empty_tables\<lparr>segments := [demo_adopted],
     seg_exporters := [delivery_row ''b1'' \<lparr>xd_exporter = ''ch'', xd_status = ''pending''\<rparr>]\<rparr>"

lemma demo_registered:
  "transaction (insert_segment_row (reconciled_record demo_parsed ''b1'' ''2025-07-11'')) (demo_disk empty_tables fs) =
     (Inr (), demo_disk demo_known fs)"
  unfolding demo_reconciled
  using demo_adopted_row
  by (simp add: transaction_quiet insert_segment_row_def andthen_def insert_segment_def sql_cases demo_disk_def
      quiet_def insert_exporter_def exporter_check_def ret_def demo_known_def delivery_row_def empty_tables_def Let_def)

lemma demo_indexes:
  "ledger_index (demo_disk empty_tables fs) = (Inr [], demo_disk empty_tables fs)"
  "retirement_index (demo_disk empty_tables fs) = (Inr [], demo_disk empty_tables fs)"
  by (simp_all add: ledger_index_def retirement_index_def normalise_def handle_def andthen_def db_connection_def
      select_quiet ret_def) (simp_all add: empty_tables_def ret_def)

lemma demo_pass:
  "\<exists>s'. reconcile_under_barrier demo_env ''/s/spool'' demo_installation None demo_orphaned =
     (Inr \<lparr>rp_registered = [(''b1'', ''2025-07-11'')], rp_quarantined = [], rp_anomalies = [], rp_healthy = 0,
        rp_scanned = 1, rp_complete = True, rp_recovery_safe = True\<rparr>, s') \<and>
     rn_world s' = demo_disk demo_known [(demo_path, demo_node)]"
proof -
  have bound: "require_bound_state_root demo_env ''/s/spool'' demo_installation = Inr ''/s/spool''"
    by (simp add: require_bound_state_root_def demo_env_simps demo_installation_ok)
  have path: "pending_path ''/s/spool'' ''2025-07-11'' ''b1'' = demo_path" by (simp add: demo_path_def demo_day)
  let ?w = "demo_disk empty_tables [(demo_path, demo_node)]"
  let ?s1 = "(demo_recon ?w)\<lparr>rn_scanned := 1\<rparr>"
  let ?s2 = "?s1\<lparr>rn_registrations := [(demo_parsed, ''b1'', ''2025-07-11'')]\<rparr>"
  have start: "fresh_scan (demo_recon ?w) = demo_recon ?w" by (simp add: fresh_scan_def demo_recon_def)
  have allowed: "authorize_local_persistence (hd_privacy (ps_header demo_parsed)) = Inr ()"
    "hd_batch (ps_header demo_parsed) = ''b1''"
    by (simp_all add: authorize_local_persistence_Inr demo_parsed_def demo_header_def)
  have orphan: "reconcile_orphan demo_env ''/s/spool'' demo_installation ''2025-07-11'' ''b1'' ?s1 = (Inr (), ?s2)"
    using demo_trusted allowed
    by (simp add: reconcile_orphan_def trusted_read_def get_state_def demo_recon_def path andthen_def ret_def modify_def)
  have classified: "classify_all demo_env ''/s/spool'' demo_installation
      \<lparr>lv_records = [], lv_malformed = [], lv_retirements = []\<rparr> [(''2025-07-11'', ''b1'')] ?s1 = (Inr (), ?s2)"
    using orphan
    by (simp add: classify_all_def when_complete_def get_state_def andthen_def classify_candidate_def record_for_def ret_def)
      (simp add: demo_recon_def)
  have recovered: "\<exists>s'. recover demo_env ''/s/spool'' ?s2 = (Inr (), s') \<and>
      rn_world s' = demo_disk demo_known [(demo_path, demo_node)] \<and>
      report_of s' = \<lparr>rp_registered = [(''b1'', ''2025-07-11'')], rp_quarantined = [], rp_anomalies = [], rp_healthy = 0,
        rp_scanned = 1, rp_complete = True, rp_recovery_safe = True\<rparr>"
    using demo_registered
    by (simp add: recover_def finish_recovery_def when_complete_def get_state_def andthen_def ret_def register_all_def
        register_def on_spool_def normalise_def handle_def modify_def demo_recon_def report_of_def)
  then obtain s' where s': "recover demo_env ''/s/spool'' ?s2 = (Inr (), s')"
    "rn_world s' = demo_disk demo_known [(demo_path, demo_node)]"
    "report_of s' = \<lparr>rp_registered = [(''b1'', ''2025-07-11'')], rp_quarantined = [], rp_anomalies = [], rp_healthy = 0,
        rp_scanned = 1, rp_complete = True, rp_recovery_safe = True\<rparr>" by blast
  have "scan_pass demo_env ''/s/spool'' demo_installation (demo_recon ?w) = (Inr (report_of s'), s')"
    using s'(1) classified
    by (simp add: scan_pass_def andthen_def modify_def start on_spool_def demo_indexes malformed_anomalies_def
        demo_inventory get_state_def ret_def del: One_nat_def)
  moreover have "take_lock (demo_recon ?w) = (Inr (), demo_recon ?w)" by (simp add: take_lock_def Let_def)
  ultimately have "reconcile_under_barrier demo_env ''/s/spool'' demo_installation None demo_orphaned =
      (Inr (report_of s'), s')"
    using bound by (simp add: reconcile_under_barrier_def andthen_def lift_res_def demo_orphaned_def ret_def)
  then show ?thesis using s' by auto
qed


theorem reconcile_adopts_only_trusted_witness:
  "stored_as_committed demo_env ''/s/spool'' [(demo_path, demo_node)] demo_installation demo_adopted"
proof -
  obtain rp s' where run: "reconcile_under_barrier demo_env ''/s/spool'' demo_installation None demo_orphaned = (Inr rp, s')"
    "rn_world s' = demo_disk demo_known [(demo_path, demo_node)]"
    using demo_pass by blast
  from reconcile_adopts_only_trusted [OF run(1)] show ?thesis
    using run(2) by (simp add: demo_orphaned_def demo_known_def demo_env_simps empty_tables_def)
qed


end
