(* ===== verification/Commit.thy ===== *)
theory Commit
  imports Recovery
begin

text \<open>
  \<^verbatim>\<open>src/milhouse/spooling/commit.py\<close>: the durable writer. A commit builds the canonical bytes and the
  ledger record, reconciles the spool under the exclusive barrier, and then, on the shared side,
  publishes the file and records it in one transaction, in this order. A crash or a failure in between
  leaves a published file without a row, which the next reconciliation recovers (theory \<open>Recovery\<close>).

  What the platform answers to a commit is \<open>commit_answers\<close>: whether the pending day directory could be
  secured, and what \<^verbatim>\<open>create_regular_file_no_follow\<close> reports besides an existing name.
\<close>

record commit_answers =
  ca_directory :: bool
  ca_create :: "file_error option"

definition committed_stamp :: "py_datetime \<Rightarrow> string res" where
  "committed_stamp at = (case format_timestamp at of
     Inl e \<Rightarrow> Inl (if time_caught e then Spool_Error ''MH_SPOOL_COMMIT'' else e) | Inr st \<Rightarrow> Inr st)"

text \<open>The published file: exact mode 0600, one link, no access control list.\<close>

definition published :: "string \<Rightarrow> file_node" where
  "published content = \<lparr>fn_content = content, fn_open = None, fn_owner_only = True, fn_changes = False,
     fn_read_fails = False\<rparr>"

text \<open>
  \<^verbatim>\<open>publish_segment_bytes\<close>: a name is never overwritten; a failure to make the new name durable
  (\<^verbatim>\<open>COMMIT_UNCERTAIN\<close>) is reported although the name is there.
\<close>

definition publish_segment_bytes :: "file_error option \<Rightarrow> string \<Rightarrow> string \<Rightarrow> unit spool_prog" where
  "publish_segment_bytes answer path content = (\<lambda>w.
     let new = w\<lparr>files := (path, published content) # files w\<rparr> in
     if map_of (files w) path \<noteq> None then (Inl (Spool_Error ''MH_SPOOL_EXISTS''), w)
     else case answer of
       None \<Rightarrow> (Inr (), new)
     | Some Already_Exists \<Rightarrow> (Inl (Spool_Error ''MH_SPOOL_EXISTS''), w)
     | Some Commit_Uncertain \<Rightarrow> (Inl (Spool_Error ''MH_SPOOL_WRITE''), new)
     | Some _ \<Rightarrow> (Inl (Spool_Error ''MH_SPOOL_WRITE''), w))"

definition write_spool_segment ::
  "spool_env \<Rightarrow> file_error option \<Rightarrow> string \<Rightarrow> segment_header \<Rightarrow> spool_frame list \<Rightarrow> unit spool_prog" where
  "write_spool_segment en answer path h frames =
     andthen (lift_res (build_segment_bytes en h frames)) (publish_segment_bytes answer path)"

definition committed_record ::
  "spool_env \<Rightarrow> segment_header \<Rightarrow> string \<Rightarrow> string \<Rightarrow> segment_record" where
  "committed_record en h stamp content =
     \<lparr>sr_row = \<lparr>sg_batch = hd_batch h, sg_day = take 10 stamp, sg_schema_version = 1, sg_frame_version = 1,
        sg_config_generation = hd_config_generation h, sg_scope = hd_scope h, sg_target = hd_target h,
        sg_privacy = hd_privacy h, sg_retention_days = hd_retention_days h,
        sg_record_count = hd_record_count h, sg_content_sha256 = hd_content_sha256 h,
        sg_byte_size = int (length content), sg_file_sha256 = en_sha_hex en content,
        sg_committed_at = stamp, sg_origin = ''committed''\<rparr>,
      sr_exporters = map pending_delivery (hd_exporters h)\<rparr>"

definition commit_ledger :: "segment_record \<Rightarrow> unit spool_prog" where
  "commit_ledger rec = normalise state_caught (Spool_Error ''MH_SPOOL_COMMIT'') (transaction (insert_segment_row rec))"

definition pending_day_dir :: "commit_answers \<Rightarrow> unit spool_prog" where
  "pending_day_dir an = check (ca_directory an) (Spool_Error ''MH_SPOOL_DIR'')"

definition publish_and_record :: "commit_answers \<Rightarrow> string \<Rightarrow> segment_record \<Rightarrow> string \<Rightarrow> unit recon_prog" where
  "publish_and_record an root rec content = on_spool (
     andthen (pending_day_dir an) (\<lambda>_.
     andthen (publish_segment_bytes (ca_create an)
       (pending_path root (sg_day (sr_row rec)) (sg_batch (sr_row rec))) content) (\<lambda>_.
     commit_ledger rec)))"

definition root_refused :: "segment_anomaly \<Rightarrow> bool" where
  "root_refused a \<longleftrightarrow> an_kind a = ''foreign_name'' \<and> an_detail a \<in> {''spool_root_unsafe'', ''spool_root_changed''}"

text \<open>\<^verbatim>\<open>_reconcile_then_write\<close>: mandatory recovery; a partial view or an unverified cleanup fails closed.\<close>

definition reconcile_then_write :: "spool_env \<Rightarrow> string \<Rightarrow> string \<Rightarrow> unit recon_prog option \<Rightarrow> report recon_prog" where
  "reconcile_then_write en spool_root installation action =
     andthen (reconcile_under_barrier en spool_root installation action) (\<lambda>rp.
     if \<not> rp_complete rp then
       throw (Spool_Error (if list_ex root_refused (rp_anomalies rp) then ''MH_SPOOL_DIR'' else ''MH_SPOOL_INCOMPLETE''))
     else if \<not> rp_recovery_safe rp then throw (Spool_Error ''MH_SPOOL_RECOVERY'')
     else ret rp)"

text \<open>\<^verbatim>\<open>DurableSpool(...)\<close>: the binding of its parts, then a first recovery.\<close>

definition durable_spool :: "spool_env \<Rightarrow> string \<Rightarrow> string \<Rightarrow> report recon_prog" where
  "durable_spool en spool_root installation =
     andthen (lift_res (require_bound_state_root en spool_root installation)) (\<lambda>root.
     reconcile_then_write en root installation None)"

definition commit_segment ::
  "spool_env \<Rightarrow> commit_answers \<Rightarrow> string \<Rightarrow> string \<Rightarrow> segment_header \<Rightarrow> spool_frame list \<Rightarrow> py_datetime
    \<Rightarrow> segment_record recon_prog" where
  "commit_segment en an root installation h frames at =
     andthen (lift_res (authorize_local_persistence (hd_privacy h))) (\<lambda>_.
     andthen (lift_res (committed_stamp at)) (\<lambda>stamp.
     andthen (lift_res (build_segment_bytes en h frames)) (\<lambda>content.
     let rec = committed_record en h stamp content in
     andthen (reconcile_then_write en root installation (Some (publish_and_record an root rec content))) (\<lambda>_.
     ret rec))))"

section \<open>What a commit leaves\<close>

text \<open>The writer's action: what it may change, and what its success means.\<close>

lemma publish_cases:
  assumes "publish_segment_bytes answer path content w = (r, w')"
  shows "db w' = db w \<and>
    (files w' = files w \<and> (\<exists>e. r = Inl e) \<or>
     map_of (files w) path = None \<and> files w' = (path, published content) # files w)"
  using assms by (auto simp: publish_segment_bytes_def Let_def split: option.splits file_error.splits if_splits)

lemma files_commit_ledger: "keeps (\<lambda>w w'. files w' = files w) (commit_ledger rec)"
  unfolding commit_ledger_def
  by (intro keeps_normalise files_transaction files_insert_row files_order)

lemma commit_ledger_cases:
  "commit_ledger rec w = (r, w') \<Longrightarrow>
     (case r of Inl e \<Rightarrow> db w' = db w
      | Inr _ \<Rightarrow> sg_batch (sr_row rec) \<notin> sg_batch ` set (segments (db w)) \<and> db w' = (db w)\<lparr>segments := segments (db w) @ [sr_row rec],
          seg_exporters := seg_exporters (db w) @ map (delivery_row (sg_batch (sr_row rec))) (sr_exporters rec)\<rparr>)"
  by (auto simp: commit_ledger_def normalise_Inr normalise_Inl transaction_Inr dest: transaction_Inl_db
      dest!: insert_segment_row_Inr split: sum.split)

lemma publish_and_record_cases:
  assumes "publish_and_record an root rec content s = (r, s')"
  defines "path \<equiv> pending_path root (sg_day (sr_row rec)) (sg_batch (sr_row rec))"
  shows "(\<forall>p. p \<noteq> path \<longrightarrow> map_of (files (rn_world s')) p = map_of (files (rn_world s)) p) \<and>
    (case r of
       Inl e \<Rightarrow> db (rn_world s') = db (rn_world s) \<and>
         (map_of (files (rn_world s')) path = map_of (files (rn_world s)) path \<or>
          map_of (files (rn_world s)) path = None \<and> map_of (files (rn_world s')) path = Some (published content))
     | Inr _ \<Rightarrow> map_of (files (rn_world s)) path = None \<and>
         sg_batch (sr_row rec) \<notin> sg_batch ` set (segments (db (rn_world s))) \<and>
         map_of (files (rn_world s')) path = Some (published content) \<and>
         segments (db (rn_world s')) = segments (db (rn_world s)) @ [sr_row rec] \<and>
         seg_exporters (db (rn_world s')) = seg_exporters (db (rn_world s)) @
           map (delivery_row (sg_batch (sr_row rec))) (sr_exporters rec))"
proof -
  obtain w' where run: "andthen (pending_day_dir an) (\<lambda>_.
      andthen (publish_segment_bytes (ca_create an) path content) (\<lambda>_. commit_ledger rec)) (rn_world s) = (r, w')"
    "s' = s\<lparr>rn_world := w'\<rparr>"
    using assms(1) by (auto simp: publish_and_record_def on_spool_def path_def split: prod.splits)
  obtain q w1 where q: "publish_segment_bytes (ca_create an) path content (rn_world s) = (q, w1)"
    by (cases "publish_segment_bytes (ca_create an) path content (rn_world s)")
  obtain q2 w2 where q2: "commit_ledger rec w1 = (q2, w2)" by (cases "commit_ledger rec w1")
  note published = publish_cases [OF q]
  have files2: "files w2 = files w1" using keepsD [OF files_commit_ledger q2] .
  consider (refused) e where "r = Inl e" "w' = rn_world s" | (unpublished) e where "q = Inl e" "r = Inl e" "w' = w1"
    | (recorded) u where "q = Inr u" "r = q2" "w' = w2"
    using run(1) q q2 by (cases q) (auto simp: andthen_def pending_day_dir_def check_def split: if_splits)
  then show ?thesis
  proof cases
    case refused
    then show ?thesis by (simp add: run(2))
  next
    case unpublished
    then show ?thesis using published by (auto simp: run(2))
  next
    case recorded
    then show ?thesis
      using published commit_ledger_cases [OF q2] files2 by (auto simp: run(2) split: sum.splits)
  qed
qed

section \<open>Correctness of a commit\<close>

text \<open>A commit fails before its action, or recovers and then at most publishes and records.\<close>

lemma commit_cases:
  assumes "commit_segment en an root installation h frames at s = (out, s')"
  obtains (refused) e where "out = Inl e" "s' = s"
    | (recovered) e resolved s1 where "en_absolute en root = Some resolved" "out = Inl e" "s' = s1"
        "recovering en resolved installation (files (rn_world s)) (recorded_tombs (db (rn_world s))) s s1"
    | (acted) resolved s1 stamp content r where "en_absolute en root = Some resolved"
        "recovering en resolved installation (files (rn_world s)) (recorded_tombs (db (rn_world s))) s s1"
        "committed_stamp at = Inr stamp" "build_segment_bytes en h frames = Inr content"
        "publish_and_record an root (committed_record en h stamp content) content s1 = (r, s')"
        "out = (case r of Inl e \<Rightarrow> Inl e | Inr _ \<Rightarrow> Inr (committed_record en h stamp content))"
proof -
  consider (early) e where "out = Inl e" "s' = s"
    | (built) stamp content where "committed_stamp at = Inr stamp" "build_segment_bytes en h frames = Inr content"
        "andthen (reconcile_then_write en root installation
           (Some (publish_and_record an root (committed_record en h stamp content) content)))
           (\<lambda>_. ret (committed_record en h stamp content)) s = (out, s')"
    using assms by (auto simp: commit_segment_def andthen_def lift_res_def Let_def split: sum.splits)
  then show ?thesis
  proof cases
    case early
    then show ?thesis by (rule refused)
  next
    case (built stamp content)
    let ?rec = "committed_record en h stamp content"
    let ?act = "publish_and_record an root ?rec content"
    obtain q t where q: "reconcile_under_barrier en root installation (Some ?act) s = (q, t)"
      by (cases "reconcile_under_barrier en root installation (Some ?act) s")
    have after: "s' = t" "\<And>e. q = Inl e \<Longrightarrow> out = Inl e"
      "\<And>rp. q = Inr rp \<Longrightarrow> rp_complete rp \<Longrightarrow> rp_recovery_safe rp \<Longrightarrow> out = Inr ?rec"
      "\<And>x. out = Inr x \<Longrightarrow> \<exists>rp. q = Inr rp \<and> rp_complete rp \<and> rp_recovery_safe rp"
      using built(3) q
      by (auto simp: reconcile_then_write_def andthen_def throw_def ret_def split: sum.splits if_splits)
    from q show ?thesis
    proof (cases rule: reconcile_cases)
      case (refused e)
      then show ?thesis using that(1) after by simp
    next
      case (recovered resolved s1)
      have "(s' = s1 \<and> (\<exists>e. out = Inl e)) \<or>
          (\<exists>r. ?act s1 = (r, s') \<and> out = (case r of Inl e \<Rightarrow> Inl e | Inr _ \<Rightarrow> Inr ?rec))"
        using recovered(3)
      proof
        assume t: "t = s1"
        show ?thesis
        proof (cases "\<exists>rp. q = Inr rp \<and> rp_complete rp \<and> rp_recovery_safe rp")
          case True
          then obtain u where "?act s1 = (Inr u, t)" using recovered(5) [OF t] by auto
          then show ?thesis using True after(1,3) by auto
        next
          case False
          then obtain e where "out = Inl e" using after(4) by (cases out) blast+
          then show ?thesis using after(1) t by blast
        qed
      next
        assume "\<exists>act rp r. Some ?act = Some act \<and> act s1 = (r, t) \<and> rp_complete rp \<and> rp_recovery_safe rp \<and>
            q = (case r of Inl e \<Rightarrow> Inl e | Inr _ \<Rightarrow> Inr rp)"
        then obtain rp r where r: "?act s1 = (r, t)" "rp_complete rp" "rp_recovery_safe rp"
          "q = (case r of Inl e \<Rightarrow> Inl e | Inr _ \<Rightarrow> Inr rp)" by auto
        have "out = (case r of Inl e \<Rightarrow> Inl e | Inr _ \<Rightarrow> Inr ?rec)"
          using r after(2,3) by (cases r) simp_all
        then show ?thesis using r(1) after(1) by blast
      qed
      then consider (stopped) e where "s' = s1" "out = Inl e"
        | (ran) r where "?act s1 = (r, s')" "out = (case r of Inl e \<Rightarrow> Inl e | Inr _ \<Rightarrow> Inr ?rec)"
        by blast
      then show ?thesis
      proof cases
        case stopped
        then show ?thesis using that(2) recovered(1,2) by simp
      next
        case ran
        then show ?thesis using that(3) [OF recovered(1,2) built(1,2)] by blast
      qed
    qed
  qed
qed

text \<open>
  What was there is still accounted for after a commit: the writer adds at most the one name it
  publishes, never replaces one, and the recovery before it loses no file.
\<close>

lemma publish_accounted:
  assumes "publish_and_record an root rec content s = (r, s')" "accounted_for en resolved tombs view s p node"
  shows "accounted_for en resolved tombs view s' p node"
proof -
  have "map_of (files (rn_world s)) q = Some x \<Longrightarrow> map_of (files (rn_world s')) q = Some x" for q x
    using publish_and_record_cases [OF assms(1)]
    by (cases "q = pending_path root (sg_day (sr_row rec)) (sg_batch (sr_row rec))") (auto split: sum.splits)
  moreover have "rn_quarantine s' = rn_quarantine s"
    using assms(1) by (auto simp: publish_and_record_def on_spool_def split: prod.splits)
  ultimately show ?thesis using assms(2) by (auto simp: accounted_for_def)
qed



section \<open>A first commit, and one whose directory could not be made durable\<close>

definition demo_fresh :: recon where
  "demo_fresh = (demo_recon (demo_disk empty_tables []))\<lparr>rn_view := demo_view\<lparr>vw_pending := Pending_Absent\<rparr>\<rparr>"

lemma demo_fresh_world: "rn_world demo_fresh = demo_disk empty_tables []"
  by (simp add: demo_fresh_def demo_recon_def)

definition demo_clean :: report where
  "demo_clean = \<lparr>rp_registered = [], rp_quarantined = [], rp_anomalies = [], rp_healthy = 0, rp_scanned = 0,
     rp_complete = True, rp_recovery_safe = True\<rparr>"

lemma demo_scan: "scan_pass demo_env ''/s/spool'' demo_installation demo_fresh = (Inr demo_clean, demo_fresh)"
  by (simp add: scan_pass_def andthen_def modify_def fresh_scan_def demo_fresh_def demo_recon_def on_spool_def
      demo_indexes malformed_anomalies_def inventory_def get_state_def ret_def classify_all_def when_complete_def
      recover_def finish_recovery_def register_all_def report_of_def demo_clean_def)

lemma demo_write:
  "reconcile_then_write demo_env ''/s/spool'' demo_installation (Some act) demo_fresh =
     (case act demo_fresh of (Inl e, s) \<Rightarrow> (Inl e, s) | (Inr _, s) \<Rightarrow> (Inr demo_clean, s))"
proof -
  have bound: "require_bound_state_root demo_env ''/s/spool'' demo_installation = Inr ''/s/spool''"
    by (simp add: require_bound_state_root_def demo_env_simps demo_installation_ok)
  have "take_lock demo_fresh = (Inr (), demo_fresh)"
    by (simp add: take_lock_def Let_def demo_fresh_def demo_recon_def)
  then show ?thesis
    using demo_scan bound
    by (simp add: reconcile_then_write_def reconcile_under_barrier_def andthen_def lift_res_def ret_def demo_clean_def
        split: prod.split sum.split)
qed

lemma demo_stamped: "committed_stamp (utc 63887788800000000) = Inr ''2025-07-11T00:00:00.000Z''"
  by (simp add: committed_stamp_def format_timestamp_utc valid_instant_def datetime_limit_def us_per_day_def stamp_eval)

lemma demo_committed:
  "committed_record demo_env demo_header ''2025-07-11T00:00:00.000Z'' demo_content = demo_record"
  by (simp add: committed_record_def demo_header_def demo_record_def demo_segment_def demo_env_simps demo_lines
      demo_content_def pending_delivery_def)

lemma demo_commits:
  "commit_segment demo_env an ''/s/spool'' demo_installation demo_header [demo_frame] (utc 63887788800000000) demo_fresh =
     (case publish_and_record an ''/s/spool'' demo_record demo_content demo_fresh of
        (Inl e, s) \<Rightarrow> (Inl e, s) | (Inr _, s) \<Rightarrow> (Inr demo_record, s))"
proof -
  have "authorize_local_persistence (hd_privacy demo_header) = Inr ()"
    by (simp add: authorize_local_persistence_Inr demo_header_def)
  then show ?thesis
    by (simp add: commit_segment_def andthen_def lift_res_def demo_stamped demo_build demo_committed demo_write ret_def
        Let_def split: prod.split sum.split)
qed

lemma demo_publishes:
  "publish_segment_bytes answer demo_path demo_content (demo_disk empty_tables []) =
     (case answer of
        None \<Rightarrow> (Inr (), demo_disk empty_tables [(demo_path, demo_node)])
      | Some Already_Exists \<Rightarrow> (Inl (Spool_Error ''MH_SPOOL_EXISTS''), demo_disk empty_tables [])
      | Some Commit_Uncertain \<Rightarrow> (Inl (Spool_Error ''MH_SPOOL_WRITE''), demo_disk empty_tables [(demo_path, demo_node)])
      | Some _ \<Rightarrow> (Inl (Spool_Error ''MH_SPOOL_WRITE''), demo_disk empty_tables []))"
  by (simp add: publish_segment_bytes_def published_def demo_node_def split: option.split file_error.split)

lemma demo_recorded:
  "commit_ledger demo_record (demo_disk empty_tables fs) = (Inr (), demo_disk demo_ledger fs)"
proof -
  have "list_all in_int64 [sg_schema_version demo_segment, sg_frame_version demo_segment,
      sg_retention_days demo_segment, sg_record_count demo_segment, sg_byte_size demo_segment]"
    by code_simp
  then show ?thesis
    using demo_checks(2,3)
    by (simp add: commit_ledger_def normalise_def handle_def transaction_quiet insert_segment_row_def andthen_def
        insert_segment_def sql_cases demo_disk_def quiet_def insert_exporter_def exporter_check_def ret_def demo_rows
        demo_ledger_def delivery_row_def empty_tables_def Let_def)
qed

lemma demo_where: "pending_path ''/s/spool'' (sg_day (sr_row demo_record)) (sg_batch (sr_row demo_record)) = demo_path"
  by (simp add: demo_rows demo_path_def)



end
