(* ===== verification/Runtime.thy ===== *)
theory Runtime
  imports Cursors Outbox Ledger
begin

text \<open>
  What the runtime hands around: the stable code of an error (\<^verbatim>\<open>core/errors.py\<close>), a collector's
  context and result (\<^verbatim>\<open>runtime/context.py\<close>, \<^verbatim>\<open>runtime/result.py\<close>), the post-commit cursor advance
  (\<^verbatim>\<open>outbox/advance.py\<close>), and the registry that resolves a configuration to a collector
  (\<^verbatim>\<open>runtime/registry.py\<close>).
\<close>

section \<open>Stable error codes\<close>

fun split_at_char :: "char \<Rightarrow> string \<Rightarrow> string list" where
  "split_at_char d [] = [[]]"
| "split_at_char d (c # cs) =
     (if c = d then [] # split_at_char d cs
      else (case split_at_char d cs of [] \<Rightarrow> [[c]] | p # ps \<Rightarrow> (c # p) # ps))"

definition upper_part :: "string \<Rightarrow> bool" where
  "upper_part p \<longleftrightarrow> p \<noteq> [] \<and> list_all (\<lambda>c. is_upper c \<or> is_digit c) p"

definition dotted_part :: "string \<Rightarrow> bool" where
  "dotted_part p \<longleftrightarrow> p \<noteq> [] \<and> is_lower (hd p) \<and> list_all (\<lambda>c. is_lower c \<or> is_digit c \<or> c = CHR ''_'') p"

definition error_code_match :: "string \<Rightarrow> bool" where
  "error_code_match s \<longleftrightarrow>
     (case split_at_char (CHR ''_'') s of
        m # p # ps \<Rightarrow> m = ''MH'' \<and> upper_part p \<and> is_upper (hd p) \<and> list_all upper_part ps
      | _ \<Rightarrow> False)
     \<or> (case split_at_char (CHR ''.'') s of p # q # ps \<Rightarrow> list_all dotted_part (p # q # ps) | _ \<Rightarrow> False)"

definition validate_error_code :: "string \<Rightarrow> string res" where
  "validate_error_code s = (if s \<noteq> [] \<and> length s \<le> 128 \<and> error_code_match s then Inr s else Inl Value_Error)"

text \<open>The code of a \<^verbatim>\<open>MilhouseError\<close>; every other exception has none.\<close>

fun error_code :: "py_exc \<Rightarrow> string option" where
  "error_code (Time_Error c) = Some c"
| "error_code (State_Error c) = Some c"
| "error_code (Spool_Error c) = Some c"
| "error_code (Outbox_Error c) = Some c"
| "error_code (Pipeline_Error c) = Some c"
| "error_code (Registry_Error c) = Some c"
| "error_code (Privacy_Error c) = Some c"
| "error_code (Storage_Error c) = Some c"
| "error_code (Record_Error c) = Some c"
| "error_code (Canonical_Error c) = Some c"
| "error_code (Collector_Error c) = Some c"
| "error_code (Config_Error c) = Some c"
| "error_code (Logging_Error c) = Some c"
| "error_code _ = None"

definition unexpected_code :: string where "unexpected_code = ''MH_INTERNAL_UNEXPECTED''"

definition normalize_error :: "py_exc \<Rightarrow> string" where
  "normalize_error e = (case error_code e of
     None \<Rightarrow> unexpected_code
   | Some c \<Rightarrow> (case validate_error_code c of Inl _ \<Rightarrow> unexpected_code | Inr c \<Rightarrow> c))"

section \<open>Context, result and cursor advance\<close>

record collector_descriptor =
  ds_id :: string
  ds_type :: string
  ds_version :: string

record target_descriptor =
  td_id :: string
  td_name :: string
  td_kind :: string
  td_environment :: string

record collector_context =
  cx_now :: py_datetime
  cx_installation :: string
  cx_collector :: collector_descriptor
  cx_target :: "target_descriptor option"
  cx_timeout :: int
  cx_cursor :: "source_cursor option"

definition context_init :: "collector_context \<Rightarrow> collector_context res" where
  "context_init c =
     bind_res (case truncate_to_milliseconds (cx_now c) of
         Inl _ \<Rightarrow> Inl (Pipeline_Error ''MH_RUNTIME_CONTEXT_NOW'') | Inr u \<Rightarrow> Inr (utc u)) (\<lambda>now.
     bind_res (check_res (installation_id_match (cx_installation c))
       (Pipeline_Error ''MH_RUNTIME_CONTEXT_INSTALLATION'')) (\<lambda>_.
     bind_res (check_res (1 \<le> cx_timeout c \<and> cx_timeout c \<le> 300)
       (Pipeline_Error ''MH_RUNTIME_CONTEXT_TIMEOUT'')) (\<lambda>_.
     Inr (c\<lparr>cx_now := now\<rparr>))))"

record outbox_ack =
  ak_producer :: string
  ak_device :: int
  ak_inode :: int
  ak_offset :: int
  ak_content_sha256 :: string
  ak_line_sha256 :: "string option"
  ak_sequence :: "int option"
  ak_at :: py_datetime

record cursor_advance =
  av_position :: "string option"
  av_directory :: "string option"
  av_filename :: "string option"
  av_ack :: "outbox_ack option"
  av_observed :: "int option"
  av_loss :: "loss_signal option"

definition advance_init :: "cursor_advance \<Rightarrow> cursor_advance res" where
  "advance_init a =
     (let nonempty = (\<lambda>t. t \<noteq> None \<and> t \<noteq> Some []) in
      if (case av_observed a of None \<Rightarrow> False | Some n \<Rightarrow> n < 0) then Inl (Outbox_Error ''MH_OUTBOX_ADVANCE'')
      else if av_loss a \<noteq> None then
        if av_position a \<noteq> None \<or> av_ack a \<noteq> None \<or> av_directory a \<noteq> None \<or> av_filename a \<noteq> None
        then Inl (Outbox_Error ''MH_OUTBOX_ADVANCE'') else Inr a
      else if nonempty (av_position a) \<and> nonempty (av_directory a) \<and> nonempty (av_filename a) \<and> av_ack a \<noteq> None
        then Inr a else Inl (Outbox_Error ''MH_OUTBOX_ADVANCE''))"

text \<open>
  A draft is a record before its identity: its type, the strings at the top level of its payload by
  field name, the redaction policy that processed it, and the rest, which is opaque to the runtime.
  Results are generic in that rest.
\<close>

record 'b draft =
  dr_type :: string
  dr_texts :: "(string \<times> string) list"
  dr_redaction_version :: string
  dr_body :: 'b

record 'b collector_result =
  rs_status :: string
  rs_drafts :: "'b draft list"
  rs_diagnostics :: "(string \<times> int) list"
  rs_advance :: "cursor_advance option"

definition max_result_drafts :: nat where "max_result_drafts = 100000"
definition max_diagnostic_fields :: nat where "max_diagnostic_fields = 64"

definition diagnostic_key_match :: "string \<Rightarrow> bool" where
  "diagnostic_key_match k \<longleftrightarrow> k \<noteq> [] \<and> is_lower (hd k) \<and> length k \<le> 64 \<and>
     list_all (\<lambda>c. is_lower c \<or> is_digit c \<or> c = CHR ''_'') (tl k)"

definition result_init :: "'b collector_result \<Rightarrow> 'b collector_result res" where
  "result_init r =
     bind_res (check_res (rs_status r \<in> {''ok'', ''failed''}) (Pipeline_Error ''MH_RUNTIME_RESULT_STATUS'')) (\<lambda>_.
     bind_res (check_res (length (rs_drafts r) \<le> max_result_drafts)
       (Pipeline_Error ''MH_RUNTIME_RESULT_DRAFTS'')) (\<lambda>_.
     bind_res (check_res (length (rs_diagnostics r) \<le> max_diagnostic_fields)
       (Pipeline_Error ''MH_RUNTIME_RESULT_DIAGNOSTICS'')) (\<lambda>_.
     bind_res (check_res (list_all (\<lambda>(k, v). diagnostic_key_match k \<and> 0 \<le> v \<and> v \<le> max_int64) (rs_diagnostics r))
       (Pipeline_Error ''MH_RUNTIME_RESULT_DIAGNOSTICS'')) (\<lambda>_.
     Inr r))))"

section \<open>Collectors and their registry\<close>

text \<open>
  What a \<^verbatim>\<open>collect\<close> call returns: it raises, answers something that is not a \<^verbatim>\<open>CollectorResult\<close>, or
  answers the fields of one, which the constructors above then accept or refuse.
\<close>

datatype 'b collect_answer = Foreign_Answer | Answer "'b collector_result"

record 'b collector_obj =
  co_descriptor :: collector_descriptor
  co_collect :: "collector_context \<Rightarrow> 'b collect_answer res"

text \<open>
  A Python object as the registry tells objects apart: a class, by the collector protocol its own body
  may offer and by what constructing it gives; an object with the protocol; a callable by what calling
  it gives; anything else.
\<close>

datatype 'b py_object =
    Class_Object "'b collector_obj option" "py_exc + 'b py_object"
  | Collector_Object "'b collector_obj"
  | Callable_Object "py_exc + 'b py_object"
  | Plain_Object

record collector_config =
  cc_id :: string
  cc_type :: string
  cc_target :: "string option"
  cc_timeout :: int

type_synonym 'b registry = "(string \<times> (collector_config \<Rightarrow> 'b py_object res)) list"

definition validate_type_name :: "string \<Rightarrow> string res" where
  "validate_type_name v = (if v = [] \<or> 64 < py_len v then Inl (Registry_Error ''MH_RUNTIME_REGISTRY_TYPE'') else Inr v)"

definition require_collector :: "'b py_object \<Rightarrow> string \<Rightarrow> 'b collector_obj res" where
  "require_collector ob code = (case ob of Collector_Object c \<Rightarrow> Inr c | Class_Object (Some c) _ \<Rightarrow> Inr c
     | _ \<Rightarrow> Inl (Registry_Error code))"

definition register_factory ::
  "string \<Rightarrow> (collector_config \<Rightarrow> 'b py_object res) \<Rightarrow> 'b registry \<Rightarrow> 'b registry res" where
  "register_factory type_name factory reg =
     bind_res (validate_type_name type_name) (\<lambda>nm.
     if map_of reg nm \<noteq> None then Inl (Registry_Error ''MH_RUNTIME_REGISTRY_DUPLICATE'')
     else Inr (reg @ [(nm, factory)]))"

definition resolve :: "'b registry \<Rightarrow> collector_config \<Rightarrow> 'b collector_obj res" where
  "resolve reg config =
     bind_res (validate_type_name (cc_type config)) (\<lambda>nm.
     case map_of reg nm of
       None \<Rightarrow> Inl (Registry_Error ''MH_RUNTIME_COLLECTOR_UNREGISTERED'')
     | Some factory \<Rightarrow> bind_res (factory config) (\<lambda>ob. require_collector ob ''MH_RUNTIME_COLLECTOR_INVALID''))"

section \<open>Binding a third-party plugin\<close>

record plugin_entry =
  pg_distribution :: string
  pg_version :: string
  pg_group :: string
  pg_entry_point :: string

record plugins_config =
  pc_allow_third_party :: bool
  pc_allowed :: "plugin_entry list"

record 'b entry_point =
  ep_group :: string
  ep_value :: string
  ep_load :: "'b py_object res"

text \<open>An installed distribution; \<open>None\<close> for what could not be read.\<close>

record 'b distribution =
  di_version :: "string option"
  di_entry_points :: "'b entry_point list option"

definition rejected :: py_exc where "rejected = Registry_Error ''MH_RUNTIME_PLUGIN_REJECTED''"

definition load_plugin_object ::
  "(string \<Rightarrow> 'b distribution list option) \<Rightarrow> plugin_entry \<Rightarrow> 'b py_object res" where
  "load_plugin_object installed entry =
     (case installed (pg_distribution entry) of
        Some [d] \<Rightarrow>
          if di_version d \<noteq> Some (pg_version entry) then Inl rejected
          else (case di_entry_points d of
             None \<Rightarrow> Inl rejected
           | Some eps \<Rightarrow>
               (case filter (\<lambda>p. ep_group p = pg_group entry \<and> ep_value p = pg_entry_point entry) eps of
                  [p] \<Rightarrow> (case ep_load p of
                     Inl _ \<Rightarrow> Inl (Registry_Error ''MH_RUNTIME_PLUGIN_LOAD'') | Inr ob \<Rightarrow> Inr ob)
                | _ \<Rightarrow> Inl rejected))
      | _ \<Rightarrow> Inl rejected)"

definition construct_plugin_collector :: "'b py_object res \<Rightarrow> 'b collector_obj res" where
  "construct_plugin_collector constructed = (case constructed of
     Inl _ \<Rightarrow> Inl (Registry_Error ''MH_RUNTIME_PLUGIN_LOAD'')
   | Inr ob \<Rightarrow> require_collector ob ''MH_RUNTIME_PLUGIN_INVALID'')"

definition bind_loaded :: "'b py_object \<Rightarrow> 'b collector_obj res" where
  "bind_loaded loaded = (case loaded of
     Class_Object _ made \<Rightarrow> construct_plugin_collector made
   | Collector_Object c \<Rightarrow> Inr c
   | Callable_Object made \<Rightarrow> construct_plugin_collector made
   | Plain_Object \<Rightarrow> Inl (Registry_Error ''MH_RUNTIME_PLUGIN_INVALID''))"

text \<open>\<open>validated\<close> is the outcome of \<^verbatim>\<open>validate_configured_plugins\<close>, which reads installed metadata.\<close>

definition bind_plugin_collector ::
  "(string \<Rightarrow> 'b distribution list option) \<Rightarrow> unit res \<Rightarrow> plugin_entry \<Rightarrow> plugins_config \<Rightarrow> 'b collector_obj res" where
  "bind_plugin_collector installed validated entry plugins =
     bind_res (check_res (pc_allow_third_party plugins) (Registry_Error ''MH_RUNTIME_PLUGIN_DISABLED'')) (\<lambda>_.
     bind_res (check_res (entry \<in> set (pc_allowed plugins)) (Registry_Error ''MH_RUNTIME_PLUGIN_NOT_ALLOWLISTED'')) (\<lambda>_.
     bind_res (check_res (pg_group entry = ''milhouse.collectors'') (Registry_Error ''MH_RUNTIME_PLUGIN_GROUP'')) (\<lambda>_.
     bind_res (case validated of Inl (Config_Error _) \<Rightarrow> Inl rejected | v \<Rightarrow> v) (\<lambda>_.
     bind_res (load_plugin_object installed entry) bind_loaded))))"

section \<open>A plugin binds exactly what was allowed\<close>

lemma stable_unexpected: "validate_error_code unexpected_code = Inr unexpected_code"
  by code_simp

lemma normalize_error_stable: "validate_error_code (normalize_error e) = Inr (normalize_error e)"
proof -
  have "validate_error_code c = Inr d \<Longrightarrow> d = c" for c d by (simp add: validate_error_code_def split: if_splits)
  then show ?thesis
    by (auto simp: normalize_error_def stable_unexpected split: option.split sum.split)
qed

lemma load_plugin_Inr:
  assumes "load_plugin_object installed entry = Inr ob"
  shows "\<exists>d eps p. installed (pg_distribution entry) = Some [d] \<and> di_version d = Some (pg_version entry) \<and>
    di_entry_points d = Some eps \<and> ep_load p = Inr ob \<and>
    filter (\<lambda>p. ep_group p = pg_group entry \<and> ep_value p = pg_entry_point entry) eps = [p]"
  using assms by (auto simp: load_plugin_object_def split: option.splits list.splits if_splits sum.splits)

lemma bind_plugin_Inr:
  assumes "bind_plugin_collector installed validated entry plugins = Inr c"
  shows "pc_allow_third_party plugins \<and> entry \<in> set (pc_allowed plugins) \<and> validated = Inr () \<and>
    pg_group entry = ''milhouse.collectors'' \<and>
    (\<exists>ob. load_plugin_object installed entry = Inr ob \<and> bind_loaded ob = Inr c)"
  using assms by (auto simp: bind_plugin_collector_def bind_res_eq_Inr split: sum.splits py_exc.splits)

text \<open>
  A third-party collector is bound only from the exact object the allowlist names: third-party plugins are
  enabled, the entry is allowlisted, in the collector group and validated again, exactly one installed
  distribution has its name and carries its version, exactly one of that distribution's entry points
  has its group and object reference, and the collector is what loading that entry point gave, or
  what constructing it gave.\<close>

theorem plugin_binding_exact:
  assumes "bind_plugin_collector installed validated entry plugins = Inr c"
  shows "pc_allow_third_party plugins \<and> entry \<in> set (pc_allowed plugins) \<and> validated = Inr () \<and>
    (\<exists>d eps p. installed (pg_distribution entry) = Some [d] \<and> di_version d = Some (pg_version entry) \<and>
      di_entry_points d = Some eps \<and>
      {q \<in> set eps. ep_group q = ''milhouse.collectors'' \<and> ep_value q = pg_entry_point entry} = {p} \<and>
      (ep_load p = Inr (Collector_Object c) \<or>
       (\<exists>made. (ep_load p = Inr (Callable_Object made) \<or> (\<exists>k. ep_load p = Inr (Class_Object k made))) \<and>
          (made = Inr (Collector_Object c) \<or> (\<exists>m. made = Inr (Class_Object (Some c) m))))))"
proof -
  note bound = bind_plugin_Inr [OF assms]
  then obtain ob where ob: "load_plugin_object installed entry = Inr ob" "bind_loaded ob = Inr c" by blast
  obtain d eps p where found: "installed (pg_distribution entry) = Some [d]" "di_version d = Some (pg_version entry)"
    "di_entry_points d = Some eps" "ep_load p = Inr ob"
    "filter (\<lambda>p. ep_group p = pg_group entry \<and> ep_value p = pg_entry_point entry) eps = [p]"
    using load_plugin_Inr [OF ob(1)] by blast
  have "{q \<in> set eps. ep_group q = ''milhouse.collectors'' \<and> ep_value q = pg_entry_point entry} = {p}"
    using arg_cong [OF found(5), of set] bound by simp
  moreover have "ob = Collector_Object c \<or>
      (\<exists>made. (ob = Callable_Object made \<or> (\<exists>k. ob = Class_Object k made)) \<and>
        (made = Inr (Collector_Object c) \<or> (\<exists>m. made = Inr (Class_Object (Some c) m))))"
    using ob(2)
    by (auto simp: bind_loaded_def construct_plugin_collector_def require_collector_def
        split: py_object.splits sum.splits option.splits)
  ultimately show ?thesis using bound found(1-4) by blast
qed

text \<open>
  Binding a plugin fails closed: whatever the installed metadata, the entry point's loading or the
  plugin's constructor raise, the caller sees one of the registry's fixed codes, provided the
  metadata validation raises nothing but its own error.\<close>

theorem plugin_binding_fails_closed:
  assumes "bind_plugin_collector installed validated entry plugins = Inl e"
    and "\<And>x. validated = Inl x \<Longrightarrow> \<exists>c. x = Config_Error c"
  shows "e \<in> Registry_Error ` {''MH_RUNTIME_PLUGIN_DISABLED'', ''MH_RUNTIME_PLUGIN_NOT_ALLOWLISTED'',
    ''MH_RUNTIME_PLUGIN_GROUP'', ''MH_RUNTIME_PLUGIN_REJECTED'', ''MH_RUNTIME_PLUGIN_LOAD'', ''MH_RUNTIME_PLUGIN_INVALID''}"
proof -
  have required: "r = Registry_Error k" if "require_collector x k = Inl r" for x :: "'a py_object" and k r
    using that by (auto simp: require_collector_def split: py_object.splits option.splits)
  have loading: "r \<in> {rejected, Registry_Error ''MH_RUNTIME_PLUGIN_LOAD''}"
    if "load_plugin_object installed entry = Inl r" for r
    using that by (auto simp: load_plugin_object_def split: option.splits list.splits if_splits sum.splits)
  have binding: "r \<in> Registry_Error ` {''MH_RUNTIME_PLUGIN_LOAD'', ''MH_RUNTIME_PLUGIN_INVALID''}"
    if "bind_loaded ob = Inl r" for ob :: "'a py_object" and r
    using that
    by (auto simp: bind_loaded_def construct_plugin_collector_def dest!: required split: py_object.splits sum.splits)
  consider "\<exists>c. e = Registry_Error c \<and> c \<in> {''MH_RUNTIME_PLUGIN_DISABLED'', ''MH_RUNTIME_PLUGIN_NOT_ALLOWLISTED'',
      ''MH_RUNTIME_PLUGIN_GROUP''}" | "e = rejected" | "load_plugin_object installed entry = Inl e"
    | "\<exists>ob :: 'a py_object. bind_loaded ob = Inl e"
    using assms
    by (auto simp: bind_plugin_collector_def check_res_def bind_res_def split: if_splits sum.splits py_exc.splits)
  then show ?thesis
    by cases (auto simp: rejected_def dest: loading binding)
qed

definition demo_plugin :: plugin_entry where
  "demo_plugin = \<lparr>pg_distribution = ''acme'', pg_version = ''1.0'', pg_group = ''milhouse.collectors'',
     pg_entry_point = ''acme:Probe''\<rparr>"

definition demo_collector :: "unit collector_obj" where
  "demo_collector = \<lparr>co_descriptor = \<lparr>ds_id = ''acme'', ds_type = ''acme'', ds_version = ''1''\<rparr>,
     co_collect = (\<lambda>_. Inr Foreign_Answer)\<rparr>"

definition demo_installed :: "string \<Rightarrow> string \<Rightarrow> unit distribution list option" where
  "demo_installed version nm = Some [\<lparr>di_version = Some version, di_entry_points = Some
     [\<lparr>ep_group = ''milhouse.collectors'', ep_value = ''acme:Probe'',
       ep_load = Inr (Class_Object None (Inr (Collector_Object demo_collector)))\<rparr>]\<rparr>]"

definition demo_plugins :: plugins_config where
  "demo_plugins = \<lparr>pc_allow_third_party = True, pc_allowed = [demo_plugin]\<rparr>"

theorem plugin_binding_exact_witness:
  "bind_plugin_collector (demo_installed ''1.0'') (Inr ()) demo_plugin demo_plugins = Inr demo_collector \<and>
   pc_allow_third_party demo_plugins"
proof -
  have "bind_plugin_collector (demo_installed ''1.0'') (Inr ()) demo_plugin demo_plugins = Inr demo_collector"
    by (simp add: bind_plugin_collector_def demo_plugins_def demo_plugin_def demo_installed_def load_plugin_object_def
        bind_loaded_def construct_plugin_collector_def require_collector_def check_res_def)
  with plugin_binding_exact [OF this] show ?thesis by simp
qed

theorem plugin_binding_fails_closed_witness:
  "\<exists>c. bind_plugin_collector (demo_installed ''2.0'') (Inr ()) demo_plugin demo_plugins = Inl (Registry_Error c)"
proof -
  have "bind_plugin_collector (demo_installed ''2.0'') (Inr ()) demo_plugin demo_plugins = Inl rejected"
    by (simp add: bind_plugin_collector_def demo_plugins_def demo_plugin_def demo_installed_def load_plugin_object_def
        check_res_def)
  with plugin_binding_fails_closed [OF this] show ?thesis by (auto simp: rejected_def)
qed

end
