(* ===== verification/Ack.thy ===== *)
theory Ack
  imports Runtime Reader
begin

text \<open>
  \<^verbatim>\<open>src/milhouse/outbox/ack.py\<close>: the acknowledgement file Milhouse owns beside an outbox. A write stages
  the canonical bytes under a private name, replaces the final name in one step and makes the directory
  durable; a read refuses everything but the canonical bytes of an owner-only file.

  The files of the directory are a map from paths to \<open>file_node\<close>; \<open>ack_answers\<close> is what the platform
  answers to one write: the secure creation of the staged name, the replacement, the unlink that
  cleans up after a failed one, and the directory sync.
\<close>

definition max_ack_bytes :: int where "max_ack_bytes = 4096"

definition ack_keys :: "string list" where
  "ack_keys = [''acknowledged_at'', ''committed_offset'', ''content_sha256'', ''file_device'', ''file_inode'',
     ''last_line_sha256'', ''last_sequence'', ''producer_id'', ''schema_version'']"

definition ack_dump :: "outbox_ack \<Rightarrow> py_value" where
  "ack_dump a = P_Dict ([(''schema_version'', P_Str ''1.0''), (''producer_id'', P_Str (ak_producer a)),
     (''file_device'', P_Int (ak_device a)), (''file_inode'', P_Int (ak_inode a)),
     (''committed_offset'', P_Int (ak_offset a)), (''content_sha256'', P_Str (ak_content_sha256 a))]
     @ (case ak_line_sha256 a of None \<Rightarrow> [] | Some h \<Rightarrow> [(''last_line_sha256'', P_Str h)])
     @ (case ak_sequence a of None \<Rightarrow> [] | Some n \<Rightarrow> [(''last_sequence'', P_Int n)])
     @ [(''acknowledged_at'', P_Datetime (ak_at a))])"

definition outbox_ack_bytes :: "(string \<Rightarrow> string) \<Rightarrow> outbox_ack \<Rightarrow> string res" where
  "outbox_ack_bytes nfc a =
     (case canonical_json_bytes nfc default_max_depth default_max_nodes max_ack_bytes (ack_dump a) of
        Inl (Canonical_Error _) \<Rightarrow> Inl (Outbox_Error ''MH_OUTBOX_ACK'') | r \<Rightarrow> r)"

section \<open>The path\<close>

definition path_join :: "string \<Rightarrow> string \<Rightarrow> string" where
  "path_join base leaf = (if base = ''/'' then ''/'' @ leaf else base @ ''/'' @ leaf)"

definition path_parent :: "string \<Rightarrow> string" where
  "path_parent p = (case butlast (rev (dropWhile (\<lambda>c. c \<noteq> CHR ''/'') (rev p))) of [] \<Rightarrow> ''/'' | q \<Rightarrow> q)"

definition ack_path :: "spool_env \<Rightarrow> string \<Rightarrow> string \<Rightarrow> string res" where
  "ack_path en directory filename =
     (if \<not> token_match 254 filename then Inl (Outbox_Error ''MH_OUTBOX_ACK_PATH'')
      else case en_absolute en directory of
        None \<Rightarrow> Inl (Outbox_Error ''MH_OUTBOX_ACK_PATH'')
      | Some base \<Rightarrow> (case en_absolute en (path_join base filename) of
          None \<Rightarrow> Inl (Outbox_Error ''MH_OUTBOX_ACK_PATH'')
        | Some resolved \<Rightarrow>
            if path_parent resolved \<noteq> base then Inl (Outbox_Error ''MH_OUTBOX_ACK_PATH'') else Inr resolved))"

section \<open>Writing\<close>

type_synonym ack_disk = "(string \<times> file_node) list"

record ack_answers =
  aa_token :: string
  aa_create :: "file_error option"
  aa_replaced :: bool
  aa_unlinked :: bool
  aa_synced :: bool

definition write_error :: "file_error \<Rightarrow> py_exc" where
  "write_error k = Outbox_Error (case k of
     Security_Unsupported \<Rightarrow> ''MH_OUTBOX_ACK_UNSUPPORTED''
   | Not_Found \<Rightarrow> ''MH_OUTBOX_ACK_PARENT_MISSING''
   | Not_Regular \<Rightarrow> ''MH_OUTBOX_ACK_PATH''
   | Commit_Uncertain \<Rightarrow> ''MH_OUTBOX_ACK_COMMIT_UNCERTAIN''
   | Access_Control_Unsafe \<Rightarrow> ''MH_OUTBOX_ACK_UNSAFE''
   | Parent_Unsafe \<Rightarrow> ''MH_OUTBOX_ACK_UNSAFE''
   | _ \<Rightarrow> ''MH_OUTBOX_ACK_WRITE'')"

definition owner_file :: "string \<Rightarrow> file_node" where
  "owner_file content = \<lparr>fn_content = content, fn_open = None, fn_owner_only = True, fn_changes = False,
     fn_read_fails = False\<rparr>"

definition staged_name :: "string \<Rightarrow> string \<Rightarrow> string \<Rightarrow> string" where
  "staged_name path filename token = path_join (path_parent path) (''.'' @ filename @ ''.'' @ token @ ''.tmp'')"

definition write_outbox_ack ::
  "spool_env \<Rightarrow> ack_answers \<Rightarrow> string \<Rightarrow> string \<Rightarrow> outbox_ack \<Rightarrow> (ack_disk, unit) prog" where
  "write_outbox_ack en an directory filename a =
     andthen (lift_res (ack_path en directory filename)) (\<lambda>path.
     andthen (lift_res (outbox_ack_bytes (en_nfc en) a)) (\<lambda>content. (\<lambda>fs.
     let staged = staged_name path filename (aa_token an); there = (staged, owner_file content) # fs in
     case aa_create an of
       Some Commit_Uncertain \<Rightarrow> (Inl (write_error Commit_Uncertain), there)
     | Some k \<Rightarrow> (Inl (write_error k), fs)
     | None \<Rightarrow>
         if \<not> aa_replaced an
         then (Inl (Outbox_Error ''MH_OUTBOX_ACK_WRITE''), if aa_unlinked an then AList.delete staged there else there)
         else let now = AList.update path (owner_file content) (AList.delete staged there) in
           if aa_synced an then (Inr (), now) else (Inl (Outbox_Error ''MH_OUTBOX_ACK_COMMIT_UNCERTAIN''), now))))"

section \<open>Reading\<close>

definition read_error :: "file_error \<Rightarrow> py_exc" where
  "read_error k = Outbox_Error (case k of
     Not_Regular \<Rightarrow> ''MH_OUTBOX_ACK_UNSAFE''
   | Security_Unsupported \<Rightarrow> ''MH_OUTBOX_ACK_UNSUPPORTED''
   | Parent_Unsafe \<Rightarrow> ''MH_OUTBOX_ACK_UNSAFE''
   | Access_Control_Unsafe \<Rightarrow> ''MH_OUTBOX_ACK_UNSAFE''
   | _ \<Rightarrow> ''MH_OUTBOX_ACK_READ'')"

definition parse_ack :: "spool_env \<Rightarrow> (string \<Rightarrow> outbox_ack option) \<Rightarrow> string \<Rightarrow> outbox_ack res" where
  "parse_ack en model raw =
     (case en_loads en raw of
        Some (P_Dict items) \<Rightarrow>
          if \<not> set (map fst items) \<subseteq> set ack_keys then Inl (Outbox_Error ''MH_OUTBOX_ACK'')
          else (case model raw of
              None \<Rightarrow> Inl (Outbox_Error ''MH_OUTBOX_ACK'')
            | Some a \<Rightarrow> bind_res (outbox_ack_bytes (en_nfc en) a) (\<lambda>content.
                if content \<noteq> raw then Inl (Outbox_Error ''MH_OUTBOX_ACK'') else Inr a))
      | _ \<Rightarrow> Inl (Outbox_Error ''MH_OUTBOX_ACK''))"

definition read_outbox_ack ::
  "spool_env \<Rightarrow> (string \<Rightarrow> outbox_ack option) \<Rightarrow> string \<Rightarrow> string \<Rightarrow> (ack_disk, outbox_ack option) prog" where
  "read_outbox_ack en model directory filename =
     andthen (lift_res (ack_path en directory filename)) (\<lambda>path. (\<lambda>fs.
     (case map_of fs path of
        None \<Rightarrow> (Inr None, fs)
      | Some node \<Rightarrow> (case fn_open node of
          Some Not_Found \<Rightarrow> (Inr None, fs)
        | Some k \<Rightarrow> (Inl (read_error k), fs)
        | None \<Rightarrow>
            if \<not> fn_owner_only node then (Inl (Outbox_Error ''MH_OUTBOX_ACK_UNSAFE''), fs)
            else if max_ack_bytes < int (length (fn_content node)) then (Inl (Outbox_Error ''MH_OUTBOX_ACK_SIZE''), fs)
            else if fn_read_fails node then (Inl (Outbox_Error ''MH_OUTBOX_ACK_READ''), fs)
            else if fn_changes node then (Inl (Outbox_Error ''MH_OUTBOX_ACK_CHANGED''), fs)
            else (case parse_ack en model (fn_content node) of Inl e \<Rightarrow> (Inl e, fs) | Inr a \<Rightarrow> (Inr (Some a), fs))))))"

section \<open>Never torn\<close>

text \<open>
  \<^verbatim>\<open>lexical_absolute_path\<close> keeps a safe leaf under a resolved directory as it is, so the staged name, which
  starts with a dot, differs from the final one.
\<close>

definition keeps_leaf :: "spool_env \<Rightarrow> string \<Rightarrow> string \<Rightarrow> bool" where
  "keeps_leaf en directory filename \<longleftrightarrow> (\<forall>base. en_absolute en directory = Some base \<longrightarrow>
     en_absolute en (path_join base filename) = Some (path_join base filename))"

lemma path_join_inject: "path_join base x = path_join base y \<longleftrightarrow> x = y"
  by (simp add: path_join_def)

lemma ack_path_Inr:
  assumes "ack_path en directory filename = Inr path" "keeps_leaf en directory filename"
  shows "\<exists>base. path = path_join base filename \<and> path_parent path = base \<and> hd filename \<noteq> CHR ''.''"
proof -
  have "is_alnum (hd filename)"
    using assms(1) by (auto simp: ack_path_def token_match_def split: if_splits list.splits)
  moreover have "\<not> is_alnum (CHR ''.'')" by code_simp
  ultimately have "hd filename \<noteq> CHR ''.''" by metis
  then show ?thesis
    using assms by (auto simp: ack_path_def keeps_leaf_def split: if_splits option.splits)
qed

lemma staged_differs:
  assumes "ack_path en directory filename = Inr path" "keeps_leaf en directory filename"
  shows "staged_name path filename token \<noteq> path"
proof -
  obtain base where base: "path = path_join base filename" "path_parent path = base" "hd filename \<noteq> CHR ''.''"
    using ack_path_Inr [OF assms] by blast
  then show ?thesis by (auto simp: staged_name_def path_join_inject)
qed

lemma write_ack_cases:
  assumes "write_outbox_ack en an directory filename a fs = (r, fs')"
  obtains (refused) e where "r = Inl e" "fs' = fs"
    | (written) path content staged where "ack_path en directory filename = Inr path"
        "outbox_ack_bytes (en_nfc en) a = Inr content" "staged = staged_name path filename (aa_token an)"
        "(\<exists>e. r = Inl e) \<and> fs' \<in> {(staged, owner_file content) # fs, AList.delete staged ((staged, owner_file content) # fs)} \<or>
         fs' = AList.update path (owner_file content) (AList.delete staged fs)"
  using assms
  by (auto simp: write_outbox_ack_def andthen_def lift_res_def Let_def split: sum.splits option.splits file_error.splits if_splits)


text \<open>
  Round trip of an acknowledgement: what a successful write published is what the next read returns, so
  the high-water mark a collector resumes from is the one it recorded, provided the JSON library and the record
  model read the canonical bytes back.\<close>

theorem ack_roundtrip:
  assumes "write_outbox_ack en an directory filename a fs = (Inr u, fs')" "keeps_leaf en directory filename"
    and "outbox_ack_bytes (en_nfc en) a = Inr content" "model content = Some a"
    and "en_loads en content = Some (P_Dict items)" "set (map fst items) \<subseteq> set ack_keys"
  shows "read_outbox_ack en model directory filename fs' = (Inr (Some a), fs')"
  using assms(1)
proof (cases rule: write_ack_cases)
  case (written path content' staged)
  have "content' = content" using written(2) assms(3) by simp
  then have node: "map_of fs' path = Some (owner_file content)" using written(4) by (auto simp: update_conv')
  have "int (length content) \<le> max_ack_bytes"
    using assms(3) by (auto simp: outbox_ack_bytes_def canonical_json_bytes_def bind_res_eq_Inr
        split: sum.splits py_exc.splits if_splits)
  moreover have "parse_ack en model content = Inr a"
    using assms(3-6) by (simp add: parse_ack_def)
  ultimately show ?thesis
    using written(1) node by (simp add: read_outbox_ack_def andthen_def lift_res_def owner_file_def)
qed simp

section \<open>One acknowledgement\<close>

definition demo_ack :: outbox_ack where
  "demo_ack = \<lparr>ak_producer = ''app'', ak_device = 1, ak_inode = 2, ak_offset = 3,
     ak_content_sha256 = replicate 64 (CHR ''0''), ak_line_sha256 = None, ak_sequence = Some 4, ak_at = utc 0\<rparr>"

definition demo_ack_text :: string where
  "demo_ack_text = projr (outbox_ack_bytes (\<lambda>s. s) demo_ack)"

text \<open>An equation \<open>code_simp\<close> can run without unfolding the calendar at a variable.\<close>

lemma format_timestamp_run [code]:
  "format_timestamp v = (case truncate_to_milliseconds v of Inl e \<Rightarrow> Inl e | Inr us \<Rightarrow> Inr (stamp_of us))"
  by (simp add: format_timestamp_def bind_res_def)

lemma demo_ack_bytes: "outbox_ack_bytes (\<lambda>s. s) demo_ack = Inr demo_ack_text"
  by code_simp

definition demo_ack_env :: spool_env where
  "demo_ack_env = demo_env\<lparr>en_loads := \<lambda>_. Some (P_Dict [(''producer_id'', P_Str ''app'')])\<rparr>"

definition demo_ack_ok :: ack_answers where
  "demo_ack_ok = \<lparr>aa_token = ''0'', aa_create = None, aa_replaced = True, aa_unlinked = True, aa_synced = True\<rparr>"

lemma demo_ack_env_simps: "en_nfc demo_ack_env = (\<lambda>s. s)" "en_absolute demo_ack_env = Some"
    "en_loads demo_ack_env = (\<lambda>_. Some (P_Dict [(''producer_id'', P_Str ''app'')]))"
  by (simp_all add: demo_ack_env_def demo_env_simps)

lemma demo_ack_place: "token_match 254 ''a.json''" "path_join ''/r'' ''a.json'' = ''/r/a.json''"
    "path_parent ''/r/a.json'' = ''/r''" "staged_name ''/r/a.json'' ''a.json'' ''0'' = ''/r/.a.json.0.tmp''"
  by code_simp+

lemma demo_ack_written:
  "write_outbox_ack demo_ack_env demo_ack_ok ''/r'' ''a.json'' demo_ack [] = (Inr (), [(''/r/a.json'', owner_file demo_ack_text)])"
  "ack_path demo_ack_env ''/r'' ''a.json'' = Inr ''/r/a.json''" "keeps_leaf demo_ack_env ''/r'' ''a.json''"
  by (simp_all add: write_outbox_ack_def ack_path_def demo_ack_place demo_ack_env_simps demo_ack_bytes andthen_def
      lift_res_def demo_ack_ok_def keeps_leaf_def)


theorem ack_roundtrip_witness:
  "read_outbox_ack demo_ack_env (\<lambda>_. Some demo_ack) ''/r'' ''a.json'' [(''/r/a.json'', owner_file demo_ack_text)] =
     (Inr (Some demo_ack), [(''/r/a.json'', owner_file demo_ack_text)])"
  by (rule ack_roundtrip [OF demo_ack_written(1,3), where items = "[(''producer_id'', P_Str ''app'')]"])
    (simp_all add: demo_ack_env_simps demo_ack_bytes ack_keys_def)

end
