(* ===== verification/Pipeline.thy ===== *)
theory Pipeline
  imports Commit Replay Alerting Ack
begin

text \<open>
  \<^verbatim>\<open>src/milhouse/runtime/pipeline.py\<close>: one run over the configured collectors. Each collector is resolved,
  reads its cursor, collects, and its drafts are redacted, finalized, committed as one segment and only
  then acknowledged by an advance of the cursor; alert rules and notification intents follow, and in full mode the
  delivery of the whole ledger.

  Parameters (\<open>pipeline_env\<close>): the redactor, the record model (which drafts it accepts, the record
  \<^verbatim>\<open>finalize_record\<close> makes of one), the target model, and the registry's collectors. The state is a
  reconciliation state with, per spool pass, what the platform lists then (\<open>pi_views\<close>) and, per commit, what it
  answers (\<open>pi_answers\<close>); the acknowledgement files, kept apart from the spool; the item being worked on, the items
  finished, the availability samples. The run instant is an aware UTC instant.
\<close>

section \<open>Records and configuration\<close>

record intent_draft =
  it_rule_id :: string
  it_digest :: string
  it_observation :: observation
  it_intent_id :: string
  it_alert_key :: string
  it_transition :: string
  it_channel :: string
  it_channel_type :: string
  it_severity :: string
  it_evidence :: "string list"
  it_at :: py_datetime
  it_expires_at :: py_datetime
  it_operation_id :: string
  it_target :: string

text \<open>The body of a draft is everything but its type, its free text and its redaction version.\<close>

datatype body = Collected py_value | Alert_Body alert_draft | Intent_Body intent_draft

record alert_payload =
  ap_alert_key :: string
  ap_rule_id :: string
  ap_rule_version :: int
  ap_transition :: string

text \<open>A finalized record: the envelope the spool stores, and the typed fields the pipeline reads.\<close>

record final_record = envelope +
  fin_type :: string
  fin_source :: string
  fin_severity :: string
  fin_event :: "(string \<times> string) option"
  fin_alert :: "alert_payload option"

record rule_config =
  rl_id :: string
  rl_collector :: string
  rl_failures :: int
  rl_successes :: int
  rl_cooldown :: int

record channel_config =
  ch_id :: string
  ch_type :: string
  ch_enabled :: bool
  ch_classes :: "string list"

record pipeline_env =
  pl_spool :: spool_env
  pl_alert :: alert_env
  pl_mode :: string
  pl_generation :: string
  pl_root :: string
  pl_installation :: string
  pl_registry :: "body registry"
  pl_redact :: "string \<Rightarrow> string res"
  pl_redaction_version :: string
  pl_accepts :: "body draft \<Rightarrow> bool"
  pl_finalize :: "string \<Rightarrow> body draft \<Rightarrow> final_record res"
  pl_target_ok :: "target_descriptor \<Rightarrow> bool"
  pl_retention :: "string \<Rightarrow> int"
  pl_exporters :: "(string \<times> exporter_obj) list"
  pl_rules :: "rule_config list"
  pl_channels :: "channel_config list"

definition pipeline_init :: "pipeline_env \<Rightarrow> unit res" where
  "pipeline_init pe =
     bind_res (check_res (pl_mode pe \<in> {''full'', ''spool_only''}) (Pipeline_Error ''MH_RUNTIME_PIPELINE_MODE'')) (\<lambda>_.
     bind_res (check_res (is_sha256_hex (pl_generation pe))
       (Pipeline_Error ''MH_RUNTIME_PIPELINE_CONFIG_GENERATION'')) (\<lambda>_.
     bind_res (check_res (installation_id_match (pl_installation pe))
       (Pipeline_Error ''MH_RUNTIME_PIPELINE_INSTALLATION'')) (\<lambda>_.
     bind_res (check_res (list_all (\<lambda>(key, x). xo_id x = Some key) (pl_exporters pe))
       (Pipeline_Error ''MH_RUNTIME_PIPELINE_EXPORTERS'')) (\<lambda>_.
     check_res (if pl_mode pe = ''spool_only'' then pl_exporters pe = [] else pl_exporters pe \<noteq> [])
       (Pipeline_Error ''MH_RUNTIME_PIPELINE_EXPORTERS'')))))"

section \<open>The state\<close>

record work =
  wk_collector :: string
  wk_status :: string
  wk_error :: "string option"
  wk_drafts :: nat
  wk_committed :: int
  wk_delivered :: int
  wk_failed :: int
  wk_batch :: "string option"

definition new_work :: "string \<Rightarrow> work" where
  "new_work c = \<lparr>wk_collector = c, wk_status = ''ok'', wk_error = None, wk_drafts = 0, wk_committed = 0,
     wk_delivered = 0, wk_failed = 0, wk_batch = None\<rparr>"

type_synonym sample = "string \<times> string option"

record pipe =
  pi_recon :: recon
  pi_views :: "spool_view list"
  pi_answers :: "commit_answers list"
  pi_acks :: ack_disk
  pi_ack_answers :: "ack_answers list"
  pi_item :: work
  pi_works :: "work list"
  pi_samples :: "(string \<times> sample) list"

type_synonym 'r pipe_prog = "(pipe, 'r) prog"

definition on_recon :: "'r recon_prog \<Rightarrow> 'r pipe_prog" where
  "on_recon m = (\<lambda>s. let (r, s1) = m (pi_recon s) in (r, s\<lparr>pi_recon := s1\<rparr>))"

definition on_world :: "'r spool_prog \<Rightarrow> 'r pipe_prog" where
  "on_world m = on_recon (on_spool m)"

definition change :: "(pipe \<Rightarrow> pipe) \<Rightarrow> unit pipe_prog" where
  "change f = (\<lambda>s. (Inr (), f s))"

definition update_item :: "(work \<Rightarrow> work) \<Rightarrow> unit pipe_prog" where
  "update_item f = change (\<lambda>s. s\<lparr>pi_item := f (pi_item s)\<rparr>)"

definition add_sample :: "string \<Rightarrow> sample \<Rightarrow> unit pipe_prog" where
  "add_sample c sample = change (\<lambda>s. s\<lparr>pi_samples := AList.update c sample (pi_samples s)\<rparr>)"

text \<open>Each pass over the spool sees the directories as they are then.\<close>

definition next_view :: "unit pipe_prog" where
  "next_view = change (\<lambda>s. case pi_views s of [] \<Rightarrow> s
     | v # vs \<Rightarrow> s\<lparr>pi_views := vs, pi_recon := (pi_recon s)\<lparr>rn_view := v\<rparr>\<rparr>)"

definition commit :: "pipeline_env \<Rightarrow> string \<Rightarrow> segment_header \<Rightarrow> spool_frame list \<Rightarrow> py_datetime \<Rightarrow> segment_record pipe_prog" where
  "commit pe root h frames at = andthen next_view (\<lambda>_. (\<lambda>s.
     let an = (case pi_answers s of [] \<Rightarrow> \<lparr>ca_directory = True, ca_create = None\<rparr> | a # _ \<Rightarrow> a) in
     on_recon (commit_segment (pl_spool pe) an root (pl_installation pe) h frames at)
       (s\<lparr>pi_answers := tl (pi_answers s)\<rparr>)))"

definition open_spool :: "pipeline_env \<Rightarrow> string pipe_prog" where
  "open_spool pe = andthen next_view (\<lambda>_.
     andthen (on_recon (durable_spool (pl_spool pe) (pl_root pe) (pl_installation pe))) (\<lambda>_.
     lift_res (require_bound_state_root (pl_spool pe) (pl_root pe) (pl_installation pe))))"

section \<open>From drafts to a segment\<close>

definition free_text_fields :: "string \<Rightarrow> string list option" where
  "free_text_fields = map_of [(''event'', [''message'']), (''metric'', []), (''run'', []), (''span'', []),
     (''alert'', [''summary'']), (''notification_intent'', [''summary'']),
     (''feedback_item'', [''title'', ''summary'', ''recommendation'']), (''feedback_transition'', [''rationale''])]"

definition retention_fields :: "string \<Rightarrow> string option" where
  "retention_fields = map_of [(''event'', ''events_days''), (''metric'', ''metrics_days''), (''run'', ''runs_days''),
     (''span'', ''trace_events_days''), (''alert'', ''alerts_days''), (''notification_intent'', ''alerts_days''),
     (''feedback_item'', ''feedback_days''), (''feedback_transition'', ''feedback_days'')]"

fun redact_fields :: "(string \<Rightarrow> string res) \<Rightarrow> string list \<Rightarrow> (string \<times> string) list \<Rightarrow> (string \<times> string) list res" where
  "redact_fields redact [] texts = Inr texts"
| "redact_fields redact (f # fs) texts = (case map_of texts f of
     None \<Rightarrow> redact_fields redact fs texts
   | Some t \<Rightarrow> bind_res (redact t) (\<lambda>t'. redact_fields redact fs (AList.update f t' texts)))"

definition redact_draft :: "pipeline_env \<Rightarrow> body draft \<Rightarrow> body draft res" where
  "redact_draft pe d = (case free_text_fields (dr_type d) of
     None \<Rightarrow> Inl (Pipeline_Error ''MH_RUNTIME_PIPELINE_REDACTION'')
   | Some names \<Rightarrow> bind_res (redact_fields (pl_redact pe) names (dr_texts d)) (\<lambda>texts.
       let d' = d\<lparr>dr_texts := texts, dr_redaction_version := pl_redaction_version pe\<rparr> in
       if pl_accepts pe d' then Inr d' else Inl Value_Error))"

definition finalize :: "pipeline_env \<Rightarrow> body draft \<Rightarrow> final_record res" where
  "finalize pe d = bind_res (redact_draft pe d) (pl_finalize pe (pl_installation pe))"

definition make_batch_id :: "pipeline_env \<Rightarrow> string \<Rightarrow> string list \<Rightarrow> py_datetime \<Rightarrow> string res" where
  "make_batch_id pe source ids now = bind_res (format_timestamp now) (\<lambda>stamp.
     Inr (source @ ''-'' @ take 24 (spool_env.en_sha_hex (pl_spool pe) (join [LF] (stamp # ids)))))"

definition retention_days :: "pipeline_env \<Rightarrow> string \<Rightarrow> int res" where
  "retention_days pe ty = (case retention_fields ty of
     None \<Rightarrow> Inl (Pipeline_Error ''MH_RUNTIME_PIPELINE_RETENTION'') | Some f \<Rightarrow> Inr (pl_retention pe f))"

definition one_value :: "'a list \<Rightarrow> bool" where
  "one_value xs \<longleftrightarrow> length (remdups xs) = 1"

definition numbered_frames :: "string \<Rightarrow> final_record list \<Rightarrow> spool_frame list" where
  "numbered_frames batch records = map (\<lambda>(i, r). \<lparr>fr_batch = batch, fr_sequence = int i,
     fr_record = envelope.truncate r\<rparr>) (zip [1..<length records + 1] records)"

definition build_segment ::
  "pipeline_env \<Rightarrow> string \<Rightarrow> final_record list \<Rightarrow> py_datetime \<Rightarrow> (segment_header \<times> spool_frame list) res" where
  "build_segment pe source records now =
     bind_res (check_res (one_value (map ev_scope records) \<and> one_value (map ev_privacy records)
         \<and> one_value (map ev_target records)) (Pipeline_Error ''MH_RUNTIME_PIPELINE_SEGMENT'')) (\<lambda>_.
     bind_res (check_res (one_value (map fin_type records)) (Pipeline_Error ''MH_RUNTIME_PIPELINE_SEGMENT'')) (\<lambda>_.
     bind_res (make_batch_id pe source (map ev_record_id records) now) (\<lambda>batch.
     bind_res (map_res frame_init (numbered_frames batch records)) (\<lambda>frames.
     bind_res (map_res (spool_frame_line (spool_env.en_nfc (pl_spool pe))) frames) (\<lambda>lines.
     bind_res (retention_days pe (fin_type (hd records))) (\<lambda>days.
     bind_res (header_init \<lparr>hd_batch = batch, hd_config_generation = pl_generation pe,
         hd_scope = ev_scope (hd records), hd_target = ev_target (hd records), hd_privacy = ev_privacy (hd records),
         hd_retention_days = days, hd_exporters = sort (map fst (pl_exporters pe)),
         hd_record_count = int (length frames),
         hd_content_sha256 = spool_content_sha256 (spool_env.en_sha_hex (pl_spool pe)) lines\<rparr>) (\<lambda>h.
     Inr (h, frames))))))))"

fun availability_sample :: "final_record list \<Rightarrow> sample option" where
  "availability_sample [] = None"
| "availability_sample (r # rs) =
     (if fin_type r = ''event'' \<and> fin_event r = Some (''availability'', ''healthy'') then Some (''success'', Some (ev_record_id r))
      else if fin_type r = ''event'' \<and> fin_event r = Some (''availability'', ''degraded'')
        then Some (''failure'', Some (ev_record_id r))
      else availability_sample rs)"

section \<open>One collector\<close>

definition target_descriptor_of :: "pipeline_env \<Rightarrow> collector_config \<Rightarrow> target_descriptor list \<Rightarrow> target_descriptor option res" where
  "target_descriptor_of pe config targets = (case cc_target config of
     None \<Rightarrow> Inr None
   | Some t \<Rightarrow> (case map_of (rev (map (\<lambda>d. (td_id d, d)) targets)) t of
       None \<Rightarrow> Inl (Pipeline_Error ''MH_RUNTIME_PIPELINE_TARGET'')
     | Some d \<Rightarrow> if pl_target_ok pe d then Inr (Some d) else Inl Value_Error))"

text \<open>A \<^verbatim>\<open>collect\<close> call: what it answers has passed the constructors of its parts.\<close>

definition collect :: "body collector_obj \<Rightarrow> collector_context \<Rightarrow> body collector_result res" where
  "collect c cx = bind_res (co_collect c cx) (\<lambda>answer. case answer of
     Foreign_Answer \<Rightarrow> Inl (Pipeline_Error ''MH_RUNTIME_PIPELINE_RESULT'')
   | Answer r \<Rightarrow>
       bind_res (case rs_advance r of None \<Rightarrow> Inr () | Some a \<Rightarrow> map_sum id (\<lambda>_. ()) (advance_init a)) (\<lambda>_.
       result_init r))"

definition write_ack :: "pipeline_env \<Rightarrow> string \<Rightarrow> string \<Rightarrow> outbox_ack \<Rightarrow> unit pipe_prog" where
  "write_ack pe directory filename a = (\<lambda>s.
     let an = (case pi_ack_answers s of
          [] \<Rightarrow> \<lparr>aa_token = [], aa_create = None, aa_replaced = True, aa_unlinked = True, aa_synced = True\<rparr> | x # _ \<Rightarrow> x);
         (r, fs) = write_outbox_ack (pl_spool pe) an directory filename a (pi_acks s)
     in (r, s\<lparr>pi_acks := fs, pi_ack_answers := tl (pi_ack_answers s)\<rparr>))"

definition advance_source_cursor ::
  "pipeline_env \<Rightarrow> string \<Rightarrow> string \<Rightarrow> cursor_advance \<Rightarrow> source_cursor option \<Rightarrow> py_datetime \<Rightarrow> unit pipe_prog" where
  "advance_source_cursor pe source position a prior now = (\<lambda>s. handle
     (andthen (on_world (advance_cursor source
         \<lparr>ci_position = position, ci_batch = (case wk_batch (pi_item s) of None \<Rightarrow> [] | Some b \<Rightarrow> b), ci_now = now\<rparr>
         (case prior of None \<Rightarrow> 0 | Some c \<Rightarrow> sc_revision c))) (\<lambda>_.
      case (av_ack a, av_directory a, av_filename a) of
        (Some ack, Some directory, Some filename) \<Rightarrow> write_ack pe directory filename ack
      | _ \<Rightarrow> ret ()))
     (\<lambda>e. Some (update_item (\<lambda>w. w\<lparr>wk_error := Some (normalize_error e)\<rparr>))) s)"

definition commit_result ::
  "pipeline_env \<Rightarrow> string \<Rightarrow> py_datetime \<Rightarrow> string \<Rightarrow> collector_context \<Rightarrow> body collector_result \<Rightarrow> unit pipe_prog" where
  "commit_result pe root now source cx result =
     andthen (lift_res (map_res (finalize pe) (rs_drafts result))) (\<lambda>records.
     andthen (lift_res (build_segment pe source records (cx_now cx))) (\<lambda>(h, frames).
     andthen (commit pe root h frames (cx_now cx)) (\<lambda>committed.
     andthen (update_item (\<lambda>w. w\<lparr>wk_committed := sg_record_count (sr_row committed),
         wk_batch := Some (sg_batch (sr_row committed))\<rparr>)) (\<lambda>_.
     andthen (case rs_advance result of
         None \<Rightarrow> ret ()
       | Some a \<Rightarrow> (case av_position a of
           None \<Rightarrow> ret () | Some p \<Rightarrow> advance_source_cursor pe source p a (cx_cursor cx) now)) (\<lambda>_.
     case availability_sample records of None \<Rightarrow> ret () | Some sample \<Rightarrow> add_sample source sample)))))"

definition run_collector ::
  "pipeline_env \<Rightarrow> string \<Rightarrow> target_descriptor list \<Rightarrow> py_datetime \<Rightarrow> collector_config \<Rightarrow> unit pipe_prog" where
  "run_collector pe root targets now config =
     andthen (lift_res (resolve (pl_registry pe) config)) (\<lambda>collector.
     andthen (check (ds_id (co_descriptor collector) = cc_id config)
       (Pipeline_Error ''MH_RUNTIME_PIPELINE_COLLECTOR'')) (\<lambda>_.
     andthen (lift_res (target_descriptor_of pe config targets)) (\<lambda>target.
     andthen (on_world (read_cursor (cc_id config))) (\<lambda>prior.
     andthen (lift_res (context_init \<lparr>cx_now = now, cx_installation = pl_installation pe,
         cx_collector = co_descriptor collector, cx_target = target, cx_timeout = cc_timeout config,
         cx_cursor = prior\<rparr>)) (\<lambda>cx.
     andthen (lift_res (collect collector cx)) (\<lambda>result.
     andthen (update_item (\<lambda>w. w\<lparr>wk_status := rs_status result, wk_drafts := length (rs_drafts result)\<rparr>)) (\<lambda>_.
     case Option.bind (rs_advance result) av_loss of
       Some l \<Rightarrow> update_item (\<lambda>w. w\<lparr>wk_status := ''failed'', wk_error := Some (ls_code l)\<rparr>)
     | None \<Rightarrow>
         andthen (if rs_status result = ''failed'' then add_sample (cc_id config) (''failure'', None) else ret ()) (\<lambda>_.
         if rs_drafts result = [] then ret ()
         else commit_result pe root now (cc_id config) cx result))))))))"

text \<open>Isolation: an exception becomes the item's fixed code.\<close>

definition run_one ::
  "pipeline_env \<Rightarrow> string \<Rightarrow> target_descriptor list \<Rightarrow> py_datetime \<Rightarrow> collector_config \<Rightarrow> unit pipe_prog" where
  "run_one pe root targets now config =
     andthen (update_item (\<lambda>_. new_work (cc_id config))) (\<lambda>_.
     andthen (handle (run_collector pe root targets now config)
       (\<lambda>e. Some (update_item (\<lambda>w. w\<lparr>wk_status := ''error'', wk_error := Some (normalize_error e), wk_committed := 0,
          wk_batch := None\<rparr>)))) (\<lambda>_.
     change (\<lambda>s. s\<lparr>pi_works := pi_works s @ [pi_item s]\<rparr>)))"

section \<open>Alerts and notification intents\<close>

definition attempt :: "'r pipe_prog \<Rightarrow> 'r res pipe_prog" where
  "attempt m = (\<lambda>s. let (r, s') = m s in (Inr r, s'))"

definition first_error :: "'r res list \<Rightarrow> string option" where
  "first_error rs = (case [e. Inl e \<leftarrow> rs] of [] \<Rightarrow> None | e # _ \<Rightarrow> Some (normalize_error e))"

definition alert_record_draft :: "alert_draft \<Rightarrow> body draft" where
  "alert_record_draft d = \<lparr>dr_type = ''alert'', dr_texts = [(''summary'', ad_summary d)],
     dr_redaction_version = ''r1-e1'', dr_body = Alert_Body d\<rparr>"

definition state_input :: "alert_update \<Rightarrow> py_datetime \<Rightarrow> alert_input" where
  "state_input up now = \<lparr>ai_fail_count = up_fail up, ai_success_count = up_success up, ai_state = up_state up,
     ai_cooldown_until = up_cooldown_until up, ai_last_sample_at = Some (up_last_sample_at up),
     ai_last_transition = up_last_transition up, ai_now = now\<rparr>"

definition emit_transition ::
  "pipeline_env \<Rightarrow> string \<Rightarrow> py_datetime \<Rightarrow> rule_config \<Rightarrow> alert_evaluation \<Rightarrow> (string option \<times> final_record option) pipe_prog" where
  "emit_transition pe root now rule ev = (case ev_draft ev of
     None \<Rightarrow> ret (None, None)
   | Some d \<Rightarrow>
       andthen (lift_res (finalize pe (alert_record_draft d))) (\<lambda>record.
       andthen (lift_res (build_segment pe (rl_id rule) [record] now)) (\<lambda>(h, frames).
       andthen (commit pe root h frames now) (\<lambda>_. ret (ev_transition ev, Some record)))))"

definition evaluate_sample ::
  "pipeline_env \<Rightarrow> string \<Rightarrow> target_descriptor list \<Rightarrow> py_datetime \<Rightarrow> rule_config \<Rightarrow> collector_config \<Rightarrow> sample
    \<Rightarrow> (string option \<times> final_record option) pipe_prog" where
  "evaluate_sample pe root targets now rule config sample =
     andthen (lift_res (target_descriptor_of pe config targets)) (\<lambda>target.
     andthen (check (target \<noteq> None) (Pipeline_Error ''MH_RUNTIME_PIPELINE_ALERT'')) (\<lambda>_.
     andthen (on_world (read_alert_state (rl_id rule, 1))) (\<lambda>current.
     andthen (lift_res (evaluate_canary_state_rule (pl_alert pe)
         \<lparr>sp_rule_id = rl_id rule, sp_rule_version = 1, sp_collector = rl_collector rule,
           sp_failures = rl_failures rule, sp_successes = rl_successes rule, sp_cooldown = rl_cooldown rule\<rparr>
         (fst sample) (snd sample) (td_id (the target)) now current)) (\<lambda>ev.
     andthen (emit_transition pe root now rule ev) (\<lambda>emitted.
     andthen (on_world (advance_alert_state (rl_id rule, 1) (state_input (ev_update ev) now)
       (up_expected_revision (ev_update ev)))) (\<lambda>_. ret emitted))))))"

definition evaluate_rule ::
  "pipeline_env \<Rightarrow> string \<Rightarrow> collector_config list \<Rightarrow> target_descriptor list \<Rightarrow> py_datetime \<Rightarrow> rule_config
    \<Rightarrow> (string option \<times> final_record option) pipe_prog" where
  "evaluate_rule pe root configs targets now rule = (\<lambda>s.
     (case (map_of (pi_samples s) (rl_collector rule),
        map_of (rev (map (\<lambda>c. (cc_id c, c)) configs)) (rl_collector rule)) of
      (Some sample, Some config) \<Rightarrow> evaluate_sample pe root targets now rule config sample
    | _ \<Rightarrow> ret (None, None)) s)"

definition drive_alerts ::
  "pipeline_env \<Rightarrow> string \<Rightarrow> collector_config list \<Rightarrow> target_descriptor list \<Rightarrow> py_datetime
    \<Rightarrow> (nat \<times> nat \<times> string option \<times> final_record list) pipe_prog" where
  "drive_alerts pe root configs targets now =
     andthen (for_each (\<lambda>rule. attempt (evaluate_rule pe root configs targets now rule)) (pl_rules pe)) (\<lambda>rs.
     let emitted = [e. Inr e \<leftarrow> rs] in
     ret (length (filter (\<lambda>(t, r). r \<noteq> None \<and> t = Some ''firing'') emitted),
          length (filter (\<lambda>(t, r). r \<noteq> None \<and> t \<noteq> Some ''firing'') emitted),
          first_error rs, [r. (t, Some r) \<leftarrow> emitted]))"

definition intent_summary :: string where
  "intent_summary = ''A configured notification channel recorded a durable intent to notify for this alert transition. No message was sent; delivery is out of scope for this record.''"

definition notification_intent_draft ::
  "pipeline_env \<Rightarrow> final_record \<Rightarrow> channel_config \<Rightarrow> py_datetime \<Rightarrow> body draft res" where
  "notification_intent_draft pe alert channel now =
     (case (fin_alert alert, ev_target alert) of
        (Some p, Some target) \<Rightarrow>
          bind_res (observation_coordinate ''alert.notification_intent''
            [(''transition'', Part_Str (ap_transition p)), (''channel'', Part_Str (ch_id channel))]) (\<lambda>ob.
          bind_res (derive_notification_intent_id (en_sha (pl_alert pe)) (spool_env.en_nfc (pl_spool pe))
            (ap_transition p) (ch_id channel)) (\<lambda>intent.
          bind_res (format_timestamp now) (\<lambda>stamp.
          bind_res (datetime_add now (365 * 86400)) (\<lambda>expires.
          let d = \<lparr>dr_type = ''notification_intent'', dr_texts = [(''summary'', intent_summary)],
            dr_redaction_version = ''r1-e1'', dr_body = Intent_Body \<lparr>it_rule_id = ap_rule_id p,
              it_digest = spool_env.en_sha_hex (pl_spool pe) (''alert.notification_intent'' @ [NUL] @ ap_rule_id p @ [NUL] @
                int_text (ap_rule_version p) @ [NUL] @ ch_id channel),
              it_observation = ob, it_intent_id = intent, it_alert_key = ap_alert_key p,
              it_transition = ap_transition p, it_channel = ch_id channel, it_channel_type = ch_type channel,
              it_severity = fin_severity alert, it_evidence = [ev_record_id alert], it_at = now,
              it_expires_at = expires, it_operation_id = ap_rule_id p @ '':'' @ ch_id channel @ '':'' @ stamp,
              it_target = target\<rparr>\<rparr> in
          if pl_accepts pe d then Inr d else Inl Value_Error))))
      | _ \<Rightarrow> Inl Assertion_Error)"

definition emit_intent :: "pipeline_env \<Rightarrow> string \<Rightarrow> py_datetime \<Rightarrow> final_record \<times> channel_config \<Rightarrow> unit pipe_prog" where
  "emit_intent pe root now = (\<lambda>(alert, channel).
     andthen (lift_res (notification_intent_draft pe alert channel now)) (\<lambda>d.
     andthen (lift_res (finalize pe d)) (\<lambda>record.
     andthen (lift_res (build_segment pe (fin_source alert @ ''-'' @ ch_id channel) [record] now)) (\<lambda>(h, frames).
     andthen (commit pe root h frames now) (\<lambda>_. ret ())))))"

definition applies :: "final_record \<Rightarrow> channel_config \<Rightarrow> bool" where
  "applies alert channel \<longleftrightarrow> ch_enabled channel \<and> ev_privacy alert \<in> set (ch_classes channel)"

definition drive_intents ::
  "pipeline_env \<Rightarrow> string \<Rightarrow> py_datetime \<Rightarrow> final_record list \<Rightarrow> (nat \<times> string option) pipe_prog" where
  "drive_intents pe root now raised =
     andthen (for_each (\<lambda>x. attempt (emit_intent pe root now x))
       [(a, c). a \<leftarrow> raised, c \<leftarrow> pl_channels pe, applies a c]) (\<lambda>rs.
     ret (length [u. Inr u \<leftarrow> rs], first_error rs))"

section \<open>Delivery and the run\<close>

fun update_first :: "('a \<Rightarrow> bool) \<Rightarrow> ('a \<Rightarrow> 'a) \<Rightarrow> 'a list \<Rightarrow> 'a list" where
  "update_first P f [] = []"
| "update_first P f (x # xs) = (if P x then f x # xs else x # update_first P f xs)"

text \<open>The dictionary from batch ids to items keeps the last item of a batch id.\<close>

definition attribute :: "work list \<Rightarrow> exporter_attempt \<Rightarrow> work list" where
  "attribute works at =
     (if at_exporter at \<noteq> ''clickhouse'' then works
      else rev (update_first (\<lambda>w. wk_batch w = Some (at_batch at))
        (\<lambda>w. if at_outcome at \<in> {Delivered, Already_Delivered} then w\<lparr>wk_delivered := wk_committed w\<rparr>
             else w\<lparr>wk_failed := wk_committed w\<rparr>) (rev works)))"

definition drive_export :: "pipeline_env \<Rightarrow> int \<Rightarrow> string option pipe_prog" where
  "drive_export pe now = handle
     (andthen (on_world (replay_segments (pl_spool pe) (pl_exporters pe) (pl_root pe) (pl_installation pe) now None)) (\<lambda>rep.
      andthen (change (\<lambda>s. s\<lparr>pi_works := foldl attribute (pi_works s) (rp_attempts rep)\<rparr>)) (\<lambda>_. ret None)))
     (\<lambda>e. Some (ret (Some (normalize_error e))))"

record run_summary =
  su_mode :: string
  su_export_error :: "string option"
  su_collectors :: "work list"
  su_fired :: nat
  su_resolved :: nat
  su_alerts_error :: "string option"
  su_intents :: nat
  su_intents_error :: "string option"

text \<open>\<^verbatim>\<open>run\<close>, at the instant \<open>u\<close> the injected clock returns.\<close>

definition run_pipeline ::
  "pipeline_env \<Rightarrow> int \<Rightarrow> collector_config list \<Rightarrow> target_descriptor list \<Rightarrow> run_summary pipe_prog" where
  "run_pipeline pe u configs targets =
     andthen (change (\<lambda>s. s\<lparr>pi_works := [], pi_samples := []\<rparr>)) (\<lambda>_.
     andthen (open_spool pe) (\<lambda>root.
     andthen (for_each (run_one pe root targets (utc u)) configs) (\<lambda>_.
     andthen (drive_alerts pe root configs targets (utc u)) (\<lambda>(fired, resolved, alerts_error, emitted).
     andthen (drive_intents pe root (utc u) emitted) (\<lambda>(intents, intents_error).
     andthen (if pl_mode pe = ''full'' then drive_export pe u else ret None) (\<lambda>export_error.
     (\<lambda>s. (Inr \<lparr>su_mode = pl_mode pe, su_export_error = export_error, su_collectors = pi_works s,
        su_fired = fired, su_resolved = resolved, su_alerts_error = alerts_error, su_intents = intents,
        su_intents_error = intents_error\<rparr>, s))))))))"

end
