(* ===== verification/Demo_Run.thy ===== *)
theory Demo_Run
  imports Pipeline
begin

text \<open>
  One concrete run for the instances of the theorems: a single canary in \<^verbatim>\<open>spool_only\<close> mode on an empty spool, which
  collects one record, commits it, moves its cursor and acknowledges.
\<close>

definition demo_now :: int where "demo_now = 63887788800000000"
definition demo_batch_id :: string where "demo_batch_id = ''c1-'' @ replicate 24 (CHR ''0'')"

definition demo_advance :: cursor_advance where
  "demo_advance = \<lparr>av_position = Some ''p1'', av_directory = Some ''/r'', av_filename = Some ''a.json'',
     av_ack = Some demo_ack, av_observed = Some 1, av_loss = None\<rparr>"

definition demo_draft :: "body draft" where
  "demo_draft = \<lparr>dr_type = ''event'', dr_texts = [(''message'', ''from host1'')], dr_redaction_version = ''r1-e1'',
     dr_body = Collected P_None\<rparr>"

definition demo_result :: "body collector_result" where
  "demo_result = \<lparr>rs_status = ''ok'', rs_drafts = [demo_draft], rs_diagnostics = [(''samples'', 1)],
     rs_advance = Some demo_advance\<rparr>"

definition demo_canary :: "body collector_obj" where
  "demo_canary = \<lparr>co_descriptor = \<lparr>ds_id = ''c1'', ds_type = ''site_canary'', ds_version = ''1''\<rparr>,
     co_collect = (\<lambda>_. Inr (Answer demo_result))\<rparr>"

definition demo_config :: collector_config where
  "demo_config = \<lparr>cc_id = ''c1'', cc_type = ''site_canary'', cc_target = None, cc_timeout = 10\<rparr>"

definition demo_final :: final_record where
  "demo_final = envelope.extend (fr_record demo_frame) \<lparr>fin_type = ''event'', fin_source = ''c1'', fin_severity = ''info'',
     fin_event = Some (''availability'', ''healthy''), fin_alert = None\<rparr>"

definition demo_pipeline :: pipeline_env where
  "demo_pipeline = \<lparr>pl_spool = Reader.demo_env, pl_alert = Alerting.demo_env, pl_mode = ''spool_only'',
     pl_generation = replicate 64 (CHR ''0''), pl_root = ''/s/spool'', pl_installation = demo_installation,
     pl_registry = [(''site_canary'', \<lambda>_. Inr (Collector_Object demo_canary))], pl_redact = (\<lambda>_. Inr ''from [host]''),
     pl_redaction_version = ''r2'', pl_accepts = (\<lambda>_. True), pl_finalize = (\<lambda>_ _. Inr demo_final),
     pl_target_ok = (\<lambda>_. True), pl_retention = (\<lambda>_. 30), pl_exporters = [], pl_rules = [], pl_channels = []\<rparr>"

definition demo_idle :: pipe where
  "demo_idle = \<lparr>pi_recon = demo_fresh, pi_views = [], pi_answers = [], pi_acks = [], pi_ack_answers = [demo_ack_ok],
     pi_item = new_work [], pi_works = [], pi_samples = []\<rparr>"

section \<open>The segment\<close>

definition run_frame :: spool_frame where
  "run_frame = \<lparr>fr_batch = demo_batch_id, fr_sequence = 1, fr_record = fr_record demo_frame\<rparr>"

definition run_header :: segment_header where
  "run_header = demo_header\<lparr>hd_batch := demo_batch_id, hd_exporters := []\<rparr>"

definition run_frame_line :: string where
  "run_frame_line = projr (spool_frame_line (\<lambda>s. s) run_frame)"

definition run_header_line :: string where
  "run_header_line = projr (spool_segment_header_line (\<lambda>s. s) run_header)"

definition run_content :: string where
  "run_content = run_header_line @ run_frame_line"

lemma run_lines:
  "spool_frame_line (\<lambda>s. s) run_frame = Inr run_frame_line"
  "spool_segment_header_line (\<lambda>s. s) run_header = Inr run_header_line"
  "length run_frame_line = 102" "length run_header_line = 371"
  "header_init run_header = Inr run_header" "frame_init run_frame = Inr run_frame"
  by code_simp+

definition run_row :: segment_row where
  "run_row = demo_segment\<lparr>sg_batch := demo_batch_id, sg_byte_size := 473\<rparr>"

lemma run_row_check: "segment_check run_row"
  by code_simp

lemma run_row_parts: "take 10 ''2025-07-11T00:00:00.000Z'' = ''2025-07-11''" "sg_day run_row = ''2025-07-11''"
    "sg_batch run_row = demo_batch_id" "sg_record_count run_row = 1" "sg_origin run_row = ''committed''"
  by (simp_all add: run_row_def demo_segment_def)

lemma run_build: "build_segment_bytes Reader.demo_env run_header [run_frame] = Inr run_content"
  by (simp add: build_segment_bytes_def validate_consistency_def frame_consistent_def demo_env_simps run_lines
      max_segment_frames_def max_segment_file_bytes_def spool_content_sha256_def run_content_def)
    (simp add: run_frame_def run_header_def demo_frame_def demo_header_def)

definition run_record :: segment_record where
  "run_record = \<lparr>sr_row = run_row, sr_exporters = []\<rparr>"

lemma run_committed:
  "committed_record Reader.demo_env run_header ''2025-07-11T00:00:00.000Z'' run_content = run_record"
  by (simp add: committed_record_def run_header_def demo_header_def run_record_def run_row_def demo_segment_def
      demo_env_simps run_lines run_content_def)

lemma demo_assembled:
  "build_segment demo_pipeline ''c1'' [demo_final] (utc demo_now) = Inr (run_header, [run_frame])"
proof -
  have stamp: "format_timestamp (utc demo_now) = Inr ''2025-07-11T00:00:00.000Z''"
    by (simp add: demo_now_def format_timestamp_utc valid_instant_def datetime_limit_def us_per_day_def stamp_eval)
  have parts: "envelope.truncate demo_final = fr_record demo_frame" "ev_scope demo_final = ''installation''"
    "ev_target demo_final = None" "ev_privacy demo_final = ''internal''" "fin_type demo_final = ''event''"
    by (simp_all add: demo_final_def envelope.defs demo_frame_def)
  have "make_batch_id demo_pipeline ''c1'' [ev_record_id demo_final] (utc demo_now) = Inr demo_batch_id"
    by (simp add: make_batch_id_def stamp demo_pipeline_def demo_env_simps demo_batch_id_def del: replicate.simps)
  moreover have "numbered_frames demo_batch_id [demo_final] = [run_frame]"
    by (simp add: numbered_frames_def run_frame_def parts)
  moreover have "\<lparr>hd_batch = demo_batch_id, hd_config_generation = pl_generation demo_pipeline,
      hd_scope = ''installation'', hd_target = None, hd_privacy = ''internal'', hd_retention_days = 30,
      hd_exporters = [], hd_record_count = 1,
      hd_content_sha256 = spool_content_sha256 (spool_env.en_sha_hex Reader.demo_env) [run_frame_line]\<rparr> = run_header"
    by (simp add: run_header_def demo_header_def demo_pipeline_def spool_content_sha256_def demo_env_simps del: replicate.simps)
  moreover have "pl_spool demo_pipeline = Reader.demo_env" "pl_exporters demo_pipeline = []"
    "retention_days demo_pipeline ''event'' = Inr 30"
    by (simp_all add: demo_pipeline_def retention_days_def retention_fields_def)
  ultimately show ?thesis
    by (simp add: build_segment_def parts one_value_def check_res_def demo_env_simps run_lines)
qed

section \<open>The commit\<close>

definition run_path :: string where
  "run_path = pending_path ''/s/spool'' (sg_day run_row) demo_batch_id"

definition run_tables :: tables where
  "run_tables = empty_tables\<lparr>segments := [run_row]\<rparr>"

definition run_disk :: spool_world where
  "run_disk = demo_disk run_tables [(run_path, published run_content)]"

lemma run_published:
  "publish_segment_bytes None run_path run_content (demo_disk empty_tables []) =
     (Inr (), demo_disk empty_tables [(run_path, published run_content)])"
  by (simp add: publish_segment_bytes_def)

lemma run_recorded: "commit_ledger run_record (demo_disk empty_tables fs) = (Inr (), demo_disk run_tables fs)"
proof -
  have "list_all in_int64 [sg_schema_version run_row, sg_frame_version run_row, sg_retention_days run_row,
      sg_record_count run_row, sg_byte_size run_row]"
    by code_simp
  then show ?thesis
    using run_row_check
    by (simp add: commit_ledger_def normalise_def handle_def transaction_quiet insert_segment_row_def andthen_def
        insert_segment_def sql_cases demo_disk_def quiet_def ret_def run_record_def run_tables_def empty_tables_def Let_def)
qed

lemma run_acts:
  "publish_and_record \<lparr>ca_directory = True, ca_create = None\<rparr> ''/s/spool'' run_record run_content demo_fresh =
     (Inr (), demo_fresh\<lparr>rn_world := run_disk\<rparr>)"
proof -
  have "pending_path ''/s/spool'' (sg_day (sr_row run_record)) (sg_batch (sr_row run_record)) = run_path"
    by (simp add: run_record_def run_path_def run_row_parts)
  then show ?thesis
    by (simp add: publish_and_record_def on_spool_def pending_day_dir_def check_def andthen_def ret_def demo_fresh_world
        run_published run_recorded run_disk_def)
qed

lemma run_commits:
  "commit_segment Reader.demo_env \<lparr>ca_directory = True, ca_create = None\<rparr> ''/s/spool'' demo_installation run_header
     [run_frame] (utc demo_now) demo_fresh = (Inr run_record, demo_fresh\<lparr>rn_world := run_disk\<rparr>)"
proof -
  have "authorize_local_persistence (hd_privacy run_header) = Inr ()"
    by (simp add: authorize_local_persistence_Inr run_header_def demo_header_def)
  then show ?thesis
    by (simp add: commit_segment_def andthen_def lift_res_def demo_now_def demo_stamped run_build run_committed demo_write
        ret_def Let_def run_acts)
qed

lemma run_opens: "durable_spool Reader.demo_env ''/s/spool'' demo_installation demo_fresh = (Inr demo_clean, demo_fresh)"
proof -
  have bound: "require_bound_state_root Reader.demo_env ''/s/spool'' demo_installation = Inr ''/s/spool''"
    by (simp add: require_bound_state_root_def demo_env_simps demo_installation_ok)
  have "take_lock demo_fresh = (Inr (), demo_fresh)"
    by (simp add: take_lock_def Let_def demo_fresh_def demo_recon_def)
  then show ?thesis
    using demo_scan bound
    by (simp add: durable_spool_def reconcile_then_write_def reconcile_under_barrier_def andthen_def lift_res_def ret_def
        demo_clean_def)
qed

section \<open>The cursor and the acknowledgement\<close>

definition run_cursor :: cursor_row where
  "run_cursor = \<lparr>cr_position = ''p1'', cr_batch = Some demo_batch_id, cr_revision = 1,
     cr_updated_at = ''2025-07-11T00:00:00.000Z''\<rparr>"

definition run_final :: spool_world where
  "run_final = demo_disk (run_tables\<lparr>cursors := [(''c1'', run_cursor)]\<rparr>) [(run_path, published run_content)]"

lemma run_cursor_check: "cursor_check ''c1'' run_cursor" "py_len ''c1'' = 2" "py_len ''p1'' = 2"
    "py_len demo_batch_id = 27" "demo_batch_id \<noteq> []"
  by code_simp+

lemma run_reads: "read_cursor ''c1'' (demo_disk empty_tables fs) = (Inr None, demo_disk empty_tables fs)"
  by (simp add: read_cursor_def validate_identifier_def check_def andthen_def normalise_def handle_def db_connection_def
      select_quiet ret_def empty_tables_def run_cursor_check)

lemma run_advances:
  "advance_cursor ''c1'' \<lparr>ci_position = ''p1'', ci_batch = demo_batch_id, ci_now = utc demo_now\<rparr> 0 run_disk =
     (Inr \<lparr>sc_source = ''c1'', sc_position = ''p1'', sc_batch = Some demo_batch_id, sc_revision = 1,
        sc_updated_at = ''2025-07-11T00:00:00.000Z''\<rparr>, run_final)"
proof -
  have stamp: "format_timestamp (utc demo_now) = Inr ''2025-07-11T00:00:00.000Z''"
    by (simp add: demo_now_def format_timestamp_utc valid_instant_def datetime_limit_def us_per_day_def stamp_eval)
  have idents: "validate_identifier ''c1'' k = ret ()" "validate_identifier ''p1'' k = ret ()"
      "validate_identifier demo_batch_id k = ret ()" for k
    by (simp_all add: validate_identifier_def check_def ret_def run_cursor_check)
  show ?thesis
    using run_cursor_check(1)
    by (simp add: advance_cursor_def idents validate_count_def check_def andthen_def normalise_def handle_def lift_res_def stamp
        ret_def transaction_quiet advance_cursor_body_def select_def sql_cases demo_disk_def quiet_def run_disk_def
        run_final_def run_tables_def empty_tables_def segment_committed_def cursor_revision_def upsert_cursor_def
        run_row_parts run_cursor_def in_int64_def min_int64_def max_int64_def)
qed

lemma run_acked:
  "write_outbox_ack Reader.demo_env demo_ack_ok ''/r'' ''a.json'' demo_ack [] = (Inr (), [(''/r/a.json'', owner_file demo_ack_text)])"
  by (simp add: write_outbox_ack_def ack_path_def demo_ack_place demo_env_simps demo_ack_bytes andthen_def lift_res_def
      demo_ack_ok_def)

section \<open>The run\<close>

definition run_item :: work where
  "run_item = \<lparr>wk_collector = ''c1'', wk_status = ''ok'', wk_error = None, wk_drafts = 1, wk_committed = 1,
     wk_delivered = 0, wk_failed = 0, wk_batch = Some demo_batch_id\<rparr>"

definition run_summary_of :: "work list \<Rightarrow> run_summary" where
  "run_summary_of ws = \<lparr>su_mode = ''spool_only'', su_export_error = None, su_collectors = ws, su_fired = 0, su_resolved = 0,
     su_alerts_error = None, su_intents = 0, su_intents_error = None\<rparr>"

definition run_end :: pipe where
  "run_end = \<lparr>pi_recon = demo_fresh\<lparr>rn_world := run_final\<rparr>, pi_views = [], pi_answers = [],
     pi_acks = [(''/r/a.json'', owner_file demo_ack_text)], pi_ack_answers = [], pi_item = run_item, pi_works = [run_item],
     pi_samples = [(''c1'', ''success'', Some ''r'')]\<rparr>"

lemma demo_fields:
  "pl_spool demo_pipeline = Reader.demo_env" "pl_mode demo_pipeline = ''spool_only''" "pl_root demo_pipeline = ''/s/spool''"
  "pl_installation demo_pipeline = demo_installation" "pl_rules demo_pipeline = []" "pl_channels demo_pipeline = []"
  "pl_registry demo_pipeline = [(''site_canary'', \<lambda>_. Inr (Collector_Object demo_canary))]"
  "pl_redact demo_pipeline = (\<lambda>_. Inr ''from [host]'')" "pl_accepts demo_pipeline = (\<lambda>_. True)"
  "pl_finalize demo_pipeline = (\<lambda>_ _. Inr demo_final)" "pl_redaction_version demo_pipeline = ''r2''"
  by (simp_all add: demo_pipeline_def)

lemma demo_finalized: "finalize demo_pipeline demo_draft = Inr demo_final"
  by (simp add: finalize_def redact_draft_def free_text_fields_def demo_draft_def demo_fields Let_def)

lemma demo_sampled: "fin_type demo_final = ''event''" "fin_event demo_final = Some (''availability'', ''healthy'')"
    "ev_record_id demo_final = ''r''"
  by (simp_all add: demo_final_def envelope.defs demo_frame_def)

lemma demo_collected: "collect demo_canary cx = Inr demo_result"
proof -
  have "diagnostic_key_match ''samples''" "advance_init demo_advance = Inr demo_advance"
    by code_simp+
  then have "result_init demo_result = Inr demo_result" "advance_init demo_advance = Inr demo_advance"
    by (simp_all add: result_init_def demo_result_def check_res_def max_result_drafts_def max_diagnostic_fields_def
        max_int64_def)
  then show ?thesis by (simp add: collect_def demo_canary_def) (simp add: demo_result_def)
qed

lemma demo_context:
  "context_init \<lparr>cx_now = utc demo_now, cx_installation = demo_installation, cx_collector = d, cx_target = None,
     cx_timeout = 10, cx_cursor = None\<rparr> = Inr \<lparr>cx_now = utc demo_now, cx_installation = demo_installation,
     cx_collector = d, cx_target = None, cx_timeout = 10, cx_cursor = None\<rparr>"
  by (simp add: context_init_def truncate_utc valid_instant_def demo_now_def datetime_limit_def us_per_day_def
      demo_installation_ok check_res_def)

lemma demo_resolved: "resolve (pl_registry demo_pipeline) demo_config = Inr demo_canary"
proof -
  have "validate_type_name ''site_canary'' = Inr ''site_canary''" by code_simp
  then show ?thesis by (simp add: resolve_def demo_fields demo_config_def require_collector_def)
qed

lemma fresh_again: "demo_fresh\<lparr>rn_world := demo_disk empty_tables []\<rparr> = demo_fresh"
  by (simp add: demo_fresh_def demo_recon_def)

lemma demo_commit_step:
  "commit demo_pipeline ''/s/spool'' run_header [run_frame] (utc demo_now) (demo_idle\<lparr>pi_item := w\<rparr>) =
     (Inr run_record, demo_idle\<lparr>pi_recon := demo_fresh\<lparr>rn_world := run_disk\<rparr>, pi_item := w\<rparr>)"
  by (simp add: commit_def next_view_def change_def andthen_def demo_idle_def on_recon_def demo_fields run_commits)

lemma demo_advance_step:
  "advance_source_cursor demo_pipeline ''c1'' ''p1'' demo_advance None (utc demo_now)
      (demo_idle\<lparr>pi_recon := demo_fresh\<lparr>rn_world := run_disk\<rparr>, pi_item := run_item\<rparr>) =
     (Inr (), demo_idle\<lparr>pi_recon := demo_fresh\<lparr>rn_world := run_final\<rparr>, pi_item := run_item,
        pi_acks := [(''/r/a.json'', owner_file demo_ack_text)], pi_ack_answers := []\<rparr>)"
  using run_advances run_acked
  by (simp add: advance_source_cursor_def handle_def andthen_def on_world_def on_recon_def on_spool_def demo_idle_def
      run_item_def write_ack_def demo_fields demo_advance_def)

lemma demo_one:
  "run_one demo_pipeline ''/s/spool'' [] (utc demo_now) demo_config demo_idle = (Inr (), run_end)"
proof -
  let ?s = "demo_idle\<lparr>pi_item := new_work ''c1''\<rparr>"
  let ?cx = "\<lparr>cx_now = utc demo_now, cx_installation = demo_installation, cx_collector = co_descriptor demo_canary,
     cx_target = None, cx_timeout = 10, cx_cursor = None\<rparr>"
  have read: "on_world (read_cursor ''c1'') ?s = (Inr None, ?s)"
    by (simp add: on_world_def on_recon_def on_spool_def demo_idle_def demo_fresh_world run_reads fresh_again)
  have parts: "cc_id demo_config = ''c1''" "cc_target demo_config = None" "cc_timeout demo_config = 10"
    "ds_id (co_descriptor demo_canary) = ''c1''" "rs_status demo_result = ''ok''" "rs_drafts demo_result = [demo_draft]"
    "rs_advance demo_result = Some demo_advance" "av_loss demo_advance = None" "av_position demo_advance = Some ''p1''"
    by (simp_all add: demo_config_def demo_canary_def demo_result_def demo_advance_def)
  have item: "(new_work ''c1'')\<lparr>wk_status := ''ok'', wk_drafts := 1, wk_committed := 1, wk_batch := Some demo_batch_id\<rparr> = run_item"
    by (simp add: new_work_def run_item_def)
  have result: "commit_result demo_pipeline ''/s/spool'' (utc demo_now) ''c1'' ?cx demo_result
      (demo_idle\<lparr>pi_item := (new_work ''c1'')\<lparr>wk_status := ''ok'', wk_drafts := 1\<rparr>\<rparr>) =
    (Inr (), run_end\<lparr>pi_works := []\<rparr>)"
    using demo_advance_step item
    by (simp add: commit_result_def parts demo_finalized demo_assembled demo_sampled andthen_lift_Inr andthen_def
        lift_res_def demo_commit_step update_item_def add_sample_def change_def run_record_def run_row_parts)
      (simp add: demo_idle_def run_end_def)
  have "run_collector demo_pipeline ''/s/spool'' [] (utc demo_now) demo_config ?s = (Inr (), run_end\<lparr>pi_works := []\<rparr>)"
    using result
    by (simp add: run_collector_def demo_resolved parts andthen_lift_Inr target_descriptor_of_def demo_context demo_collected
        demo_fields(4))
      (simp add: andthen_def check_def ret_def read demo_context demo_collected lift_res_def update_item_def change_def)
  then show ?thesis
    by (simp add: run_one_def parts andthen_def update_item_def change_def handle_def)
      (simp add: run_end_def)
qed

lemma demo_pipeline_run:
  "run_pipeline demo_pipeline demo_now [demo_config] [] demo_idle = (Inr (run_summary_of [run_item]), run_end)"
proof -
  have start: "demo_idle\<lparr>pi_works := [], pi_samples := []\<rparr> = demo_idle" by (simp add: demo_idle_def)
  have opened: "open_spool demo_pipeline demo_idle = (Inr ''/s/spool'', demo_idle)"
    by (simp add: open_spool_def next_view_def change_def andthen_def on_recon_def demo_idle_def demo_fields run_opens
        lift_res_def require_bound_state_root_def demo_env_simps demo_installation_ok)
  show ?thesis
    using start opened demo_one
    by (simp add: run_pipeline_def change_def andthen_def ret_def drive_alerts_def drive_intents_def demo_fields Let_def
        first_error_def run_summary_of_def)
      (simp add: run_end_def)
qed

end
