(* ===== verification/Writer.thy ===== *)
theory Writer
  imports Commit
begin

text \<open>
  What any writer of the spool may do to the spool and its tables, once and for all: a relation that
  tolerates the elementary effects of reconciliation and publication is kept by a whole commit.
\<close>

section \<open>The elementary effects\<close>

definition on_states :: "(spool_world \<Rightarrow> spool_world \<Rightarrow> bool) \<Rightarrow> recon \<Rightarrow> recon \<Rightarrow> bool" where
  "on_states R s s' \<longleftrightarrow> R (rn_world s) (rn_world s')"

lemma andthen_lift_Inl: "andthen (lift_res (Inl e)) f = throw e"
  by (simp add: andthen_def lift_res_def throw_def)

locale writer_steps =
  fixes R :: "spool_world \<Rightarrow> spool_world \<Rightarrow> bool" and P :: "string \<Rightarrow> bool"
  assumes order: "reflp R" "transp R"
    and insert: "keeps R (normalise state_caught e (transaction (insert_segment_row rec)))"
    and clear: "keeps R (clear_retirement batch)"
    and reads: "keeps R ledger_index" "keeps R retirement_index"
    and remove: "keeps R (remove_file path)"
    and gone: "R w (w\<lparr>files := AList.delete path (files w)\<rparr>)"
    and lock: "R w (w\<lparr>locks := tl (locks w)\<rparr>)"
    and publish: "P content \<Longrightarrow> keeps R (publish_segment_bytes answer path content)"
begin

lemma states_order: "reflp (on_states R)" "transp (on_states R)"
  using order by (auto simp: on_states_def reflp_def transp_def)

lemmas states_intros = keeps_ret [OF states_order(1)] keeps_throw [OF states_order(1)]
  keeps_lift_res [OF states_order(1)] keeps_andthen [OF states_order(2)] keeps_for_each [OF states_order]
  keeps_get_state

lemma states_same: "rn_world s' = rn_world s \<Longrightarrow> on_states R s s'"
  using reflpD [OF order(1)] by (simp add: on_states_def)

lemma keeps_quiet: "(\<And>s. rn_world (f s) = rn_world s) \<Longrightarrow> keeps (on_states R) (modify f)"
  by (rule keeps_modify) (simp add: states_same)

lemma keeps_on_spool: "keeps R m \<Longrightarrow> keeps (on_states R) (on_spool m)"
  unfolding keeps_def on_spool_def on_states_def by (fastforce split: prod.splits)

lemma keeps_scanning:
  "keeps (scanning en root installation ts) m \<Longrightarrow> keeps (on_states R) m"
  unfolding keeps_def scanning_def by (blast intro: states_same)

section \<open>Reconciliation\<close>

lemma keeps_clear: "keeps (on_states R) (on_spool (clear_retirement batch))"
  by (rule keeps_on_spool [OF clear])

lemma keeps_failure: "keeps (on_states R) (move_failure batch day kind detail)"
  unfolding move_failure_def by (rule keeps_quiet) simp

lemma keeps_remove: "keeps (on_states R) (on_spool (remove_file path))"
  by (rule keeps_on_spool [OF remove])

lemma keeps_stagings: "keeps (on_states R) (clean_stagings root xs)"
proof (induction xs)
  case (Cons x xs)
  obtain day nm where x: "x = (day, nm)" by fastforce
  have "on_states R s (s\<lparr>rn_cleanups := tl (rn_cleanups s),
      rn_world := (rn_world s)\<lparr>files := AList.delete (leaf_path root day nm) (files (rn_world s))\<rparr>\<rparr>)" for s
    by (auto simp: on_states_def intro: gone)
  then show ?case
    using Cons.IH by (auto simp: x states_same intro!: states_intros keeps_failure keeps_modify)
qed (simp add: states_intros)

lemma keeps_fenced: "keeps (on_states R) (delete_tombstone_fenced batch day)"
  unfolding delete_tombstone_fenced_def by (auto intro!: states_intros keeps_quiet keeps_clear keeps_failure)

lemma keeps_retirement: "keeps (on_states R) (complete_retirement en root day batch expected)"
  unfolding complete_retirement_def
  by (auto intro!: states_intros keeps_fenced keeps_clear keeps_remove keeps_handle [OF states_order(2)] keeps_failure
      split: py_exc.splits)

lemma keeps_move: "keeps (on_states R) (move_to_quarantine root item)"
proof -
  have "on_states R s (take_away root day nm s)" for day nm s
    using reflpD [OF order(1)] by (auto simp: take_away_def on_states_def intro: gone split: option.split)
  then show ?thesis
    unfolding move_to_quarantine_def
    by (auto simp: states_same split: prod.split move_outcome.split intro!: states_intros keeps_failure keeps_modify)
qed

lemma keeps_recover: "keeps (on_states R) (recover en root)"
  unfolding recover_def when_complete_def register_all_def register_def finish_recovery_def
  by (auto intro!: states_intros keeps_stagings keeps_quiet keeps_on_spool insert keeps_retirement keeps_fenced
      keeps_move)

lemma keeps_pass: "keeps (on_states R) (scan_pass en root installation)"
  unfolding scan_pass_def
  by (intro states_intros keeps_quiet keeps_on_spool reads keeps_recover keeps_scanning [OF scan_malformed] keeps_scanning [OF scan_inventory])
    (auto simp: fresh_scan_def intro!: keeps_scanning [OF scan_classify])

lemma keeps_lock: "keeps (on_states R) take_lock"
proof -
  have "rn_world (snd (take_lock s)) = (rn_world s)\<lparr>locks := tl (locks (rn_world s))\<rparr>" for s
    by (auto simp: take_lock_def Let_def split: list.split option.split)
  then have "on_states R s (snd (take_lock s))" for s
    using lock [of "rn_world s"] by (simp add: on_states_def)
  then show ?thesis by (auto simp: keeps_def dest!: arg_cong [where f = snd])
qed

lemma keeps_reconcile:
  assumes "\<And>act. action = Some act \<Longrightarrow> keeps (on_states R) act"
  shows "keeps (on_states R) (reconcile_under_barrier en root installation action)"
  unfolding reconcile_under_barrier_def
  using assms by (auto intro!: states_intros keeps_lock keeps_pass split: option.split)

section \<open>A commit\<close>

lemma keeps_durable: "keeps (on_states R) (durable_spool en root installation)"
  unfolding durable_spool_def reconcile_then_write_def Let_def
  by (auto intro!: states_intros keeps_reconcile)

lemma keeps_commit:
  assumes "\<And>content. build_segment_bytes en h frames = Inr content \<Longrightarrow> P content"
  shows "keeps (on_states R) (commit_segment en an root installation h frames at)"
proof -
  have act: "keeps (on_states R) (publish_and_record an root rec content)" if "P content" for rec content
    unfolding publish_and_record_def pending_day_dir_def commit_ledger_def
    by (intro keeps_on_spool keeps_andthen [OF order(2)] keeps_check [OF order(1)] publish [OF that] insert)
  have written: "keeps (on_states R) (reconcile_then_write en root installation (Some (publish_and_record an root rec content)))"
    if "P content" for rec content
    unfolding reconcile_then_write_def using act [OF that] by (auto intro!: states_intros keeps_reconcile)
  show ?thesis
  proof (cases "build_segment_bytes en h frames")
    case (Inl e)
    then show ?thesis
      unfolding commit_segment_def Let_def
      by (simp add: andthen_lift_Inl states_intros)
  next
    case (Inr content)
    then show ?thesis
      unfolding commit_segment_def Let_def using written [OF assms [OF Inr]]
      by (auto simp: andthen_lift_Inr intro!: states_intros)
  qed
qed

end

section \<open>Relations over the tables and the files\<close>

text \<open>A relation that looks only at the tables and the files need only tolerate six elementary changes of them.\<close>

locale writer_relation =
  fixes R :: "spool_world \<Rightarrow> spool_world \<Rightarrow> bool" and P :: "string \<Rightarrow> bool"
  assumes ordered: "reflp R" "transp R"
    and same: "db w' = db w \<Longrightarrow> files w' = files w \<Longrightarrow> R w w'"
    and rows: "db w' = (db w)\<lparr>segments := segments (db w) @ [x], seg_exporters := xs\<rparr> \<Longrightarrow> files w' = files w \<Longrightarrow> R w w'"
    and tombs: "db w' = (db w)\<lparr>retirements := rs\<rparr> \<Longrightarrow> files w' = files w \<Longrightarrow> R w w'"
    and lost: "db w' = db w \<Longrightarrow> files w' = AList.delete p (files w) \<Longrightarrow> R w w'"
    and put: "db w' = db w \<Longrightarrow> files w' = (p, published c) # files w \<Longrightarrow> map_of (files w) p = None \<Longrightarrow> P c \<Longrightarrow> R w w'"
begin

lemma keeps_same_spool: "keeps same_spool m \<Longrightarrow> keeps R m"
  unfolding keeps_def same_spool_def by (blast intro: same)

lemma keeps_insert:
  "keeps R (normalise state_caught e (transaction (insert_segment_row rec)))"
  unfolding keeps_def
proof (intro allI impI)
  fix w r w'
  let ?txn = "transaction (insert_segment_row rec) :: unit spool_prog"
  assume run: "normalise state_caught e ?txn w = (r, w')"
  obtain q where q: "?txn w = (q, w')"
    using run by (auto simp: normalise_def handle_def throw_def split: prod.splits sum.splits if_splits)
  have files: "files w' = files w" using keepsD [OF files_transaction [OF files_insert_row] q] .
  show "R w w'"
  proof (cases q)
    case (Inl x)
    then show ?thesis using transaction_Inl_db [OF q [unfolded Inl]] files by (intro same)
  next
    case (Inr u)
    then have "\<exists>xs. db w' = (db w)\<lparr>segments := segments (db w) @ [sr_row rec], seg_exporters := xs\<rparr>"
      using q by (auto simp: transaction_Inr dest!: insert_segment_row_Inr)
    then show ?thesis using files rows by blast
  qed
qed

end

sublocale writer_relation \<subseteq> writer_steps
proof
  show "keeps R (clear_retirement batch)" for batch
    by (auto simp: keeps_def dest!: db_clear_retirement intro: tombs same)
  show "keeps R (remove_file path)" for path
    by (auto simp: keeps_def dest!: remove_file_cases intro: lost same)
  show "keeps R (publish_segment_bytes answer path content)" if "P content" for answer path content
    using that by (auto simp: keeps_def dest!: publish_cases intro: put same)
qed (auto intro: ordered keeps_insert keeps_same_spool same_spool_index same_spool_retirements lost same)

section \<open>Three relations\<close>

text \<open>The ledger only grows, and every new file has a content that \<open>P\<close> allows.\<close>

definition grows :: "(string \<Rightarrow> bool) \<Rightarrow> spool_world \<Rightarrow> spool_world \<Rightarrow> bool" where
  "grows P w w' \<longleftrightarrow> (\<exists>new. segments (db w') = segments (db w) @ new) \<and>
     (\<forall>p node. map_of (files w') p = Some node \<longrightarrow> map_of (files w) p = Some node \<or> P (fn_content node))"

lemma grows_order [simp]: "reflp (grows P)" "transp (grows P)"
proof -
  show "reflp (grows P)" by (simp add: reflp_def grows_def)
  show "transp (grows P)"
  proof (rule transpI)
    fix a b c
    assume "grows P a b" "grows P b c"
    then show "grows P a c" unfolding grows_def by (metis append.assoc)
  qed
qed

text \<open>The frontier of every source stays.\<close>

definition same_cursors :: "spool_world \<Rightarrow> spool_world \<Rightarrow> bool" where
  "same_cursors w w' \<longleftrightarrow> cursors (db w') = cursors (db w)"

lemma same_cursors_order [simp]: "reflp same_cursors" "transp same_cursors"
  by (auto simp: reflp_def transp_def same_cursors_def)

text \<open>What other processes will do is not the writer's doing.\<close>

definition same_others :: "spool_world \<Rightarrow> spool_world \<Rightarrow> bool" where
  "same_others w w' \<longleftrightarrow> others w' = others w"

lemma same_others_order [simp]: "reflp same_others" "transp same_others"
  by (auto simp: reflp_def transp_def same_others_def)

lemma others_sql: "keeps same_others (sql binds f)"
  by (auto simp: keeps_def same_others_def sql_cases split: if_splits option.splits)

lemma others_select: "keeps same_others (select binds q)"
  unfolding select_def by (rule others_sql)

lemma others_connection: "keeps same_others db_connection"
  by (auto simp: keeps_def db_connection_def same_others_def split: if_splits)

lemma others_transaction: "keeps same_others m \<Longrightarrow> keeps same_others (transaction m)"
  unfolding keeps_def same_others_def
  by (fastforce simp: transaction_cases split: prod.splits sum.splits if_splits)

lemmas others_intros = keeps_andthen [OF same_others_order(2)] keeps_normalise [OF same_others_order]
  keeps_lift_res [OF same_others_order(1)] keeps_check [OF same_others_order(1)]
  keeps_ret [OF same_others_order(1)] keeps_for_each [OF same_others_order]
  keeps_handle [OF same_others_order(2)] others_sql others_select others_connection others_transaction

interpretation growth: writer_relation "grows P" P for P
  by unfold_locales
    (auto simp: grows_def published_def delete_conv' split: if_splits)

interpretation frontier: writer_relation same_cursors "\<lambda>_. True"
  by unfold_locales (auto simp: same_cursors_def)

interpretation bystanders: writer_steps same_others "\<lambda>_. True"
proof
  show "keeps same_others (normalise state_caught e (transaction (insert_segment_row rec)))" for e rec
    unfolding insert_segment_row_def insert_segment_def insert_exporter_def by (intro others_intros)
  show "keeps same_others (clear_retirement batch)" for batch
    unfolding clear_retirement_def delete_retirement_def
    by (intro others_intros) (auto intro!: others_intros split: if_splits)
  show "keeps same_others ledger_index"
    unfolding ledger_index_def index_row_def load_record_def load_exporters_def
    by (intro others_intros) (auto intro!: others_intros split: if_splits)
  show "keeps same_others retirement_index"
    unfolding retirement_index_def by (intro others_intros)
  show "keeps same_others (remove_file path)" for path
    by (auto simp: keeps_def same_others_def remove_file_def split: list.splits option.splits file_error.splits if_splits)
  show "keeps same_others (publish_segment_bytes answer path content)" for answer path content
    by (auto simp: keeps_def same_others_def publish_segment_bytes_def Let_def split: option.splits file_error.splits
        if_splits)
qed (simp_all add: same_others_def)

end
