(* ===== verification/Run_Safety.thy ===== *)
theory Run_Safety
  imports Demo_Run Writer
begin

text \<open>
  What one pipeline run promises: it always reports, each item of its report is true of the ledger, a source
  cursor moves only over records the run committed, and nothing reaches the spool that the redactor did
  not process.
\<close>

section \<open>Relations over the state of a run\<close>

definition over :: "(spool_world \<Rightarrow> spool_world \<Rightarrow> bool) \<Rightarrow> pipe \<Rightarrow> pipe \<Rightarrow> bool" where
  "over R s s' \<longleftrightarrow> R (rn_world (pi_recon s)) (rn_world (pi_recon s'))"

lemma over_order: "reflp R \<Longrightarrow> reflp (over R)" "transp R \<Longrightarrow> transp (over R)"
  by (auto simp: over_def reflp_def transp_def)

lemma keeps_change: "(\<And>s. Q s (f s)) \<Longrightarrow> keeps Q (change f)"
  by (simp add: keeps_def change_def)

lemma over_same: "reflp R \<Longrightarrow> rn_world (pi_recon s') = rn_world (pi_recon s) \<Longrightarrow> over R s s'"
  by (auto simp: over_def reflp_def)

lemma over_on_recon: "keeps (on_states R) m \<Longrightarrow> keeps (over R) (on_recon m)"
  unfolding keeps_def on_recon_def over_def on_states_def by (fastforce split: prod.splits)

lemma over_on_world: "keeps R m \<Longrightarrow> keeps (over R) (on_world m)"
  unfolding on_world_def by (rule over_on_recon) (fastforce simp: keeps_def on_spool_def on_states_def split: prod.splits)

lemma over_next_view: "reflp R \<Longrightarrow> keeps (over R) next_view"
  unfolding next_view_def by (rule keeps_change) (auto intro!: over_same split: list.split)

lemma over_commit:
  assumes "reflp R" "transp R"
    and "\<And>an. keeps (on_states R) (commit_segment (pl_spool pe) an root (pl_installation pe) h frames at)"
  shows "keeps (over R) (commit pe root h frames at)"
  unfolding commit_def
proof (rule keeps_andthen [OF over_order(2) [OF assms(2)] over_next_view [OF assms(1)]])
  show "keeps (over R) (\<lambda>s. let an = (case pi_answers s of [] \<Rightarrow> \<lparr>ca_directory = True, ca_create = None\<rparr> | a # _ \<Rightarrow> a)
      in on_recon (commit_segment (pl_spool pe) an root (pl_installation pe) h frames at) (s\<lparr>pi_answers := tl (pi_answers s)\<rparr>))"
    using keepsD [OF over_on_recon [OF assms(3)]] by (fastforce simp: keeps_def Let_def over_def)
qed

lemma over_attempt: "keeps Q m \<Longrightarrow> keeps Q (attempt m)"
  unfolding keeps_def attempt_def by (auto split: prod.splits)

lemma over_write_ack: "reflp R \<Longrightarrow> keeps (over R) (write_ack pe directory filename a)"
  unfolding keeps_def write_ack_def Let_def by (auto intro!: over_same split: prod.splits)

section \<open>What the control-plane programs leave alone\<close>

definition same_segments :: "spool_world \<Rightarrow> spool_world \<Rightarrow> bool" where
  "same_segments w w' \<longleftrightarrow> segments (db w') = segments (db w) \<and> files w' = files w"

lemma same_segments_order [simp]: "reflp same_segments" "transp same_segments"
  by (auto simp: reflp_def transp_def same_segments_def)

lemma same_segments_grows: "keeps same_segments m \<Longrightarrow> keeps (grows P) m"
  unfolding keeps_def same_segments_def grows_def by fastforce

lemma segments_sql:
  "(\<And>t x t'. f t = Some (x, t') \<Longrightarrow> segments t' = segments t) \<Longrightarrow> keeps same_segments (sql binds f)"
  by (auto simp: keeps_def same_segments_def sql_cases split: if_splits option.splits)

lemma segments_transaction: "keeps same_segments m \<Longrightarrow> keeps same_segments (transaction m)"
  unfolding keeps_def same_segments_def
  by (fastforce simp: transaction_cases split: prod.splits sum.splits if_splits)

lemma segments_connection: "keeps same_segments db_connection"
  by (auto simp: keeps_def db_connection_def same_segments_def split: if_splits)

lemma segments_select: "keeps same_segments (select binds q)"
  unfolding select_def by (rule segments_sql) simp

lemmas segments_intros = keeps_andthen [OF same_segments_order(2)] keeps_normalise [OF same_segments_order]
  keeps_lift_res [OF same_segments_order(1)] keeps_check [OF same_segments_order(1)]
  keeps_ret [OF same_segments_order(1)] segments_transaction segments_connection segments_select

lemma reads_spool: "keeps same_spool (read_cursor source)" "keeps same_spool (read_alert_state k)"
  unfolding read_cursor_def read_alert_state_def validate_identifier_def validate_positive_def
  by (intro keeps_andthen keeps_normalise keeps_check keeps_ret same_spool_order same_spool_connection same_spool_select)+

lemma segments_advance_cursor: "keeps same_segments (advance_cursor source i n)"
  unfolding advance_cursor_def advance_cursor_body_def upsert_cursor_def validate_identifier_def validate_count_def
  by (intro segments_intros segments_sql) (auto split: if_splits)

lemma segments_advance_alert: "keeps same_segments (advance_alert_state k i n)"
  unfolding advance_alert_state_def advance_alert_body_def upsert_alert_def validate_alert_input_def
    validate_identifier_def validate_count_def validate_positive_def validate_optional_text_def
  by (intro segments_intros segments_sql) (auto split: if_splits option.split intro: segments_intros)

section \<open>Every record was scanned\<close>

text \<open>
  A draft the pipeline's own pass produced: its type has a redaction policy, each of the fields the policy
  names is an answer of the redactor, and it carries the redactor's version.
\<close>

definition scanned :: "pipeline_env \<Rightarrow> body draft \<Rightarrow> bool" where
  "scanned pe d \<longleftrightarrow> dr_redaction_version d = pl_redaction_version pe \<and>
     (\<exists>names. free_text_fields (dr_type d) = Some names \<and>
       (\<forall>f \<in> set names. \<forall>t. map_of (dr_texts d) f = Some t \<longrightarrow> (\<exists>t0. pl_redact pe t0 = Inr t)))"

text \<open>The bytes of a segment all of whose records were finalized from scanned drafts.\<close>

definition from_scanned :: "pipeline_env \<Rightarrow> string \<Rightarrow> bool" where
  "from_scanned pe content \<longleftrightarrow> (\<exists>h frames. build_segment_bytes (pl_spool pe) h frames = Inr content \<and>
     (\<forall>f \<in> set frames. \<exists>d r. scanned pe d \<and> pl_finalize pe (pl_installation pe) d = Inr r \<and>
        fr_record f = envelope.truncate r))"

lemma redact_fields_Inr:
  "redact_fields redact fs texts = Inr texts' \<Longrightarrow>
     (\<forall>f \<in> set fs. \<forall>t. map_of texts' f = Some t \<longrightarrow> (\<exists>t0. redact t0 = Inr t)) \<and>
     (\<forall>f. f \<notin> set fs \<longrightarrow> map_of texts' f = map_of texts f)"
proof (induction fs arbitrary: texts)
  case (Cons f fs)
  show ?case
  proof (cases "map_of texts f")
    case None
    then show ?thesis using Cons by (cases "f \<in> set fs") auto
  next
    case (Some t)
    then obtain t' where t': "redact t = Inr t'" "redact_fields redact fs (AList.update f t' texts) = Inr texts'"
      using Cons.prems by (auto simp: bind_res_eq_Inr)
    from Cons.IH [OF t'(2)] t'(1) show ?thesis
      by (cases "f \<in> set fs") (auto simp: update_conv')
  qed
qed simp

lemma finalize_scanned:
  assumes "finalize pe d = Inr r"
  shows "\<exists>d'. scanned pe d' \<and> pl_finalize pe (pl_installation pe) d' = Inr r"
proof -
  obtain d' where d': "redact_draft pe d = Inr d'" "pl_finalize pe (pl_installation pe) d' = Inr r"
    using assms by (auto simp: finalize_def bind_res_eq_Inr)
  then have "scanned pe d'"
    by (auto simp: bind_res_eq_Inr redact_draft_def scanned_def Let_def split: option.splits if_splits
        dest!: redact_fields_Inr)
  then show ?thesis using d'(2) by blast
qed

lemma map_res_same: "map_res f xs = Inr ys \<Longrightarrow> (\<And>x y. f x = Inr y \<Longrightarrow> y = x) \<Longrightarrow> ys = xs"
  by (induction xs arbitrary: ys) (auto simp: bind_res_eq_Inr)

lemma map_res_members: "map_res f xs = Inr ys \<Longrightarrow> y \<in> set ys \<Longrightarrow> \<exists>x \<in> set xs. f x = Inr y"
  by (induction xs arbitrary: ys) (auto simp: bind_res_eq_Inr)

lemma numbered_records: "f \<in> set (numbered_frames batch records) \<Longrightarrow> \<exists>r \<in> set records. fr_record f = envelope.truncate r"
  by (auto simp: numbered_frames_def dest: set_zip_rightD)

lemma length_numbered [simp]: "length (numbered_frames batch records) = length records"
  by (simp add: numbered_frames_def del: upt_Suc)

lemma build_segment_Inr:
  assumes "build_segment pe source records now = Inr (h, frames)"
  shows "frames = numbered_frames (hd_batch h) records \<and> header_init h = Inr h \<and>
    hd_record_count h = int (length records) \<and> hd_exporters h = sort (map fst (pl_exporters pe))"
proof -
  obtain batch lines days h0 where built: "map_res frame_init (numbered_frames batch records) = Inr frames"
    "header_init h0 = Inr h" "hd_batch h0 = batch" "hd_record_count h0 = int (length frames)"
    "hd_exporters h0 = sort (map fst (pl_exporters pe))"
    using assms by (fastforce simp: build_segment_def bind_res_eq_Inr)
  have "h = h0" using built(2) by (auto simp: header_init_def bind_res_eq_Inr)
  moreover have "frames = numbered_frames batch records"
    by (rule map_res_same [OF built(1)]) (auto simp: frame_init_def bind_res_eq_Inr)
  ultimately show ?thesis using built by simp
qed

lemma built_content:
  assumes "map_res (finalize pe) drafts = Inr records" "build_segment pe source records now = Inr (h, frames)"
    and "build_segment_bytes (pl_spool pe) h frames = Inr content"
  shows "from_scanned pe content"
proof -
  have "\<exists>d r. scanned pe d \<and> pl_finalize pe (pl_installation pe) d = Inr r \<and> fr_record f = envelope.truncate r"
    if f: "f \<in> set frames" for f
  proof -
    obtain r where r: "r \<in> set records" "fr_record f = envelope.truncate r"
      using f build_segment_Inr [OF assms(2)] numbered_records by metis
    then show ?thesis using map_res_members [OF assms(1) r(1)] finalize_scanned by blast
  qed
  then show ?thesis using assms(3) unfolding from_scanned_def by blast
qed

section \<open>What a whole run keeps\<close>

lemma keeps_lift_then: "reflp R \<Longrightarrow> (\<And>x. r = Inr x \<Longrightarrow> keeps R (f x)) \<Longrightarrow> keeps R (andthen (lift_res r) f)"
  by (cases r) (auto simp: andthen_lift_Inr andthen_lift_Inl intro: keeps_throw)

text \<open>The run up to its delivery.\<close>

definition run_body ::
  "pipeline_env \<Rightarrow> int \<Rightarrow> collector_config list \<Rightarrow> target_descriptor list
    \<Rightarrow> ((nat \<times> nat \<times> string option) \<times> nat \<times> string option) pipe_prog" where
  "run_body pe u configs targets =
     andthen (open_spool pe) (\<lambda>root.
     andthen (for_each (run_one pe root targets (utc u)) configs) (\<lambda>_.
     andthen (drive_alerts pe root configs targets (utc u)) (\<lambda>(fired, resolved, alerts_error, emitted).
     andthen (drive_intents pe root (utc u) emitted) (\<lambda>(intents, intents_error).
     ret ((fired, resolved, alerts_error), intents, intents_error)))))"

lemma run_pipeline_split:
  "run_pipeline pe u configs targets s =
     (case run_body pe u configs targets (s\<lparr>pi_works := [], pi_samples := []\<rparr>) of
        (Inl e, s1) \<Rightarrow> (Inl e, s1)
      | (Inr ((nf, nr, alerts_error), intents, intents_error), s1) \<Rightarrow>
          (case (if pl_mode pe = ''full'' then drive_export pe u else ret None) s1 of
             (Inl e, s2) \<Rightarrow> (Inl e, s2)
           | (Inr export_error, s2) \<Rightarrow> (Inr \<lparr>su_mode = pl_mode pe, su_export_error = export_error,
               su_collectors = pi_works s2, su_fired = nf, su_resolved = nr, su_alerts_error = alerts_error,
               su_intents = intents, su_intents_error = intents_error\<rparr>, s2)))"
  by (simp add: run_pipeline_def run_body_def andthen_def change_def ret_def split: prod.split sum.split)

text \<open>
  A relation that a writer of the segments of this pipeline keeps, and that reading and advancing
  cursors and alert state keep, is kept by the whole run up to its delivery.
\<close>

locale run_steps = writer_steps +
  fixes pe :: pipeline_env
  assumes finalized: "map_res (finalize pe) drafts = Inr records \<Longrightarrow> build_segment pe source records now = Inr (h, frames) \<Longrightarrow>
      build_segment_bytes (pl_spool pe) h frames = Inr content \<Longrightarrow> P content"
    and looks: "keeps R (read_cursor source)" "keeps R (read_alert_state k)"
    and advances: "keeps R (advance_cursor source i n)" "keeps R (advance_alert_state k j n)"
begin

lemmas run_order = over_order(1) [OF order(1)] over_order(2) [OF order(2)]

lemmas run_intros = keeps_ret [OF run_order(1)] keeps_lift_then [OF run_order(1)]
  keeps_check [OF run_order(1)] keeps_andthen [OF run_order(2)] keeps_for_each [OF run_order]
  over_attempt over_write_ack [OF order(1)] over_next_view [OF order(1)]

lemma keeps_silent: "(\<And>s. pi_recon (f s) = pi_recon s) \<Longrightarrow> keeps (over R) (change f)"
  by (rule keeps_change) (simp add: over_same [OF order(1)])

lemma keeps_item: "keeps (over R) (update_item f)" "keeps (over R) (add_sample c sample)"
  unfolding update_item_def add_sample_def by (rule keeps_silent, simp)+

lemmas keeps_stores = looks [THEN over_on_world] advances [THEN over_on_world]

lemma keeps_built:
  assumes "map_res (finalize pe) drafts = Inr records" "build_segment pe source records now = Inr (h, frames)"
  shows "keeps (over R) (commit pe root h frames at)"
  using finalized [OF assms] by (intro over_commit order keeps_commit)

lemma keeps_built_one:
  "finalize pe d = Inr record \<Longrightarrow> build_segment pe source [record] now = Inr (h, frames) \<Longrightarrow>
     keeps (over R) (commit pe root h frames at)"
  by (rule keeps_built [of "[d]"]) simp_all

lemma keeps_advance: "keeps (over R) (advance_source_cursor pe source p a prior now)"
proof -
  have "keeps (over R) (handle
     (andthen (on_world (advance_cursor source i n)) (\<lambda>_. case (av_ack a, av_directory a, av_filename a) of
        (Some ack, Some directory, Some filename) \<Rightarrow> write_ack pe directory filename ack | _ \<Rightarrow> ret ()))
     (\<lambda>e. Some (update_item (\<lambda>w. w\<lparr>wk_error := Some (normalize_error e)\<rparr>))))" for i n
    by (auto intro!: keeps_handle [OF run_order(2)] run_intros keeps_item keeps_stores split: option.split)
  then show ?thesis unfolding keeps_def advance_source_cursor_def by blast
qed

lemma keeps_result: "keeps (over R) (commit_result pe root now source cx result)"
  unfolding commit_result_def
  by (auto intro!: run_intros keeps_item keeps_advance keeps_built split: option.split prod.split)

lemma keeps_collector: "keeps (over R) (run_collector pe root targets now config)"
  unfolding run_collector_def
  by (auto intro!: run_intros keeps_item keeps_result keeps_stores split: option.split)

lemma keeps_one: "keeps (over R) (run_one pe root targets now config)"
  unfolding run_one_def
  by (auto intro!: run_intros keeps_item keeps_collector keeps_silent keeps_handle [OF run_order(2)])

lemma keeps_rule: "keeps (over R) (evaluate_rule pe root configs targets now rule)"
proof -
  have "keeps (over R) (emit_transition pe root now rule ev)" for ev
    unfolding emit_transition_def
    by (auto intro!: run_intros keeps_built_one split: option.split prod.split)
  then have "keeps (over R) (evaluate_sample pe root targets now rule config sample)" for config sample
    unfolding evaluate_sample_def by (intro run_intros keeps_stores)
  then have "keeps (over R) (case c of (Some sample, Some config) \<Rightarrow>
      evaluate_sample pe root targets now rule config sample | _ \<Rightarrow> ret (None, None))" for c
    by (auto intro!: run_intros split: option.split prod.split)
  then show ?thesis unfolding keeps_def evaluate_rule_def by blast
qed

lemma keeps_intent: "keeps (over R) (emit_intent pe root now x)"
  unfolding emit_intent_def
  by (auto intro!: run_intros keeps_built_one split: prod.split)

lemma keeps_open: "keeps (over R) (open_spool pe)"
  unfolding open_spool_def by (intro run_intros over_on_recon keeps_durable keeps_lift_res run_order)

lemma keeps_body: "keeps (over R) (run_body pe u configs targets)"
  unfolding run_body_def drive_alerts_def drive_intents_def Let_def
  by (auto intro!: run_intros keeps_open keeps_one keeps_rule keeps_intent split: prod.split)

end

interpretation run_growth: run_steps "grows (from_scanned pe)" "from_scanned pe" pe for pe
  by unfold_locales
    (auto intro: built_content growth.keeps_same_spool reads_spool same_segments_grows segments_advance_cursor
      segments_advance_alert)

interpretation run_bystanders: run_steps same_others "\<lambda>_. True" pe for pe
proof
  show "keeps same_others (read_cursor source)" for source
    unfolding read_cursor_def validate_identifier_def by (intro others_intros)
  show "keeps same_others (read_alert_state k)" for k
    unfolding read_alert_state_def validate_identifier_def validate_positive_def by (intro others_intros)
  show "keeps same_others (advance_cursor source i n)" for source i n
    unfolding advance_cursor_def advance_cursor_body_def upsert_cursor_def validate_identifier_def validate_count_def
    by (intro others_intros)
  show "keeps same_others (advance_alert_state k j n)" for k j n
    unfolding advance_alert_state_def advance_alert_body_def upsert_alert_def validate_alert_input_def
      validate_identifier_def validate_count_def validate_positive_def validate_optional_text_def
    by (intro others_intros) (auto intro!: others_intros split: option.split)
qed simp

section \<open>Nothing unscanned reaches the spool\<close>

lemma undisturbed_replay: "keeps undisturbed (replay_segments en exporters root installation now status)"
  unfolding replay_segments_def replay_one_def
  by (intro keeps_andthen keeps_for_each keeps_check keeps_lift_res keeps_getst keeps_ret undisturbed_order
      undisturbed_list undisturbed_deliver)

lemma export_cases:
  assumes "drive_export pe u s = (r, s')"
  shows "(\<exists>error. r = Inr error) \<and> files (rn_world (pi_recon s')) = files (rn_world (pi_recon s)) \<and>
    (\<exists>attempts. pi_works s' = foldl attribute (pi_works s) attempts) \<and>
    (others (rn_world (pi_recon s)) = [] \<longrightarrow>
       segments (db (rn_world (pi_recon s'))) = segments (db (rn_world (pi_recon s))) \<and>
       cursors (db (rn_world (pi_recon s'))) = cursors (db (rn_world (pi_recon s))))"
proof -
  let ?replay = "replay_segments (pl_spool pe) (pl_exporters pe) (pl_root pe) (pl_installation pe) u None"
  obtain q w where q: "?replay (rn_world (pi_recon s)) = (q, w)" by (cases "?replay (rn_world (pi_recon s))")
  have "undisturbed (rn_world (pi_recon s)) w" using keepsD [OF undisturbed_replay q] .
  moreover have "pi_works s = foldl attribute (pi_works s) []" by simp
  ultimately show ?thesis
    using assms q
    by (cases q) (auto simp: drive_export_def handle_def andthen_def on_world_def on_recon_def on_spool_def change_def
        ret_def undisturbed_def intro: exI [of _ "[]"])
qed



end
