(* ===== verification/Run_Report.thy ===== *)
theory Run_Report
  imports Run_Safety
begin

text \<open>
  What the report of one pipeline run is worth: it has one item per configured collector, an item that
  names a batch is backed by a row the run committed, and a source cursor has moved at most to the batch
  its own collector committed in this run.
\<close>

section \<open>The committing step\<close>

abbreviation world :: "pipe \<Rightarrow> spool_world" where "world s \<equiv> rn_world (pi_recon s)"

lemma on_world_eq: "on_world m s =
    (fst (m (world s)), s\<lparr>pi_recon := (pi_recon s)\<lparr>rn_world := snd (m (world s))\<rparr>\<rparr>)"
  by (simp add: on_world_def on_recon_def on_spool_def split: prod.split)

text \<open>The ledger only grew, the cursors stayed, and neither the items nor what the item claims changed.\<close>

definition uncommitted :: "pipe \<Rightarrow> pipe \<Rightarrow> bool" where
  "uncommitted s s' \<longleftrightarrow> (\<exists>new. segments (db (world s')) = segments (db (world s)) @ new) \<and>
     cursors (db (world s')) = cursors (db (world s)) \<and> pi_works s' = pi_works s \<and>
     wk_collector (pi_item s') = wk_collector (pi_item s) \<and> wk_batch (pi_item s') = wk_batch (pi_item s) \<and>
     wk_committed (pi_item s') = wk_committed (pi_item s)"

lemma uncommitted_order [simp]: "reflp uncommitted" "transp uncommitted"
proof -
  show "reflp uncommitted" by (simp add: reflp_def uncommitted_def)
  show "transp uncommitted"
  proof (rule transpI)
    fix a b c
    assume "uncommitted a b" "uncommitted b c"
    then show "uncommitted a c" unfolding uncommitted_def by (metis append.assoc)
  qed
qed

lemma uncommitted_change:
  "(\<And>s. pi_recon (f s) = pi_recon s \<and> pi_works (f s) = pi_works s \<and> pi_item (f s) = pi_item s) \<Longrightarrow>
     keeps uncommitted (change f)"
  by (rule keeps_change) (simp add: uncommitted_def)

lemma uncommitted_item:
  "(\<And>w. wk_collector (f w) = wk_collector w \<and> wk_batch (f w) = wk_batch w \<and> wk_committed (f w) = wk_committed w) \<Longrightarrow>
     keeps uncommitted (update_item f)"
  "keeps uncommitted (add_sample c sample)"
  unfolding update_item_def add_sample_def by (rule keeps_change, simp add: uncommitted_def)+

lemma uncommitted_read: "keeps uncommitted (on_world (read_cursor source))"
  using keeps_snd [OF reads_spool(1)] by (auto simp: keeps_def on_world_eq same_spool_def uncommitted_def)

lemma uncommitted_view: "keeps uncommitted next_view"
  unfolding next_view_def by (rule keeps_change) (simp add: uncommitted_def split: list.split)

lemma uncommitted_reconcile:
  assumes "keeps (on_states (grows P)) m" "keeps (on_states same_cursors) m"
  shows "keeps uncommitted (on_recon m)"
  unfolding keeps_def
proof (intro allI impI)
  fix s r s'
  assume "on_recon m s = (r, s')"
  then obtain t where t: "m (pi_recon s) = (r, t)" "s' = s\<lparr>pi_recon := t\<rparr>"
    by (auto simp: on_recon_def split: prod.splits)
  from keepsD [OF assms(1) t(1)] keepsD [OF assms(2) t(1)] show "uncommitted s s'"
    by (simp add: t(2) uncommitted_def on_states_def grows_def same_cursors_def)
qed

lemma uncommitted_commit: "keeps uncommitted (commit pe root h frames at)"
proof -
  have "keeps uncommitted (on_recon (commit_segment (pl_spool pe) an root (pl_installation pe) h frames at))" for an
    by (rule uncommitted_reconcile [of "\<lambda>_. True"]) (simp_all add: growth.keeps_commit frontier.keeps_commit)
  then have "keeps uncommitted (\<lambda>s. let an = (case pi_answers s of [] \<Rightarrow> \<lparr>ca_directory = True, ca_create = None\<rparr> | a # _ \<Rightarrow> a)
      in on_recon (commit_segment (pl_spool pe) an root (pl_installation pe) h frames at) (s\<lparr>pi_answers := tl (pi_answers s)\<rparr>))"
    by (fastforce simp: keeps_def Let_def uncommitted_def)
  then show ?thesis
    unfolding commit_def by (intro keeps_andthen uncommitted_order uncommitted_view)
qed

lemma commit_row:
  assumes "commit pe root h frames at s = (Inr rec, s')"
  shows "sr_row rec \<in> set (segments (db (world s'))) \<and> sg_batch (sr_row rec) = hd_batch h \<and>
    sg_record_count (sr_row rec) = hd_record_count h \<and> sg_origin (sr_row rec) = ''committed'' \<and>
    hd_batch h \<notin> sg_batch ` set (segments (db (world s)))"
proof -
  obtain an t t' where run: "commit_segment (pl_spool pe) an root (pl_installation pe) h frames at t = (Inr rec, t')"
    "pi_recon s' = t'" "rn_world t = world s"
    using assms by (auto simp: commit_def next_view_def andthen_def change_def on_recon_def Let_def
        split: prod.splits list.splits)
  from run(1) show ?thesis
  proof (cases rule: commit_cases)
    case (acted resolved s1 stamp content r)
    have rec: "rec = committed_record (pl_spool pe) h stamp content" "r = Inr ()"
      using acted(6) by (auto split: sum.splits)
    obtain new where "segments (db (rn_world s1)) = segments (db (world s)) @ new"
      using acted(2) run(3) by (auto simp: recovering_def)
    then show ?thesis
      using publish_and_record_cases [OF acted(5)] rec run(2) by (auto simp: committed_record_def)
  qed simp_all
qed

text \<open>
  The item of a collector whose commit succeeded, and the cursor it moved: the batch is a new row of the
  ledger, and of the cursors at most the source's own moved, to that batch.
\<close>

definition backed :: "segment_row list \<Rightarrow> segment_row list \<Rightarrow> work \<Rightarrow> bool" where
  "backed before after w \<longleftrightarrow> (case wk_batch w of
     None \<Rightarrow> wk_committed w = 0
   | Some b \<Rightarrow> b \<notin> sg_batch ` set before \<and>
       (\<exists>x \<in> set after. sg_batch x = b \<and> sg_record_count x = wk_committed w \<and> sg_origin x = ''committed''))"

definition moved_to :: "(string \<times> cursor_row) list \<Rightarrow> work \<Rightarrow> string \<Rightarrow> bool" where
  "moved_to after w source \<longleftrightarrow> source = wk_collector w \<and> wk_batch w \<noteq> None \<and>
     (\<exists>row. map_of after source = Some row \<and> cr_batch row = wk_batch w)"

definition settled :: "pipe \<Rightarrow> work \<Rightarrow> pipe \<Rightarrow> bool" where
  "settled s w s' \<longleftrightarrow> (\<exists>new. segments (db (world s')) = segments (db (world s)) @ new) \<and>
     backed (segments (db (world s))) (segments (db (world s'))) w \<and>
     (\<forall>source. map_of (cursors (db (world s'))) source = map_of (cursors (db (world s))) source \<or>
        moved_to (cursors (db (world s'))) w source)"

lemma advance_source_cursor_cases:
  assumes "advance_source_cursor pe source p a prior now s = (q, s')"
  shows "q = Inr () \<and> pi_works s' = pi_works s \<and> segments (db (world s')) = segments (db (world s)) \<and>
    wk_collector (pi_item s') = wk_collector (pi_item s) \<and> wk_batch (pi_item s') = wk_batch (pi_item s) \<and>
    wk_committed (pi_item s') = wk_committed (pi_item s) \<and>
    (cursors (db (world s')) = cursors (db (world s)) \<or>
     (\<exists>row. cursors (db (world s')) = AList.update source row (cursors (db (world s))) \<and>
        cr_batch row = Some (case wk_batch (pi_item s) of None \<Rightarrow> [] | Some b \<Rightarrow> b)))"
proof -
  let ?i = "\<lparr>ci_position = p, ci_batch = (case wk_batch (pi_item s) of None \<Rightarrow> [] | Some b \<Rightarrow> b), ci_now = now\<rparr>"
  let ?n = "case prior of None \<Rightarrow> 0 | Some c \<Rightarrow> sc_revision c"
  obtain r w where r: "advance_cursor source ?i ?n (world s) = (r, w)"
    by (cases "advance_cursor source ?i ?n (world s)")
  have "segments (db w) = segments (db (world s))"
    using keepsD [OF segments_advance_cursor r] by (simp add: same_segments_def)
  moreover have "cursors (db w) = cursors (db (world s)) \<or>
     (\<exists>row. cursors (db w) = AList.update source row (cursors (db (world s))) \<and> cr_batch row = Some (ci_batch ?i))"
    using r by (cases r) (auto dest!: advance_cursor_Inl advance_cursor_Inr)
  ultimately show ?thesis
    using assms r
    by (auto simp: advance_source_cursor_def handle_def andthen_def on_world_eq write_ack_def Let_def ret_def
        update_item_def change_def split: sum.splits prod.splits option.splits)
qed

text \<open>What follows a commit cannot fail.\<close>

definition after_commit ::
  "pipeline_env \<Rightarrow> py_datetime \<Rightarrow> string \<Rightarrow> collector_context \<Rightarrow> body collector_result \<Rightarrow> final_record list
    \<Rightarrow> segment_record \<Rightarrow> unit pipe_prog" where
  "after_commit pe now source cx result records committed =
     andthen (update_item (\<lambda>w. w\<lparr>wk_committed := sg_record_count (sr_row committed),
         wk_batch := Some (sg_batch (sr_row committed))\<rparr>)) (\<lambda>_.
     andthen (case rs_advance result of
         None \<Rightarrow> ret ()
       | Some a \<Rightarrow> (case av_position a of
           None \<Rightarrow> ret () | Some p \<Rightarrow> advance_source_cursor pe source p a (cx_cursor cx) now)) (\<lambda>_.
     case availability_sample records of None \<Rightarrow> ret () | Some sample \<Rightarrow> add_sample source sample))"

lemma after_commit_cases:
  assumes "after_commit pe now source cx result records rec s = (q, s')"
  shows "q = Inr () \<and> pi_works s' = pi_works s \<and> segments (db (world s')) = segments (db (world s)) \<and>
    wk_collector (pi_item s') = wk_collector (pi_item s) \<and> wk_batch (pi_item s') = Some (sg_batch (sr_row rec)) \<and>
    wk_committed (pi_item s') = sg_record_count (sr_row rec) \<and>
    (cursors (db (world s')) = cursors (db (world s)) \<or>
     (\<exists>row. cursors (db (world s')) = AList.update source row (cursors (db (world s))) \<and>
        cr_batch row = Some (sg_batch (sr_row rec))))"
proof -
  let ?s1 = "s\<lparr>pi_item := (pi_item s)\<lparr>wk_committed := sg_record_count (sr_row rec),
      wk_batch := Some (sg_batch (sr_row rec))\<rparr>\<rparr>"
  let ?advance = "case rs_advance result of None \<Rightarrow> ret ()
     | Some a \<Rightarrow> (case av_position a of None \<Rightarrow> ret () | Some p \<Rightarrow> advance_source_cursor pe source p a (cx_cursor cx) now)"
  obtain r s2 where r: "?advance ?s1 = (r, s2)" by (cases "?advance ?s1")
  have "r = Inr () \<and> pi_works s2 = pi_works s \<and> segments (db (world s2)) = segments (db (world s)) \<and>
    wk_collector (pi_item s2) = wk_collector (pi_item s) \<and> wk_batch (pi_item s2) = Some (sg_batch (sr_row rec)) \<and>
    wk_committed (pi_item s2) = sg_record_count (sr_row rec) \<and>
    (cursors (db (world s2)) = cursors (db (world s)) \<or>
     (\<exists>row. cursors (db (world s2)) = AList.update source row (cursors (db (world s))) \<and>
        cr_batch row = Some (sg_batch (sr_row rec))))"
    using r by (auto simp: ret_def dest: advance_source_cursor_cases split: option.splits)
  then show ?thesis
    using assms r
    by (auto simp: after_commit_def andthen_def update_item_def add_sample_def change_def ret_def split: option.splits)
qed

lemma commit_result_cases:
  assumes "commit_result pe root now source cx result s = (out, s')"
  shows "(\<exists>e. out = Inl e) \<and> uncommitted s s' \<or>
    out = Inr () \<and> pi_works s' = pi_works s \<and> wk_collector (pi_item s') = wk_collector (pi_item s) \<and>
    (source = wk_collector (pi_item s) \<longrightarrow> settled s (pi_item s') s')"
proof -
  have same: "uncommitted s s" by (simp add: reflpD [OF uncommitted_order(1)])
  consider (early) e where "out = Inl e" "s' = s"
    | (built) records h frames where "andthen (commit pe root h frames (cx_now cx))
        (after_commit pe now source cx result records) s = (out, s')"
    using assms
    by (cases "map_res (finalize pe) (rs_drafts result)")
      (auto simp: commit_result_def after_commit_def [abs_def] andthen_lift_Inl andthen_lift_Inr andthen_def lift_res_def
        throw_def split: sum.splits prod.splits)
  then show ?thesis
  proof cases
    case early
    then show ?thesis using same by simp
  next
    case built
    obtain q s1 where q: "commit pe root h frames (cx_now cx) s = (q, s1)" by (cases "commit pe root h frames (cx_now cx) s")
    note quiet = keepsD [OF uncommitted_commit q]
    show ?thesis
    proof (cases q)
      case (Inl e)
      then show ?thesis using built q quiet by (auto simp: andthen_def)
    next
      case (Inr rec)
      note row = commit_row [OF q [unfolded Inr]]
      have late: "after_commit pe now source cx result records rec s1 = (out, s')"
        using built q Inr by (simp add: andthen_def)
      note after = after_commit_cases [OF late]
      have "settled s (pi_item s') s'" if "source = wk_collector (pi_item s)"
        using after quiet row that
        by (auto simp: settled_def backed_def moved_to_def uncommitted_def update_conv')
      then show ?thesis using after quiet by (simp add: uncommitted_def)
    qed
  qed
qed

section \<open>One collector\<close>

text \<open>
  A program that fails without having committed anything, or ends with the item settled, provided it
  started with a new item of \<open>source\<close>.
\<close>

definition commits_once :: "string \<Rightarrow> unit pipe_prog \<Rightarrow> bool" where
  "commits_once source m \<longleftrightarrow> (\<forall>s out s'. m s = (out, s') \<longrightarrow>
     (\<exists>e. out = Inl e) \<and> uncommitted s s' \<or>
     out = Inr () \<and> pi_works s' = pi_works s \<and> wk_collector (pi_item s') = wk_collector (pi_item s) \<and>
       (wk_collector (pi_item s) = source \<and> wk_batch (pi_item s) = None \<and> wk_committed (pi_item s) = 0 \<longrightarrow>
          settled s (pi_item s') s'))"

lemma settled_later: "uncommitted s s1 \<Longrightarrow> settled s1 w s' \<Longrightarrow> settled s w s'"
  unfolding uncommitted_def settled_def backed_def moved_to_def by (auto split: option.splits)

lemma commits_once_quiet:
  assumes "keeps uncommitted m"
  shows "commits_once source m"
  unfolding commits_once_def
proof (intro allI impI)
  fix s out s'
  assume "m s = (out :: unit res, s')"
  from keepsD [OF assms this]
  show "(\<exists>e. out = Inl e) \<and> uncommitted s s' \<or>
     out = Inr () \<and> pi_works s' = pi_works s \<and> wk_collector (pi_item s') = wk_collector (pi_item s) \<and>
       (wk_collector (pi_item s) = source \<and> wk_batch (pi_item s) = None \<and> wk_committed (pi_item s) = 0 \<longrightarrow>
          settled s (pi_item s') s')"
    by (cases out) (auto simp: uncommitted_def settled_def backed_def)
qed

lemma commits_once_andthen:
  assumes "keeps uncommitted m" "\<And>x. commits_once source (f x)"
  shows "commits_once source (andthen m f)"
  unfolding commits_once_def
proof (intro allI impI)
  fix s out s'
  assume run: "andthen m f s = (out, s')"
  obtain q s1 where q: "m s = (q, s1)" by (cases "m s")
  note quiet = keepsD [OF assms(1) q]
  show "(\<exists>e. out = Inl e) \<and> uncommitted s s' \<or>
     out = Inr () \<and> pi_works s' = pi_works s \<and> wk_collector (pi_item s') = wk_collector (pi_item s) \<and>
       (wk_collector (pi_item s) = source \<and> wk_batch (pi_item s) = None \<and> wk_committed (pi_item s) = 0 \<longrightarrow>
          settled s (pi_item s') s')"
  proof (cases q)
    case (Inl e)
    then show ?thesis using run q quiet by (auto simp: andthen_def)
  next
    case (Inr x)
    then have "f x s1 = (out, s')" using run q by (simp add: andthen_def)
    then consider "(\<exists>e. out = Inl e) \<and> uncommitted s1 s'"
      | "out = Inr () \<and> pi_works s' = pi_works s1 \<and> wk_collector (pi_item s') = wk_collector (pi_item s1) \<and>
         (wk_collector (pi_item s1) = source \<and> wk_batch (pi_item s1) = None \<and> wk_committed (pi_item s1) = 0 \<longrightarrow>
            settled s1 (pi_item s') s')"
      using assms(2) [of x] unfolding commits_once_def by blast
    then show ?thesis
    proof cases
      case 1
      then show ?thesis using transpD [OF uncommitted_order(2) quiet] by blast
    next
      case 2
      then show ?thesis using quiet settled_later [OF quiet] by (simp add: uncommitted_def)
    qed
  qed
qed

lemma commits_once_result: "commits_once source (commit_result pe root now source cx result)"
  unfolding commits_once_def using commit_result_cases by metis

lemma commits_once_collector: "commits_once (cc_id config) (run_collector pe root targets now config)"
proof -
  have tail: "commits_once source (case x of
       Some l \<Rightarrow> update_item (\<lambda>w. w\<lparr>wk_status := ''failed'', wk_error := Some (ls_code l)\<rparr>)
     | None \<Rightarrow> andthen (if failed then add_sample source y else ret ()) (\<lambda>_.
         if empty then ret () else commit_result pe root now source cx result))" for source x y failed empty cx result
    by (auto intro!: commits_once_andthen commits_once_result uncommitted_item keeps_ret
        intro: commits_once_quiet split: option.split)
  show ?thesis
    unfolding run_collector_def
    by (intro commits_once_andthen tail keeps_lift_res keeps_check uncommitted_read uncommitted_order uncommitted_item(1))
      simp_all
qed

lemma run_one_cases:
  assumes "run_one pe root targets now config s = (q, s')"
  shows "q = Inr () \<and> (\<exists>w. pi_works s' = pi_works s @ [w] \<and> wk_collector w = cc_id config \<and> settled s w s')"
proof -
  let ?s0 = "s\<lparr>pi_item := new_work (cc_id config)\<rparr>"
  obtain out s1 where out: "run_collector pe root targets now config ?s0 = (out, s1)"
    by (cases "run_collector pe root targets now config ?s0")
  then have "(\<exists>e. out = Inl e) \<and> uncommitted ?s0 s1 \<or>
      out = Inr () \<and> pi_works s1 = pi_works s \<and> wk_collector (pi_item s1) = cc_id config \<and> settled ?s0 (pi_item s1) s1"
    using commits_once_collector [of config pe root targets now, unfolded commits_once_def, rule_format, OF out]
    by (simp add: new_work_def)
  then consider e where "out = Inl e" "uncommitted ?s0 s1"
    | "out = Inr ()" "pi_works s1 = pi_works s" "wk_collector (pi_item s1) = cc_id config" "settled ?s0 (pi_item s1) s1"
    by blast
  then show ?thesis
  proof cases
    case (1 e)
    then show ?thesis
      using assms out
      by (auto simp: run_one_def andthen_def update_item_def change_def handle_def uncommitted_def new_work_def settled_def
          backed_def)
  next
    case 2
    then show ?thesis
      using assms out
      by (auto simp: run_one_def andthen_def update_item_def change_def handle_def settled_def)
  qed
qed

section \<open>The rest of the run\<close>

lemma cursors_sql:
  "(\<And>t x t'. f t = Some (x, t') \<Longrightarrow> cursors t' = cursors t) \<Longrightarrow> keeps same_cursors (sql binds f)"
  by (auto simp: keeps_def same_cursors_def sql_cases split: if_splits option.splits)

lemma cursors_transaction: "keeps same_cursors m \<Longrightarrow> keeps same_cursors (transaction m)"
  unfolding keeps_def same_cursors_def
  by (fastforce simp: transaction_cases split: prod.splits sum.splits if_splits)

lemmas cursors_intros = keeps_andthen [OF same_cursors_order(2)] keeps_normalise [OF same_cursors_order]
  keeps_lift_res [OF same_cursors_order(1)] keeps_check [OF same_cursors_order(1)]
  keeps_ret [OF same_cursors_order(1)] cursors_transaction

lemma cursors_alert: "keeps same_cursors (advance_alert_state k i n)"
  unfolding advance_alert_state_def advance_alert_body_def upsert_alert_def validate_alert_input_def
    validate_identifier_def validate_count_def validate_positive_def validate_optional_text_def select_def
  by (intro cursors_intros cursors_sql) (auto split: if_splits option.split intro: cursors_intros)

lemma uncommitted_world:
  assumes "keeps same_segments m" "keeps same_cursors m"
  shows "keeps uncommitted (on_world m)"
  using keeps_snd [OF assms(1)] keeps_snd [OF assms(2)]
  by (auto simp: keeps_def on_world_eq same_segments_def same_cursors_def uncommitted_def)

lemma uncommitted_alert_read: "keeps uncommitted (on_world (read_alert_state k))"
  using keeps_snd [OF reads_spool(2)] by (auto simp: keeps_def on_world_eq same_spool_def uncommitted_def)

lemmas uncommitted_intros = keeps_andthen [OF uncommitted_order(2)] keeps_ret [OF uncommitted_order(1)]
  keeps_lift_res [OF uncommitted_order(1)] keeps_check [OF uncommitted_order(1)]
  keeps_for_each [OF uncommitted_order] over_attempt uncommitted_commit uncommitted_view uncommitted_alert_read
  uncommitted_world [OF segments_advance_alert cursors_alert]

lemma uncommitted_rule: "keeps uncommitted (evaluate_rule pe root configs targets now rule)"
proof -
  have "keeps uncommitted (emit_transition pe root now rule ev)" for ev
    unfolding emit_transition_def by (auto intro!: uncommitted_intros split: option.split prod.split)
  then have "keeps uncommitted (evaluate_sample pe root targets now rule config sample)" for config sample
    unfolding evaluate_sample_def by (intro uncommitted_intros)
  then have "keeps uncommitted (case c of (Some sample, Some config) \<Rightarrow>
      evaluate_sample pe root targets now rule config sample | _ \<Rightarrow> ret (None, None))" for c
    by (auto intro!: uncommitted_intros split: option.split prod.split)
  then show ?thesis unfolding keeps_def evaluate_rule_def by blast
qed

lemma uncommitted_intent: "keeps uncommitted (emit_intent pe root now x)"
  unfolding emit_intent_def by (auto intro!: uncommitted_intros split: prod.split)

lemma uncommitted_open: "keeps uncommitted (open_spool pe)"
  unfolding open_spool_def
  by (intro uncommitted_intros uncommitted_reconcile [where P = "\<lambda>_. True"] growth.keeps_durable frontier.keeps_durable)

lemma uncommitted_late:
  "keeps uncommitted (drive_alerts pe root configs targets now)" "keeps uncommitted (drive_intents pe root now raised)"
  unfolding drive_alerts_def drive_intents_def Let_def
  by (intro uncommitted_intros uncommitted_rule uncommitted_intent)+

text \<open>The items of all collectors: one each, in order, with distinct batches, each settled over the whole of them.\<close>

definition batches :: "work list \<Rightarrow> string list" where
  "batches ws = [b. Some b \<leftarrow> map wk_batch ws]"

lemma batches_simps [simp]: "batches [] = []"
    "batches (w # ws) = (case wk_batch w of None \<Rightarrow> batches ws | Some b \<Rightarrow> b # batches ws)"
  by (simp_all add: batches_def split: option.split)

lemma batches_member: "b \<in> set (batches ws) \<longleftrightarrow> (\<exists>w \<in> set ws. wk_batch w = Some b)"
  by (induction ws) (auto split: option.split)

definition reports :: "segment_row list \<Rightarrow> (string \<times> cursor_row) list \<Rightarrow> collector_config list \<Rightarrow> work list \<Rightarrow> spool_world \<Rightarrow> bool" where
  "reports rows frontier configs ws w' \<longleftrightarrow> map wk_collector ws = map cc_id configs \<and> distinct (batches ws) \<and>
     (\<forall>w \<in> set ws. backed rows (segments (db w')) w) \<and>
     (\<forall>source. map_of (cursors (db w')) source = map_of frontier source \<or>
        (\<exists>w \<in> set ws. moved_to (cursors (db w')) w source))"

lemma backed_wider:
  "backed before after w \<Longrightarrow> set before0 \<subseteq> set before \<Longrightarrow> set after \<subseteq> set after' \<Longrightarrow> backed before0 after' w"
  by (fastforce simp: backed_def split: option.splits)

lemma run_collectors_cases:
  assumes "for_each (run_one pe root targets now) configs s = (q, s')"
  shows "(\<exists>us. q = Inr us) \<and> (\<exists>ws. pi_works s' = pi_works s @ ws \<and>
      reports (segments (db (world s))) (cursors (db (world s))) configs ws (world s')) \<and>
    (\<exists>new. segments (db (world s')) = segments (db (world s)) @ new)"
  using assms
proof (induction configs arbitrary: s q s')
  case Nil
  then show ?case by (auto simp: ret_def reports_def)
next
  case (Cons config configs)
  obtain q1 s1 where step: "run_one pe root targets now config s = (q1, s1)" by (cases "run_one pe root targets now config s")
  obtain q2 s2 where more_steps: "for_each (run_one pe root targets now) configs s1 = (q2, s2)"
    by (cases "for_each (run_one pe root targets now) configs s1")
  obtain w where w: "q1 = Inr ()" "pi_works s1 = pi_works s @ [w]" "wk_collector w = cc_id config" "settled s w s1"
    using run_one_cases [OF step] by blast
  obtain us ws new where ws: "q2 = Inr us" "pi_works s2 = pi_works s1 @ ws"
    "reports (segments (db (world s1))) (cursors (db (world s1))) configs ws (world s2)"
    "segments (db (world s2)) = segments (db (world s1)) @ new"
    using Cons.IH [OF more_steps] by blast
  obtain new1 where new1: "segments (db (world s1)) = segments (db (world s)) @ new1"
    using w(4) by (auto simp: settled_def)
  have end_state: "s' = s2" "\<exists>us. q = Inr us" using Cons.prems step more_steps w(1) ws(1) by (auto simp: andthen_def ret_def)
  have fresh: "distinct (batches (w # ws))"
  proof (cases "wk_batch w")
    case (Some b)
    then have "b \<in> sg_batch ` set (segments (db (world s1)))"
      using w(4) by (auto simp: settled_def backed_def)
    then have "b \<notin> set (batches ws)"
      using ws(3) by (auto simp: reports_def backed_def batches_member split: option.splits)
    then show ?thesis using ws(3) Some by (simp add: reports_def)
  qed (use ws(3) in \<open>simp add: reports_def\<close>)
  have "backed (segments (db (world s))) (segments (db (world s2))) x" if "x \<in> set (w # ws)" for x
    using that w(4) ws(3) unfolding reports_def settled_def
    by (auto simp: new1 ws(4) elim!: backed_wider)
  moreover have "map_of (cursors (db (world s2))) source = map_of (cursors (db (world s))) source \<or>
      (\<exists>x \<in> set (w # ws). moved_to (cursors (db (world s2))) x source)" for source
    using w(4) ws(3) unfolding reports_def settled_def moved_to_def by (metis list.set_intros)
  ultimately have "reports (segments (db (world s))) (cursors (db (world s))) (config # configs) (w # ws) (world s2)"
    using fresh w(3) ws(3) unfolding reports_def by simp
  then show ?case using end_state w(2) ws(2,4) new1 by (intro conjI exI [of _ "w # ws"]) auto
qed

text \<open>Alerts and intents never raise.\<close>

definition never_raises :: "'r pipe_prog \<Rightarrow> bool" where
  "never_raises m \<longleftrightarrow> (\<forall>s. \<exists>x. fst (m s) = Inr x)"

lemma never_raises_result: "never_raises m \<Longrightarrow> m s = (q, s') \<Longrightarrow> \<exists>x. q = Inr x"
  by (metis fst_conv never_raises_def)

lemma never_raises_andthen: "never_raises m \<Longrightarrow> (\<And>x. never_raises (f x)) \<Longrightarrow> never_raises (andthen m f)"
  unfolding never_raises_def
proof (intro allI)
  fix s
  assume m: "\<forall>s. \<exists>x. fst (m s) = Inr x" and f: "\<And>x. \<forall>s. \<exists>y. fst (f x s) = Inr y"
  obtain r s1 where r: "m s = (r, s1)" by (cases "m s")
  then obtain x where "r = Inr x" using m [rule_format, of s] by auto
  then show "\<exists>y. fst (andthen m f s) = Inr y" using r f [of x, rule_format, of s1] by (simp add: andthen_def)
qed

lemma never_raises_attempt: "never_raises (attempt m)" "never_raises (ret x)"
  by (simp_all add: never_raises_def attempt_def ret_def split: prod.split)

lemma never_raises_for_each: "(\<And>x. never_raises (f x)) \<Longrightarrow> never_raises (for_each f xs)"
  by (induction xs) (auto intro!: never_raises_andthen never_raises_attempt)

lemmas never_raises_intros = never_raises_andthen never_raises_for_each never_raises_attempt

lemma never_raises_late:
  "never_raises (drive_alerts pe root configs targets now)" "never_raises (drive_intents pe root now raised)"
  unfolding drive_alerts_def drive_intents_def Let_def by (intro never_raises_intros)+

lemma run_body_cases:
  assumes "run_body pe u configs targets s = (q, s')" "pi_works s = []"
  shows "(\<exists>e. q = Inl e \<and> open_spool pe s = (Inl e, s')) \<or>
    (\<exists>x. q = Inr x) \<and> reports (segments (db (world s))) (cursors (db (world s))) configs (pi_works s') (world s')"
proof -
  obtain r s1 where r: "open_spool pe s = (r, s1)" by (cases "open_spool pe s")
  note open_quiet = keepsD [OF uncommitted_open r]
  show ?thesis
  proof (cases r)
    case (Inl e)
    then show ?thesis using assms(1) r by (simp add: run_body_def andthen_def)
  next
    case (Inr root)
    obtain r2 s2 where r2: "for_each (run_one pe root targets (utc u)) configs s1 = (r2, s2)"
      by (cases "for_each (run_one pe root targets (utc u)) configs s1")
    note ran = run_collectors_cases [OF r2]
    let ?late = "andthen (drive_alerts pe root configs targets (utc u)) (\<lambda>(fired, resolved, alerts_error, emitted).
        andthen (drive_intents pe root (utc u) emitted) (\<lambda>(intents, intents_error).
        ret ((fired, resolved, alerts_error), intents, intents_error)))"
    have late: "?late s2 = (q, s')" using assms(1) r Inr r2 ran by (auto simp: run_body_def andthen_def)
    have "keeps uncommitted ?late" by (auto intro!: uncommitted_intros uncommitted_late split: prod.split)
    then have "uncommitted s2 s'" using late by (rule keepsD)
    moreover have "\<exists>x. q = Inr x"
      by (rule never_raises_result [where m = ?late, rotated, OF late]) (auto intro!: never_raises_intros never_raises_late split: prod.split)
    ultimately show ?thesis
      using ran open_quiet assms(2)
      by (auto simp: uncommitted_def reports_def elim!: backed_wider)
  qed
qed

section \<open>The report\<close>

definition claim :: "work \<Rightarrow> string \<times> string option \<times> int" where
  "claim w = (wk_collector w, wk_batch w, wk_committed w)"

lemma claims_attribute: "map claim (foldl attribute ws ats) = map claim ws"
proof (induction ats arbitrary: ws)
  case (Cons at ats)
  have "map claim (update_first Q f xs) = map claim xs" if "\<And>w. claim (f w) = claim w" for Q f xs
    using that by (induction xs) simp_all
  then have "map claim (attribute ws at) = map claim ws"
    by (auto simp: attribute_def rev_map [symmetric] claim_def)
  then show ?case using Cons.IH by simp
qed simp

lemma claims_determine:
  assumes "map claim ws = map claim vs" "reports rows frontier configs ws w'"
  shows "reports rows frontier configs vs w'"
proof -
  have parts: "map wk_collector ws = map wk_collector vs \<and> batches ws = batches vs"
    using map_eq_imp_length_eq [OF assms(1)] assms(1)
    by (induction ws vs rule: list_induct2) (simp_all add: claim_def split: option.split)
  have same: "backed rows after w = backed rows after v" "moved_to frontier' w source = moved_to frontier' v source"
    if "claim w = claim v" for w v after frontier' source
    using that by (simp_all add: claim_def backed_def moved_to_def split: option.split)
  have "claim ` set ws = claim ` set vs" using arg_cong [OF assms(1), of set] by simp
  then have members: "\<forall>v \<in> set vs. \<exists>w \<in> set ws. claim w = claim v" "\<forall>w \<in> set ws. \<exists>v \<in> set vs. claim w = claim v"
    by (metis imageE imageI)+
  show ?thesis
    using assms(2) parts unfolding reports_def by (metis same members)
qed

lemma run_reports:
  assumes "run_pipeline pe u configs targets s = (out, s')"
  shows "(\<exists>e. out = Inl e \<and> open_spool pe (s\<lparr>pi_works := [], pi_samples := []\<rparr>) = (Inl e, s')) \<or>
    (\<exists>su. out = Inr su \<and> map wk_collector (su_collectors su) = map cc_id configs \<and>
      (pl_mode pe \<noteq> ''full'' \<or> others (world s) = [] \<longrightarrow>
         reports (segments (db (world s))) (cursors (db (world s))) configs (su_collectors su) (world s')))"
proof -
  let ?s0 = "s\<lparr>pi_works := [], pi_samples := []\<rparr>"
  obtain q s1 where q: "run_body pe u configs targets ?s0 = (q, s1)" by (cases "run_body pe u configs targets ?s0")
  have cases: "(\<exists>e. q = Inl e \<and> open_spool pe ?s0 = (Inl e, s1)) \<or>
      (\<exists>x. q = Inr x) \<and> reports (segments (db (world s))) (cursors (db (world s))) configs (pi_works s1) (world s1)"
    using run_body_cases [OF q] by simp
  have quiet: "others (world s1) = others (world s)"
    using keepsD [OF run_bystanders.keeps_body q] by (simp add: over_def same_others_def)
  obtain r s2 where r: "(if pl_mode pe = ''full'' then drive_export pe u else ret None) s1 = (r, s2)"
    by (cases "(if pl_mode pe = ''full'' then drive_export pe u else ret None) s1")
  have export: "(\<exists>error. r = Inr error) \<and> (\<exists>attempts. pi_works s2 = foldl attribute (pi_works s1) attempts) \<and>
      (pl_mode pe \<noteq> ''full'' \<or> others (world s1) = [] \<longrightarrow> segments (db (world s2)) = segments (db (world s1)) \<and>
         cursors (db (world s2)) = cursors (db (world s1)))"
    using r export_cases [of pe u s1 r s2] by (auto simp: ret_def intro: exI [of _ "[]"] split: if_splits)
  then obtain attempts where attempts: "pi_works s2 = foldl attribute (pi_works s1) attempts" by blast
  have same: "reports rows frontier configs (pi_works s1) w' \<Longrightarrow> reports rows frontier configs (pi_works s2) w'" for rows frontier w'
    by (rule claims_determine [rotated]) (simp_all add: attempts claims_attribute)
  have moved: "reports rows frontier configs ws w' = reports rows frontier configs ws w''"
    if "segments (db w') = segments (db w'')" "cursors (db w') = cursors (db w'')" for rows frontier ws w' w''
    using that by (simp add: reports_def)
  show ?thesis
  proof (cases q)
    case (Inl e)
    then show ?thesis using assms q cases by (simp add: run_pipeline_split)
  next
    case (Inr x)
    then obtain su where su: "out = Inr su" "su_collectors su = pi_works s2" "s' = s2"
      using assms q r export by (cases x) (auto simp: run_pipeline_split)
    have base: "reports (segments (db (world s))) (cursors (db (world s))) configs (pi_works s1) (world s1)"
      using cases Inr by simp
    then have "map wk_collector (pi_works s2) = map cc_id configs"
      using same by (auto simp: reports_def)
    then show ?thesis using su base same export quiet moved [of "world s2" "world s1"] by auto
  qed
qed

text \<open>C29
  A run always reports. Whatever the collectors, the redactor, the record model, the store and the exporters do, a run
  raises only what opening the spool raised, before any collector ran; otherwise it returns a summary with exactly one
  item per configured collector, in the configured order.\<close>

theorem run_always_reports:
  "case run_pipeline pe u configs targets s of
     (Inl e, s') \<Rightarrow> open_spool pe (s\<lparr>pi_works := [], pi_samples := []\<rparr>) = (Inl e, s')
   | (Inr su, s') \<Rightarrow> map wk_collector (su_collectors su) = map cc_id configs"
proof -
  obtain out s' where run: "run_pipeline pe u configs targets s = (out, s')" by (cases "run_pipeline pe u configs targets s")
  from run_reports [OF run] show ?thesis by (auto simp: run)
qed

text \<open>C27
  A run's summary is true of the ledger: while no other process interferes with its deliveries, an item
  that names a batch has a row the run committed, new in the ledger, that records exactly as many records as the
  item reports committed; an item that names none reports none committed; and no two items name one batch.\<close>

theorem run_summary_truthful:
  assumes "run_pipeline pe u configs targets s = (Inr su, s')"
    and "others (rn_world (pi_recon s)) = []"
  shows "distinct [b. Some b \<leftarrow> map wk_batch (su_collectors su)] \<and> (\<forall>w \<in> set (su_collectors su).
    case wk_batch w of
      None \<Rightarrow> wk_committed w = 0
    | Some b \<Rightarrow> b \<notin> sg_batch ` set (segments (db (rn_world (pi_recon s)))) \<and>
        (\<exists>x \<in> set (segments (db (rn_world (pi_recon s')))). sg_batch x = b \<and> sg_record_count x = wk_committed w \<and>
           sg_origin x = ''committed''))"
  using run_reports [OF assms(1)] assms(2) by (simp add: reports_def backed_def batches_def)

text \<open>C28
  A source cursor moves only past committed records: while no other process interferes with its deliveries, a cursor
  that a run moved belongs to a collector of the run, and points to the batch that collector's item
  reports, which the run committed to the ledger.\<close>

theorem cursor_only_past_committed:
  assumes "run_pipeline pe u configs targets s = (Inr su, s')"
    and "others (rn_world (pi_recon s)) = []"
    and "map_of (cursors (db (rn_world (pi_recon s')))) source \<noteq> map_of (cursors (db (rn_world (pi_recon s)))) source"
  shows "\<exists>w b row x. w \<in> set (su_collectors su) \<and> wk_collector w = source \<and> wk_batch w = Some b \<and>
    map_of (cursors (db (rn_world (pi_recon s')))) source = Some row \<and> cr_batch row = Some b \<and>
    x \<in> set (segments (db (rn_world (pi_recon s')))) - set (segments (db (rn_world (pi_recon s)))) \<and>
    sg_batch x = b \<and> sg_record_count x = wk_committed w \<and> sg_origin x = ''committed''"
proof -
  have run: "reports (segments (db (world s))) (cursors (db (world s))) configs (su_collectors su) (world s')"
    using run_reports [OF assms(1)] assms(2) by simp
  then obtain w where w: "w \<in> set (su_collectors su)" "moved_to (cursors (db (world s'))) w source"
    using assms(3) unfolding reports_def by blast
  moreover have "backed (segments (db (world s))) (segments (db (world s'))) w" using run w(1) by (simp add: reports_def)
  ultimately show ?thesis by (fastforce simp: moved_to_def backed_def)
qed

section \<open>One run\<close>

lemma demo_worlds: "rn_world (pi_recon demo_idle) = demo_disk empty_tables []" "rn_world (pi_recon run_end) = run_final"
    "db run_final = run_tables\<lparr>cursors := [(''c1'', run_cursor)]\<rparr>" "others (demo_disk empty_tables []) = []"
    "segments run_tables = [run_row]" "segments empty_tables = []" "cursors empty_tables = []"
    "su_collectors (run_summary_of [run_item]) = [run_item]" "wk_batch run_item = Some demo_batch_id"
  by (simp_all add: demo_idle_def demo_fresh_world run_end_def run_final_def demo_disk_def run_tables_def
      empty_tables_def run_summary_of_def run_item_def)

theorem run_summary_truthful_witness: "sg_batch run_row = demo_batch_id \<and> sg_record_count run_row = wk_committed run_item"
  using run_summary_truthful [OF demo_pipeline_run] by (simp add: demo_worlds)

theorem cursor_only_past_committed_witness: "wk_collector run_item = ''c1'' \<and> cr_batch run_cursor = wk_batch run_item"
  using cursor_only_past_committed [OF demo_pipeline_run, of "''c1''"] by (simp add: demo_worlds)

section \<open>The room of a batch id\<close>

lemma make_batch_id_length:
  "make_batch_id pe source ids now = Inr b \<Longrightarrow> (\<And>x. length (spool_env.en_sha_hex (pl_spool pe) x) = 64) \<Longrightarrow>
     length b = length source + 25"
  by (auto simp: make_batch_id_def bind_res_eq_Inr)

lemma build_segment_room:
  assumes "build_segment pe source records now = Inr (h, frames)"
    and "\<And>x. length (spool_env.en_sha_hex (pl_spool pe) x) = 64"
  shows "length (hd_batch h) = length source + 25 \<and> length source \<le> 103"
proof -
  obtain b h0 where b: "make_batch_id pe source (map ev_record_id records) now = Inr b" "header_init h0 = Inr h" "hd_batch h0 = b"
    using assms(1) by (fastforce simp: build_segment_def bind_res_eq_Inr)
  then have "h = h0" "length b \<le> 128"
    by (auto simp: header_init_def bind_res_eq_Inr validate_batch_id_def token_match_def split: list.splits if_splits)
  then show ?thesis using make_batch_id_length [OF b(1) assms(2)] b(3) by simp
qed

text \<open>C30
  A notification whose rule and channel have long ids is never recorded: a batch id has room for 103 characters of
  its source besides the separator and the digest, the source of an intent is the alert's source, a separator and
  the channel, and whenever this is longer the intent is refused with nothing written, at any time and on every run,
  although each of the two ids alone may have 64 characters.\<close>

theorem long_intent_never_recorded:
  assumes "\<And>x. length (spool_env.en_sha_hex (pl_spool pe) x) = 64"
    and "103 < length (fin_source alert) + 1 + length (ch_id channel)"
  shows "\<exists>e. emit_intent pe root now (alert, channel) s = (Inl e, s)"
proof -
  have "build_segment pe (fin_source alert @ ''-'' @ ch_id channel) [rcd] now \<noteq> Inr (h, frames)" for rcd h frames
    using build_segment_room [OF _ assms(1)] assms(2) by fastforce
  then show ?thesis
    by (auto simp: emit_intent_def andthen_def lift_res_def split: sum.split)
qed

text \<open>
  Batch ids stay within their bound: every segment the pipeline builds has a batch id of exactly 25 characters more than
  its source, so of at most 128, and numbers its frames from 1 to the record count it declares.\<close>

theorem built_segment_bounds:
  assumes "build_segment pe source records now = Inr (h, frames)"
    and "\<And>x. length (spool_env.en_sha_hex (pl_spool pe) x) = 64"
  shows "length (hd_batch h) = length source + 25 \<and> length (hd_batch h) \<le> 128 \<and>
    hd_record_count h = int (length frames) \<and> 0 < length frames \<and>
    map fr_sequence frames = map int [1..<length frames + 1] \<and> (\<forall>f \<in> set frames. fr_batch f = hd_batch h)"
proof -
  note built = build_segment_Inr [OF assms(1)]
  have "records \<noteq> []" using assms(1) by (auto simp: build_segment_def bind_res_eq_Inr one_value_def)
  moreover have "map fr_sequence (numbered_frames b rs) = map int [1..<length rs + 1]" for b rs
    by (rule nth_equalityI) (simp_all add: numbered_frames_def del: upt_Suc)
  moreover have "\<forall>f \<in> set (numbered_frames b rs). fr_batch f = b" for b rs
    by (auto simp: numbered_frames_def)
  ultimately show ?thesis using built build_segment_room [OF assms] by simp
qed

definition long_alert :: final_record where
  "long_alert = demo_final\<lparr>fin_source := replicate 64 (CHR ''r'')\<rparr>"

definition long_channel :: channel_config where
  "long_channel = \<lparr>ch_id = replicate 64 (CHR ''c''), ch_type = ''telegram'', ch_enabled = True, ch_classes = [''internal'']\<rparr>"

theorem long_intent_never_recorded_witness:
  "\<exists>e. emit_intent demo_pipeline ''/s/spool'' (utc demo_now) (long_alert, long_channel) demo_idle = (Inl e, demo_idle) \<and>
    length (fin_source long_alert) = 64 \<and> length (ch_id long_channel) = 64"
  using long_intent_never_recorded [of demo_pipeline long_alert long_channel]
  by (simp add: demo_fields(1) demo_env_simps long_alert_def long_channel_def)

theorem built_segment_bounds_witness: "length demo_batch_id = 27 \<and> hd_record_count run_header = 1"
  using built_segment_bounds [OF demo_assembled] by (simp add: demo_fields(1) demo_env_simps run_header_def)

end
