(* ===== verification/Pseudonym.thy ===== *)
theory Pseudonym
  imports Identity
begin

text \<open>
  \<^verbatim>\<open>src/milhouse/privacy/pseudonym.py\<close>: keyed pseudonyms and fingerprints. HMAC-SHA256 is the
  parameter \<open>hmac\<close> of key and message, Unicode NFC the parameter \<open>nfc\<close>, SHA-256 the parameter
  \<open>sha\<close> of raw bytes. A \<open>pseudonymizer\<close> is the object's key and epoch.

  The lemmas show that the message under the key determines the domain, epoch, kind and value it was
  built from, so tokens of two domains, two epochs or two kinds are never computed from one message.
\<close>

record pseudonymizer =
  pz_key :: string
  pz_epoch :: int

text \<open>The bytes of the three domain labels; each ends in NUL.\<close>

definition pseudonym_domain :: string where "pseudonym_domain = ''milhouse-pseudonym-v1'' @ [NUL]"
definition fingerprint_domain :: string where "fingerprint_domain = ''milhouse-fingerprint-v1'' @ [NUL]"
definition key_id_domain :: string where "key_id_domain = ''milhouse-pseudonym-key-id-v1'' @ [NUL]"

definition normalize_text :: "(string \<Rightarrow> string) \<Rightarrow> string \<Rightarrow> string res" where
  "normalize_text nfc v =
     (if has_surrogate v then Inl (Privacy_Error ''MH_PRIVACY_UNICODE'')
      else let encoded = nfc (unify_newlines v)
        in if encoded = [] then Inl (Privacy_Error ''MH_PRIVACY_INPUT_EMPTY'')
           else if 1048576 < length encoded then Inl (Privacy_Error ''MH_PRIVACY_INPUT_LARGE'')
           else Inr encoded)"

definition kind_char :: "char \<Rightarrow> bool" where
  "kind_char c \<longleftrightarrow> is_lower c \<or> is_digit c \<or> c \<in> {CHR ''_'', CHR ''-''}"

definition kind_match :: "string \<Rightarrow> bool" where
  "kind_match s \<longleftrightarrow> (case s of [] \<Rightarrow> False | c # cs \<Rightarrow> is_lower c \<and> length cs \<le> 31 \<and> list_all kind_char cs)"

definition validate_pseudonym_kind :: "string \<Rightarrow> string res" where
  "validate_pseudonym_kind k = (if kind_match k then Inr k else Inl (Privacy_Error ''MH_PRIVACY_KIND''))"

definition validate_pseudonym_epoch :: "int \<Rightarrow> int res" where
  "validate_pseudonym_epoch e =
     (if 1 \<le> e \<and> e \<le> 2147483647 then Inr e else Inl (Privacy_Error ''MH_PRIVACY_EPOCH''))"

definition pseudonymizer_init :: "string \<Rightarrow> int \<Rightarrow> pseudonymizer res" where
  "pseudonymizer_init key epoch =
     (if length key \<noteq> 32 then Inl (Privacy_Error ''MH_PRIVACY_KEY_LENGTH'')
      else bind_res (validate_pseudonym_epoch epoch) (\<lambda>e. Inr \<lparr>pz_key = key, pz_epoch = e\<rparr>))"

text \<open>\<^verbatim>\<open>epoch.to_bytes(4, "big")\<close>.\<close>

definition epoch_bytes :: "int \<Rightarrow> string" where
  "epoch_bytes e = map (\<lambda>k. char_of (nat (e div k mod 256))) [16777216, 65536, 256, 1]"

definition pseudonym_message :: "(string \<Rightarrow> string) \<Rightarrow> int \<Rightarrow> string \<Rightarrow> string \<Rightarrow> string \<Rightarrow> string res" where
  "pseudonym_message nfc epoch domain kind value =
     bind_res (validate_pseudonym_kind kind) (\<lambda>kind_bytes.
     bind_res (normalize_text nfc value) (\<lambda>value_bytes.
     Inr (domain @ epoch_bytes epoch @ kind_bytes @ [NUL] @ value_bytes)))"

definition keyed_digest ::
  "(string \<Rightarrow> string) \<Rightarrow> (string \<Rightarrow> string \<Rightarrow> string) \<Rightarrow> pseudonymizer \<Rightarrow> string \<Rightarrow> string \<Rightarrow> string \<Rightarrow> string res" where
  "keyed_digest nfc hmac p domain kind value =
     bind_res (pseudonym_message nfc (pz_epoch p) domain kind value) (\<lambda>m. Inr (hmac (pz_key p) m))"

definition pseudonymize ::
  "(string \<Rightarrow> string) \<Rightarrow> (string \<Rightarrow> string \<Rightarrow> string) \<Rightarrow> pseudonymizer \<Rightarrow> string \<Rightarrow> string \<Rightarrow> string res" where
  "pseudonymize nfc hmac p kind value =
     bind_res (keyed_digest nfc hmac p pseudonym_domain kind value) (\<lambda>d.
     Inr (''mh_ps1_e'' @ int_text (pz_epoch p) @ ''_'' @ kind @ ''_'' @ base32_digest (take 16 d)))"

definition fingerprint ::
  "(string \<Rightarrow> string) \<Rightarrow> (string \<Rightarrow> string \<Rightarrow> string) \<Rightarrow> pseudonymizer \<Rightarrow> string \<Rightarrow> string \<Rightarrow> string res" where
  "fingerprint nfc hmac p kind value =
     bind_res (keyed_digest nfc hmac p fingerprint_domain kind value) (\<lambda>d.
     Inr (''mh_fp1_e'' @ int_text (pz_epoch p) @ ''_'' @ kind @ ''_'' @ base32_digest d))"

definition pseudonym_key_id :: "(string \<Rightarrow> string) \<Rightarrow> pseudonymizer \<Rightarrow> string" where
  "pseudonym_key_id sha p = ''mh_pk1_'' @
     take 16 (concat (map (\<lambda>c. [hex_digit (of_char c div 16), hex_digit (of_char c mod 16)])
       (sha (key_id_domain @ pz_key p))))"

section \<open>One message, one purpose\<close>

lemma length_epoch_bytes: "length (epoch_bytes e) = 4"
  by (simp add: epoch_bytes_def)

lemma epoch_bytes_inj:
  assumes "0 \<le> a" "a < 4294967296" "0 \<le> b" "b < 4294967296" "epoch_bytes a = epoch_bytes b"
  shows "a = b"
proof -
  have byte: "x div k mod 256 = y div k mod 256"
    if "char_of (nat (x div k mod 256)) = (char_of (nat (y div k mod 256)) :: char)" for x y k :: int
  proof -
    have "nat (x div k mod 256) < 256" "nat (y div k mod 256) < 256" by (simp_all add: nat_less_iff)
    with that have "nat (x div k mod 256) = nat (y div k mod 256)"
      by (metis mod_less of_char_of)
    then show ?thesis by (simp add: eq_nat_nat_iff)
  qed
  have "\<forall>k \<in> set [16777216, 65536, 256, 1 :: int].
      (char_of (nat (a div k mod 256)) :: char) = char_of (nat (b div k mod 256))"
    using assms(5) unfolding epoch_bytes_def map_eq_conv .
  then have "\<forall>k \<in> set [16777216, 65536, 256, 1]. a div k mod 256 = b div k mod 256"
    using byte by blast
  then have bytes: "a div 16777216 mod 256 = b div 16777216 mod 256" "a div 65536 mod 256 = b div 65536 mod 256"
      "a div 256 mod 256 = b div 256 mod 256" "a mod 256 = b mod 256"
    by simp_all
  have nested: "x div 65536 = x div 256 div 256" "x div 16777216 = x div 65536 div 256" for x :: int
    using zdiv_zmult2_eq [of 256 x 256] zdiv_zmult2_eq [of 256 x 65536] by simp_all
  have "a div 16777216 = b div 16777216"
    using bytes(1) assms(1-4) by (simp add: div_less_iff_less_mult pos_imp_zdiv_nonneg_iff mod_pos_pos_trivial)
  then have "a div 65536 = b div 65536"
    using bytes(2) div_mod_eq_iff [of "a div 65536" "b div 65536" 256] by (simp add: nested)
  then have "a div 256 = b div 256"
    using bytes(3) div_mod_eq_iff [of "a div 256" "b div 256" 256] by (simp add: nested)
  then show ?thesis using bytes(4) div_mod_eq_iff [of a b 256] by simp
qed

lemma not_kind_char_nul: "\<not> kind_char NUL" "\<not> is_lower NUL"
  by code_simp+

lemma kind_no_nul: "kind_match k \<Longrightarrow> NUL \<notin> set k"
  using not_kind_char_nul by (auto simp: kind_match_def list_all_iff split: list.splits)

lemma takeWhile_cut: "x \<notin> set a \<Longrightarrow> takeWhile (\<lambda>y. y \<noteq> x) (a @ x # b) = a"
  by (induction a) auto

lemma cut_at_unique:
  assumes "a @ x # b = c @ x # d" "x \<notin> set a" "x \<notin> set c"
  shows "a = c \<and> b = d"
proof -
  have "a = c" using takeWhile_cut [OF assms(2), of b] takeWhile_cut [OF assms(3), of d] assms(1) by simp
  then show ?thesis using assms(1) by simp
qed

lemma message_parts:
  "pseudonym_message nfc e (l @ [NUL]) k v = Inr m \<Longrightarrow>
     kind_match k \<and> (\<exists>w. normalize_text nfc v = Inr w \<and> m = l @ NUL # epoch_bytes e @ k @ NUL # w)"
  by (auto simp: pseudonym_message_def bind_res_eq_Inr validate_pseudonym_kind_def split: if_splits)

text \<open>
  Two keyed messages are equal only when they were built for the same domain label, epoch and kind
  and from values that normalise to the same text.
\<close>

theorem pseudonym_message_injective:
  assumes "pseudonym_message nfc e1 (l1 @ [NUL]) k1 v1 = Inr m"
    and "pseudonym_message nfc e2 (l2 @ [NUL]) k2 v2 = Inr m"
    and "NUL \<notin> set l1" "NUL \<notin> set l2"
    and "validate_pseudonym_epoch e1 = Inr e1" "validate_pseudonym_epoch e2 = Inr e2"
  shows "l1 = l2 \<and> e1 = e2 \<and> k1 = k2 \<and> normalize_text nfc v1 = normalize_text nfc v2"
proof -
  obtain w1 where w1: "kind_match k1" "normalize_text nfc v1 = Inr w1"
      "m = l1 @ NUL # epoch_bytes e1 @ k1 @ NUL # w1"
    using message_parts [OF assms(1)] by blast
  obtain w2 where w2: "kind_match k2" "normalize_text nfc v2 = Inr w2"
      "m = l2 @ NUL # epoch_bytes e2 @ k2 @ NUL # w2"
    using message_parts [OF assms(2)] by blast
  have whole: "l1 @ NUL # epoch_bytes e1 @ k1 @ NUL # w1 = l2 @ NUL # epoch_bytes e2 @ k2 @ NUL # w2"
    using w1(3) w2(3) by (rule subst)
  have "l1 = l2" and rest: "epoch_bytes e1 @ k1 @ NUL # w1 = epoch_bytes e2 @ k2 @ NUL # w2"
    using cut_at_unique [OF whole assms(3,4)] by blast+
  have bytes: "epoch_bytes e1 = epoch_bytes e2" and tail: "k1 @ NUL # w1 = k2 @ NUL # w2"
    using rest append_eq_append_conv [of "epoch_bytes e1" "epoch_bytes e2"] length_epoch_bytes by metis+
  have "e1 = e2"
    using assms(5,6) bytes by (intro epoch_bytes_inj) (auto simp: validate_pseudonym_epoch_def split: if_splits)
  with \<open>l1 = l2\<close> show ?thesis
    using cut_at_unique [OF tail kind_no_nul [OF w1(1)] kind_no_nul [OF w2(1)]] w1(2) w2(2) by simp
qed

end
