(* ===== verification/Log_Event.thy ===== *)
theory Log_Event
  imports Runtime Pseudonym
begin

text \<open>
  \<^verbatim>\<open>src/milhouse/core/logging.py\<close>: the catalog of event specifications and the logger that builds one
  structured event per call and hands it to a sink. A specification is an object whose identity the
  code compares (\<^verbatim>\<open>is\<close>): its reference is a field of its record. The clock and the sink are the
  logger's collaborators, programs over a state of their own; HMAC, Unicode NFC and the \<^verbatim>\<open>repr\<close> of a
  float are parameters.

  The lemmas show that whatever the logger delivers obeys the event grammar: catalog names, sorted
  unique metrics whose values fit their kinds, a stable error code its specification names or the
  fixed unexpected one, and a fingerprint of the declared kind.
\<close>

datatype log_level = Level_Debug | Level_Info | Level_Warning | Level_Error | Level_Critical

fun level_rank :: "log_level \<Rightarrow> nat" where
  "level_rank Level_Debug = 10"
| "level_rank Level_Info = 20"
| "level_rank Level_Warning = 30"
| "level_rank Level_Error = 40"
| "level_rank Level_Critical = 50"

fun level_name :: "log_level \<Rightarrow> string" where
  "level_name Level_Debug = ''DEBUG''"
| "level_name Level_Info = ''INFO''"
| "level_name Level_Warning = ''WARNING''"
| "level_name Level_Error = ''ERROR''"
| "level_name Level_Critical = ''CRITICAL''"

datatype metric_kind = Kind_Flag | Kind_Count | Kind_Bytes | Kind_Duration | Kind_Gauge

fun kind_value :: "metric_kind \<Rightarrow> string" where
  "kind_value Kind_Flag = ''flag''"
| "kind_value Kind_Count = ''count''"
| "kind_value Kind_Bytes = ''bytes''"
| "kind_value Kind_Duration = ''duration_milliseconds''"
| "kind_value Kind_Gauge = ''gauge''"

definition max_log_metrics :: nat where "max_log_metrics = 32"

section \<open>Names and specifications\<close>

text \<open>\<^verbatim>\<open>[a-z][a-z0-9]*(?:[._-][a-z0-9]+)*\<close>, read from the second character on: the flag says
  that a separator was just read.\<close>

fun machine_tail :: "bool \<Rightarrow> string \<Rightarrow> bool" where
  "machine_tail b [] \<longleftrightarrow> \<not> b"
| "machine_tail b (c # cs) \<longleftrightarrow>
     (if is_lower c \<or> is_digit c then machine_tail False cs
      else c \<in> {CHR ''.'', CHR ''_'', CHR ''-''} \<and> \<not> b \<and> machine_tail True cs)"

definition machine_name_match :: "string \<Rightarrow> bool" where
  "machine_name_match s \<longleftrightarrow> (case s of [] \<Rightarrow> False | c # cs \<Rightarrow> is_lower c \<and> machine_tail False cs)"

definition validate_machine_name :: "nat \<Rightarrow> string \<Rightarrow> string res" where
  "validate_machine_name maximum v =
     (if v = [] \<or> maximum < py_len v \<or> \<not> machine_name_match v then Inl (Logging_Error ''MH_LOG_NAME'')
      else Inr v)"

record metric_spec =
  ms_ref :: nat
  ms_name :: string
  ms_kind :: metric_kind

definition metric_spec_init :: "metric_spec \<Rightarrow> metric_spec res" where
  "metric_spec_init m = bind_res (validate_machine_name 64 (ms_name m)) (\<lambda>_. Inr m)"

definition fingerprint_spec_init :: "string \<Rightarrow> string res" where
  "fingerprint_spec_init k = (case validate_pseudonym_kind k of
     Inl _ \<Rightarrow> Inl (Logging_Error ''MH_LOG_FINGERPRINT'') | Inr k \<Rightarrow> Inr k)"

text \<open>\<^verbatim>\<open>MIN <= value <= MAX\<close> and \<^verbatim>\<open>isfinite\<close> of a float: one with a fraction is below 2 to the 53.\<close>

definition float_in_range :: "py_float \<Rightarrow> bool" where
  "float_in_range f \<longleftrightarrow> (case f of
     Float_Nonfinite \<Rightarrow> False | Float_Integral i \<Rightarrow> min_int64 \<le> i \<and> i \<le> max_int64 | Float_Decimal _ _ _ \<Rightarrow> True)"

record log_metric =
  lm_spec :: metric_spec
  lm_value :: py_value

definition metric_init :: "log_metric \<Rightarrow> log_metric res" where
  "metric_init m = (let fail = Inl (Logging_Error ''MH_LOG_METRIC'') in
     case ms_kind (lm_spec m) of
       Kind_Flag \<Rightarrow> (case lm_value m of P_Bool _ \<Rightarrow> Inr m | _ \<Rightarrow> fail)
     | Kind_Gauge \<Rightarrow> (case lm_value m of
           P_Int i \<Rightarrow> if min_int64 \<le> i \<and> i \<le> max_int64 then Inr m else fail
         | P_Float f \<Rightarrow> if float_in_range f then Inr m else fail
         | _ \<Rightarrow> fail)
     | _ \<Rightarrow> (case lm_value m of P_Int i \<Rightarrow> if 0 \<le> i \<and> i \<le> max_int64 then Inr m else fail | _ \<Rightarrow> fail))"

record event_spec =
  es_ref :: nat
  es_name :: string
  es_level :: log_level
  es_metrics :: "metric_spec list"
  es_codes :: "string list"
  es_unexpected :: bool
  es_fingerprint :: "string option"

definition event_spec_init :: "event_spec \<Rightarrow> event_spec res" where
  "event_spec_init sp = (let fail = Logging_Error ''MH_LOG_SPEC'';
       ordered = sort_key ms_name (es_metrics sp) in
     bind_res (validate_machine_name 128 (es_name sp)) (\<lambda>_.
     bind_res (check_res (length (es_metrics sp) \<le> max_log_metrics) fail) (\<lambda>_.
     bind_res (check_res (distinct (map ms_name ordered)) fail) (\<lambda>_.
     bind_res (check_res (length (es_codes sp) \<le> 32) fail) (\<lambda>_.
     bind_res (case map_res validate_error_code (es_codes sp) of Inl _ \<Rightarrow> Inl fail | Inr cs \<Rightarrow> Inr (sort cs)) (\<lambda>codes.
     bind_res (check_res (distinct codes \<and> unexpected_code \<notin> set codes) fail) (\<lambda>_.
     Inr (sp\<lparr>es_metrics := ordered, es_codes := codes\<rparr>))))))))"

section \<open>Preparing an event\<close>

text \<open>The kind group of \<^verbatim>\<open>mh_fp1_e([1-9][0-9]{0,9})_(?P<kind>...)_[a-z2-7]{52}\<close> on a full match.\<close>

definition fingerprint_kind :: "string \<Rightarrow> string option" where
  "fingerprint_kind t = (let rest = drop 8 t; digits = takeWhile is_digit rest;
       body = drop (length digits + 1) rest; cut = length body - 53;
       kind = take cut body; tail = drop cut body in
     if take 8 t = ''mh_fp1_e'' \<and> 1 \<le> length digits \<and> length digits \<le> 10 \<and> hd digits \<noteq> CHR ''0''
       \<and> length digits < length rest \<and> rest ! length digits = CHR ''_''
       \<and> 53 < length body \<and> kind_match kind \<and> hd tail = CHR ''_'' \<and> list_all is_base32 (tl tail)
     then Some kind else None)"

definition derive_fingerprint ::
  "(string \<Rightarrow> string) \<Rightarrow> (string \<Rightarrow> string \<Rightarrow> string) \<Rightarrow> event_spec \<Rightarrow> pseudonymizer option \<Rightarrow> string option \<Rightarrow> string option res" where
  "derive_fingerprint nfc hmac sp pz value = (let fail = Inl (Logging_Error ''MH_LOG_FINGERPRINT'') in
     case value of None \<Rightarrow> Inr None | Some v \<Rightarrow>
       (case es_fingerprint sp of None \<Rightarrow> fail | Some kind \<Rightarrow>
         (case pz of None \<Rightarrow> fail | Some p \<Rightarrow>
           (case fingerprint nfc hmac p kind v of Inl _ \<Rightarrow> fail
            | Inr token \<Rightarrow> if fingerprint_kind token = Some kind then Inr (Some token) else fail))))"

definition prepare_metrics :: "event_spec \<Rightarrow> log_metric list \<Rightarrow> log_metric list res" where
  "prepare_metrics sp ms = (let fail = Logging_Error ''MH_LOG_METRICS'';
       ordered = sort_key (ms_name \<circ> lm_spec) ms in
     bind_res (check_res (length ms \<le> max_log_metrics) fail) (\<lambda>_.
     bind_res (check_res (\<forall>m \<in> set ms. ms_ref (lm_spec m) \<in> ms_ref ` set (es_metrics sp)) fail) (\<lambda>_.
     bind_res (check_res (distinct (map (ms_name \<circ> lm_spec) ordered)) fail) (\<lambda>_.
     Inr ordered))))"

text \<open>\<^verbatim>\<open>NormalizedError.expected\<close>: a Milhouse error whose code is valid.\<close>

definition expected_error :: "py_exc \<Rightarrow> bool" where
  "expected_error e \<longleftrightarrow>
     (case error_code e of None \<Rightarrow> False | Some c \<Rightarrow> (case validate_error_code c of Inl _ \<Rightarrow> False | Inr _ \<Rightarrow> True))"

definition prepare_error :: "event_spec \<Rightarrow> py_exc option \<Rightarrow> string option res" where
  "prepare_error sp error = (case error of None \<Rightarrow> Inr None | Some e \<Rightarrow>
     (if expected_error e \<and> normalize_error e \<in> set (es_codes sp) then Inr (Some (normalize_error e))
      else if es_unexpected sp then Inr (Some unexpected_code)
      else Inl (Logging_Error ''MH_LOG_ERROR'')))"

record log_event =
  lv_at :: int
  lv_name :: string
  lv_level :: log_level
  lv_metrics :: "log_metric list"
  lv_error :: "string option"
  lv_fingerprint :: "string option"

definition value_repr :: "(py_float \<Rightarrow> string) \<Rightarrow> py_value \<Rightarrow> string" where
  "value_repr frepr v = (case v of
     P_Bool b \<Rightarrow> (if b then ''True'' else ''False'') | P_Int i \<Rightarrow> int_text i | P_Float f \<Rightarrow> frepr f | _ \<Rightarrow> [])"

definition metadata_size :: "(py_float \<Rightarrow> string) \<Rightarrow> log_event \<Rightarrow> nat" where
  "metadata_size frepr ev =
     length (stamp_of (lv_at ev)) + length (lv_name ev) + length (level_name (lv_level ev))
     + sum_list (map (\<lambda>m. length (ms_name (lm_spec m)) + length (kind_value (ms_kind (lm_spec m)))
         + length (value_repr frepr (lm_value m))) (lv_metrics ev))
     + (case lv_error ev of None \<Rightarrow> 0 | Some c \<Rightarrow> length c + 1)
     + (case lv_fingerprint ev of None \<Rightarrow> 0 | Some f \<Rightarrow> length f)"

definition event_create ::
  "(py_float \<Rightarrow> string) \<Rightarrow> py_datetime \<Rightarrow> event_spec \<Rightarrow> log_metric list \<Rightarrow> py_exc option \<Rightarrow> string option \<Rightarrow> log_event res" where
  "event_create frepr now sp ms error fp =
     (case truncate_to_milliseconds now of Inl _ \<Rightarrow> Inl (Logging_Error ''MH_LOG_TIMESTAMP'') | Inr at \<Rightarrow>
       bind_res (prepare_metrics sp ms) (\<lambda>metrics.
       bind_res (prepare_error sp error) (\<lambda>code.
       bind_res (check_res (case fp of None \<Rightarrow> True | Some t \<Rightarrow>
           es_fingerprint sp \<noteq> None \<and> fingerprint_kind t = es_fingerprint sp)
         (Logging_Error ''MH_LOG_FINGERPRINT'')) (\<lambda>_.
       let ev = \<lparr>lv_at = at, lv_name = es_name sp, lv_level = es_level sp, lv_metrics = metrics,
         lv_error = code, lv_fingerprint = fp\<rparr>
       in bind_res (check_res (metadata_size frepr ev \<le> 2048) (Logging_Error ''MH_LOG_SIZE'')) (\<lambda>_. Inr ev)))))"

section \<open>The logger\<close>

record 's logger =
  lg_catalog :: "event_spec list"
  lg_minimum :: log_level
  lg_pseudonymizer :: "pseudonymizer option"
  lg_nfc :: "string \<Rightarrow> string"
  lg_hmac :: "string \<Rightarrow> string \<Rightarrow> string"
  lg_frepr :: "py_float \<Rightarrow> string"
  lg_clock :: "('s, py_datetime) prog"
  lg_sink :: "log_event \<Rightarrow> ('s, unit) prog"

definition logger_init :: "'s logger \<Rightarrow> 's logger res" where
  "logger_init lg =
     bind_res (check_res (1 \<le> length (lg_catalog lg) \<and> length (lg_catalog lg) \<le> 256)
       (Logging_Error ''MH_LOG_CATALOG'')) (\<lambda>_.
     bind_res (check_res (distinct (map es_name (lg_catalog lg))) (Logging_Error ''MH_LOG_CATALOG'')) (\<lambda>_.
     bind_res (check_res (\<not> (list_ex (\<lambda>sp. es_fingerprint sp \<noteq> None) (lg_catalog lg) \<and> lg_pseudonymizer lg = None))
       (Logging_Error ''MH_LOG_FINGERPRINT'')) (\<lambda>_. Inr lg)))"

definition read_event_time :: "'s logger \<Rightarrow> ('s, py_datetime) prog" where
  "read_event_time lg = normalise (\<lambda>_. True) (Logging_Error ''MH_LOG_CLOCK'') (lg_clock lg)"

definition write_event :: "'s logger \<Rightarrow> log_event \<Rightarrow> ('s, unit) prog" where
  "write_event lg ev = normalise (\<lambda>_. True) (Logging_Error ''MH_LOG_SINK'') (lg_sink lg ev)"

definition emit ::
  "'s logger \<Rightarrow> event_spec \<Rightarrow> log_metric list \<Rightarrow> py_exc option \<Rightarrow> string option \<Rightarrow> ('s, log_event option) prog" where
  "emit lg sp ms error value =
     andthen (check (es_ref sp \<in> es_ref ` set (lg_catalog lg)) (Logging_Error ''MH_LOG_SPEC'')) (\<lambda>_.
     if level_rank (es_level sp) < level_rank (lg_minimum lg) then ret None
     else andthen (lift_res (derive_fingerprint (lg_nfc lg) (lg_hmac lg) sp (lg_pseudonymizer lg) value)) (\<lambda>fp.
       andthen (read_event_time lg) (\<lambda>now.
       andthen (lift_res (event_create (lg_frepr lg) now sp ms error fp)) (\<lambda>ev.
       andthen (write_event lg ev) (\<lambda>_. ret (Some ev))))))"

section \<open>The event grammar\<close>

definition metric_ok :: "log_metric \<Rightarrow> bool" where
  "metric_ok m \<longleftrightarrow> metric_init m = Inr m \<and> metric_spec_init (lm_spec m) = Inr (lm_spec m)"

definition event_ok :: "log_event \<Rightarrow> bool" where
  "event_ok ev \<longleftrightarrow>
     valid_instant (lv_at ev) \<and> lv_at ev mod 1000 = 0 \<and> validate_machine_name 128 (lv_name ev) = Inr (lv_name ev)
     \<and> length (lv_metrics ev) \<le> max_log_metrics \<and> list_all metric_ok (lv_metrics ev)
     \<and> sorted_wrt (<) (map (ms_name \<circ> lm_spec) (lv_metrics ev))
     \<and> (\<forall>c. lv_error ev = Some c \<longrightarrow> validate_error_code c = Inr c)
     \<and> (\<forall>f. lv_fingerprint ev = Some f \<longrightarrow> fingerprint_kind f \<noteq> None)"

text \<open>What the constructor of a specification guarantees.\<close>

lemma event_spec_init_Inr:
  "event_spec_init raw = Inr sp \<Longrightarrow>
     validate_machine_name 128 (es_name sp) = Inr (es_name sp) \<and>
     (\<forall>c \<in> set (es_codes sp). validate_error_code c = Inr c \<and> c \<noteq> unexpected_code)"
proof -
  assume "event_spec_init raw = Inr sp"
  then obtain cs where *: "map_res validate_error_code (es_codes raw) = Inr cs" "es_codes sp = sort cs"
      "unexpected_code \<notin> set cs" "es_name sp = es_name raw" "validate_machine_name 128 (es_name raw) = Inr (es_name raw)"
    by (auto simp: event_spec_init_def Let_def bind_res_eq_Inr validate_machine_name_def
        split: sum.splits if_splits)
  have "validate_error_code c = Inr c" if "c \<in> set cs" for c
  proof -
    obtain i where i: "i < length cs" "c = cs ! i" using \<open>c \<in> set cs\<close> by (auto simp: in_set_conv_nth)
    then have "validate_error_code (es_codes raw ! i) = Inr c"
      using map_res_Inr_nth [OF *(1)] map_res_Inr_length [OF *(1)] by simp
    then show ?thesis by (auto simp: validate_error_code_def split: if_splits)
  qed
  then show ?thesis using * by auto
qed

lemma sorted_distinct_keys: "sorted (map f xs) \<Longrightarrow> distinct (map f xs) \<Longrightarrow> sorted_wrt (<) (map f xs)"
  by (simp add: strict_sorted_iff)

lemma event_create_ok:
  assumes "event_spec_init raw = Inr sp" "list_all metric_ok ms" "event_create frepr now sp ms error fp = Inr ev"
  shows "event_ok ev \<and> metadata_size frepr ev \<le> 2048 \<and> lv_name ev = es_name sp \<and> lv_level ev = es_level sp \<and>
    mset (lv_metrics ev) = mset ms \<and> lv_fingerprint ev = fp \<and>
    (case lv_error ev of None \<Rightarrow> error = None | Some c \<Rightarrow>
       c \<in> set (es_codes sp) \<or> es_unexpected sp \<and> c = unexpected_code)"
proof -
  obtain at ordered code where p: "truncate_to_milliseconds now = Inr at" "prepare_metrics sp ms = Inr ordered"
      "prepare_error sp error = Inr code"
      "case fp of None \<Rightarrow> True | Some t \<Rightarrow> es_fingerprint sp \<noteq> None \<and> fingerprint_kind t = es_fingerprint sp"
      "ev = \<lparr>lv_at = at, lv_name = es_name sp, lv_level = es_level sp, lv_metrics = ordered,
         lv_error = code, lv_fingerprint = fp\<rparr>" "metadata_size frepr ev \<le> 2048"
    using assms(3) by (auto simp: event_create_def bind_res_eq_Inr Let_def split: sum.splits)
  have "valid_instant at \<and> at mod 1000 = 0"
    using p(1) by (auto simp: truncate_Inr dest: truncated_valid)
  moreover have m: "ordered = sort_key (ms_name \<circ> lm_spec) ms" "length ms \<le> max_log_metrics"
      "distinct (map (ms_name \<circ> lm_spec) ordered)"
    using p(2) by (auto simp: prepare_metrics_def Let_def bind_res_eq_Inr)
  then have "sorted_wrt (<) (map (ms_name \<circ> lm_spec) ordered)"
    by (intro sorted_distinct_keys) simp_all
  moreover have "list_all metric_ok ordered" "mset ordered = mset ms"
    using m assms(2) by (simp_all add: list_all_iff)
  moreover have "case code of None \<Rightarrow> error = None | Some c \<Rightarrow> (c \<in> set (es_codes sp) \<or> es_unexpected sp \<and> c = unexpected_code)
      \<and> validate_error_code c = Inr c"
    using p(3) event_spec_init_Inr [OF assms(1)] stable_unexpected
    by (auto simp: prepare_error_def split: option.splits if_splits)
  ultimately show ?thesis
    using p m event_spec_init_Inr [OF assms(1)] by (auto simp: event_ok_def split: option.splits)
qed

section \<open>What the logger delivers\<close>

text \<open>C39
  Every event the logger delivers obeys the event grammar: its specification went through its
  constructor and its metrics through theirs, and then the event carries the specification's name and
  a level the logger admits, a truncated valid instant, at most 32 metrics the specification lists,
  strictly sorted by name with values that fit their kinds, an error code the specification names (or
  the fixed unexpected one it allows) that is a valid stable code, a fingerprint exactly when one was
  asked for, of the declared kind, and at most 2048 bytes of metadata.
\<close>

theorem emitted_event_well_typed:
  assumes "event_spec_init raw = Inr sp" "list_all metric_ok ms"
    and "emit lg sp ms error value s = (Inr (Some ev), s')"
  shows "event_ok ev \<and> metadata_size (lg_frepr lg) ev \<le> 2048 \<and> lv_name ev = es_name sp \<and>
    level_rank (lg_minimum lg) \<le> level_rank (lv_level ev) \<and>
    (\<forall>m \<in> set (lv_metrics ev). ms_ref (lm_spec m) \<in> ms_ref ` set (es_metrics sp)) \<and>
    (case lv_error ev of None \<Rightarrow> error = None | Some c \<Rightarrow>
       c \<in> set (es_codes sp) \<or> es_unexpected sp \<and> c = unexpected_code) \<and>
    (case lv_fingerprint ev of None \<Rightarrow> value = None | Some f \<Rightarrow> value \<noteq> None \<and> fingerprint_kind f = es_fingerprint sp)"
proof -
  obtain fp now where e: "\<not> level_rank (es_level sp) < level_rank (lg_minimum lg)"
      "derive_fingerprint (lg_nfc lg) (lg_hmac lg) sp (lg_pseudonymizer lg) value = Inr fp"
      "event_create (lg_frepr lg) now sp ms error fp = Inr ev"
    using assms(3) by (auto simp: emit_def andthen_Inr check_def lift_res_def ret_def split: if_splits)
  have "ms_ref ` lm_spec ` set ms \<subseteq> ms_ref ` set (es_metrics sp)"
    using e(3) by (auto simp: event_create_def bind_res_eq_Inr prepare_metrics_def Let_def split: sum.splits)
  moreover have "case fp of None \<Rightarrow> value = None | Some f \<Rightarrow> value \<noteq> None \<and> fingerprint_kind f = es_fingerprint sp"
    using e(2) by (auto simp: derive_fingerprint_def Let_def split: option.splits sum.splits if_splits)
  moreover note event_create_ok [OF assms(1,2) e(3)]
  ultimately show ?thesis using e(1) by (fastforce dest: mset_eq_setD)
qed

definition demo_metrics :: "log_metric list" where
  "demo_metrics =
     [\<lparr>lm_spec = \<lparr>ms_ref = 2, ms_name = ''records'', ms_kind = Kind_Count\<rparr>, lm_value = P_Int 3\<rparr>,
      \<lparr>lm_spec = \<lparr>ms_ref = 1, ms_name = ''fill'', ms_kind = Kind_Gauge\<rparr>, lm_value = P_Float (Float_Integral 7)\<rparr>]"

definition demo_event_spec :: event_spec where
  "demo_event_spec = \<lparr>es_ref = 0, es_name = ''spool.commit'', es_level = Level_Warning,
     es_metrics = map lm_spec (rev demo_metrics), es_codes = [''MH_SPOOL_FULL''], es_unexpected = False,
     es_fingerprint = None\<rparr>"

definition demo_event :: log_event where
  "demo_event = \<lparr>lv_at = 1000, lv_name = ''spool.commit'', lv_level = Level_Warning,
     lv_metrics = rev demo_metrics, lv_error = Some ''MH_SPOOL_FULL'', lv_fingerprint = None\<rparr>"

definition demo_logger :: "unit logger" where
  "demo_logger = \<lparr>lg_catalog = [demo_event_spec], lg_minimum = Level_Info, lg_pseudonymizer = None, lg_nfc = id,
     lg_hmac = (\<lambda>_ _. []), lg_frepr = (\<lambda>_. ''7.0''), lg_clock = ret (utc 1234), lg_sink = (\<lambda>_. ret ())\<rparr>"

lemma demo_logged:
  "event_spec_init demo_event_spec = Inr demo_event_spec" "list_all metric_ok demo_metrics"
  "prepare_metrics demo_event_spec demo_metrics = Inr (rev demo_metrics)"
  "prepare_error demo_event_spec (Some (Spool_Error ''MH_SPOOL_FULL'')) = Inr (Some ''MH_SPOOL_FULL'')"
  by code_simp+

lemma demo_emitted:
  "emit demo_logger demo_event_spec demo_metrics (Some (Spool_Error ''MH_SPOOL_FULL'')) None () = (Inr (Some demo_event), ())"
proof -
  have "truncate_to_milliseconds (utc 1234) = Inr 1000"
    using truncate_utc [of 1234] by (simp add: valid_instant_def datetime_limit_def us_per_day_def)
  moreover have "metadata_size (\<lambda>_. ''7.0'') demo_event \<le> 2048"
    by (simp add: metadata_size_def demo_event_def demo_metrics_def value_repr_def int_text_def nat_text.simps)
  ultimately have "event_create (\<lambda>_. ''7.0'') (utc 1234) demo_event_spec demo_metrics
      (Some (Spool_Error ''MH_SPOOL_FULL'')) None = Inr demo_event"
    by (simp add: event_create_def demo_logged check_res_def Let_def)
      (simp add: demo_event_def demo_event_spec_def)
  then show ?thesis
    by (simp add: emit_def demo_logger_def derive_fingerprint_def read_event_time_def write_event_def prog_defs)
      (simp add: demo_event_spec_def)
qed

theorem emitted_event_well_typed_witness:
  "event_ok demo_event \<and> metadata_size (lg_frepr demo_logger) demo_event \<le> 2048"
  using emitted_event_well_typed [OF demo_logged(1,2) demo_emitted] by simp

end
