(* ===== verification/Stamps.thy ===== *)
theory Stamps
  imports Ledger
begin

text \<open>
  Reading a canonical timestamp back: \<^verbatim>\<open>datetime.strptime(value, "%Y-%m-%dT%H:%M:%S.%fZ")\<close> as the log
  wire and the log store use it. The texts \<^verbatim>\<open>strptime\<close> accepts beyond the canonical shape (fewer
  digits, more decimals) fail the canonical comparison that follows each of its uses with the same
  stable code, so \<open>parse_stamp\<close> refuses them at once.

  The lemma \<open>parse_stamp_of\<close> shows that it inverts \<open>stamp_of\<close>.
\<close>

definition number_at :: "nat \<Rightarrow> nat \<Rightarrow> string \<Rightarrow> nat" where
  "number_at i n s = digits_to_nat 0 (take n (drop i s))"

definition day_number :: "int \<Rightarrow> nat \<Rightarrow> nat \<Rightarrow> int" where
  "day_number y m d = days_before_year y + sum_list (take (m - 1) (month_lengths y)) + int d - 1"

definition parse_stamp :: "string \<Rightarrow> int option" where
  "parse_stamp s =
     (if is_stamp s \<and> is_date (take 10 s) \<and> number_at 11 2 s < 24 \<and> number_at 14 2 s < 60 \<and> number_at 17 2 s < 60
      then Some (day_number (int (number_at 0 4 s)) (number_at 5 2 s) (number_at 8 2 s) * us_per_day
        + int (number_at 11 2 s) * 3600000000 + int (number_at 14 2 s) * 60000000
        + int (number_at 17 2 s) * 1000000 + int (number_at 20 3 s) * 1000)
      else None)"

section \<open>It inverts the printer\<close>

lemma digits_to_nat_append: "digits_to_nat a (x @ y) = digits_to_nat (digits_to_nat a x) y"
  by (induction a x rule: digits_to_nat.induct) auto

lemma digits_to_nat_pad: "digits_to_nat a (pad_dec w n) = a * 10 ^ w + n mod 10 ^ w"
proof (induction w arbitrary: n)
  case 0
  then show ?case by simp
next
  case (Suc w)
  have "n mod (10 * 10 ^ w) = 10 * (n div 10 mod 10 ^ w) + n mod 10"
    by (rule mod_mult2_eq)
  then show ?case by (simp add: digits_to_nat_append Suc of_digit_char algebra_simps)
qed

lemma is_digit_pad: "list_all is_digit (pad_dec w n)"
  by (induction w arbitrary: n) (simp_all add: is_digit_def Let_def of_digit_char)

lemma digit_char_is_digit: "n < 10 \<Longrightarrow> is_digit (digit_char n)"
  by (simp add: is_digit_def Let_def of_digit_char)

lemma pad_dec_digits: "w = length p \<Longrightarrow> list_all (\<lambda>c. c = CHR ''0'') p \<Longrightarrow>
    list_all2 (\<lambda>p c. if p = CHR ''0'' then is_digit c else c = p) p (pad_dec w n)"
  using is_digit_pad [of w n] by (auto simp: list_all2_conv_all_nth list_all_length)

lemma is_stamp_fields:
  "is_stamp (pad_dec 4 y @ ''-'' @ pad_dec 2 m @ ''-'' @ pad_dec 2 d @ ''T'' @ pad_dec 2 h @ '':''
     @ pad_dec 2 i @ '':'' @ pad_dec 2 c @ ''.'' @ pad_dec 3 f @ ''Z'')"
proof -
  have shape: "stamp_shape = ''0000'' @ ''-'' @ ''00'' @ ''-'' @ ''00'' @ ''T'' @ ''00'' @ '':'' @ ''00'' @ '':''
      @ ''00'' @ ''.'' @ ''000'' @ ''Z''"
    by (simp add: stamp_shape_def)
  show ?thesis
    unfolding is_stamp_def shape
    by (rule conjI, simp) (intro list_all2_appendI pad_dec_digits, simp_all)
qed

lemma split_month_value:
  "0 \<le> d \<Longrightarrow> d < sum_list ls \<Longrightarrow>
     m \<le> fst (split_month m ls d) \<and>
     sum_list (take (fst (split_month m ls d) - m) ls) + int (snd (split_month m ls d)) - 1 = d \<and>
     int (snd (split_month m ls d)) \<le> ls ! (fst (split_month m ls d) - m)"
proof (induction m ls d rule: split_month.induct)
  case (1 m d)
  then show ?case by simp
next
  case (2 m l ls d)
  show ?case
  proof (cases "d < l")
    case True
    then show ?thesis using "2.prems"(1) by simp
  next
    case False
    let ?r = "split_month (Suc m) ls (d - l)"
    have ih: "Suc m \<le> fst ?r" "sum_list (take (fst ?r - Suc m) ls) + int (snd ?r) - 1 = d - l"
        "int (snd ?r) \<le> ls ! (fst ?r - Suc m)"
      using "2.IH" [OF False] False "2.prems" by auto
    obtain k where k: "fst ?r = Suc m + k" using ih(1) le_Suc_ex by blast
    have "fst ?r - m = Suc k" "fst ?r - Suc m = k" by (simp_all add: k)
    then show ?thesis using ih False by simp
  qed
qed

lemma civil_day_value:
  "day_number (civil_year n) (fst (civil_month_day n)) (snd (civil_month_day n)) = n \<and>
   int (snd (civil_month_day n)) \<le> month_lengths (civil_year n) ! (fst (civil_month_day n) - 1)"
proof -
  let ?y = "civil_year n"
  have "0 \<le> n - days_before_year ?y" "n - days_before_year ?y < sum_list (month_lengths ?y)"
    using civil_year_bounds [of n] year_length [of ?y] by linarith+
  from split_month_value [OF this, of 1] show ?thesis
    by (simp add: day_number_def civil_month_day_def Let_def)
qed

lemma time_of_day:
  assumes "0 \<le> t" "t < us_per_day"
  shows "t div 3600000000 < 24 \<and> 0 \<le> t div 3600000000 \<and>
    t div 3600000000 * 3600000000 + t div 60000000 mod 60 * 60000000 + t div 1000000 mod 60 * 1000000
      + t div 1000 mod 1000 * 1000 = t div 1000 * 1000"
proof -
  define q where "q = t div 1000"
  have q: "t div 3600000000 = q div 3600000" "t div 60000000 = q div 60000" "t div 1000000 = q div 1000"
    using zdiv_zmult2_eq [of 3600000 t 1000] zdiv_zmult2_eq [of 60000 t 1000] zdiv_zmult2_eq [of 1000 t 1000]
    by (simp_all add: q_def)
  have bound: "0 \<le> q" "q < 86400000"
    using assms by (auto simp: q_def us_per_day_def pos_imp_zdiv_nonneg_iff)
  have "q div 60000 = q div 1000 div 60" "q div 3600000 = q div 60000 div 60"
    using zdiv_zmult2_eq [of 60 q 1000] zdiv_zmult2_eq [of 60 q 60000] by simp_all
  then have "q div 3600000 * 3600000 + q div 60000 mod 60 * 60000 + q div 1000 mod 60 * 1000 + q mod 1000 = q"
    using div_mult_mod_eq [of q 1000] div_mult_mod_eq [of "q div 1000" 60]
      div_mult_mod_eq [of "q div 60000" 60] by linarith
  then show ?thesis
    using bound by (simp add: q q_def [symmetric] pos_imp_zdiv_nonneg_iff)
qed

lemma parse_stamp_of:
  assumes "valid_instant us"
  shows "parse_stamp (stamp_of us) = Some (us div 1000 * 1000)"
proof -
  define n where "n = us div us_per_day"
  define t where "t = us mod us_per_day"
  have us: "us = n * us_per_day + t" and t: "0 \<le> t" "t < us_per_day" and n: "0 \<le> n" "n < 3652059"
    using assms by (auto simp: n_def t_def valid_instant_def datetime_limit_def us_per_day_def
        pos_imp_zdiv_nonneg_iff)
  have y: "1 \<le> civil_year n" "civil_year n \<le> 9999" using civil_year_range [OF n] by auto
  have md: "1 \<le> fst (civil_month_day n)" "fst (civil_month_day n) \<le> 12" "1 \<le> snd (civil_month_day n)"
      "snd (civil_month_day n) \<le> 31"
    using civil_month_day_bounds [of n] by auto
  let ?s = "stamp_of us"
  let ?y = "pad_dec 4 (nat (civil_year n))" let ?m = "pad_dec 2 (fst (civil_month_day n))"
  let ?d = "pad_dec 2 (snd (civil_month_day n))" let ?h = "pad_dec 2 (nat (t div 3600000000))"
  let ?i = "pad_dec 2 (nat (t div 60000000 mod 60))" let ?c = "pad_dec 2 (nat (t div 1000000 mod 60))"
  let ?f = "pad_dec 3 (nat (t div 1000 mod 1000))"
  have s: "?s = ?y @ ''-'' @ ?m @ ''-'' @ ?d @ ''T'' @ ?h @ '':'' @ ?i @ '':'' @ ?c @ ''.'' @ ?f @ ''Z''"
    by (simp add: stamp_of_time time_text_def n_def t_def)
  have numbers: "number_at 0 4 ?s = nat (civil_year n)" "number_at 5 2 ?s = fst (civil_month_day n)"
      "number_at 8 2 ?s = snd (civil_month_day n)" "number_at 11 2 ?s = nat (t div 3600000000)"
      "number_at 14 2 ?s = nat (t div 60000000 mod 60)" "number_at 17 2 ?s = nat (t div 1000000 mod 60)"
      "number_at 20 3 ?s = nat (t div 1000 mod 1000)"
    using y md time_of_day [OF t] by (simp_all add: number_at_def s digits_to_nat_pad nat_less_iff)
  have "is_stamp ?s" unfolding s by (rule is_stamp_fields)
  moreover have "is_date (take 10 ?s)"
  proof -
    have cut: "split_dash (x @ CHR ''-'' # z) = (x, z)" if "list_all is_digit x" for x z
      using that by (induction x) (auto simp: split_dash_def is_digit_def)
    have "split_dash (take 10 ?s) = (?y, ?m @ CHR ''-'' # ?d)" "split_dash (?m @ CHR ''-'' # ?d) = (?m, ?d)"
      using cut [OF is_digit_pad] by (simp_all add: s)
    then show ?thesis
      using y md civil_day_value [of n] by (simp add: is_date_def Let_def is_digit_pad digits_to_nat_pad nat_less_iff)
  qed
  moreover have "n * us_per_day + t div 1000 * 1000 = us div 1000 * 1000"
  proof -
    have "us div 1000 = n * 86400000 + t div 1000"
      using ms_split [of us] div_mult_mod_eq [of "us div 1000" 86400000] by (simp add: n_def t_def)
    then show ?thesis by (simp add: us_per_day_def)
  qed
  ultimately show ?thesis
    using time_of_day [OF t] civil_day_value [of n] y
    by (simp add: parse_stamp_def numbers nat_less_iff)
qed

end
