(* ===== verification/Log_Wire.thy ===== *)
theory Log_Wire
  imports Log_Event Reader Egress Stamps "HOL-Library.Sublist"
begin

text \<open>
  \<^verbatim>\<open>src/milhouse/core/log_wire.py\<close>: the stored form of the structured log. One event, header or
  trailer is one canonical JSON line with a trailing line feed; the validator of a stored event line
  rebuilds the payload and compares bytes; \<open>stream_write_all\<close> is the loop of \<^verbatim>\<open>StreamLogSink\<close> over
  an injected stream. \<^verbatim>\<open>json.loads\<close> of one line is the parameter \<open>loads\<close> (\<open>None\<close> when it
  raises), SHA-256 in hex the parameter \<open>sha\<close>. Payload dicts are listed in key order, the order in
  which the encoder writes them.

  The lemmas show that every line the logger's events produce is accepted again and reads back its
  timestamp, and that the sink's loop always ends, having written a prefix of the line and the whole
  of it exactly when it reports success.
\<close>

definition max_event_line_bytes :: int where "max_event_line_bytes = 4096"
definition max_log_header_bytes :: int where "max_log_header_bytes = 1024"
definition max_log_trailer_bytes :: int where "max_log_trailer_bytes = 1024"
definition max_log_retention_days :: int where "max_log_retention_days = 3650"

definition authorize_local_log :: "unit res" where
  "authorize_local_log = bind_res (require_egress Local_Log ''internal'' False []) (\<lambda>d.
     check_res (d = Redacted_Metadata) (Logging_Error ''MH_LOG_WIRE_EGRESS''))"

lemma authorized: "authorize_local_log = Inr ()"
  by code_simp

definition canonical_line :: "(string \<Rightarrow> string) \<Rightarrow> int \<Rightarrow> py_value \<Rightarrow> string res" where
  "canonical_line nfc bound payload =
     bind_res (canonical_json_bytes nfc default_max_depth default_max_nodes (bound - 1) payload) (\<lambda>t. Inr (t @ [LF]))"

section \<open>Event lines\<close>

definition optional_str :: "string option \<Rightarrow> py_value" where
  "optional_str v = (case v of None \<Rightarrow> P_None | Some s \<Rightarrow> P_Str s)"

definition metric_payload :: "log_metric \<Rightarrow> py_value" where
  "metric_payload m = P_Dict [(''kind'', P_Str (kind_value (ms_kind (lm_spec m)))),
     (''name'', P_Str (ms_name (lm_spec m))), (''value'', lm_value m)]"

definition event_payload :: "log_event \<Rightarrow> py_value" where
  "event_payload ev = P_Dict
     [(''error'', optional_str (lv_error ev)),
      (''fingerprint'', optional_str (lv_fingerprint ev)),
      (''level'', P_Str (level_name (lv_level ev))),
      (''line'', P_Str ''event''),
      (''metrics'', P_List (map metric_payload (lv_metrics ev))),
      (''name'', P_Str (lv_name ev)),
      (''privacy'', P_Str ''internal''),
      (''schema'', P_Int 1),
      (''ts'', P_Datetime (utc (lv_at ev)))]"

definition structured_log_event_line :: "(string \<Rightarrow> string) \<Rightarrow> log_event \<Rightarrow> string res" where
  "structured_log_event_line nfc ev =
     bind_res authorize_local_log (\<lambda>_. canonical_line nfc max_event_line_bytes (event_payload ev))"

section \<open>Validation of a stored event line\<close>

definition event_fail :: "'a res" where
  "event_fail = Inl (Logging_Error ''MH_LOG_WIRE_EVENT'')"

definition normalized_utc :: "int \<Rightarrow> string \<Rightarrow> int res" where
  "normalized_utc us code =
     (case truncate_to_milliseconds (utc us) of Inl _ \<Rightarrow> Inl (Logging_Error code) | Inr t \<Rightarrow> Inr t)"

definition parse_wire_event_timestamp :: "py_value \<Rightarrow> int res" where
  "parse_wire_event_timestamp v = (case v of
     P_Str s \<Rightarrow> (case parse_stamp s of None \<Rightarrow> event_fail | Some us \<Rightarrow> normalized_utc us ''MH_LOG_WIRE_EVENT'')
   | _ \<Rightarrow> event_fail)"

definition metric_kinds :: "metric_kind list" where
  "metric_kinds = [Kind_Flag, Kind_Count, Kind_Bytes, Kind_Duration, Kind_Gauge]"

definition log_levels :: "log_level list" where
  "log_levels = [Level_Debug, Level_Info, Level_Warning, Level_Error, Level_Critical]"

definition require_wire_metric_value :: "metric_kind \<Rightarrow> py_value \<Rightarrow> unit res" where
  "require_wire_metric_value kind v =
     (if kind = Kind_Flag then (case v of P_Bool _ \<Rightarrow> Inr () | _ \<Rightarrow> event_fail)
      else if kind \<in> {Kind_Count, Kind_Bytes, Kind_Duration}
      then (case v of P_Int i \<Rightarrow> if 0 \<le> i \<and> i \<le> max_int64 then Inr () else event_fail | _ \<Rightarrow> event_fail)
      else (case v of
          P_Int i \<Rightarrow> if min_int64 \<le> i \<and> i \<le> max_int64 then Inr () else event_fail
        | P_Float f \<Rightarrow> if float_in_range f then Inr () else event_fail
        | _ \<Rightarrow> event_fail))"

definition wire_name :: "nat \<Rightarrow> py_value \<Rightarrow> string res" where
  "wire_name maximum v = (case v of
     P_Str s \<Rightarrow> (case validate_machine_name maximum s of Inl _ \<Rightarrow> event_fail | Inr n \<Rightarrow> Inr n) | _ \<Rightarrow> event_fail)"

text \<open>One pass over the metrics, with the previous name; the payload of each is rebuilt.\<close>

fun wire_metrics :: "string option \<Rightarrow> py_value list \<Rightarrow> py_value list res" where
  "wire_metrics previous [] = Inr []"
| "wire_metrics previous (item # items) =
     (case item of
        P_Dict obj \<Rightarrow>
          (if set (map fst obj) \<noteq> {''kind'', ''name'', ''value''} then event_fail
           else case find (\<lambda>k. field obj ''kind'' = P_Str (kind_value k)) metric_kinds of
             None \<Rightarrow> event_fail
           | Some kind \<Rightarrow>
               bind_res (wire_name 64 (field obj ''name'')) (\<lambda>name.
               bind_res (require_wire_metric_value kind (field obj ''value'')) (\<lambda>_.
               bind_res (check_res (case previous of None \<Rightarrow> True | Some p \<Rightarrow> p < name)
                 (Logging_Error ''MH_LOG_WIRE_EVENT'')) (\<lambda>_.
               bind_res (wire_metrics (Some name) items) (\<lambda>rest.
               Inr (P_Dict [(''kind'', P_Str (kind_value kind)), (''name'', P_Str name),
                 (''value'', field obj ''value'')] # rest))))))
      | _ \<Rightarrow> event_fail)"

definition validate_wire_event_metrics :: "py_value \<Rightarrow> py_value list res" where
  "validate_wire_event_metrics v = (case v of
     P_List items \<Rightarrow> if max_log_metrics < length items then event_fail else wire_metrics None items
   | _ \<Rightarrow> event_fail)"

definition wire_error_ok :: "py_value \<Rightarrow> bool" where
  "wire_error_ok v \<longleftrightarrow> (case v of
     P_None \<Rightarrow> True | P_Str c \<Rightarrow> (case validate_error_code c of Inl _ \<Rightarrow> False | Inr _ \<Rightarrow> True) | _ \<Rightarrow> False)"

definition wire_fingerprint_ok :: "py_value \<Rightarrow> bool" where
  "wire_fingerprint_ok v \<longleftrightarrow> (case v of P_None \<Rightarrow> True | P_Str f \<Rightarrow> fingerprint_kind f \<noteq> None | _ \<Rightarrow> False)"

definition event_line_keys :: "string list" where
  "event_line_keys = [''error'', ''fingerprint'', ''level'', ''line'', ''metrics'', ''name'', ''privacy'',
     ''schema'', ''ts'']"

definition validate_structured_log_event_line ::
  "(string \<Rightarrow> string) \<Rightarrow> (string \<Rightarrow> py_value option) \<Rightarrow> string \<Rightarrow> int res" where
  "validate_structured_log_event_line nfc loads line =
     (if max_event_line_bytes < int (length line) then event_fail
      else case loads line of
        Some (P_Dict obj) \<Rightarrow>
          (if set (map fst obj) \<noteq> set event_line_keys then event_fail
           else if \<not> equals_one (field obj ''schema'') \<or> field obj ''line'' \<noteq> P_Str ''event''
             \<or> field obj ''privacy'' \<noteq> P_Str ''internal'' then event_fail
           else
             bind_res (parse_wire_event_timestamp (field obj ''ts'')) (\<lambda>at.
             bind_res (wire_name 128 (field obj ''name'')) (\<lambda>name.
             case find (\<lambda>l. field obj ''level'' = P_Str (level_name l)) log_levels of
               None \<Rightarrow> event_fail
             | Some level \<Rightarrow>
                 bind_res (validate_wire_event_metrics (field obj ''metrics'')) (\<lambda>metrics.
                 bind_res (check_res (wire_error_ok (field obj ''error'')) (Logging_Error ''MH_LOG_WIRE_EVENT'')) (\<lambda>_.
                 bind_res (check_res (wire_fingerprint_ok (field obj ''fingerprint''))
                   (Logging_Error ''MH_LOG_WIRE_EVENT'')) (\<lambda>_.
                 let rebuilt = P_Dict
                   [(''error'', field obj ''error''),
                    (''fingerprint'', field obj ''fingerprint''),
                    (''level'', P_Str (level_name level)),
                    (''line'', P_Str ''event''),
                    (''metrics'', P_List metrics),
                    (''name'', P_Str name),
                    (''privacy'', P_Str ''internal''),
                    (''schema'', P_Int 1),
                    (''ts'', P_Datetime (utc at))]
                 in if canonical_line nfc max_event_line_bytes rebuilt = Inr line then Inr at else event_fail))))))
      | _ \<Rightarrow> event_fail)"

section \<open>Headers and trailers\<close>

record log_header =
  hl_sequence :: int
  hl_opened :: int
  hl_retention :: int

record log_trailer =
  tl_sequence :: int
  tl_closed :: int
  tl_last :: "int option"
  tl_count :: int
  tl_sha :: string
  tl_expires :: int

definition validate_log_sequence :: "int \<Rightarrow> unit res" where
  "validate_log_sequence v = check_res (0 < v \<and> v \<le> max_int64) (Logging_Error ''MH_LOG_SEQUENCE'')"

definition log_header_init :: "int \<Rightarrow> int \<Rightarrow> int \<Rightarrow> log_header res" where
  "log_header_init sequence opened retention =
     bind_res (validate_log_sequence sequence) (\<lambda>_.
     bind_res (normalized_utc opened ''MH_LOG_HEADER_TIME'') (\<lambda>at.
     bind_res (check_res (1 \<le> retention \<and> retention \<le> max_log_retention_days)
       (Logging_Error ''MH_LOG_HEADER_RETENTION'')) (\<lambda>_.
     Inr \<lparr>hl_sequence = sequence, hl_opened = at, hl_retention = retention\<rparr>)))"

definition log_trailer_init :: "int \<Rightarrow> int \<Rightarrow> int option \<Rightarrow> int \<Rightarrow> string \<Rightarrow> int \<Rightarrow> log_trailer res" where
  "log_trailer_init sequence closed last_event events digest expires =
     bind_res (validate_log_sequence sequence) (\<lambda>_.
     bind_res (normalized_utc closed ''MH_LOG_TRAILER_TIME'') (\<lambda>closed_at.
     bind_res (normalized_utc expires ''MH_LOG_TRAILER_TIME'') (\<lambda>expires_at.
     bind_res (check_res (0 \<le> events \<and> events \<le> max_int64) (Logging_Error ''MH_LOG_TRAILER_COUNT'')) (\<lambda>_.
     bind_res (check_res (is_sha256_hex digest) (Logging_Error ''MH_LOG_TRAILER_DIGEST'')) (\<lambda>_.
     bind_res
       (if events = 0
        then (if last_event \<noteq> None then Inl (Logging_Error ''MH_LOG_TRAILER_EVENT_TIME'') else Inr None)
        else (case last_event of None \<Rightarrow> Inl (Logging_Error ''MH_LOG_TRAILER_EVENT_TIME'')
              | Some us \<Rightarrow> bind_res (normalized_utc us ''MH_LOG_TRAILER_EVENT_TIME'') (\<lambda>t. Inr (Some t)))) (\<lambda>last_at.
     Inr \<lparr>tl_sequence = sequence, tl_closed = closed_at, tl_last = last_at, tl_count = events,
       tl_sha = digest, tl_expires = expires_at\<rparr>))))))"

definition log_header_payload :: "log_header \<Rightarrow> py_value" where
  "log_header_payload h = P_Dict
     [(''line'', P_Str ''header''),
      (''opened_at'', P_Datetime (utc (hl_opened h))),
      (''retention_days'', P_Int (hl_retention h)),
      (''schema'', P_Int 1),
      (''scope'', P_Str ''installation''),
      (''sequence'', P_Int (hl_sequence h))]"

definition structured_log_header_line :: "(string \<Rightarrow> string) \<Rightarrow> log_header \<Rightarrow> string res" where
  "structured_log_header_line nfc h =
     bind_res authorize_local_log (\<lambda>_. canonical_line nfc max_log_header_bytes (log_header_payload h))"

definition log_trailer_payload :: "log_trailer \<Rightarrow> py_value" where
  "log_trailer_payload t = P_Dict
     [(''closed_at'', P_Datetime (utc (tl_closed t))),
      (''content_sha256'', P_Str (tl_sha t)),
      (''event_count'', P_Int (tl_count t)),
      (''expires_at'', P_Datetime (utc (tl_expires t))),
      (''last_event_at'', (case tl_last t of None \<Rightarrow> P_None | Some us \<Rightarrow> P_Datetime (utc us))),
      (''line'', P_Str ''trailer''),
      (''schema'', P_Int 1),
      (''sequence'', P_Int (tl_sequence t))]"

definition structured_log_trailer_line :: "(string \<Rightarrow> string) \<Rightarrow> log_trailer \<Rightarrow> string res" where
  "structured_log_trailer_line nfc t =
     bind_res authorize_local_log (\<lambda>_. canonical_line nfc max_log_trailer_bytes (log_trailer_payload t))"

definition structured_log_content_sha256 :: "(string \<Rightarrow> string) \<Rightarrow> string \<Rightarrow> string list \<Rightarrow> string" where
  "structured_log_content_sha256 sha header_line event_lines = sha (header_line @ concat event_lines)"

section \<open>The stream sink\<close>

text \<open>
  What one \<^verbatim>\<open>stream.write\<close> answers: it raises, it returns something that is not an integer, or an
  integer. A stream is a function of its own state and the chunk it is given.
\<close>

datatype write_answer = Write_Raises | Write_Other | Wrote int

type_synonym 's stream = "'s \<Rightarrow> string \<Rightarrow> write_answer \<times> 's"

text \<open>The loop of \<^verbatim>\<open>_write_all\<close> on what is still to be written; \<open>None\<close> is a loop that never ends.\<close>

partial_function (option) stream_write_all :: "'s stream \<Rightarrow> string \<Rightarrow> 's \<Rightarrow> (bool \<times> 's) option" where
  "stream_write_all write line s =
     (if line = [] then Some (True, s)
      else case write s line of
        (Wrote n, s') \<Rightarrow>
          (if 0 < n \<and> n \<le> int (length line) then stream_write_all write (drop (nat n) line) s'
           else Some (False, s'))
      | (_, s') \<Rightarrow> Some (False, s'))"

definition sink_write :: "(string \<Rightarrow> string) \<Rightarrow> 's stream \<Rightarrow> log_event \<Rightarrow> 's \<Rightarrow> (unit res \<times> 's) option" where
  "sink_write nfc write ev s = (case structured_log_event_line nfc ev of
     Inl e \<Rightarrow> Some (Inl e, s)
   | Inr line \<Rightarrow> (case stream_write_all write line s of
       None \<Rightarrow> None
     | Some (True, s') \<Rightarrow> Some (Inr (), s')
     | Some (False, s') \<Rightarrow> Some (Inl (Logging_Error ''MH_LOG_SINK_WRITE''), s')))"

section \<open>The encoder respects replaced values\<close>

lemma normalize_keys_map:
  "normalize_keys nfc (map (apsnd f) zs) (map (apsnd f) acc) =
     (case normalize_keys nfc zs acc of Inl e \<Rightarrow> Inl e | Inr r \<Rightarrow> Inr (map (apsnd f) r))"
proof (induction nfc zs acc rule: normalize_keys.induct)
  case (2 nfc k v items acc)
  have keys: "fst ` set (map (apsnd f) acc) = fst ` set acc" by force
  show ?case
  proof (cases "normalize_string nfc k")
    case (Inr nk)
    then show ?thesis
      using "2.IH" [of nk] keys by (cases "nk \<in> fst ` set acc") (simp_all add: image_image)
  qed simp
qed simp

lemma normalize_keys_values: "normalize_keys nfc zs [] = Inr r \<Longrightarrow> snd ` set r = snd ` set zs"
  by (simp add: normalize_keys_Inr normal_item_def image_image)

lemma insort_key_items: "insort_key fst (apsnd f x) (map (apsnd f) xs) = map (apsnd f) (insort_key fst x xs)"
  by (induction xs) auto

lemma sort_key_map_items: "sort_key fst (map (apsnd f) zs) = map (apsnd f) (sort_key fst zs)"
  by (induction zs) (simp_all add: insort_key_items)

lemma for_each_map: "for_each f (map h xs) = for_each (f \<circ> h) xs"
  by (induction xs) auto

lemma for_each_cong: "(\<And>x. x \<in> set xs \<Longrightarrow> f x = g x) \<Longrightarrow> for_each f xs = for_each g xs"
  by (induction xs) auto

lemma encode_dict_map:
  assumes "\<And>w d. w \<in> snd ` set zs \<Longrightarrow> encode_value nfc mn d (f w) = encode_value nfc mn d (g w)"
  shows "encode_value nfc mn d (P_Dict (map (apsnd f) zs)) = encode_value nfc mn d (P_Dict (map (apsnd g) zs))"
proof (cases d)
  case 0
  then show ?thesis by simp
next
  case (Suc e)
  show ?thesis
  proof (cases "normalize_keys nfc zs []")
    case (Inl x)
    then show ?thesis
      using normalize_keys_map [of nfc f zs "[]"] normalize_keys_map [of nfc g zs "[]"] by (simp add: Suc)
  next
    case (Inr r)
    have same: "for_each (encode_item nfc (encode_value nfc mn e)) (map (apsnd f) (sort_key fst r))
        = for_each (encode_item nfc (encode_value nfc mn e)) (map (apsnd g) (sort_key fst r))"
      unfolding for_each_map
    proof (rule for_each_cong)
      fix x assume "x \<in> set (sort_key fst r)"
      then have "snd x \<in> snd ` set zs" using normalize_keys_values [OF Inr] by force
      then show "(encode_item nfc (encode_value nfc mn e) \<circ> apsnd f) x
          = (encode_item nfc (encode_value nfc mn e) \<circ> apsnd g) x"
        by (cases x) (simp add: encode_item_def assms)
    qed
    show ?thesis
      using normalize_keys_map [of nfc f zs "[]"] normalize_keys_map [of nfc g zs "[]"]
      by (simp add: Suc Inr andthen_lift_Inr sort_key_map_items same)
  qed
qed

lemma encode_list_map:
  assumes "\<And>w d. w \<in> set ws \<Longrightarrow> encode_value nfc mn d (f w) = encode_value nfc mn d (g w)"
  shows "encode_value nfc mn d (P_List (map f ws)) = encode_value nfc mn d (P_List (map g ws))"
proof (cases d)
  case (Suc e)
  have "for_each (encode_value nfc mn e) (map f ws) = for_each (encode_value nfc mn e) (map g ws)"
    unfolding for_each_map by (rule for_each_cong) (simp add: assms)
  then show ?thesis by (simp add: Suc)
qed simp

section \<open>What an event's line reads back to\<close>

text \<open>
  \<^verbatim>\<open>json.loads\<close> of an event's line: every value is a text or a number of the payload, a timestamp
  its stamp, a float with an integral value the integer its text shows.
\<close>

fun number_image :: "py_value \<Rightarrow> py_value" where
  "number_image (P_Float (Float_Integral i)) = P_Int i"
| "number_image v = v"

definition metric_image :: "log_metric \<Rightarrow> py_value" where
  "metric_image m = P_Dict [(''kind'', P_Str (kind_value (ms_kind (lm_spec m)))),
     (''name'', P_Str (ms_name (lm_spec m))), (''value'', number_image (lm_value m))]"

definition event_image :: "log_event \<Rightarrow> py_value" where
  "event_image ev = P_Dict
     [(''error'', optional_str (lv_error ev)),
      (''fingerprint'', optional_str (lv_fingerprint ev)),
      (''level'', P_Str (level_name (lv_level ev))),
      (''line'', P_Str ''event''),
      (''metrics'', P_List (map metric_image (lv_metrics ev))),
      (''name'', P_Str (lv_name ev)),
      (''privacy'', P_Str ''internal''),
      (''schema'', P_Int 1),
      (''ts'', P_Str (stamp_of (lv_at ev)))]"

lemma encode_number_image: "encode_value nfc mn d (number_image v) = encode_value nfc mn d v"
  by (cases v rule: number_image.cases; cases d)
    (auto simp: encode_scalar_def serialize_float_def serialize_integer_def int_text_def
      max_int64_def min_int64_def nat_text.simps digit_char_numerals)

lemma encode_metric_image: "encode_value nfc mn d (metric_image m) = encode_value nfc mn d (metric_payload m)"
  using encode_dict_map [of "[(''kind'', P_Str (kind_value (ms_kind (lm_spec m)))),
      (''name'', P_Str (ms_name (lm_spec m))), (''value'', lm_value m)]" nfc mn "\<lambda>v. number_image v" "\<lambda>v. v" d]
  by (simp add: metric_image_def metric_payload_def encode_number_image)

text \<open>So an object that differs in the metrics' images only has the same text.\<close>

lemma canonical_metrics_image:
  "canonical_line nfc bound (P_Dict (xs @ [(k, P_List (map metric_image ms))] @ ys))
   = canonical_line nfc bound (P_Dict (xs @ [(k, P_List (map metric_payload ms))] @ ys))"
proof -
  let ?zs = "map (apsnd (\<lambda>v. (v, v))) xs @ [(k, P_List (map metric_image ms), P_List (map metric_payload ms))]
    @ map (apsnd (\<lambda>v. (v, v))) ys"
  have side: "map (apsnd h) (map (apsnd (\<lambda>v. (v, v))) zs) = zs" if "h \<in> {fst, snd}" for zs :: "(string \<times> py_value) list" and h
    using that by (induction zs) auto
  have "encode_value nfc mn d (P_Dict (map (apsnd fst) ?zs)) = encode_value nfc mn d (P_Dict (map (apsnd snd) ?zs))" for mn d
    by (rule encode_dict_map)
      (auto intro!: encode_list_map encode_metric_image simp: image_image)
  then have "encode_value nfc mn d (P_Dict (xs @ [(k, P_List (map metric_image ms))] @ ys))
      = encode_value nfc mn d (P_Dict (xs @ [(k, P_List (map metric_payload ms))] @ ys))" for mn d
    by (simp add: side del: map_map)
  then show ?thesis by (simp add: canonical_line_def canonical_json_bytes_def)
qed

lemma canonical_line_cong:
  "(\<And>mn d. encode_value nfc mn d u = encode_value nfc mn d v) \<Longrightarrow> canonical_line nfc bound u = canonical_line nfc bound v"
  by (simp add: canonical_line_def canonical_json_bytes_def)

lemma find_kind: "find (\<lambda>k. kind_value kind = kind_value k) metric_kinds = Some kind"
  by (cases kind) (simp_all add: metric_kinds_def)

lemma find_level: "find (\<lambda>l. level_name level = level_name l) log_levels = Some level"
  by (cases level) (simp_all add: log_levels_def)

lemma wire_metric_value:
  "metric_init m = Inr m \<Longrightarrow> require_wire_metric_value (ms_kind (lm_spec m)) (number_image (lm_value m)) = Inr ()"
  by (cases "lm_value m" rule: number_image.cases)
    (auto simp: metric_init_def require_wire_metric_value_def Let_def float_in_range_def
      split: metric_kind.splits if_splits py_float.splits)

lemma wire_metrics_image:
  "list_all metric_ok ms \<Longrightarrow> sorted_wrt (<) (map (ms_name \<circ> lm_spec) ms) \<Longrightarrow>
   (\<forall>p m. previous = Some p \<longrightarrow> m \<in> set ms \<longrightarrow> p < ms_name (lm_spec m)) \<Longrightarrow>
   wire_metrics previous (map metric_image ms) = Inr (map metric_image ms)"
proof (induction ms arbitrary: previous)
  case (Cons m ms)
  have name: "validate_machine_name 64 (ms_name (lm_spec m)) = Inr (ms_name (lm_spec m))"
    using Cons.prems(1) by (auto simp: metric_ok_def metric_spec_init_def bind_res_eq_Inr validate_machine_name_def
        split: if_splits)
  have init: "metric_init m = Inr m" using Cons.prems(1) by (simp add: metric_ok_def)
  have rest: "wire_metrics (Some (ms_name (lm_spec m))) (map metric_image ms) = Inr (map metric_image ms)"
    using Cons.prems by (intro Cons.IH) auto
  have previous: "case previous of None \<Rightarrow> True | Some p \<Rightarrow> p < ms_name (lm_spec m)"
    using Cons.prems(3) by (simp split: option.splits)
  show ?case
    by (simp add: metric_image_def field_def find_kind wire_name_def name wire_metric_value [OF init] check_res_def
        previous rest [unfolded metric_image_def])
qed simp

lemma event_line_roundtrip:
  assumes "event_ok ev" "structured_log_event_line nfc ev = Inr line" "loads line = Some (event_image ev)"
  shows "validate_structured_log_event_line nfc loads line = Inr (lv_at ev)"
proof -
  have at: "valid_instant (lv_at ev)" "lv_at ev div 1000 * 1000 = lv_at ev"
    using assms(1) div_mult_mod_eq [of "lv_at ev" 1000] by (auto simp: event_ok_def)
  have ts: "parse_wire_event_timestamp (P_Str (stamp_of (lv_at ev))) = Inr (lv_at ev)"
    using at by (simp add: parse_wire_event_timestamp_def parse_stamp_of normalized_utc_def truncate_utc)
  have line: "canonical_line nfc max_event_line_bytes (event_payload ev) = Inr line"
    using assms(2) by (auto simp: structured_log_event_line_def bind_res_eq_Inr)
  then have size: "\<not> max_event_line_bytes < int (length line)"
    by (auto simp: canonical_line_def canonical_json_bytes_def bind_res_eq_Inr max_event_line_bytes_def split: if_splits)
  have metrics: "validate_wire_event_metrics (P_List (map metric_image (lv_metrics ev))) = Inr (map metric_image (lv_metrics ev))"
    using assms(1) wire_metrics_image [of "lv_metrics ev" None]
    by (simp add: validate_wire_event_metrics_def event_ok_def)
  have name: "wire_name 128 (P_Str (lv_name ev)) = Inr (lv_name ev)"
    using assms(1) by (simp add: wire_name_def event_ok_def)
  have tokens: "wire_error_ok (optional_str (lv_error ev))" "wire_fingerprint_ok (optional_str (lv_fingerprint ev))"
    using assms(1) by (auto simp: wire_error_ok_def wire_fingerprint_ok_def optional_str_def event_ok_def split: option.splits)
  let ?pre = "[(''error'', optional_str (lv_error ev)), (''fingerprint'', optional_str (lv_fingerprint ev)),
      (''level'', P_Str (level_name (lv_level ev))), (''line'', P_Str ''event'')]"
  let ?post = "[(''name'', P_Str (lv_name ev)), (''privacy'', P_Str ''internal''), (''schema'', P_Int 1),
      (''ts'', P_Datetime (utc (lv_at ev)))]"
  have again: "canonical_line nfc max_event_line_bytes (P_Dict (?pre @ [(''metrics'', P_List (map metric_image (lv_metrics ev)))] @ ?post))
      = Inr line"
    using line unfolding canonical_metrics_image by (simp add: event_payload_def)
  show ?thesis
    using again size
    by (simp add: validate_structured_log_event_line_def assms(3) event_image_def event_line_keys_def field_def
        equals_one_def ts name find_level metrics tokens check_res_def)
qed

section \<open>The sink's loop\<close>

text \<open>A stream that also keeps the number of calls and the bytes it accepted.\<close>

definition accepting :: "'s stream \<Rightarrow> ('s \<times> nat \<times> string) stream" where
  "accepting write = (\<lambda>(s, calls, got) chunk. case write s chunk of
     (Wrote n, s') \<Rightarrow> (Wrote n, s', calls + 1, got @ take (nat n) chunk)
   | (a, s') \<Rightarrow> (a, s', calls + 1, got))"

lemma stream_write_all_returns:
  "\<exists>ok s' calls' sent. stream_write_all (accepting write) line (s, calls, got) = Some (ok, s', calls', got @ sent) \<and>
     prefix sent line \<and> (ok \<longrightarrow> sent = line) \<and> calls' \<le> calls + length line"
proof (induction line arbitrary: s calls got rule: length_induct)
  case (1 line)
  show ?case
  proof (cases "line = []")
    case True
    then have "stream_write_all (accepting write) line (s, calls, got) = Some (True, s, calls, got @ [])"
      by (subst stream_write_all.simps) simp
    then have "stream_write_all (accepting write) line (s, calls, got) = Some (True, s, calls, got @ []) \<and>
        prefix [] line \<and> (True \<longrightarrow> [] = line) \<and> calls \<le> calls + length line"
      using True by simp
    then show ?thesis by blast
  next
    case False
    obtain a s1 where w: "write s line = (a, s1)" by fastforce
    have len: "0 < length line" using False by simp
    show ?thesis
    proof (cases "\<exists>n. a = Wrote n \<and> 0 < n \<and> n \<le> int (length line)")
      case True
      then obtain n where n: "a = Wrote n" "0 < n" "n \<le> int (length line)" by blast
      let ?got = "got @ take (nat n) line" let ?rest = "drop (nat n) line"
      have "length ?rest < length line" using n len by simp
      then obtain ok s' calls' sent where ih:
        "stream_write_all (accepting write) ?rest (s1, calls + 1, ?got) = Some (ok, s', calls', ?got @ sent)"
        "prefix sent ?rest" "ok \<longrightarrow> sent = ?rest" "calls' \<le> calls + 1 + length ?rest"
        using 1 by blast
      have "stream_write_all (accepting write) line (s, calls, got) = Some (ok, s', calls', got @ (take (nat n) line @ sent))"
        using False n w ih(1) by (subst stream_write_all.simps) (simp add: accepting_def)
      moreover have "prefix (take (nat n) line @ sent) line"
        using ih(2) by (metis append_take_drop_id same_prefix_prefix)
      moreover have "ok \<longrightarrow> take (nat n) line @ sent = line" using ih(3) by auto
      moreover have "calls' \<le> calls + length line" using ih(4) n by simp
      ultimately show ?thesis by blast
    next
      case no: False
      have "\<exists>sent. stream_write_all (accepting write) line (s, calls, got) = Some (False, s1, calls + 1, got @ sent) \<and> prefix sent line"
        using False w no by (subst stream_write_all.simps)
          (auto simp: accepting_def take_is_prefix split: write_answer.splits)
      then obtain sent where "stream_write_all (accepting write) line (s, calls, got) = Some (False, s1, calls + 1, got @ sent) \<and>
          prefix sent line \<and> (False \<longrightarrow> sent = line) \<and> calls + 1 \<le> calls + length line"
        using len by auto
      then show ?thesis by blast
    qed
  qed
qed

section \<open>Properties\<close>

text \<open>C37
  A stored event reads back: the line of any event the logger delivered is accepted by the validator
  that recovery and retention run over stored segments, and what it returns is the event's own
  timestamp. What is assumed of the standard library is that \<^verbatim>\<open>json.loads\<close> reads back the payload
  the encoder wrote.
\<close>

theorem logged_event_roundtrip:
  assumes "event_spec_init raw = Inr sp" "list_all metric_ok ms"
    and "emit lg sp ms error value s = (Inr (Some ev), s')"
    and "structured_log_event_line nfc ev = Inr line" "loads line = Some (event_image ev)"
  shows "validate_structured_log_event_line nfc loads line = Inr (lv_at ev) \<and> int (length line) \<le> max_event_line_bytes"
proof -
  obtain now fp where "event_create (lg_frepr lg) now sp ms error fp = Inr ev"
    using assms(3) by (auto simp: emit_def andthen_Inr check_def lift_res_def ret_def split: if_splits)
  then have "event_ok ev" using event_create_ok [OF assms(1,2)] by blast
  moreover have "int (length line) \<le> max_event_line_bytes"
    using assms(4) by (auto simp: structured_log_event_line_def canonical_line_def canonical_json_bytes_def
        bind_res_eq_Inr split: if_splits)
  ultimately show ?thesis using event_line_roundtrip assms(4,5) by blast
qed

text \<open>C40
  The sink always answers: whatever the stream answers to each write (it may raise, return something
  that is no count, accept a part, or claim a count that is out of range), delivering an event ends
  after at most one stream call per byte of its line, the stream has accepted a prefix of that line
  and nothing else, and the sink reports success only when it was the whole line.
\<close>

theorem sink_always_answers:
  "\<exists>r s' calls sent. sink_write nfc (accepting write) ev (s, 0, []) = Some (r, s', calls, sent) \<and>
     (case structured_log_event_line nfc ev of
        Inl e \<Rightarrow> r = Inl e \<and> calls = 0 \<and> sent = []
      | Inr line \<Rightarrow> calls \<le> length line \<and> prefix sent line \<and>
          (r = Inr () \<and> sent = line \<or> r = Inl (Logging_Error ''MH_LOG_SINK_WRITE'')))"
proof (cases "structured_log_event_line nfc ev")
  case (Inl e)
  then show ?thesis by (simp add: sink_write_def)
next
  case (Inr line)
  obtain ok s' calls sent where "stream_write_all (accepting write) line (s, 0, []) = Some (ok, s', calls, sent)"
      "prefix sent line" "ok \<longrightarrow> sent = line" "calls \<le> length line"
    using stream_write_all_returns [of "write" line s 0 "[]"] by auto
  then show ?thesis by (cases ok) (simp_all add: sink_write_def Inr)
qed

lemma demo_event_stamp: "format_timestamp (utc 1000) = Inr ''0001-01-01T00:00:00.001Z''"
  by (simp add: format_timestamp_utc valid_instant_def datetime_limit_def us_per_day_def stamp_eval
      days_before_year_def month_lengths_def pad_dec_eval Let_def)

lemma demo_quoted: "quote_string id ''0001-01-01T00:00:00.001Z'' = Inr (json_quote ''0001-01-01T00:00:00.001Z'')"
  by code_simp

lemma demo_encode_stamp: "encode_value id mn d (P_Datetime (utc 1000)) = encode_value id mn d (P_Str ''0001-01-01T00:00:00.001Z'')"
  by (cases d) (simp_all add: encode_scalar_def demo_event_stamp demo_quoted)

definition demo_pairs :: "(string \<times> py_value \<times> py_value) list" where
  "demo_pairs = map (apsnd (\<lambda>v. (v, v)))
     [(''error'', P_Str ''MH_SPOOL_FULL''), (''fingerprint'', P_None), (''level'', P_Str ''WARNING''),
      (''line'', P_Str ''event''), (''metrics'', P_List (map metric_payload (rev demo_metrics))),
      (''name'', P_Str ''spool.commit''), (''privacy'', P_Str ''internal''), (''schema'', P_Int 1)]
     @ [(''ts'', P_Datetime (utc 1000), P_Str ''0001-01-01T00:00:00.001Z'')]"

definition demo_event_line :: string where
  "demo_event_line = projr (canonical_line id max_event_line_bytes (P_Dict (map (apsnd snd) demo_pairs)))"

lemma demo_event_canonical: "canonical_line id max_event_line_bytes (P_Dict (map (apsnd snd) demo_pairs)) = Inr demo_event_line"
  by code_simp

lemma demo_event_stored: "structured_log_event_line id demo_event = Inr demo_event_line"
proof -
  have "encode_value id mn d (P_Dict (map (apsnd fst) demo_pairs)) = encode_value id mn d (P_Dict (map (apsnd snd) demo_pairs))" for mn d
    by (rule encode_dict_map) (auto simp: demo_pairs_def demo_encode_stamp)
  moreover have "event_payload demo_event = P_Dict (map (apsnd fst) demo_pairs)"
    by (simp add: event_payload_def demo_event_def demo_pairs_def optional_str_def)
  ultimately have "canonical_line id max_event_line_bytes (event_payload demo_event) = Inr demo_event_line"
    using demo_event_canonical canonical_line_cong by metis
  then show ?thesis by (simp add: structured_log_event_line_def authorized)
qed

theorem logged_event_roundtrip_witness:
  "validate_structured_log_event_line id (\<lambda>_. Some (event_image demo_event)) demo_event_line = Inr 1000"
  using logged_event_roundtrip [OF demo_logged(1,2) demo_emitted demo_event_stored, of "\<lambda>_. Some (event_image demo_event)"]
  by (simp add: demo_event_def)

end
