(* ===== verification/Log_Fs.thy ===== *)
theory Log_Fs
  imports Log_Wire
begin

text \<open>
  The file-system surface of \<^verbatim>\<open>src/milhouse/core/log_store.py\<close>: one logs directory, the system calls
  the store makes on it, the checks of its envelope, the walk from the state root, and the wait for
  \<^verbatim>\<open>structured-log.lock\<close>.

  \<^item> The directory is a list of names with their inodes; an inode holds its bytes, whether it is an
    owned \<^verbatim>\<open>0600\<close> ACL-free regular file (\<open>nd_private\<close>), its number of links, and a stamp that every
    change renews, standing for the size and times of \<^verbatim>\<open>_file_identity\<close>.
  \<^item> Every system call consumes one answer: it is carried out, it fails with \<^verbatim>\<open>OSError\<close>, or, for a
    write, it is cut short after some bytes. Answers that fail from some call on are a process that
    crashed there, since every handler's own calls fail too.
  \<^item> What the kernel keeps in memory only is not distinguished from what it has on disk: \<^verbatim>\<open>fsync\<close> is a
    call that may fail and changes nothing.

  The section on weakest preconditions gives each call its rule, so that the proofs about the store
  step through its programs.
\<close>

record log_node =
  nd_bytes :: string
  nd_private :: bool
  nd_links :: nat
  nd_stamp :: nat

record dir_entry =
  de_inode :: nat
  de_owned :: bool
  de_exact :: bool

record log_disk =
  dk_names :: "(string \<times> nat) list"
  dk_nodes :: "nat \<Rightarrow> log_node"
  dk_fresh :: nat
  dk_dirs :: "string list \<Rightarrow> dir_entry option"
  dk_held :: nat

datatype sys_answer = Sys_Ok | Sys_Fail | Sys_Short nat

text \<open>The object's slots: the open descriptor is its inode, the running digest the bytes it was fed.\<close>

record log_store =
  so_closed :: bool
  so_fd :: "nat option"
  so_header :: log_header
  so_count :: int
  so_last :: "int option"
  so_size :: int
  so_hashed :: string
  so_retention :: int
  so_root :: "string list"
  so_logs :: "string list"

record log_world =
  lw_disk :: log_disk
  lw_store :: log_store
  lw_answers :: "nat \<Rightarrow> sys_answer"
  lw_calls :: nat
  lw_clock :: "nat \<Rightarrow> int"
  lw_ticks :: nat

section \<open>System calls\<close>

type_synonym 'a effect = "log_disk \<Rightarrow> 'a res \<times> log_disk"

definition sys :: "'a effect \<Rightarrow> (log_world, 'a) prog" where
  "sys eff = (\<lambda>w. let w1 = w\<lparr>lw_calls := lw_calls w + 1\<rparr> in
     if lw_answers w (lw_calls w) = Sys_Fail then (Inl (Os_Error Call_Failed), w1)
     else (case eff (lw_disk w) of (r, d) \<Rightarrow> (r, w1\<lparr>lw_disk := d\<rparr>)))"

definition inode_of :: "log_disk \<Rightarrow> string \<Rightarrow> nat option" where
  "inode_of d name = map_of (dk_names d) name"

definition bytes_of :: "log_disk \<Rightarrow> nat \<Rightarrow> string" where
  "bytes_of d i = nd_bytes (dk_nodes d i)"

definition set_node :: "nat \<Rightarrow> (log_node \<Rightarrow> log_node) \<Rightarrow> log_disk \<Rightarrow> log_disk" where
  "set_node i f d = d\<lparr>dk_nodes := (dk_nodes d)(i := (f (dk_nodes d i))\<lparr>nd_stamp := nd_stamp (dk_nodes d i) + 1\<rparr>)\<rparr>"

text \<open>\<^verbatim>\<open>os.open\<close> and \<^verbatim>\<open>os.stat\<close> of a name: the inode it resolves to.\<close>

definition do_lookup :: "string \<Rightarrow> nat effect" where
  "do_lookup name d = ((case inode_of d name of None \<Rightarrow> Inl (Os_Error Not_Found_Error) | Some i \<Rightarrow> Inr i), d)"

definition do_create :: "string \<Rightarrow> nat effect" where
  "do_create name d =
     (Inr (dk_fresh d), d\<lparr>dk_names := (name, dk_fresh d) # dk_names d,
        dk_nodes := (dk_nodes d)(dk_fresh d := \<lparr>nd_bytes = [], nd_private = True, nd_links = 1, nd_stamp = 0\<rparr>),
        dk_fresh := dk_fresh d + 1\<rparr>)"

text \<open>\<^verbatim>\<open>O_CREAT | O_EXCL\<close>, and \<^verbatim>\<open>O_CREAT\<close> alone.\<close>

definition do_open_new :: "string \<Rightarrow> nat effect" where
  "do_open_new name d = (if inode_of d name \<noteq> None then (Inl (Os_Error Exists_Error), d) else do_create name d)"

definition do_open_creat :: "string \<Rightarrow> nat effect" where
  "do_open_creat name d = (case inode_of d name of None \<Rightarrow> do_create name d | Some i \<Rightarrow> (Inr i, d))"

definition do_fstat :: "nat \<Rightarrow> log_node effect" where
  "do_fstat fd d = (Inr (dk_nodes d fd), d)"

definition do_link :: "string \<Rightarrow> string \<Rightarrow> unit effect" where
  "do_link old new d = (case inode_of d old of
     None \<Rightarrow> (Inl (Os_Error Not_Found_Error), d)
   | Some i \<Rightarrow> (if inode_of d new \<noteq> None then (Inl (Os_Error Exists_Error), d)
       else (Inr (), set_node i (\<lambda>n. n\<lparr>nd_links := nd_links n + 1\<rparr>) (d\<lparr>dk_names := (new, i) # dk_names d\<rparr>))))"

definition drop_name :: "string \<Rightarrow> log_disk \<Rightarrow> log_disk" where
  "drop_name name d = d\<lparr>dk_names := filter (\<lambda>e. fst e \<noteq> name) (dk_names d)\<rparr>"

definition do_unlink :: "string \<Rightarrow> unit effect" where
  "do_unlink name d = (case inode_of d name of
     None \<Rightarrow> (Inl (Os_Error Not_Found_Error), d)
   | Some i \<Rightarrow> (Inr (), set_node i (\<lambda>n. n\<lparr>nd_links := nd_links n - 1\<rparr>) (drop_name name d)))"

text \<open>\<^verbatim>\<open>os.rename\<close> replaces what the new name named.\<close>

definition do_rename :: "string \<Rightarrow> string \<Rightarrow> unit effect" where
  "do_rename old new d = (case inode_of d old of
     None \<Rightarrow> (Inl (Os_Error Not_Found_Error), d)
   | Some i \<Rightarrow> (let d1 = (case inode_of d new of None \<Rightarrow> d
         | Some j \<Rightarrow> set_node j (\<lambda>n. n\<lparr>nd_links := nd_links n - 1\<rparr>) d)
       in (Inr (), d1\<lparr>dk_names := (new, i) # filter (\<lambda>e. fst e \<noteq> old \<and> fst e \<noteq> new) (dk_names d1)\<rparr>)))"

definition do_truncate :: "nat \<Rightarrow> nat \<Rightarrow> unit effect" where
  "do_truncate fd n d = (Inr (), set_node fd (\<lambda>x. x\<lparr>nd_bytes := take n (nd_bytes x)\<rparr>) d)"

definition os_open :: "string \<Rightarrow> (log_world, nat) prog" where "os_open name = sys (do_lookup name)"
definition os_stat :: "string \<Rightarrow> (log_world, nat) prog" where "os_stat name = sys (do_lookup name)"
definition os_open_new :: "string \<Rightarrow> (log_world, nat) prog" where "os_open_new name = sys (do_open_new name)"
definition os_open_creat :: "string \<Rightarrow> (log_world, nat) prog" where "os_open_creat name = sys (do_open_creat name)"
definition os_fstat :: "nat \<Rightarrow> (log_world, log_node) prog" where "os_fstat fd = sys (do_fstat fd)"
definition os_link :: "string \<Rightarrow> string \<Rightarrow> (log_world, unit) prog" where "os_link old new = sys (do_link old new)"
definition os_unlink :: "string \<Rightarrow> (log_world, unit) prog" where "os_unlink name = sys (do_unlink name)"
definition os_rename :: "string \<Rightarrow> string \<Rightarrow> (log_world, unit) prog" where "os_rename old new = sys (do_rename old new)"
definition os_ftruncate :: "nat \<Rightarrow> nat \<Rightarrow> (log_world, unit) prog" where "os_ftruncate fd n = sys (do_truncate fd n)"
definition os_scandir :: "(log_world, string list) prog" where "os_scandir = sys (\<lambda>d. (Inr (map fst (dk_names d)), d))"

text \<open>\<^verbatim>\<open>os.fsync\<close>, \<^verbatim>\<open>os.close\<close>, \<^verbatim>\<open>fcntl.flock\<close>.\<close>

definition os_fsync :: "(log_world, unit) prog" where "os_fsync = sys (\<lambda>d. (Inr (), d))"
definition os_close :: "(log_world, unit) prog" where "os_close = sys (\<lambda>d. (Inr (), d))"
definition os_flock :: "(log_world, unit) prog" where "os_flock = sys (\<lambda>d. (Inr (), d))"

text \<open>\<^verbatim>\<open>os.write\<close> on an append descriptor returns how many bytes it took.\<close>

definition append_bytes :: "nat \<Rightarrow> string \<Rightarrow> log_disk \<Rightarrow> log_disk" where
  "append_bytes fd bs d = set_node fd (\<lambda>x. x\<lparr>nd_bytes := nd_bytes x @ bs\<rparr>) d"

definition os_write :: "nat \<Rightarrow> string \<Rightarrow> (log_world, nat) prog" where
  "os_write fd bs = (\<lambda>w. let w1 = w\<lparr>lw_calls := lw_calls w + 1\<rparr> in
     case lw_answers w (lw_calls w) of
       Sys_Fail \<Rightarrow> (Inl (Os_Error Call_Failed), w1)
     | Sys_Ok \<Rightarrow> (Inr (length bs), w1\<lparr>lw_disk := append_bytes fd bs (lw_disk w)\<rparr>)
     | Sys_Short k \<Rightarrow> (Inr (min k (length bs)), w1\<lparr>lw_disk := append_bytes fd (take k bs) (lw_disk w)\<rparr>))"

text \<open>\<^verbatim>\<open>os.read\<close> until it returns nothing, in chunks of a mebibyte.\<close>

function read_rest :: "string \<Rightarrow> (log_world, string) prog" where
  "read_rest bs =
     (if bs = [] then sys (\<lambda>d. (Inr [], d))
      else andthen (sys (\<lambda>d. (Inr (take 1048576 bs), d))) (\<lambda>chunk.
        andthen (read_rest (drop 1048576 bs)) (\<lambda>rest. ret (chunk @ rest))))"
  by auto
termination by (relation "measure length") auto

declare read_rest.simps [simp del]

section \<open>Handlers\<close>

fun is_os_error :: "py_exc \<Rightarrow> bool" where
  "is_os_error (Os_Error _) = True"
| "is_os_error _ = False"

fun is_logging_error :: "py_exc \<Rightarrow> bool" where
  "is_logging_error (Logging_Error _) = True"
| "is_logging_error _ = False"

definition log_fail :: "string \<Rightarrow> ('s, 'a) prog" where
  "log_fail code = throw (Logging_Error code)"

definition except_os :: "('s, 'a) prog \<Rightarrow> ('s, 'a) prog \<Rightarrow> ('s, 'a) prog" where
  "except_os m h = handle m (\<lambda>e. if is_os_error e then Some h else None)"

definition except_logging :: "('s, 'a) prog \<Rightarrow> (py_exc \<Rightarrow> ('s, 'a) prog) \<Rightarrow> ('s, 'a) prog" where
  "except_logging m h = handle m (\<lambda>e. if is_logging_error e then Some (h e) else None)"

definition except_any :: "('s, 'a) prog \<Rightarrow> ('s, 'a) prog \<Rightarrow> ('s, 'a) prog" where
  "except_any m h = handle m (\<lambda>_. Some h)"

text \<open>\<^verbatim>\<open>_close_fd\<close>: a failing close is swallowed.\<close>

definition close_quietly :: "(log_world, unit) prog" where
  "close_quietly = except_os os_close (ret ())"

text \<open>\<^verbatim>\<open>finally: close\<close>, where a failing close turns the outcome into \<open>bad\<close>.\<close>

definition closing :: "('a \<Rightarrow> (log_world, 'a) prog) \<Rightarrow> (log_world, 'a) prog \<Rightarrow> (log_world, 'a) prog" where
  "closing bad m = andthen (handle m (\<lambda>e. Some (andthen close_quietly (\<lambda>_. throw e))))
     (\<lambda>x. except_os (andthen os_close (\<lambda>_. ret x)) (bad x))"

section \<open>The envelope of a directory and of a file\<close>

definition open_dir_component :: "string list \<Rightarrow> (log_world, dir_entry) prog" where
  "open_dir_component path =
     andthen (except_any (sys (\<lambda>d. ((case dk_dirs d path of None \<Rightarrow> Inl (Os_Error Not_Found_Error) | Some e \<Rightarrow> Inr e), d)))
       (log_fail ''MH_LOG_DIR'')) (\<lambda>e.
     if de_owned e then ret e else andthen close_quietly (\<lambda>_. log_fail ''MH_LOG_DIR''))"

text \<open>The components from the state root down to the logs directory, each opened in turn.\<close>

definition dir_chain :: "string list \<Rightarrow> string list \<Rightarrow> string list list" where
  "dir_chain root logs = map (\<lambda>k. take k logs) [length root..<length logs + 1]"

definition open_logs_dir :: "string list \<Rightarrow> string list \<Rightarrow> (log_world, nat) prog" where
  "open_logs_dir root logs =
     andthen (check (prefix root logs) (Logging_Error ''MH_LOG_DIR'')) (\<lambda>_.
     andthen (for_each open_dir_component (dir_chain root logs)) (\<lambda>es.
     if de_exact (last es) then ret (de_inode (last es))
     else andthen close_quietly (\<lambda>_. log_fail ''MH_LOG_DIR'')))"

definition require_live_directory :: "string list \<Rightarrow> string list \<Rightarrow> string \<Rightarrow> (log_world, unit) prog" where
  "require_live_directory root logs code =
     andthen (handle
       (andthen (open_logs_dir root logs) (\<lambda>probe.
        andthen (handle
          (andthen (sys (\<lambda>d. (Inr (dk_held d), d))) (\<lambda>held.
           andthen (sys (\<lambda>d. (Inr probe, d))) (\<lambda>live. ret (held = live))))
          (\<lambda>e. Some (andthen close_quietly (\<lambda>_. throw e)))) (\<lambda>bound.
        andthen close_quietly (\<lambda>_. ret bound))))
       (\<lambda>e. if is_os_error e \<or> is_logging_error e then Some (ret False) else None)) (\<lambda>bound.
     check bound (Logging_Error code))"

definition require_private_file :: "nat \<Rightarrow> (log_world, unit) prog" where
  "require_private_file fd =
     andthen (except_any (andthen (os_fstat fd) (\<lambda>n. ret (nd_private n \<and> nd_links n = 1))) (ret False)) (\<lambda>ok.
     check ok (Logging_Error ''MH_LOG_FILE''))"

definition examine_active_envelope :: "nat \<Rightarrow> (log_world, log_node) prog" where
  "examine_active_envelope fd =
     andthen (except_any (andthen (os_fstat fd) (\<lambda>n. ret (Some n))) (ret None)) (\<lambda>info.
     case info of
       Some n \<Rightarrow> if nd_private n \<and> nd_links n \<in> {1, 2} then ret n else log_fail ''MH_LOG_FILE''
     | None \<Rightarrow> log_fail ''MH_LOG_FILE'')"

section \<open>The log lock\<close>

text \<open>The injected monotonic clock, read in nanoseconds.\<close>

definition lock_wait_ns :: int where "lock_wait_ns = 5000000000"

definition read_monotonic :: "(log_world, int) prog" where
  "read_monotonic = (\<lambda>w. (Inr (lw_clock w (lw_ticks w)), w\<lparr>lw_ticks := lw_ticks w + 1\<rparr>))"

text \<open>The \<^verbatim>\<open>while True\<close> of \<^verbatim>\<open>acquire\<close>: whether the lock was taken before the deadline.\<close>

partial_function (option) poll_lock :: "int \<Rightarrow> log_world \<Rightarrow> (bool \<times> log_world) option" where
  "poll_lock deadline w =
     (case os_flock w of
        (Inr _, w1) \<Rightarrow> Some (True, w1)
      | (Inl _, w1) \<Rightarrow> (let now = lw_clock w1 (lw_ticks w1); w2 = w1\<lparr>lw_ticks := lw_ticks w1 + 1\<rparr> in
          if deadline \<le> now then Some (False, w2) else poll_lock deadline w2))"

definition lock_name :: string where "lock_name = ''structured-log.lock''"

definition open_lock :: "(log_world, nat) prog" where
  "open_lock =
     andthen (except_os (os_open_creat lock_name) (log_fail ''MH_LOG_LOCK'')) (\<lambda>fd.
     andthen (except_logging (require_private_file fd) (\<lambda>e. andthen close_quietly (\<lambda>_. throw e))) (\<lambda>_. ret fd))"

definition acquire_lock :: "log_world \<Rightarrow> (unit res \<times> log_world) option" where
  "acquire_lock w = (case andthen open_lock (\<lambda>_. read_monotonic) w of
     (Inl e, w1) \<Rightarrow> Some (Inl e, w1)
   | (Inr start, w1) \<Rightarrow> (case poll_lock (start + lock_wait_ns) w1 of
       None \<Rightarrow> None
     | Some (True, w2) \<Rightarrow> Some (Inr (), w2)
     | Some (False, w2) \<Rightarrow> Some (andthen close_quietly (\<lambda>_. log_fail ''MH_LOG_LOCK'') w2)))"

definition release_lock :: "(log_world, unit) prog" where
  "release_lock = andthen (except_os os_flock (ret ())) (\<lambda>_. close_quietly)"

text \<open>\<^verbatim>\<open>acquire\<close>, the body, and \<^verbatim>\<open>finally: release\<close>.\<close>

definition locked :: "(log_world, 'a) prog \<Rightarrow> log_world \<Rightarrow> ('a res \<times> log_world) option" where
  "locked body w = (case acquire_lock w of
     None \<Rightarrow> None
   | Some (Inl e, w1) \<Rightarrow> Some (Inl e, w1)
   | Some (Inr _, w1) \<Rightarrow> (case body w1 of (r, w2) \<Rightarrow> Some (r, snd (release_lock w2))))"

section \<open>Weakest preconditions\<close>

text \<open>
  \<open>wp m Q E\<close> holds of a disk and a store object when every run of \<open>m\<close> from them, whatever its calls
  answer, ends in \<open>Q\<close> with its value or in \<open>E\<close> with its exception.
\<close>

definition wp ::
  "(log_world, 'a) prog \<Rightarrow> ('a \<Rightarrow> log_disk \<Rightarrow> log_store \<Rightarrow> bool) \<Rightarrow> (py_exc \<Rightarrow> log_disk \<Rightarrow> log_store \<Rightarrow> bool)
     \<Rightarrow> log_disk \<Rightarrow> log_store \<Rightarrow> bool" where
  "wp m Q E d st \<longleftrightarrow> (\<forall>w r w'. lw_disk w = d \<longrightarrow> lw_store w = st \<longrightarrow> m w = (r, w') \<longrightarrow>
     (case r of Inl e \<Rightarrow> E e (lw_disk w') (lw_store w') | Inr x \<Rightarrow> Q x (lw_disk w') (lw_store w')))"

named_theorems wp_rules

lemma wpD: "wp m Q E (lw_disk w) (lw_store w) \<Longrightarrow> m w = (Inr x, w') \<Longrightarrow> Q x (lw_disk w') (lw_store w')"
    "wp m Q E (lw_disk w) (lw_store w) \<Longrightarrow> m w = (Inl e, w') \<Longrightarrow> E e (lw_disk w') (lw_store w')"
  by (force simp: wp_def)+

lemma wp_conseq:
  "wp m Q E d st \<Longrightarrow> (\<And>x d' st'. Q x d' st' \<Longrightarrow> Q' x d' st') \<Longrightarrow> (\<And>e d' st'. E e d' st' \<Longrightarrow> E' e d' st')
     \<Longrightarrow> wp m Q' E' d st"
  unfolding wp_def by (fastforce split: sum.splits)

lemma wp_conj:
  "wp m Q E d st \<Longrightarrow> wp m Q' E' d st \<Longrightarrow>
     wp m (\<lambda>x d' st'. Q x d' st' \<and> Q' x d' st') (\<lambda>e d' st'. E e d' st' \<and> E' e d' st') d st"
  unfolding wp_def by (fastforce split: sum.splits)

lemma wp_ret [wp_rules]: "Q x d st \<Longrightarrow> wp (ret x) Q E d st"
  by (simp add: wp_def ret_def)

lemma wp_throw [wp_rules]: "E e d st \<Longrightarrow> wp (throw e) Q E d st"
  by (simp add: wp_def throw_def)

lemma wp_fail [wp_rules]: "E (Logging_Error c) d st \<Longrightarrow> wp (log_fail c) Q E d st"
  by (simp add: log_fail_def wp_throw)

lemma wp_check [wp_rules]: "(b \<Longrightarrow> Q () d st) \<Longrightarrow> (\<not> b \<Longrightarrow> E e d st) \<Longrightarrow> wp (check b e) Q E d st"
  by (simp add: wp_def check_def)

lemma wp_lift [wp_rules]:
  "(\<And>x. r = Inr x \<Longrightarrow> Q x d st) \<Longrightarrow> (\<And>e. r = Inl e \<Longrightarrow> E e d st) \<Longrightarrow> wp (lift_res r) Q E d st"
  by (simp add: wp_def lift_res_def split: sum.splits)

lemma wp_andthen [wp_rules]: "wp m (\<lambda>x. wp (f x) Q E) E d st \<Longrightarrow> wp (andthen m f) Q E d st"
  unfolding wp_def andthen_def by (fastforce split: sum.splits prod.splits)

lemma wp_handle:
  "wp m Q (\<lambda>e d' st'. case h e of None \<Rightarrow> E e d' st' | Some k \<Rightarrow> wp k Q E d' st') d st \<Longrightarrow> wp (handle m h) Q E d st"
  unfolding wp_def handle_def by (fastforce split: sum.splits prod.splits option.splits)

lemma wp_except_os [wp_rules]:
  "wp m Q (\<lambda>e d' st'. if is_os_error e then wp h Q E d' st' else E e d' st') d st \<Longrightarrow> wp (except_os m h) Q E d st"
  unfolding except_os_def by (rule wp_handle) (erule wp_conseq, auto)

lemma wp_except_logging [wp_rules]:
  "wp m Q (\<lambda>e d' st'. if is_logging_error e then wp (h e) Q E d' st' else E e d' st') d st \<Longrightarrow>
     wp (except_logging m h) Q E d st"
  unfolding except_logging_def by (rule wp_handle) (erule wp_conseq, auto)

lemma wp_except_any [wp_rules]:
  "wp m Q (\<lambda>_. wp h Q E) d st \<Longrightarrow> wp (except_any m h) Q E d st"
  unfolding except_any_def by (rule wp_handle) simp

lemma wp_if [wp_rules]: "(b \<Longrightarrow> wp m Q E d st) \<Longrightarrow> (\<not> b \<Longrightarrow> wp n Q E d st) \<Longrightarrow> wp (if b then m else n) Q E d st"
  by simp

lemma wp_sys:
  "(\<And>x d'. eff d = (Inr x, d') \<Longrightarrow> Q x d' st) \<Longrightarrow> (\<And>e d'. eff d = (Inl e, d') \<Longrightarrow> E e d' st) \<Longrightarrow>
     E (Os_Error Call_Failed) d st \<Longrightarrow> wp (sys eff) Q E d st"
  by (auto simp: wp_def sys_def Let_def split: prod.splits sum.splits if_splits)

lemma wp_read [wp_rules]:
  "Q (f d) d st \<Longrightarrow> E (Os_Error Call_Failed) d st \<Longrightarrow> wp (sys (\<lambda>d. (Inr (f d), d))) Q E d st"
  by (rule wp_sys) auto

lemma wp_lookup:
  "(\<And>i. inode_of d name = Some i \<Longrightarrow> Q i d st) \<Longrightarrow> (inode_of d name = None \<Longrightarrow> E (Os_Error Not_Found_Error) d st) \<Longrightarrow>
     E (Os_Error Call_Failed) d st \<Longrightarrow> wp (sys (do_lookup name)) Q E d st"
  by (rule wp_sys) (auto simp: do_lookup_def split: option.splits)

lemmas wp_open [wp_rules] = wp_lookup [folded os_open_def]
lemmas wp_stat [wp_rules] = wp_lookup [folded os_stat_def]

lemma wp_open_new [wp_rules]:
  "(inode_of d name = None \<Longrightarrow> Q (dk_fresh d) (snd (do_create name d)) st) \<Longrightarrow> E (Os_Error Exists_Error) d st \<Longrightarrow>
     E (Os_Error Call_Failed) d st \<Longrightarrow> wp (os_open_new name) Q E d st"
  unfolding os_open_new_def by (rule wp_sys) (auto simp: do_open_new_def do_create_def split: if_splits)

lemma wp_fstat [wp_rules]:
  "Q (dk_nodes d fd) d st \<Longrightarrow> E (Os_Error Call_Failed) d st \<Longrightarrow> wp (os_fstat fd) Q E d st"
  unfolding os_fstat_def by (rule wp_sys) (auto simp: do_fstat_def)

lemma wp_scandir [wp_rules]:
  "Q (map fst (dk_names d)) d st \<Longrightarrow> E (Os_Error Call_Failed) d st \<Longrightarrow> wp os_scandir Q E d st"
  unfolding os_scandir_def by (rule wp_sys) auto

lemma wp_plain [wp_rules]:
  "Q () d st \<Longrightarrow> E (Os_Error Call_Failed) d st \<Longrightarrow> wp os_fsync Q E d st"
  "Q () d st \<Longrightarrow> E (Os_Error Call_Failed) d st \<Longrightarrow> wp os_close Q E d st"
  "Q () d st \<Longrightarrow> E (Os_Error Call_Failed) d st \<Longrightarrow> wp os_flock Q E d st"
  unfolding os_fsync_def os_close_def os_flock_def by (rule wp_sys; auto)+

lemma wp_close_quietly [wp_rules]: "Q () d st \<Longrightarrow> wp close_quietly Q E d st"
  unfolding close_quietly_def by (intro wp_rules) (auto intro: wp_ret)

lemma wp_link [wp_rules]:
  "(\<And>i d'. inode_of d old = Some i \<Longrightarrow> inode_of d new = None \<Longrightarrow> do_link old new d = (Inr (), d') \<Longrightarrow> Q () d' st) \<Longrightarrow>
     (\<And>k. E (Os_Error k) d st) \<Longrightarrow> wp (os_link old new) Q E d st"
  unfolding os_link_def by (rule wp_sys) (auto simp: do_link_def split: option.splits if_splits)

lemma wp_unlink [wp_rules]:
  "(\<And>i d'. inode_of d name = Some i \<Longrightarrow> do_unlink name d = (Inr (), d') \<Longrightarrow> Q () d' st) \<Longrightarrow>
     (\<And>k. E (Os_Error k) d st) \<Longrightarrow> wp (os_unlink name) Q E d st"
  unfolding os_unlink_def by (rule wp_sys) (auto simp: do_unlink_def split: option.splits)

lemma wp_rename [wp_rules]:
  "(\<And>i d'. inode_of d old = Some i \<Longrightarrow> do_rename old new d = (Inr (), d') \<Longrightarrow> Q () d' st) \<Longrightarrow>
     (\<And>k. E (Os_Error k) d st) \<Longrightarrow> wp (os_rename old new) Q E d st"
  unfolding os_rename_def by (rule wp_sys) (auto simp: do_rename_def Let_def split: option.splits)

lemma wp_ftruncate [wp_rules]:
  "Q () (set_node fd (\<lambda>x. x\<lparr>nd_bytes := take n (nd_bytes x)\<rparr>) d) st \<Longrightarrow> E (Os_Error Call_Failed) d st \<Longrightarrow>
     wp (os_ftruncate fd n) Q E d st"
  unfolding os_ftruncate_def by (rule wp_sys) (auto simp: do_truncate_def)

lemma wp_write [wp_rules]:
  "(\<And>k. k \<le> length bs \<Longrightarrow> Q k (append_bytes fd (take k bs) d) st) \<Longrightarrow> E (Os_Error Call_Failed) d st \<Longrightarrow>
     wp (os_write fd bs) Q E d st"
proof -
  assume q: "\<And>k. k \<le> length bs \<Longrightarrow> Q k (append_bytes fd (take k bs) d) st" and e: "E (Os_Error Call_Failed) d st"
  have "take (min k (length bs)) bs = take k bs" for k by (simp add: min_def)
  then have "Q (min k (length bs)) (append_bytes fd (take k bs) d) st" for k using q [of "min k (length bs)"] by simp
  then show ?thesis
    using e q [of "length bs"] by (auto simp: wp_def os_write_def Let_def split: sys_answer.splits)
qed

text \<open>A program that leaves the disk and the object alone.\<close>

definition still :: "(log_world, 'a) prog \<Rightarrow> bool" where
  "still m \<longleftrightarrow> (\<forall>d st. wp m (\<lambda>_ d' st'. d' = d \<and> st' = st) (\<lambda>_ d' st'. d' = d \<and> st' = st) d st)"

lemma wp_still: "still m \<Longrightarrow> (\<And>x. Q x d st) \<Longrightarrow> (\<And>e. E e d st) \<Longrightarrow> wp m Q E d st"
  unfolding still_def by (blast intro: wp_conseq)

lemma still_read_rest: "wp (read_rest bs) (\<lambda>x d' st'. x = bs \<and> d' = d \<and> st' = st) (\<lambda>e d' st'. is_os_error e \<and> d' = d \<and> st' = st) d st"
proof (induction bs rule: read_rest.induct)
  case (1 bs)
  show ?case
  proof (cases "bs = []")
    case True
    then show ?thesis by (subst read_rest.simps) (auto intro: wp_read)
  next
    case False
    have "wp (andthen (read_rest (drop 1048576 bs)) (\<lambda>rest. ret (take 1048576 bs @ rest)))
        (\<lambda>x d' st'. x = bs \<and> d' = d \<and> st' = st) (\<lambda>e d' st'. is_os_error e \<and> d' = d \<and> st' = st) d st"
      by (rule wp_andthen, rule wp_conseq [OF 1 [OF False]]) (auto intro: wp_ret)
    with False show ?thesis by (subst read_rest.simps) (auto intro!: wp_andthen wp_read)
  qed
qed

lemma still_open_dir_component: "still (open_dir_component p)"
  unfolding still_def open_dir_component_def
  by (auto intro!: wp_rules wp_sys split: option.splits)

lemma still_for_each: "(\<And>x. still (f x)) \<Longrightarrow> still (for_each f xs)"
proof (induction xs)
  case Nil
  show ?case by (simp add: still_def wp_ret)
next
  case (Cons x xs)
  show ?case unfolding still_def for_each.simps
    by (intro allI wp_andthen wp_still [OF Cons.prems] wp_still [OF Cons.IH [OF Cons.prems]] wp_ret) auto
qed

lemma still_open_logs_dir: "still (open_logs_dir root logs)"
  unfolding still_def open_logs_dir_def
  by (auto intro!: wp_andthen wp_check wp_still [OF still_for_each [OF still_open_dir_component]] wp_rules)

lemma still_require_live_directory: "still (require_live_directory root logs code)"
  unfolding still_def require_live_directory_def
  by (auto intro!: wp_andthen wp_handle wp_check wp_still [OF still_open_logs_dir] wp_read wp_close_quietly wp_ret wp_throw
      split: option.splits)

lemma wp_require_private [wp_rules]:
  "(nd_private (dk_nodes d fd) \<Longrightarrow> nd_links (dk_nodes d fd) = 1 \<Longrightarrow> Q () d st) \<Longrightarrow> E (Logging_Error ''MH_LOG_FILE'') d st \<Longrightarrow>
     wp (require_private_file fd) Q E d st"
  unfolding require_private_file_def by (auto intro!: wp_andthen wp_except_any wp_fstat wp_ret wp_check)

lemma wp_examine [wp_rules]:
  "(nd_private (dk_nodes d fd) \<Longrightarrow> nd_links (dk_nodes d fd) \<in> {1, 2} \<Longrightarrow> Q (dk_nodes d fd) d st) \<Longrightarrow>
     E (Logging_Error ''MH_LOG_FILE'') d st \<Longrightarrow> wp (examine_active_envelope fd) Q E d st"
  unfolding examine_active_envelope_def
  by (auto intro!: wp_andthen wp_except_any wp_fstat wp_ret wp_fail split: option.splits)

end
