(* ===== verification/Log_Segment.thy ===== *)
theory Log_Segment
  imports Log_Fs
begin

text \<open>
  The text of one stored log segment, as \<^verbatim>\<open>src/milhouse/core/log_store.py\<close> reads it: header, event
  and trailer lines, the split of the active segment with its torn tail, and the names of rotations.
  \<open>log_env\<close> holds the parameters: Unicode NFC, \<^verbatim>\<open>json.loads\<close> of one line, SHA-256 in hex, and
  \<^verbatim>\<open>lexical_absolute_path\<close> split into its components (\<open>None\<close> when it raises).
\<close>

record log_env =
  le_nfc :: "string \<Rightarrow> string"
  le_loads :: "string \<Rightarrow> py_value option"
  le_sha :: "string \<Rightarrow> string"
  le_resolve :: "string \<Rightarrow> string list option"

definition max_log_segment_bytes :: int where "max_log_segment_bytes = 8388608"
definition max_rotations :: nat where "max_rotations = 10000"

definition current_name :: string where "current_name = ''structured-log.current.jsonl''"
definition staging_name :: string where "staging_name = ''.structured-log.next.tmp''"
definition rotated_prefix :: string where "rotated_prefix = ''structured-log.''"
definition rotated_suffix :: string where "rotated_suffix = ''.jsonl''"

section \<open>Lines\<close>

definition parse_line_object :: "log_env \<Rightarrow> string \<Rightarrow> string \<Rightarrow> (string \<times> py_value) list res" where
  "parse_line_object en line code =
     (case le_loads en line of Some (P_Dict obj) \<Rightarrow> Inr obj | _ \<Rightarrow> Inl (Logging_Error code))"

definition log_header_keys :: "string list" where
  "log_header_keys = [''line'', ''opened_at'', ''retention_days'', ''schema'', ''scope'', ''sequence'']"

definition log_trailer_keys :: "string list" where
  "log_trailer_keys = [''closed_at'', ''content_sha256'', ''event_count'', ''expires_at'', ''last_event_at'',
     ''line'', ''schema'', ''sequence'']"

definition parse_log_timestamp :: "py_value \<Rightarrow> string \<Rightarrow> int res" where
  "parse_log_timestamp v code = (case v of
     P_Str s \<Rightarrow> (case parse_stamp s of None \<Rightarrow> Inl (Logging_Error code) | Some us \<Rightarrow> Inr us)
   | _ \<Rightarrow> Inl (Logging_Error code))"

definition is_int :: "py_value \<Rightarrow> bool" where
  "is_int v \<longleftrightarrow> (case v of P_Int _ \<Rightarrow> True | _ \<Rightarrow> False)"

definition parse_log_header :: "log_env \<Rightarrow> string \<Rightarrow> log_header res" where
  "parse_log_header en line = (let fail = Logging_Error ''MH_LOG_HEADER'' in
     bind_res (check_res (int (length line) \<le> max_log_header_bytes) fail) (\<lambda>_.
     bind_res (parse_line_object en line ''MH_LOG_HEADER'') (\<lambda>obj.
     bind_res (check_res (set (map fst obj) = set log_header_keys) fail) (\<lambda>_.
     bind_res (check_res (field obj ''line'' = P_Str ''header'' \<and> equals_one (field obj ''schema'')
         \<and> field obj ''scope'' = P_Str ''installation'') fail) (\<lambda>_.
     bind_res (check_res (is_int (field obj ''sequence'') \<and> is_int (field obj ''retention_days'')) fail) (\<lambda>_.
     bind_res (parse_log_timestamp (field obj ''opened_at'') ''MH_LOG_HEADER'') (\<lambda>opened.
     bind_res (case log_header_init (int_of (field obj ''sequence'')) opened (int_of (field obj ''retention_days'')) of
         Inl _ \<Rightarrow> Inl fail | Inr h \<Rightarrow> Inr h) (\<lambda>h.
     bind_res (structured_log_header_line (le_nfc en) h) (\<lambda>canonical.
     bind_res (check_res (canonical = line) fail) (\<lambda>_. Inr h))))))))))"

definition validate_event_line :: "log_env \<Rightarrow> string \<Rightarrow> int res" where
  "validate_event_line en line =
     (case validate_structured_log_event_line (le_nfc en) (le_loads en) line of
        Inl (Logging_Error _) \<Rightarrow> Inl (Logging_Error ''MH_LOG_EVENT'') | r \<Rightarrow> r)"

definition is_trailer_line :: "log_env \<Rightarrow> string \<Rightarrow> bool" where
  "is_trailer_line en line \<longleftrightarrow> int (length line) \<le> max_log_trailer_bytes \<and>
     (case le_loads en line of Some (P_Dict obj) \<Rightarrow> map_of obj ''line'' = Some (P_Str ''trailer'') | _ \<Rightarrow> False)"

definition bounded_expiry :: "int \<Rightarrow> int \<Rightarrow> int res" where
  "bounded_expiry opened days =
     (case bind_res (add_seconds opened (86400 * days)) (\<lambda>d. bind_res (format_timestamp (utc d)) (\<lambda>_. Inr d)) of
        Inl _ \<Rightarrow> Inl (Logging_Error ''MH_LOG_RETENTION'') | Inr d \<Rightarrow> Inr d)"

definition parse_log_trailer :: "log_env \<Rightarrow> string \<Rightarrow> log_header \<Rightarrow> string list \<Rightarrow> log_trailer res" where
  "parse_log_trailer en line h event_lines = (let code = ''MH_LOG_RETENTION''; fail = Logging_Error code in
     bind_res (check_res (int (length line) \<le> max_log_trailer_bytes) fail) (\<lambda>_.
     bind_res (parse_line_object en line code) (\<lambda>obj.
     bind_res (check_res (set (map fst obj) = set log_trailer_keys) fail) (\<lambda>_.
     bind_res (check_res (field obj ''line'' = P_Str ''trailer'' \<and> equals_one (field obj ''schema'')) fail) (\<lambda>_.
     bind_res (map_res (validate_event_line en) event_lines) (\<lambda>_.
     bind_res (structured_log_header_line (le_nfc en) h) (\<lambda>header_line.
     bind_res (check_res (is_int (field obj ''sequence'') \<and> is_int (field obj ''event_count'')) fail) (\<lambda>_.
     bind_res (parse_log_timestamp (field obj ''closed_at'') code) (\<lambda>closed.
     bind_res (parse_log_timestamp (field obj ''expires_at'') code) (\<lambda>expires.
     bind_res (if field obj ''last_event_at'' = P_None then Inr None
         else bind_res (parse_log_timestamp (field obj ''last_event_at'') code) (\<lambda>t. Inr (Some t))) (\<lambda>last_event.
     bind_res (case log_trailer_init (int_of (field obj ''sequence'')) closed last_event (int_of (field obj ''event_count''))
           (text_of (field obj ''content_sha256'')) expires of Inl _ \<Rightarrow> Inl fail | Inr t \<Rightarrow> Inr t) (\<lambda>t.
     bind_res (structured_log_trailer_line (le_nfc en) t) (\<lambda>canonical.
     bind_res (check_res (canonical = line) fail) (\<lambda>_.
     bind_res (check_res (tl_count t = int (length event_lines)
         \<and> tl_sha t = structured_log_content_sha256 (le_sha en) header_line event_lines) fail) (\<lambda>_.
     bind_res (bounded_expiry (hl_opened h) (hl_retention h)) (\<lambda>deadline.
     bind_res (check_res (tl_expires t = deadline) fail) (\<lambda>_. Inr t)))))))))))))))))"

section \<open>The split of the active segment\<close>

text \<open>What follows the last line feed.\<close>

definition torn_tail :: "string \<Rightarrow> string" where
  "torn_tail content = rev (takeWhile (\<lambda>c. c \<noteq> LF) (rev content))"

definition split_active :: "string \<Rightarrow> string \<Rightarrow> (string \<times> string list \<times> string option) res" where
  "split_active code content =
     (if content = [] \<or> LF \<notin> set content then Inl (Logging_Error code)
      else let torn = torn_tail content;
               body = take (length content - length torn) content;
               parts = butlast (split_on_lf body)
        in if [] \<in> set parts then Inl (Logging_Error code)
           else Inr (hd parts @ [LF], map (\<lambda>p. p @ [LF]) (tl parts), if torn = [] then None else Some torn))"

section \<open>Names of rotations\<close>

definition sequence_from_name :: "string \<Rightarrow> nat option" where
  "sequence_from_name name =
     (let n = length name; stem = take (n - 21) (drop 15 name) in
      if take 15 name = rotated_prefix \<and> 6 \<le> n \<and> drop (n - 6) name = rotated_suffix
        \<and> length stem = 20 \<and> list_all is_digit stem then Some (digits_to_nat 0 stem) else None)"

definition rotated_name :: "nat \<Rightarrow> string" where
  "rotated_name sequence = rotated_prefix @ pad_dec 20 sequence @ rotated_suffix"

text \<open>The sequences of the rotations present; the dict maps each to its name.\<close>

definition list_rotated :: "(log_world, nat list) prog" where
  "list_rotated = andthen os_scandir (\<lambda>names.
     let found = remdups (List.map_filter sequence_from_name names) in
     if max_rotations < length found then log_fail ''MH_LOG_ROTATIONS'' else ret found)"

definition highest :: "nat list \<Rightarrow> nat" where
  "highest found = (if found = [] then 0 else Max (set found))"

text \<open>\<^verbatim>\<open>_read_bounded\<close>.\<close>

definition read_bounded :: "nat \<Rightarrow> int \<Rightarrow> string \<Rightarrow> (log_world, string) prog" where
  "read_bounded fd bound code =
     andthen (os_fstat fd) (\<lambda>n.
     if bound < int (length (nd_bytes n)) then log_fail code else read_rest (nd_bytes n))"

section \<open>Facts about names and tails\<close>

lemma name_lengths: "length rotated_prefix = 15" "length rotated_suffix = 6"
  by (simp_all add: rotated_prefix_def rotated_suffix_def)

lemma sequence_of_rotated: "n < 10 ^ 20 \<Longrightarrow> sequence_from_name (rotated_name n) = Some n"
  by (simp add: sequence_from_name_def rotated_name_def Let_def name_lengths is_digit_pad digits_to_nat_pad)

lemma pad_of_digits: "list_all is_digit s \<Longrightarrow> pad_dec (length s) (digits_to_nat 0 s) = s"
proof (induction s rule: rev_induct)
  case (snoc c s)
  obtain d where d: "c = digit_char d" "d < 10"
  proof
    have "48 \<le> (of_char c :: nat)" "(of_char c :: nat) \<le> 57"
      using snoc.prems by (auto simp: is_digit_def Let_def)
    then show "c = digit_char (of_char c - 48)" "of_char c - 48 < (10 :: nat)"
      by (auto simp: digit_char_def)
  qed
  have "of_char c - 48 = d" using d by (simp add: of_digit_char)
  then show ?case using snoc d by (simp add: digits_to_nat_append)
qed simp

lemma rotated_of_sequence: "sequence_from_name name = Some n \<Longrightarrow> rotated_name n = name \<and> n < 10 ^ 20"
proof -
  assume a: "sequence_from_name name = Some n"
  let ?s = "take (length name - 21) (drop 15 name)"
  have s: "take 15 name = rotated_prefix" "6 \<le> length name" "drop (length name - 6) name = rotated_suffix"
      "length ?s = 20" "list_all is_digit ?s" "n = digits_to_nat 0 ?s"
    using a by (auto simp: sequence_from_name_def Let_def split: if_splits)
  have pad: "pad_dec 20 n = ?s" using pad_of_digits [OF s(5)] s(4,6) by simp
  have "length name = 41" using s(4) by simp
  then have "name = take 15 name @ ?s @ drop (length name - 6) name"
    using append_take_drop_id [of 15 name] append_take_drop_id [of 20 "drop 15 name"] by simp
  then have "rotated_name n = name" using s pad by (simp add: rotated_name_def)
  moreover have "n < 10 ^ 20"
    using digits_to_nat_pad [of 0 20 n] s(6) pad by (metis add.left_neutral mod_less_divisor mult_0 zero_less_numeral zero_less_power)
  ultimately show ?thesis ..
qed

lemma not_rotated: "sequence_from_name current_name = None" "sequence_from_name staging_name = None"
    "sequence_from_name lock_name = None"
  by code_simp+

lemma torn_split: "content = take (length content - length (torn_tail content)) content @ torn_tail content"
proof -
  let ?t = "takeWhile (\<lambda>c. c \<noteq> LF) (rev content)" let ?r = "dropWhile (\<lambda>c. c \<noteq> LF) (rev content)"
  have split: "content = rev ?r @ rev ?t"
    by (metis rev_append rev_rev_ident takeWhile_dropWhile_id)
  then have "take (length content - length ?t) content = rev ?r"
    by (metis append_eq_conv_conj length_append diff_add_inverse2 length_rev)
  then show ?thesis using split by (simp add: torn_tail_def)
qed

lemma wp_read_bounded [wp_rules]:
  "(int (length (bytes_of d fd)) \<le> bound \<Longrightarrow> Q (bytes_of d fd) d st) \<Longrightarrow> E (Logging_Error code) d st \<Longrightarrow>
     (\<And>k. E (Os_Error k) d st) \<Longrightarrow> wp (read_bounded fd bound code) Q E d st"
  unfolding read_bounded_def
  by (intro wp_andthen wp_fstat wp_if wp_fail wp_conseq [OF still_read_rest])
    (auto simp: bytes_of_def elim!: is_os_error.elims)

lemma wp_list_rotated:
  "(\<And>found. set found = {n. \<exists>name. inode_of d name \<noteq> None \<and> sequence_from_name name = Some n} \<Longrightarrow> distinct found \<Longrightarrow>
       length found \<le> max_rotations \<Longrightarrow> Q found d st) \<Longrightarrow>
     (\<And>e. E e d st) \<Longrightarrow> wp list_rotated Q E d st"
proof -
  assume q: "\<And>found. set found = {n. \<exists>name. inode_of d name \<noteq> None \<and> sequence_from_name name = Some n} \<Longrightarrow> distinct found \<Longrightarrow>
       length found \<le> max_rotations \<Longrightarrow> Q found d st" and e: "\<And>e. E e d st"
  have "set (remdups (List.map_filter sequence_from_name (map fst (dk_names d))))
      = {n. \<exists>name. inode_of d name \<noteq> None \<and> sequence_from_name name = Some n}"
    by (force simp: List.map_filter_def inode_of_def map_of_eq_None_iff)
  then show ?thesis
    unfolding list_rotated_def Let_def by (intro wp_andthen wp_scandir wp_if wp_fail wp_ret q e) auto
qed

end
