(* ===== verification/Log_Store.thy ===== *)
theory Log_Store
  imports Log_Segment
begin

text \<open>
  \<^verbatim>\<open>StructuredLogStore\<close> of \<^verbatim>\<open>src/milhouse/core/log_store.py\<close>: opening the active segment, appending
  with rotation, explicit rotation, flush and close. Every operation is a program over the disk and
  the object; the public ones run under the log lock and are \<open>None\<close> only when the wait for it never
  ends.
\<close>

definition upd_store :: "(log_store \<Rightarrow> log_store) \<Rightarrow> (log_world, unit) prog" where
  "upd_store f = (\<lambda>w. (Inr (), w\<lparr>lw_store := f (lw_store w)\<rparr>))"

definition get_store :: "(log_world, log_store) prog" where
  "get_store = (\<lambda>w. (Inr (lw_store w), w))"

definition staging_present :: "(log_world, bool) prog" where
  "staging_present = handle (andthen (os_stat staging_name) (\<lambda>_. ret True))
     (\<lambda>e. if e = Os_Error Not_Found_Error then Some (ret False)
          else if is_os_error e then Some (log_fail ''MH_LOG_OPEN'') else None)"

definition open_for_append :: "(log_world, nat) prog" where
  "open_for_append =
     andthen (except_os (os_open current_name) (log_fail ''MH_LOG_OPEN'')) (\<lambda>fd.
     andthen (except_logging (require_private_file fd) (\<lambda>e. andthen close_quietly (\<lambda>_. throw e))) (\<lambda>_. ret fd))"

section \<open>Publishing a fresh segment\<close>

definition publish_staged :: "string \<Rightarrow> (log_world, bool) prog" where
  "publish_staged line =
     except_os
       (andthen (os_open_new staging_name) (\<lambda>fd.
        andthen (handle
          (andthen (os_write fd line) (\<lambda>n.
           andthen os_fsync (\<lambda>_.
           andthen os_close (\<lambda>_. ret (n = length line)))))
          (\<lambda>e. Some (andthen close_quietly (\<lambda>_. throw e)))) (\<lambda>whole.
        if \<not> whole then ret False
        else andthen (os_rename staging_name current_name) (\<lambda>_. andthen os_fsync (\<lambda>_. ret True)))))
       (ret False)"

definition publish_fresh_current :: "log_env \<Rightarrow> int \<Rightarrow> int \<Rightarrow> int \<Rightarrow> (log_world, log_header) prog" where
  "publish_fresh_current en sequence opened retention =
     andthen (check (sequence \<le> max_int64) (Logging_Error ''MH_LOG_OVERFLOW'')) (\<lambda>_.
     andthen (lift_res (log_header_init sequence opened retention)) (\<lambda>h.
     andthen (lift_res (structured_log_header_line (le_nfc en) h)) (\<lambda>line.
     andthen (publish_staged line) (\<lambda>ok.
     andthen (check ok (Logging_Error ''MH_LOG_ROTATE'')) (\<lambda>_. ret h)))))"

definition start_segment :: "log_env \<Rightarrow> int \<Rightarrow> int \<Rightarrow> (log_world, unit) prog" where
  "start_segment en sequence opened =
     andthen get_store (\<lambda>st.
     andthen (publish_fresh_current en sequence opened (so_retention st)) (\<lambda>h.
     andthen (lift_res (structured_log_header_line (le_nfc en) h)) (\<lambda>line.
     andthen (upd_store (\<lambda>s. s\<lparr>so_header := h, so_count := 0, so_last := None,
       so_size := int (length line), so_hashed := line\<rparr>)) (\<lambda>_.
     andthen open_for_append (\<lambda>fd.
     upd_store (\<lambda>s. s\<lparr>so_fd := Some fd\<rparr>))))))"

section \<open>Opening\<close>

text \<open>The loop over the event lines: the last timestamp, or what refuses the segment.\<close>

fun scan_events :: "log_env \<Rightarrow> string list \<Rightarrow> int option \<Rightarrow> int option res" where
  "scan_events en [] last_at = Inr last_at"
| "scan_events en (line # ls) last_at =
     (if is_trailer_line en line
      then Inl (Logging_Error (if ls = [] then ''MH_LOG_RECOVERY_REQUIRED'' else ''MH_LOG_AMBIGUOUS''))
      else bind_res (validate_event_line en line) (\<lambda>at. scan_events en ls (Some at)))"

text \<open>Reading the active segment: its links and its bytes; any failure of a call, closing included,
  is \<^verbatim>\<open>MH_LOG_OPEN\<close>.\<close>

definition read_active :: "nat \<Rightarrow> (log_world, log_node \<times> string) prog" where
  "read_active fd =
     except_os (closing (\<lambda>_. log_fail ''MH_LOG_OPEN'')
       (andthen (examine_active_envelope fd) (\<lambda>info.
        andthen (read_bounded fd max_log_segment_bytes ''MH_LOG_OPEN'') (\<lambda>content. ret (info, content)))))
     (log_fail ''MH_LOG_OPEN'')"

text \<open>What the text of an active segment must be: header, event lines, count and last timestamp.\<close>

definition check_active :: "log_env \<Rightarrow> nat list \<Rightarrow> log_node \<Rightarrow> string \<Rightarrow> (log_header \<times> string list \<times> int option) res" where
  "check_active en rotated info content =
     bind_res (check_res (nd_links info = 1) (Logging_Error ''MH_LOG_RECOVERY_REQUIRED'')) (\<lambda>_.
     bind_res (split_active ''MH_LOG_OPEN'' content) (\<lambda>(header_line, event_lines, torn).
     bind_res (check_res (torn = None) (Logging_Error ''MH_LOG_RECOVERY_REQUIRED'')) (\<lambda>_.
     bind_res (parse_log_header en header_line) (\<lambda>h.
     bind_res (check_res (int (highest rotated) < hl_sequence h) (Logging_Error ''MH_LOG_SEQUENCE'')) (\<lambda>_.
     bind_res (scan_events en event_lines None) (\<lambda>last_at.
     Inr (h, event_lines, last_at)))))))"

definition open_current :: "string \<Rightarrow> (log_world, nat option) prog" where
  "open_current code = handle (andthen (os_open current_name) (\<lambda>fd. ret (Some fd)))
     (\<lambda>e. if e = Os_Error Not_Found_Error then Some (ret None)
          else if is_os_error e then Some (log_fail code) else None)"

definition open_active :: "log_env \<Rightarrow> int \<Rightarrow> (log_world, unit) prog" where
  "open_active en opened =
     andthen staging_present (\<lambda>staged.
     andthen (check (\<not> staged) (Logging_Error ''MH_LOG_RECOVERY_REQUIRED'')) (\<lambda>_.
     andthen list_rotated (\<lambda>rotated.
     andthen (open_current ''MH_LOG_OPEN'') (\<lambda>found.
     case found of
       None \<Rightarrow> start_segment en (int (highest rotated) + 1) opened
     | Some fd \<Rightarrow>
         andthen (read_active fd) (\<lambda>(info, content).
         andthen (lift_res (check_active en rotated info content)) (\<lambda>(h, event_lines, last_at).
         andthen (upd_store (\<lambda>s. s\<lparr>so_header := h, so_count := int (length event_lines), so_last := last_at,
           so_size := int (length content), so_hashed := content\<rparr>)) (\<lambda>_.
         andthen open_for_append (\<lambda>fd.
         upd_store (\<lambda>s. s\<lparr>so_fd := Some fd\<rparr>)))))))))"

text \<open>The constructor: the policy and paths are fixed, the directory is opened, and the active
  segment is opened under the lock; a failure closes the directory again.\<close>

definition store_init :: "log_env \<Rightarrow> string \<Rightarrow> string option \<Rightarrow> int \<Rightarrow> int \<Rightarrow> log_world \<Rightarrow> (unit res \<times> log_world) option" where
  "store_init en logs_arg root_arg retention opened w =
     (if \<not> (1 \<le> retention \<and> retention \<le> 3650) then Some (Inl (Logging_Error ''MH_LOG_RETENTION''), w)
      else case le_resolve en logs_arg of None \<Rightarrow> Some (Inl (Logging_Error ''MH_LOG_DIR''), w) | Some logs \<Rightarrow>
      (case (case root_arg of None \<Rightarrow> Some (butlast logs) | Some r \<Rightarrow> le_resolve en r) of
        None \<Rightarrow> Some (Inl (Logging_Error ''MH_LOG_DIR''), w)
      | Some root \<Rightarrow>
        (let w1 = w\<lparr>lw_store := (lw_store w)\<lparr>so_closed := False, so_fd := None, so_retention := retention,
               so_root := root, so_logs := logs\<rparr>\<rparr>
         in case open_logs_dir root logs w1 of
              (Inl e, w2) \<Rightarrow> Some (Inl e, w2)
            | (Inr held, w2) \<Rightarrow>
                locked (handle (open_active en opened) (\<lambda>e. Some (andthen close_quietly (\<lambda>_. throw e))))
                  (w2\<lparr>lw_disk := (lw_disk w2)\<lparr>dk_held := held\<rparr>\<rparr>))))"

section \<open>Appending\<close>

definition require_open :: "(log_world, log_store) prog" where
  "require_open = andthen get_store (\<lambda>st. andthen (check (\<not> so_closed st) (Logging_Error ''MH_LOG_CLOSED'')) (\<lambda>_. ret st))"

definition require_coherent :: "log_store \<Rightarrow> (log_world, unit) prog" where
  "require_coherent st =
     andthen (require_live_directory (so_root st) (so_logs st) ''MH_LOG_CONFLICT'') (\<lambda>_.
     case so_fd st of
       None \<Rightarrow> log_fail ''MH_LOG_CONFLICT''
     | Some fd \<Rightarrow>
         andthen (except_os
           (andthen (os_fstat fd) (\<lambda>cached.
            andthen (os_stat current_name) (\<lambda>named.
            ret (named = fd \<and> nd_links cached = 1 \<and> int (length (nd_bytes cached)) = so_size st))))
           (ret False)) (\<lambda>same.
         check same (Logging_Error ''MH_LOG_CONFLICT'')))"

definition poison :: "(log_world, unit) prog" where
  "poison = andthen (upd_store (\<lambda>s. s\<lparr>so_closed := True\<rparr>)) (\<lambda>_.
     andthen close_quietly (\<lambda>_. close_quietly))"

definition rotation_due :: "log_store \<Rightarrow> int \<Rightarrow> int \<Rightarrow> bool" where
  "rotation_due st line_length at \<longleftrightarrow>
     max_log_segment_bytes < so_size st + line_length + max_log_trailer_bytes
     \<or> at div us_per_day \<noteq> hl_opened (so_header st) div us_per_day
     \<or> hl_retention (so_header st) \<noteq> so_retention st"

definition write_line :: "string \<Rightarrow> int \<Rightarrow> (log_world, unit) prog" where
  "write_line line at =
     andthen get_store (\<lambda>st.
     andthen (except_os (andthen (os_write (the (so_fd st)) line) (\<lambda>n. ret (n = length line))) (ret False)) (\<lambda>whole.
     andthen (check whole (Logging_Error ''MH_LOG_APPEND'')) (\<lambda>_.
     upd_store (\<lambda>s. s\<lparr>so_size := so_size s + int (length line), so_count := so_count s + 1, so_last := Some at,
       so_hashed := so_hashed s @ line\<rparr>))))"

text \<open>From the trailer to the name: the closing sequence of a rotation.\<close>

definition close_segment :: "nat \<Rightarrow> string \<Rightarrow> string \<Rightarrow> (log_world, bool) prog" where
  "close_segment fd trailer_line rotated =
     except_os
       (andthen os_fsync (\<lambda>_.
        andthen (os_write fd trailer_line) (\<lambda>n.
        if n \<noteq> length trailer_line then ret False
        else andthen os_fsync (\<lambda>_.
          andthen os_close (\<lambda>_.
          andthen (upd_store (\<lambda>s. s\<lparr>so_fd := None\<rparr>)) (\<lambda>_.
          andthen (os_link current_name rotated) (\<lambda>_.
          andthen os_fsync (\<lambda>_.
          andthen (os_unlink current_name) (\<lambda>_.
          andthen os_fsync (\<lambda>_. ret True)))))))))) (ret False)"

definition rotate_locked :: "log_env \<Rightarrow> int \<Rightarrow> (log_world, unit) prog" where
  "rotate_locked en closed =
     andthen get_store (\<lambda>st.
     andthen list_rotated (\<lambda>rotated.
     andthen (check (length rotated < max_rotations) (Logging_Error ''MH_LOG_ROTATIONS'')) (\<lambda>_.
     andthen (lift_res (bounded_expiry (hl_opened (so_header st)) (hl_retention (so_header st)))) (\<lambda>expires.
     andthen (lift_res (log_trailer_init (hl_sequence (so_header st)) closed (so_last st) (so_count st)
       (le_sha en (so_hashed st)) expires)) (\<lambda>trailer.
     andthen (lift_res (structured_log_trailer_line (le_nfc en) trailer)) (\<lambda>line.
     andthen (close_segment (the (so_fd st)) line (rotated_name (nat (hl_sequence (so_header st))))) (\<lambda>ok.
     andthen (check ok (Logging_Error ''MH_LOG_ROTATE'')) (\<lambda>_.
     start_segment en (hl_sequence (so_header st) + 1) closed))))))))"

definition poisoning :: "(log_world, unit) prog \<Rightarrow> (log_world, unit) prog" where
  "poisoning m = except_logging m (\<lambda>e. andthen poison (\<lambda>_. throw e))"

definition append_locked :: "log_env \<Rightarrow> log_store \<Rightarrow> string \<Rightarrow> int \<Rightarrow> (log_world, unit) prog" where
  "append_locked en st line at = poisoning
     (andthen (require_coherent st) (\<lambda>_.
      andthen (if rotation_due st (int (length line)) at then rotate_locked en at else ret ()) (\<lambda>_.
      write_line line at)))"

definition append_event :: "log_env \<Rightarrow> log_event \<Rightarrow> log_world \<Rightarrow> (unit res \<times> log_world) option" where
  "append_event en ev w =
     (case andthen require_open (\<lambda>st. andthen (lift_res (structured_log_event_line (le_nfc en) ev)) (\<lambda>line. ret (st, line))) w of
        (Inl e, w1) \<Rightarrow> Some (Inl e, w1)
      | (Inr (st, line), w1) \<Rightarrow> locked (append_locked en st line (lv_at ev)) w1)"

definition rotate :: "log_env \<Rightarrow> int \<Rightarrow> log_world \<Rightarrow> (unit res \<times> log_world) option" where
  "rotate en closed w =
     (case require_open w of
        (Inl e, w1) \<Rightarrow> Some (Inl e, w1)
      | (Inr st, w1) \<Rightarrow> locked (poisoning (andthen (require_coherent st) (\<lambda>_. rotate_locked en closed))) w1)"

definition flush :: "(log_world, unit) prog" where
  "flush = andthen require_open (\<lambda>_.
     except_os os_fsync (andthen poison (\<lambda>_. log_fail ''MH_LOG_APPEND'')))"

definition close_store :: "(log_world, unit) prog" where
  "close_store = andthen get_store (\<lambda>st.
     if so_closed st then ret ()
     else andthen (upd_store (\<lambda>s. s\<lparr>so_closed := True\<rparr>)) (\<lambda>_.
       andthen (except_os os_fsync (ret ())) (\<lambda>_.
       andthen close_quietly (\<lambda>_. close_quietly))))"

end
