(* ===== verification/Log_Maintenance.thy ===== *)
theory Log_Maintenance
  imports Log_Store
begin

text \<open>
  The maintenance operations of \<^verbatim>\<open>src/milhouse/core/log_store.py\<close>: crash recovery and retention of the
  structured log. Both need the state root's own commit barrier, whose exclusive hold is the subject
  of theory \<open>Barrier\<close>: here the hold is granted or refused (\<open>lb_enter\<close>).
\<close>

record log_barrier =
  lb_genuine :: bool
  lb_path :: "string list"
  lb_gate :: "string list"
  lb_enter :: "unit res"

definition require_logs_barrier :: "log_barrier \<Rightarrow> string list \<Rightarrow> string list res" where
  "require_logs_barrier b logs = (let fail = Logging_Error ''MH_LOG_AUTHORITY''; path = lb_path b;
       root = butlast (butlast path) in
     bind_res (check_res (lb_genuine b) fail) (\<lambda>_.
     bind_res (check_res (2 \<le> length path \<and> last path = ''commit.lock'' \<and> last (butlast path) = ''control'') fail) (\<lambda>_.
     bind_res (check_res (lb_gate b = butlast path @ [last path @ ''.gate'']) fail) (\<lambda>_.
     bind_res (check_res (prefix root logs) fail) (\<lambda>_. Inr root)))))"

text \<open>What recovery and retention share: the authority, the exclusive hold, the directory, the lock,
  the proof that the configured path still names it, and the body.\<close>

definition maintain :: "log_env \<Rightarrow> log_barrier \<Rightarrow> string \<Rightarrow> (log_world, 'a) prog \<Rightarrow> log_world \<Rightarrow> ('a res \<times> log_world) option" where
  "maintain en b logs_arg body w =
     (case le_resolve en logs_arg of None \<Rightarrow> Some (Inl (Logging_Error ''MH_LOG_DIR''), w) | Some logs \<Rightarrow>
      (case bind_res (require_logs_barrier b logs) (\<lambda>root. bind_res (lb_enter b) (\<lambda>_. Inr root)) of
        Inl e \<Rightarrow> Some (Inl e, w)
      | Inr root \<Rightarrow> (case open_logs_dir root logs w of
          (Inl e, w1) \<Rightarrow> Some (Inl e, w1)
        | (Inr held, w1) \<Rightarrow>
            (case locked (andthen (require_live_directory root logs ''MH_LOG_DIR'') (\<lambda>_. body))
                (w1\<lparr>lw_disk := (lw_disk w1)\<lparr>dk_held := held\<rparr>\<rparr>) of
               None \<Rightarrow> None
             | Some (r, w2) \<Rightarrow> Some (r, snd (close_quietly w2))))))"

section \<open>Recovery\<close>

definition twin_of :: "nat \<Rightarrow> string \<Rightarrow> (log_world, bool) prog" where
  "twin_of fd name = except_os (andthen (os_stat name) (\<lambda>i. ret (i = fd))) (ret False)"

definition complete_rotation :: "nat \<Rightarrow> nat \<Rightarrow> log_node \<Rightarrow> (log_world, unit) prog" where
  "complete_rotation sequence fd info = (let rotated = rotated_name sequence in
     andthen (except_os
       (andthen
         (if nd_links info = 2 then andthen (twin_of fd rotated) (\<lambda>matched. ret (\<not> matched))
          else handle (andthen (os_link current_name rotated) (\<lambda>_. ret False))
            (\<lambda>e. if e = Os_Error Exists_Error then Some (ret True) else None)) (\<lambda>blocked.
        if blocked then ret False
        else andthen os_fsync (\<lambda>_.
          andthen (os_unlink current_name) (\<lambda>_.
          andthen os_fsync (\<lambda>_. ret True))))) (ret False)) (\<lambda>ok.
     check ok (Logging_Error ''MH_LOG_RECOVER'')))"

definition truncate_torn :: "nat \<Rightarrow> string \<Rightarrow> string option \<Rightarrow> (log_world, unit) prog \<Rightarrow> (log_world, nat) prog" where
  "truncate_torn fd content torn sync = (case torn of
     None \<Rightarrow> ret 0
   | Some t \<Rightarrow> andthen (os_ftruncate fd (length content - length t)) (\<lambda>_.
       andthen sync (\<lambda>_. ret (length t))))"

definition repair_opened :: "log_env \<Rightarrow> nat \<Rightarrow> (log_world, nat \<times> bool) prog" where
  "repair_opened en fd =
     andthen (examine_active_envelope fd) (\<lambda>info.
     andthen (read_bounded fd max_log_segment_bytes ''MH_LOG_RECOVER'') (\<lambda>content.
     andthen (lift_res (split_active ''MH_LOG_RECOVER'' content)) (\<lambda>(header_line, body, torn).
     andthen (lift_res (parse_log_header en header_line)) (\<lambda>h.
     andthen list_rotated (\<lambda>rotated.
     andthen (if hl_sequence h = int (highest rotated)
         then andthen (twin_of fd (rotated_name (highest rotated))) (\<lambda>self. ret (\<not> self))
         else ret (hl_sequence h < int (highest rotated))) (\<lambda>conflicted.
     andthen (check (\<not> conflicted) (Logging_Error ''MH_LOG_SEQUENCE'')) (\<lambda>_.
     if list_ex (is_trailer_line en) (butlast body) then log_fail ''MH_LOG_AMBIGUOUS''
     else if body = [] \<or> \<not> is_trailer_line en (last body) then
       andthen (check (nd_links info = 1) (Logging_Error ''MH_LOG_FILE'')) (\<lambda>_.
       andthen (lift_res (map_res (validate_event_line en) body)) (\<lambda>_.
       andthen (truncate_torn fd content torn (andthen os_fsync (\<lambda>_. os_fsync))) (\<lambda>n. ret (n, False))))
     else
       andthen (lift_res (map_res (validate_event_line en) (butlast body))) (\<lambda>_.
       andthen (check (case parse_log_trailer en (last body) h (butlast body) of
           Inl _ \<Rightarrow> False | Inr t \<Rightarrow> tl_sequence t = hl_sequence h) (Logging_Error ''MH_LOG_RECOVER'')) (\<lambda>_.
       andthen (truncate_torn fd content torn os_fsync) (\<lambda>n.
       andthen (complete_rotation (nat (hl_sequence h)) fd info) (\<lambda>_. ret (n, True))))))))))))"

definition repair_active :: "log_env \<Rightarrow> (log_world, nat \<times> bool) prog" where
  "repair_active en =
     andthen (open_current ''MH_LOG_RECOVER'') (\<lambda>found.
     case found of
       None \<Rightarrow> ret (0, False)
     | Some fd \<Rightarrow> except_os (closing (\<lambda>_. log_fail ''MH_LOG_RECOVER'') (repair_opened en fd))
         (log_fail ''MH_LOG_RECOVER''))"

definition header_preamble :: string where
  \<open>header_preamble = ''{"line":"header","opened_at":"''\<close>

definition classify_staging :: "log_env \<Rightarrow> string \<Rightarrow> (log_world, bool) prog" where
  "classify_staging en content =
     (if content = [] \<or> last content \<noteq> LF then ret (LF \<notin> set content \<and> prefix content header_preamble)
      else case butlast (split_on_lf content) of
        [line] \<Rightarrow> (case parse_log_header en (line @ [LF]) of
            Inl _ \<Rightarrow> ret False
          | Inr h \<Rightarrow> andthen list_rotated (\<lambda>rotated. ret (int (highest rotated) < hl_sequence h)))
      | _ \<Rightarrow> ret False)"

definition remove_staging :: "log_env \<Rightarrow> (log_world, bool) prog" where
  "remove_staging en = (let code = ''MH_LOG_RECOVER'' in
     andthen (handle (andthen (os_open staging_name) (\<lambda>fd. ret (Some fd)))
       (\<lambda>e. if e = Os_Error Not_Found_Error then Some (ret None)
            else if is_os_error e then Some (log_fail code) else None)) (\<lambda>found.
     case found of
       None \<Rightarrow> ret False
     | Some fd \<Rightarrow>
         andthen (except_os (closing (\<lambda>_. log_fail code)
           (except_logging
             (andthen (require_private_file fd) (\<lambda>_.
              andthen (os_fstat fd) (\<lambda>_.
              andthen (read_bounded fd max_log_header_bytes code) (\<lambda>content. ret (Some content)))))
             (\<lambda>_. ret None))) (log_fail code)) (\<lambda>read.
         andthen (case read of None \<Rightarrow> ret False | Some content \<Rightarrow> classify_staging en content) (\<lambda>ok.
         andthen (check ok (Logging_Error code)) (\<lambda>_.
         andthen (except_os (andthen (os_open staging_name) (\<lambda>probe.
           closing (\<lambda>_. ret False) (andthen (os_fstat probe) (\<lambda>_. ret (probe = fd))))) (ret False)) (\<lambda>verified.
         andthen (check verified (Logging_Error code)) (\<lambda>_.
         andthen (except_os (andthen (os_unlink staging_name) (\<lambda>_. andthen os_fsync (\<lambda>_. ret True))) (ret False)) (\<lambda>removed.
         andthen (check removed (Logging_Error code)) (\<lambda>_. ret True)))))))))"

record log_recovery_report =
  lr_truncated :: nat
  lr_removed :: bool
  lr_completed :: bool

definition recovery_locked :: "log_env \<Rightarrow> (log_world, log_recovery_report) prog" where
  "recovery_locked en =
     andthen (repair_active en) (\<lambda>(truncated, completed).
     andthen (remove_staging en) (\<lambda>removed.
     ret \<lparr>lr_truncated = truncated, lr_removed = removed, lr_completed = completed\<rparr>))"

definition recover_structured_logs ::
  "log_env \<Rightarrow> log_barrier \<Rightarrow> string \<Rightarrow> log_world \<Rightarrow> (log_recovery_report res \<times> log_world) option" where
  "recover_structured_logs en b logs_arg = maintain en b logs_arg (recovery_locked en)"

section \<open>Retention\<close>

record active_state =
  as_header :: log_header
  as_fd :: nat
  as_info :: log_node
  as_count :: int
  as_last :: "int option"
  as_digest :: string

record active_status =
  at_sequence :: "int option"
  at_expires :: "int option"
  at_expired :: bool
  at_rotated :: bool
  at_code :: "string option"

record retained_segment =
  rs_sequence :: nat
  rs_expires :: int
  rs_effective :: int
  rs_expired :: bool

text \<open>\<^verbatim>\<open>_file_identity\<close>: the inode, and the stamp that any change of it renews.\<close>

type_synonym log_file_identity = "nat \<times> nat"

record log_retention_report =
  rr_segments :: "retained_segment list"
  rr_refused :: "(nat \<times> string) list"
  rr_active :: "active_status option"

definition read_active_state :: "log_env \<Rightarrow> (log_world, active_state option) prog" where
  "read_active_state en =
     andthen staging_present (\<lambda>staged.
     andthen (check (\<not> staged) (Logging_Error ''MH_LOG_RECOVERY_REQUIRED'')) (\<lambda>_.
     andthen list_rotated (\<lambda>rotated.
     andthen (open_current ''MH_LOG_OPEN'') (\<lambda>found.
     case found of
       None \<Rightarrow> ret None
     | Some fd \<Rightarrow>
         andthen (read_active fd) (\<lambda>(info, content).
         andthen (lift_res (check_active en rotated info content)) (\<lambda>(h, event_lines, last_at).
         ret (Some \<lparr>as_header = h, as_fd = fd, as_info = info, as_count = int (length event_lines),
           as_last = last_at, as_digest = le_sha en content\<rparr>)))))))"

definition active_status_of :: "log_env \<Rightarrow> int \<Rightarrow> int \<Rightarrow> (log_world, active_status option \<times> active_state option) prog" where
  "active_status_of en days now =
     andthen (except_logging (andthen (read_active_state en) (\<lambda>s. ret (Inr s)))
       (\<lambda>e. ret (Inl (case e of Logging_Error c \<Rightarrow> c | _ \<Rightarrow> [])))) (\<lambda>r.
     case r of
       Inl code \<Rightarrow> ret (Some \<lparr>at_sequence = None, at_expires = None, at_expired = False, at_rotated = False,
         at_code = Some code\<rparr>, None)
     | Inr None \<Rightarrow> ret (None, None)
     | Inr (Some s) \<Rightarrow>
         andthen (lift_res (bounded_expiry (hl_opened (as_header s)) (hl_retention (as_header s)))) (\<lambda>captured.
         andthen (lift_res (bounded_expiry (hl_opened (as_header s)) days)) (\<lambda>policy.
         ret (Some \<lparr>at_sequence = Some (hl_sequence (as_header s)), at_expires = Some (min captured policy),
           at_expired = (min captured policy \<le> now), at_rotated = False, at_code = None\<rparr>, Some s))))"

definition close_and_rotate_active :: "log_env \<Rightarrow> active_state \<Rightarrow> int \<Rightarrow> (log_world, unit) prog" where
  "close_and_rotate_active en s now =
     andthen (lift_res (bounded_expiry (hl_opened (as_header s)) (hl_retention (as_header s)))) (\<lambda>expires.
     andthen (lift_res (bind_res (log_trailer_init (hl_sequence (as_header s)) now (as_last s) (as_count s)
       (as_digest s) expires) (structured_log_trailer_line (le_nfc en)))) (\<lambda>line.
     andthen open_for_append (\<lambda>fd.
     andthen (except_os (closing (\<lambda>_. ret False)
       (andthen os_fsync (\<lambda>_.
        andthen (os_write fd line) (\<lambda>n.
        if n \<noteq> length line then ret False else andthen os_fsync (\<lambda>_. ret True))))) (ret False)) (\<lambda>ok.
     andthen (check ok (Logging_Error ''MH_LOG_ROTATE'')) (\<lambda>_.
     except_logging (complete_rotation (nat (hl_sequence (as_header s))) (as_fd s) (as_info s))
       (\<lambda>_. log_fail ''MH_LOG_ROTATE''))))))"

definition parse_closed :: "log_env \<Rightarrow> nat \<Rightarrow> string \<Rightarrow> (log_header \<times> log_trailer) res" where
  "parse_closed en sequence content = (let fail = Logging_Error ''MH_LOG_RETENTION'';
       parts = butlast (split_on_lf content) in
     bind_res (check_res (content \<noteq> [] \<and> last content = LF) fail) (\<lambda>_.
     bind_res (check_res (2 \<le> length parts \<and> [] \<notin> set parts) fail) (\<lambda>_.
     bind_res (parse_log_header en (hd parts @ [LF])) (\<lambda>h.
     bind_res (parse_log_trailer en (last parts @ [LF]) h (map (\<lambda>p. p @ [LF]) (butlast (tl parts)))) (\<lambda>t.
     bind_res (check_res (hl_sequence h = int sequence \<and> tl_sequence t = int sequence) fail) (\<lambda>_.
     Inr (h, t)))))))"

definition read_closed_segment :: "log_env \<Rightarrow> string \<Rightarrow> nat \<Rightarrow> (log_world, log_header \<times> log_trailer \<times> log_file_identity) prog" where
  "read_closed_segment en name sequence = (let code = ''MH_LOG_RETENTION'' in
     andthen (except_os (andthen (os_open name) (\<lambda>fd.
       closing (\<lambda>_. log_fail code)
         (andthen (require_private_file fd) (\<lambda>_.
          andthen (read_bounded fd max_log_segment_bytes code) (\<lambda>content.
          andthen (os_fstat fd) (\<lambda>info. ret (content, fd, nd_stamp info))))))) (log_fail code)) (\<lambda>(content, identity).
     andthen (lift_res (parse_closed en sequence content)) (\<lambda>(h, t). ret (h, t, identity))))"

definition unlink_verified :: "string \<Rightarrow> log_file_identity \<Rightarrow> (log_world, bool) prog" where
  "unlink_verified name identity =
     andthen (handle (andthen (os_open name) (\<lambda>fd.
       closing (\<lambda>_. ret False)
         (andthen (require_private_file fd) (\<lambda>_.
          andthen (os_fstat fd) (\<lambda>info. ret ((fd, nd_stamp info) = identity))))))
       (\<lambda>e. if is_os_error e \<or> is_logging_error e then Some (ret False) else None)) (\<lambda>verified.
     if \<not> verified then ret False
     else andthen (except_os (andthen (os_unlink name) (\<lambda>_. andthen os_fsync (\<lambda>_. ret True))) (ret False)) (\<lambda>ok.
       andthen (check ok (Logging_Error ''MH_LOG_RETENTION'')) (\<lambda>_. ret True)))"

text \<open>One rotation of the preview: refused with its code, or its deadlines and identity.\<close>

definition preview_one :: "log_env \<Rightarrow> int \<Rightarrow> int \<Rightarrow> nat \<Rightarrow> (log_world, (nat \<times> string) + (retained_segment \<times> log_file_identity)) prog" where
  "preview_one en days now sequence =
     andthen (except_logging (andthen (read_closed_segment en (rotated_name sequence) sequence) (\<lambda>x. ret (Inr x)))
       (\<lambda>e. ret (Inl (case e of Logging_Error c \<Rightarrow> c | _ \<Rightarrow> [])))) (\<lambda>r.
     case r of
       Inl code \<Rightarrow> ret (Inl (sequence, code))
     | Inr (h, t, identity) \<Rightarrow>
         andthen (lift_res (add_seconds (hl_opened h) (86400 * days))) (\<lambda>policy.
         ret (Inr (\<lparr>rs_sequence = sequence, rs_expires = tl_expires t, rs_effective = min (tl_expires t) policy,
           rs_expired = (min (tl_expires t) policy \<le> now)\<rparr>, identity))))"

definition preview_locked :: "log_env \<Rightarrow> int \<Rightarrow> int \<Rightarrow> (log_world, ((nat \<times> string) + (retained_segment \<times> log_file_identity)) list) prog" where
  "preview_locked en days now =
     andthen (check (1 \<le> days \<and> days \<le> 3650) (Logging_Error ''MH_LOG_RETENTION'')) (\<lambda>_.
     andthen list_rotated (\<lambda>rotated. for_each (preview_one en days now) (sort rotated)))"

definition lefts :: "('a + 'b) list \<Rightarrow> 'a list" where
  "lefts xs = List.map_filter (\<lambda>x. case x of Inl a \<Rightarrow> Some a | Inr _ \<Rightarrow> None) xs"

definition rights :: "('a + 'b) list \<Rightarrow> 'b list" where
  "rights xs = List.map_filter (\<lambda>x. case x of Inl _ \<Rightarrow> None | Inr b \<Rightarrow> Some b) xs"

definition prune_one :: "retained_segment \<times> log_file_identity \<Rightarrow> (log_world, (nat \<times> string) + retained_segment) prog" where
  "prune_one = (\<lambda>(seg, identity).
     andthen (unlink_verified (rotated_name (rs_sequence seg)) identity) (\<lambda>ok.
     ret (if ok then Inr seg else Inl (rs_sequence seg, ''MH_LOG_RETENTION''))))"

definition prune_expired_closed :: "log_env \<Rightarrow> int \<Rightarrow> int \<Rightarrow> (log_world, retained_segment list \<times> (nat \<times> string) list) prog" where
  "prune_expired_closed en days now =
     andthen (preview_locked en days now) (\<lambda>preview.
     andthen (for_each prune_one (filter (\<lambda>x. rs_expired (fst x)) (rights preview))) (\<lambda>outcomes.
     ret (rights outcomes, lefts preview @ lefts outcomes)))"

definition prune_specific_rotation :: "log_env \<Rightarrow> nat \<Rightarrow> int \<Rightarrow> int \<Rightarrow> (log_world, (nat \<times> string) + retained_segment) prog" where
  "prune_specific_rotation en sequence days now =
     andthen (preview_one en days now sequence) (\<lambda>r.
     case r of
       Inl refused \<Rightarrow> ret (Inl refused)
     | Inr (seg, identity) \<Rightarrow>
         if rs_expired seg then prune_one (seg, identity) else ret (Inl (sequence, ''MH_LOG_RETENTION'')))"

definition log_retention_preview ::
  "log_env \<Rightarrow> log_barrier \<Rightarrow> string \<Rightarrow> int \<Rightarrow> int \<Rightarrow> log_world \<Rightarrow> (log_retention_report res \<times> log_world) option" where
  "log_retention_preview en b logs_arg days now = maintain en b logs_arg
     (andthen (active_status_of en days now) (\<lambda>(active, _).
      andthen (preview_locked en days now) (\<lambda>preview.
      ret \<lparr>rr_segments = map fst (rights preview), rr_refused = lefts preview, rr_active = active\<rparr>)))"

text \<open>The body of \<^verbatim>\<open>retention_apply\<close> under the lock: prune, then close and rotate an expired active
  segment, publish its successor and prune the rotation it became.\<close>

definition renew_active :: "log_env \<Rightarrow> int \<Rightarrow> int \<Rightarrow> active_state \<Rightarrow> (log_world, (nat \<times> string) + retained_segment) prog" where
  "renew_active en days now s =
     andthen (close_and_rotate_active en s now) (\<lambda>_.
     andthen (publish_fresh_current en (hl_sequence (as_header s) + 1) now days) (\<lambda>_.
     prune_specific_rotation en (nat (hl_sequence (as_header s))) days now))"

definition apply_locked :: "log_env \<Rightarrow> int \<Rightarrow> int \<Rightarrow> (log_world, log_retention_report) prog" where
  "apply_locked en days now =
     andthen (active_status_of en days now) (\<lambda>(active, state).
     andthen (prune_expired_closed en days now) (\<lambda>(removed, refused).
     case (active, state) of
       (Some a, Some s) \<Rightarrow>
         if at_expired a then
           andthen list_rotated (\<lambda>rotated.
           if length rotated < max_rotations then
             andthen (renew_active en days now s) (\<lambda>r.
             ret \<lparr>rr_segments = removed @ rights [r], rr_refused = refused @ lefts [r],
               rr_active = Some (a\<lparr>at_rotated := True, at_code := None\<rparr>)\<rparr>)
           else ret \<lparr>rr_segments = removed, rr_refused = refused,
             rr_active = Some (a\<lparr>at_rotated := False, at_code := Some ''MH_LOG_RETENTION_BOUND''\<rparr>)\<rparr>)
         else ret \<lparr>rr_segments = removed, rr_refused = refused, rr_active = active\<rparr>
     | _ \<Rightarrow> ret \<lparr>rr_segments = removed, rr_refused = refused, rr_active = active\<rparr>))"

definition log_retention_apply ::
  "log_env \<Rightarrow> log_barrier \<Rightarrow> string \<Rightarrow> int \<Rightarrow> int \<Rightarrow> log_world \<Rightarrow> (log_retention_report res \<times> log_world) option" where
  "log_retention_apply en b logs_arg days now = maintain en b logs_arg (apply_locked en days now)"

end
