(* ===== verification/Log_Safety.thy ===== *)
theory Log_Safety
  imports Log_Maintenance
begin

text \<open>
  What the log store keeps whatever its system calls answer. The invariants of the directory
  (\<open>wf_disk\<close>) and three relations between the disk before and after an operation are carried through
  its programs by the weakest-precondition rules: appending only ever extends a segment and leaves
  each one under a log name; recovery cuts no more than a torn tail; retention removes a rotation only
  when its own bytes prove that it expired.
\<close>

section \<open>The directory after each call\<close>

definition names_of :: "log_disk \<Rightarrow> nat \<Rightarrow> string set" where
  "names_of d i = {n. inode_of d n = Some i}"

text \<open>An inode has at least as many links as names here, and fresh inodes are unnamed.\<close>

definition wf_disk :: "log_disk \<Rightarrow> bool" where
  "wf_disk d \<longleftrightarrow> (\<forall>i. card (names_of d i) \<le> nd_links (dk_nodes d i)) \<and> (\<forall>n i. inode_of d n = Some i \<longrightarrow> i < dk_fresh d)"

definition log_name :: "string \<Rightarrow> bool" where
  "log_name n \<longleftrightarrow> n = current_name \<or> sequence_from_name n \<noteq> None"

lemma finite_names_of [simp]: "finite (names_of d i)"
proof (rule finite_subset)
  show "names_of d i \<subseteq> fst ` set (dk_names d)"
    by (auto simp: names_of_def inode_of_def dest: map_of_SomeD intro: rev_image_eqI)
qed simp

lemma after_set_node [simp]:
  "inode_of (set_node i f d) n = inode_of d n"
  "bytes_of (set_node i f d) j = (if j = i then nd_bytes (f (dk_nodes d i)) else bytes_of d j)"
  "dk_fresh (set_node i f d) = dk_fresh d"
  "nd_links (dk_nodes (set_node i f d) j) = (if j = i then nd_links (f (dk_nodes d i)) else nd_links (dk_nodes d j))"
  by (simp_all add: set_node_def inode_of_def bytes_of_def)

lemma after_names [simp]:
  "inode_of (drop_name a d) n = (if n = a then None else inode_of d n)"
  "bytes_of (drop_name a d) j = bytes_of d j" "dk_fresh (drop_name a d) = dk_fresh d"
  "dk_nodes (drop_name a d) = dk_nodes d"
  "inode_of (d\<lparr>dk_names := (a, i) # xs\<rparr>) n = (if n = a then Some i else map_of xs n)"
  "bytes_of (d\<lparr>dk_names := xs\<rparr>) j = bytes_of d j"
proof -
  have "map_of (filter (\<lambda>e. fst e \<noteq> a) xs) n = (if n = a then None else map_of xs n)" for xs :: "(string \<times> nat) list"
    by (induction xs) auto
  then show "inode_of (drop_name a d) n = (if n = a then None else inode_of d n)"
    by (simp add: drop_name_def inode_of_def)
qed (simp_all add: drop_name_def bytes_of_def inode_of_def)

lemma after_append [simp]:
  "inode_of (append_bytes fd bs d) n = inode_of d n"
  "bytes_of (append_bytes fd bs d) j = (if j = fd then bytes_of d fd @ bs else bytes_of d j)"
  by (simp_all add: append_bytes_def) (simp add: bytes_of_def)

lemma after_create [simp]:
  "inode_of (snd (do_create a d)) n = (if n = a then Some (dk_fresh d) else inode_of d n)"
  "bytes_of (snd (do_create a d)) j = (if j = dk_fresh d then [] else bytes_of d j)"
  by (simp_all add: do_create_def inode_of_def bytes_of_def)

lemma after_link:
  assumes "do_link old new d = (Inr (), d')" "inode_of d old = Some i" "inode_of d new = None"
  shows "inode_of d' n = (if n = new then Some i else inode_of d n)" "bytes_of d' j = bytes_of d j"
  using assms by (auto simp: do_link_def) (auto simp: inode_of_def bytes_of_def)

lemma after_unlink:
  assumes "do_unlink a d = (Inr (), d')"
  shows "inode_of d' n = (if n = a then None else inode_of d n)" "bytes_of d' j = bytes_of d j"
  using assms by (auto simp: do_unlink_def split: option.splits) (simp add: bytes_of_def)

lemma after_rename:
  assumes "do_rename old new d = (Inr (), d')" "inode_of d old = Some i" "old \<noteq> new"
  shows "inode_of d' n = (if n = new then Some i else if n = old then None else inode_of d n)"
    "bytes_of d' j = bytes_of d j"
proof -
  have two: "map_of (filter (\<lambda>e. fst e \<noteq> old \<and> fst e \<noteq> new) xs) m = (if m = old \<or> m = new then None else map_of xs m)"
    for m and xs :: "(string \<times> nat) list"
    by (induction xs) auto
  show "inode_of d' n = (if n = new then Some i else if n = old then None else inode_of d n)"
    "bytes_of d' j = bytes_of d j"
    using assms by (auto simp: do_rename_def Let_def two inode_of_def set_node_def bytes_of_def split: option.splits)
qed

lemma names_of_cong: "(\<And>n. inode_of d n = inode_of e n) \<Longrightarrow> names_of d i = names_of e i"
  by (simp add: names_of_def)

lemma wf_append: "wf_disk d \<Longrightarrow> wf_disk (append_bytes fd bs d)"
  by (simp add: wf_disk_def append_bytes_def names_of_def)

lemma wf_truncate: "wf_disk d \<Longrightarrow> wf_disk (set_node fd (\<lambda>x. x\<lparr>nd_bytes := bs x\<rparr>) d)"
  by (simp add: wf_disk_def names_of_def)

lemma wf_create: "wf_disk d \<Longrightarrow> inode_of d a = None \<Longrightarrow> wf_disk (snd (do_create a d))"
proof -
  assume d: "wf_disk d" and a: "inode_of d a = None"
  have "names_of (snd (do_create a d)) i = (if i = dk_fresh d then {a} else names_of d i)" for i
    using d a by (auto simp: names_of_def wf_disk_def split: if_splits)
  moreover have "dk_fresh (snd (do_create a d)) = dk_fresh d + 1"
      "nd_links (dk_nodes (snd (do_create a d)) j) = (if j = dk_fresh d then 1 else nd_links (dk_nodes d j))" for j
    by (simp_all add: do_create_def)
  ultimately show ?thesis
    using d by (auto simp: wf_disk_def less_Suc_eq split: if_splits)
qed

lemma wf_link:
  assumes "wf_disk d" "do_link old new d = (Inr (), d')" "inode_of d old = Some i" "inode_of d new = None"
  shows "wf_disk d'"
proof -
  have "names_of d' j = (if j = i then insert new (names_of d i) else names_of d j)" for j
    using assms after_link [OF assms(2-4)] by (auto simp: names_of_def)
  moreover have "card (insert new (names_of d i)) \<le> card (names_of d i) + 1" by (simp add: card_insert_if)
  moreover have "dk_fresh d' = dk_fresh d" "nd_links (dk_nodes d' j) = nd_links (dk_nodes d j) + (if j = i then 1 else 0)" for j
    using assms(2-4) by (auto simp: do_link_def set_node_def)
  ultimately show ?thesis
    using assms after_link [OF assms(2-4)] by (auto simp: wf_disk_def intro: order.trans)
qed

lemma wf_unlink:
  assumes "wf_disk d" "do_unlink a d = (Inr (), d')"
  shows "wf_disk d'"
proof -
  obtain i where i: "inode_of d a = Some i" using assms(2) by (auto simp: do_unlink_def split: option.splits)
  have "names_of d' j = (if j = i then names_of d i - {a} else names_of d j)" for j
    using assms i after_unlink [OF assms(2)] by (auto simp: names_of_def)
  moreover have "dk_fresh d' = dk_fresh d" "nd_links (dk_nodes d' j) = nd_links (dk_nodes d j) - (if j = i then 1 else 0)" for j
    using assms(2) i by (auto simp: do_unlink_def set_node_def drop_name_def)
  moreover have "a \<in> names_of d i" using i by (simp add: names_of_def)
  ultimately show ?thesis
    using assms after_unlink [OF assms(2)] by (auto simp: wf_disk_def card_Diff_singleton split: if_splits intro: diff_le_mono)
qed

lemma wf_rename:
  assumes "wf_disk d" "do_rename old new d = (Inr (), d')" "inode_of d old = Some i" "old \<noteq> new" "inode_of d new = None"
  shows "wf_disk d'"
proof -
  note after = after_rename [OF assms(2-4)]
  have "names_of d' j = (if j = i then insert new (names_of d i - {old}) else names_of d j)" for j
    using assms(3,5) after by (auto simp: names_of_def split: if_splits)
  moreover have "old \<in> names_of d i" using assms(3) by (simp add: names_of_def)
  then have "card (insert new (names_of d i - {old})) \<le> card (names_of d i)"
    by (simp add: card_insert_if card_Diff_singleton) (metis One_nat_def Suc_pred card_gt_0_iff empty_iff finite_names_of order_refl le_SucI diff_le_self)
  moreover have "dk_fresh d' = dk_fresh d" "nd_links (dk_nodes d' j) = nd_links (dk_nodes d j)" for j
    using assms(2,3,5) by (auto simp: do_rename_def Let_def)
  ultimately show ?thesis
    using assms after by (auto simp: wf_disk_def intro: order.trans)
qed

section \<open>More rules\<close>

lemma wp_upd_store [wp_rules]: "Q () d (f st) \<Longrightarrow> wp (upd_store f) Q E d st"
  by (simp add: wp_def upd_store_def)

lemma wp_get_store [wp_rules]: "Q st d st \<Longrightarrow> wp get_store Q E d st"
  by (simp add: wp_def get_store_def)

lemma wp_poison [wp_rules]: "Q () d (st\<lparr>so_closed := True\<rparr>) \<Longrightarrow> wp poison Q E d st"
  unfolding poison_def by (intro wp_rules)

lemma wp_open_for_append [wp_rules]:
  "(\<And>fd. inode_of d current_name = Some fd \<Longrightarrow> nd_links (dk_nodes d fd) = 1 \<Longrightarrow> Q fd d st) \<Longrightarrow>
     (\<And>c. E (Logging_Error c) d st) \<Longrightarrow> wp open_for_append Q E d st"
  unfolding open_for_append_def
  by (intro wp_andthen wp_except_os wp_open wp_except_logging wp_require_private wp_ret) (auto intro!: wp_fail wp_andthen wp_close_quietly wp_throw)

lemma wp_closing:
  "wp m (\<lambda>x d' st'. Q x d' st' \<and> wp (bad x) Q E d' st') E d st \<Longrightarrow> wp (closing bad m) Q E d st"
  unfolding closing_def
  by (rule wp_andthen, rule wp_handle, erule wp_conseq)
    (auto intro!: wp_andthen wp_close_quietly wp_throw wp_except_os wp_plain(2) wp_ret)

text \<open>The two names that are not a rotation's, and the rotation's own.\<close>

lemma log_names [simp]:
  "log_name current_name" "\<not> log_name staging_name" "\<not> log_name lock_name"
  "staging_name \<noteq> current_name" "current_name \<noteq> staging_name"
  using not_rotated by (auto simp: log_name_def staging_name_def current_name_def lock_name_def)

lemma not_lock_name [simp]: "current_name \<noteq> lock_name" "staging_name \<noteq> lock_name"
  using log_names(1,3) by (metis, simp add: staging_name_def lock_name_def)

lemma log_name_rotated: "n < 10 ^ 20 \<Longrightarrow> log_name (rotated_name n) \<and> rotated_name n \<noteq> current_name"
  using sequence_of_rotated not_rotated(1) by (metis log_name_def option.distinct(1))

lemma canonical_line_length: "canonical_line nfc bound p = Inr l \<Longrightarrow> int (length l) \<le> bound"
  by (auto simp: canonical_line_def canonical_json_bytes_def bind_res_eq_Inr split: if_splits)

lemma stored_line_lengths:
  "structured_log_event_line nfc ev = Inr l \<Longrightarrow> int (length l) \<le> 4096"
  "structured_log_header_line nfc h = Inr l \<Longrightarrow> int (length l) \<le> 1024"
  "structured_log_trailer_line nfc t = Inr l \<Longrightarrow> int (length l) \<le> 1024"
  by (auto simp: structured_log_event_line_def structured_log_header_line_def structured_log_trailer_line_def
      bind_res_eq_Inr max_event_line_bytes_def max_log_header_bytes_def max_log_trailer_bytes_def
      dest!: canonical_line_length)

lemma canonical_line_is_line: "canonical_line nfc bound (P_Dict kvs) = Inr l \<Longrightarrow> bound \<le> 4096 \<Longrightarrow> is_line 4096 l"
  using canonical_text canonical_dict_nonempty canonical_line_length
  by (fastforce simp: canonical_line_def bind_res_eq_Inr is_line_def)

lemma stored_lines:
  "structured_log_header_line nfc h = Inr l \<Longrightarrow> is_line 4096 l"
  "structured_log_trailer_line nfc t = Inr l \<Longrightarrow> is_line 4096 l"
  "structured_log_event_line nfc ev = Inr l \<Longrightarrow> is_line 4096 l"
  by (auto simp: structured_log_event_line_def structured_log_header_line_def structured_log_trailer_line_def log_header_payload_def
      log_trailer_payload_def event_payload_def bind_res_eq_Inr max_event_line_bytes_def max_log_header_bytes_def
      max_log_trailer_bytes_def dest: canonical_line_is_line)

lemma log_header_init_Inr:
  "log_header_init sequence opened retention = Inr h \<Longrightarrow>
     hl_sequence h = sequence \<and> 0 < sequence \<and> sequence \<le> max_int64 \<and> hl_retention h = retention"
  by (auto simp: log_header_init_def bind_res_eq_Inr validate_log_sequence_def)

section \<open>Appending extends\<close>

definition extends :: "log_disk \<Rightarrow> log_disk \<Rightarrow> bool" where
  "extends d d' \<longleftrightarrow> (wf_disk d \<longrightarrow> wf_disk d' \<and> (\<forall>n i. log_name n \<longrightarrow> inode_of d n = Some i \<longrightarrow>
     (\<exists>m. log_name m \<and> inode_of d' m = Some i) \<and> prefix (bytes_of d i) (bytes_of d' i)))"

definition bounded :: "log_disk \<Rightarrow> bool" where
  "bounded d \<longleftrightarrow> (\<forall>n i. log_name n \<longrightarrow> inode_of d n = Some i \<longrightarrow> int (length (bytes_of d i)) \<le> max_log_segment_bytes)"

lemma extends_refl [simp]: "extends d d"
  by (auto simp: extends_def)

lemma extends_trans: "extends a b \<Longrightarrow> extends b c \<Longrightarrow> extends a c"
  unfolding extends_def by (meson prefix_order.trans)

lemma extends_append: "extends d (append_bytes fd bs d)"
  by (auto simp: extends_def wf_append)

lemma extends_create: "inode_of d a = None \<Longrightarrow> \<not> log_name a \<Longrightarrow> extends d (snd (do_create a d))"
  unfolding extends_def using wf_create by (fastforce simp: wf_disk_def)

lemma extends_link:
  assumes "do_link old new d = (Inr (), d')" "inode_of d old = Some i" "inode_of d new = None"
  shows "extends d d'"
  unfolding extends_def using wf_link [OF _ assms] after_link [OF assms] assms(3) by (metis option.distinct(1) prefix_order.refl)

lemma extends_unlink:
  assumes "do_unlink a d = (Inr (), d')" "m \<noteq> a" "log_name m" "inode_of d m = inode_of d a"
  shows "extends d d'"
  unfolding extends_def using wf_unlink [OF _ assms(1)] after_unlink [OF assms(1)] assms(2-4) by (metis prefix_order.refl)

lemma extends_rename:
  assumes "do_rename staging_name current_name d = (Inr (), d')" "inode_of d staging_name = Some i" "inode_of d current_name = None"
  shows "extends d d'"
  unfolding extends_def
  using wf_rename [OF _ assms(1,2) _ assms(3)] after_rename [OF assms(1,2)] assms(3)
  by (metis log_names(2,4) option.distinct(1) prefix_order.refl)

lemma bounded_append:
  "bounded d \<Longrightarrow> int (length (bytes_of d fd) + length bs) \<le> max_log_segment_bytes \<Longrightarrow> bounded (append_bytes fd bs d)"
  by (auto simp: bounded_def)

lemma bounded_link:
  assumes "bounded d" "do_link old new d = (Inr (), d')" "inode_of d old = Some i" "inode_of d new = None" "log_name old"
  shows "bounded d'"
  using assms(1,3,5) after_link [OF assms(2-4)] unfolding bounded_def by (metis option.inject)

lemma bounded_unlink: "bounded d \<Longrightarrow> do_unlink a d = (Inr (), d') \<Longrightarrow> bounded d'"
  using after_unlink [of a d d'] unfolding bounded_def by (metis option.distinct(1))

lemma bounded_create: "bounded d \<Longrightarrow> \<not> log_name a \<Longrightarrow> bounded (snd (do_create a d))"
  by (auto simp: bounded_def max_log_segment_bytes_def)

lemma bounded_rename:
  assumes "bounded d" "do_rename staging_name current_name d = (Inr (), d')" "inode_of d staging_name = Some i"
    "int (length (bytes_of d i)) \<le> max_log_segment_bytes"
  shows "bounded d'"
  using assms(1,4) after_rename [OF assms(2,3)] unfolding bounded_def
  by (metis log_names(4) option.distinct(1) option.inject)

text \<open>The bundle an operation carries from its first disk: nothing lost, and no segment too long.\<close>

definition kept :: "log_disk \<Rightarrow> log_disk \<Rightarrow> bool" where
  "kept d0 d \<longleftrightarrow> extends d0 d \<and> (bounded d0 \<longrightarrow> bounded d)"

lemma kept_refl [simp]: "kept d d"
  by (simp add: kept_def)

section \<open>The directory protocol, once for every property\<close>

text \<open>
  Rotation, recovery and retention move a segment through the same calls: a no-replace link of the
  rotated name, then the unlink of the current one. What a property \<open>G\<close> of the disk needs for its
  proof to go through them are the two laws of \<open>rotating\<close>; the publication of a fresh segment adds
  those of \<open>log_steps\<close>.
\<close>

locale rotating =
  fixes G :: "log_disk \<Rightarrow> bool"
  assumes linked: "G d \<Longrightarrow> log_name rotated \<Longrightarrow> rotated \<noteq> current_name \<Longrightarrow> inode_of d current_name = Some i \<Longrightarrow>
      inode_of d rotated = None \<Longrightarrow> do_link current_name rotated d = (Inr (), e) \<Longrightarrow> G e"
    and unlinked: "G d \<Longrightarrow> log_name rotated \<Longrightarrow> rotated \<noteq> current_name \<Longrightarrow>
      inode_of d rotated = inode_of d current_name \<Longrightarrow> do_unlink current_name d = (Inr (), e) \<Longrightarrow> G e"

locale log_steps = rotating +
  assumes created: "G d \<Longrightarrow> inode_of d staging_name = None \<Longrightarrow> G (snd (do_create staging_name d))"
    and filled: "G d \<Longrightarrow> inode_of d staging_name = None \<Longrightarrow> int (length bs) \<le> max_log_segment_bytes \<Longrightarrow>
      G (append_bytes (dk_fresh d) bs (snd (do_create staging_name d)))"
    and published: "G d \<Longrightarrow> inode_of d current_name = None \<Longrightarrow> inode_of d staging_name = Some i \<Longrightarrow>
      int (length (bytes_of d i)) \<le> max_log_segment_bytes \<Longrightarrow>
      do_rename staging_name current_name d = (Inr (), e) \<Longrightarrow> G e"

context log_steps begin

lemma wp_publish_staged:
  assumes "G d" "inode_of d current_name = None" "int (length line) \<le> max_log_segment_bytes"
  shows "wp (publish_staged line)
     (\<lambda>ok d' st'. G d' \<and> st' = st \<and> (ok \<longrightarrow> (\<exists>i. inode_of d' current_name = Some i \<and> bytes_of d' i = line)))
     (\<lambda>_ _ _. False) d st"
proof -
  let ?c = "snd (do_create staging_name d)" and ?i = "dk_fresh d"
  have whole: "G (append_bytes ?i line ?c)" if "inode_of d staging_name = None"
    by (rule filled [OF assms(1) that assms(3)])
  have cut: "G (append_bytes ?i (take k line) ?c)" if "inode_of d staging_name = None" for k
    by (rule filled [OF assms(1) that]) (use assms(3) in simp)
  have renamed: "G e \<and> inode_of e current_name = Some ?i \<and> bytes_of e ?i = line"
    if rename: "do_rename staging_name current_name (append_bytes ?i line ?c) = (Inr (), e)"
      and none: "inode_of d staging_name = None" for e
  proof -
    let ?w = "append_bytes ?i line ?c"
    have names: "inode_of ?w staging_name = Some ?i" "inode_of ?w current_name = None" "bytes_of ?w ?i = line"
      using assms(2) by simp_all
    show ?thesis
      using published [OF whole [OF none] names(2,1) _ rename] after_rename [OF rename names(1)] names assms(3) by auto
  qed
  show ?thesis
    unfolding publish_staged_def
    apply (rule wp_except_os)
    apply (intro wp_andthen wp_plain wp_open_new wp_handle wp_write wp_if wp_ret wp_rename)
    apply (auto intro!: wp_ret wp_andthen wp_close_quietly wp_throw simp: assms(1) created cut whole simp del: after_create)
    using renamed apply blast+
    done
qed

lemma wp_publish:
  assumes "G d" "inode_of d current_name = None"
  shows "wp (publish_fresh_current en sequence opened retention)
     (\<lambda>h d' st'. G d' \<and> st' = st \<and> hl_sequence h = sequence \<and> sequence \<le> max_int64 \<and>
        (\<exists>line i. structured_log_header_line (le_nfc en) h = Inr line \<and> inode_of d' current_name = Some i \<and> bytes_of d' i = line))
     (\<lambda>_ d' st'. G d' \<and> st' = st) d st"
  unfolding publish_fresh_current_def
  apply (intro wp_andthen wp_check wp_lift)
  apply (auto simp: assms)
  apply (rule wp_conseq [OF wp_publish_staged [OF assms]])
  apply (auto intro!: wp_andthen wp_check wp_ret dest: log_header_init_Inr stored_line_lengths(2) simp: max_log_segment_bytes_def)
  done

end

interpretation kept: log_steps "kept d0" for d0
proof unfold_locales
  fix d e rotated i
  assume g: "kept d0 d" and n: "log_name rotated" "rotated \<noteq> current_name"
  show "kept d0 e" if "inode_of d current_name = Some i" "inode_of d rotated = None" "do_link current_name rotated d = (Inr (), e)"
    using g extends_trans [OF _ extends_link [OF that(3,1,2)]] bounded_link [OF _ that(3,1,2)] by (auto simp: kept_def)
  show "kept d0 e" if "inode_of d rotated = inode_of d current_name" "do_unlink current_name d = (Inr (), e)"
    using g extends_trans [OF _ extends_unlink [OF that(2) n(2,1) that(1)]] bounded_unlink [OF _ that(2)] by (auto simp: kept_def)
next
  fix d assume g: "kept d0 d" and none: "inode_of d staging_name = None"
  show made: "kept d0 (snd (do_create staging_name d))"
    using g none extends_trans [OF _ extends_create] bounded_create [of d staging_name]
    by (auto simp: kept_def simp del: after_create)
  show "kept d0 (append_bytes (dk_fresh d) bs (snd (do_create staging_name d)))" if "int (length bs) \<le> max_log_segment_bytes" for bs
    using made extends_trans [OF _ extends_append] bounded_append [of _ "dk_fresh d" bs] that
    by (auto simp: kept_def simp del: after_append)
next
  fix d e i
  assume g: "kept d0 d" and *: "inode_of d current_name = None" "inode_of d staging_name = Some i"
    "int (length (bytes_of d i)) \<le> max_log_segment_bytes" "do_rename staging_name current_name d = (Inr (), e)"
  then show "kept d0 e"
    using extends_trans [OF _ extends_rename [OF *(4,2,1)]] bounded_rename [OF _ *(4,2,3)] by (auto simp: kept_def)
qed

text \<open>Closing: whatever fails, the trailer's bytes are the only ones added, and on success the segment
  has its rotated name and the current name is free.\<close>

lemma wp_close_segment:
  assumes "log_name rotated" "rotated \<noteq> current_name" "kept d0 d" "inode_of d current_name = Some fd"
    "int (length (bytes_of d fd) + length line) \<le> max_log_segment_bytes"
  shows "wp (close_segment fd line rotated)
     (\<lambda>ok d' st'. kept d0 d' \<and> (ok \<longrightarrow> inode_of d' current_name = None) \<and> st' \<in> {st, st\<lparr>so_fd := None\<rparr>})
     (\<lambda>_ _ _. False) d st"
proof -
  have written: "kept d0 (append_bytes fd (take k line) d)" for k
    using assms(3,5) extends_trans [OF _ extends_append] bounded_append [of d fd "take k line"] by (auto simp: kept_def)
  have whole: "kept d0 (append_bytes fd line d)" using written [of "length line"] by simp
  have linked: "kept d0 e \<and> inode_of e rotated = inode_of e current_name"
    if link: "do_link current_name rotated (append_bytes fd line d) = (Inr (), e)"
      and "inode_of d current_name = Some i" "inode_of d rotated = None" for e i
  proof -
    have names: "inode_of (append_bytes fd line d) current_name = Some i" "inode_of (append_bytes fd line d) rotated = None"
      using that by simp_all
    show ?thesis using kept.linked [OF whole assms(1,2) names link] after_link [OF link names] assms(2) names by simp
  qed
  have unlinked: "kept d0 e \<and> inode_of e current_name = None"
    if "do_unlink current_name d1 = (Inr (), e)" "inode_of d1 rotated = inode_of d1 current_name" "kept d0 d1" for d1 e
    using kept.unlinked [OF that(3) assms(1,2) that(2,1)] after_unlink [OF that(1)] by simp
  show ?thesis
    unfolding close_segment_def
    apply (rule wp_except_os)
    apply (intro wp_andthen wp_plain wp_write wp_if wp_ret wp_upd_store wp_link wp_unlink)
    apply (auto intro!: wp_ret simp: written assms(3))
    using whole linked unlinked
    apply blast+
    done
qed

text \<open>The state in which a line of \<open>n\<close> bytes may be written.\<close>

definition appendable :: "log_disk \<Rightarrow> log_store \<Rightarrow> int \<Rightarrow> bool" where
  "appendable d st n \<longleftrightarrow> (\<exists>fd. so_fd st = Some fd \<and> inode_of d current_name = Some fd \<and>
     int (length (bytes_of d fd)) = so_size st \<and> so_size st + n + max_log_trailer_bytes \<le> max_log_segment_bytes)"

lemma wp_start_segment:
  assumes "kept d0 d" "inode_of d current_name = None"
  shows "wp (start_segment en sequence opened)
     (\<lambda>_ d' st'. kept d0 d' \<and> appendable d' st' 4096 \<and> hl_sequence (so_header st') \<le> max_int64)
     (\<lambda>_ d' st'. kept d0 d') d st"
  unfolding start_segment_def
  apply (intro wp_andthen wp_get_store)
  apply (rule wp_conseq [OF kept.wp_publish [OF assms]])
  apply (auto intro!: wp_andthen wp_lift wp_upd_store wp_open_for_append
      simp: appendable_def max_log_segment_bytes_def max_log_trailer_bytes_def)
  apply (frule stored_line_lengths(2), simp)
  done

section \<open>Rotation and append\<close>

lemma wp_rotate_locked:
  assumes "kept d0 d" "so_fd st = Some fd" "inode_of d current_name = Some fd"
    "int (length (bytes_of d fd)) = so_size st" "so_size st + max_log_trailer_bytes \<le> max_log_segment_bytes"
    "hl_sequence (so_header st) \<le> max_int64"
  shows "wp (rotate_locked en closed)
     (\<lambda>_ d' st'. kept d0 d' \<and> appendable d' st' 4096 \<and> hl_sequence (so_header st') \<le> max_int64)
     (\<lambda>_ d' st'. kept d0 d') d st"
proof -
  have name: "log_name (rotated_name (nat (hl_sequence (so_header st))))"
      "rotated_name (nat (hl_sequence (so_header st))) \<noteq> current_name"
    using log_name_rotated [of "nat (hl_sequence (so_header st))"] assms(6) by (simp_all add: nat_less_iff max_int64_def)
  have close: "wp (close_segment fd line (rotated_name (nat (hl_sequence (so_header st)))))
     (\<lambda>ok d' st'. kept d0 d' \<and> (ok \<longrightarrow> inode_of d' current_name = None) \<and> st' \<in> {st, st\<lparr>so_fd := None\<rparr>})
     (\<lambda>_ _ _. False) d st" if "structured_log_trailer_line (le_nfc en) t = Inr line" for t line
    by (rule wp_close_segment [OF name assms(1,3)])
      (use assms(4,5) stored_line_lengths(3) [OF that] in \<open>simp add: max_log_trailer_bytes_def\<close>)
  show ?thesis
    unfolding rotate_locked_def
    apply (intro wp_andthen wp_get_store wp_list_rotated wp_check wp_lift)
    apply (simp_all add: assms(1,2))
    apply (rule wp_conseq [OF close], assumption)
    apply (auto intro!: wp_andthen wp_check wp_conseq [OF wp_start_segment [of d0]])
    done
qed

lemma wp_require_coherent:
  assumes "\<And>fd. so_fd st0 = Some fd \<Longrightarrow> inode_of d current_name = Some fd \<Longrightarrow> int (length (bytes_of d fd)) = so_size st0 \<Longrightarrow> Q () d st"
    and "\<And>e. E e d st"
  shows "wp (require_coherent st0) Q E d st"
  unfolding require_coherent_def
  apply (intro wp_andthen wp_still [OF still_require_live_directory])
  apply (auto intro!: wp_fail wp_andthen wp_except_os wp_fstat wp_stat wp_ret wp_check assms simp: bytes_of_def split: option.splits)
  done

lemma wp_write_line:
  assumes "kept d0 d" "appendable d st (int (length line))"
  shows "wp (write_line line at)
     (\<lambda>_ d' st'. kept d0 d' \<and> appendable d' st' 0 \<and> so_closed st' = so_closed st \<and> so_header st' = so_header st \<and>
        (\<exists>i. inode_of d' current_name = Some i \<and> suffix line (bytes_of d' i)))
     (\<lambda>_ d' st'. kept d0 d') d st"
proof -
  obtain fd where fd: "so_fd st = Some fd" "inode_of d current_name = Some fd" "int (length (bytes_of d fd)) = so_size st"
      "so_size st + int (length line) + max_log_trailer_bytes \<le> max_log_segment_bytes"
    using assms(2) by (auto simp: appendable_def)
  have written: "kept d0 (append_bytes fd (take k line) d)" for k
    using assms(1) fd extends_trans [OF _ extends_append] bounded_append [of d fd "take k line"]
    by (auto simp: kept_def max_log_trailer_bytes_def)
  have whole: "kept d0 (append_bytes fd line d)" using written [of "length line"] by simp
  show ?thesis
    unfolding write_line_def
    apply (intro wp_andthen wp_get_store wp_except_os wp_write wp_ret wp_check wp_upd_store)
    apply (auto intro!: wp_ret wp_andthen wp_check wp_upd_store simp: written whole assms(1) fd(1) appendable_def)
    using fd apply (simp_all add: suffixI)
    done
qed

lemma wp_append_locked:
  assumes "kept d0 d" "so_size st + max_log_trailer_bytes \<le> max_log_segment_bytes"
    "hl_sequence (so_header st) \<le> max_int64" "int (length line) \<le> 4096"
  shows "wp (append_locked en st line at)
     (\<lambda>_ d' st'. kept d0 d' \<and> appendable d' st' 0 \<and> hl_sequence (so_header st') \<le> max_int64 \<and> (\<exists>i. inode_of d' current_name = Some i \<and> suffix line (bytes_of d' i)))
     (\<lambda>e d' st'. kept d0 d' \<and> (is_logging_error e \<longrightarrow> so_closed st')) d st"
proof -
  have rotation: "wp (if rotation_due st (int (length line)) at then rotate_locked en at else ret ())
      (\<lambda>_ d' st'. kept d0 d' \<and> appendable d' st' (int (length line)) \<and> hl_sequence (so_header st') \<le> max_int64) (\<lambda>_ d' st'. kept d0 d') d st"
    if "so_fd st = Some fd" "inode_of d current_name = Some fd" "int (length (bytes_of d fd)) = so_size st" for fd
  proof (rule wp_if)
    assume "\<not> rotation_due st (int (length line)) at"
    then show "wp (ret ()) (\<lambda>_ d' st'. kept d0 d' \<and> appendable d' st' (int (length line)) \<and> hl_sequence (so_header st') \<le> max_int64) (\<lambda>_ d' st'. kept d0 d') d st"
      using that assms(1,3) by (auto intro!: wp_ret simp: rotation_due_def appendable_def)
  next
    show "wp (rotate_locked en at) (\<lambda>_ d' st'. kept d0 d' \<and> appendable d' st' (int (length line)) \<and> hl_sequence (so_header st') \<le> max_int64) (\<lambda>_ d' st'. kept d0 d') d st"
      by (rule wp_conseq [OF wp_rotate_locked [OF assms(1) that assms(2,3)]]) (use assms(4) in \<open>auto simp: appendable_def\<close>)
  qed
  show ?thesis
    unfolding append_locked_def poisoning_def
    apply (intro wp_except_logging wp_andthen wp_require_coherent)
    apply (rule wp_conseq [OF rotation], assumption+)
    apply (rule wp_conseq [OF wp_write_line [of d0]])
    apply (auto intro!: wp_andthen wp_poison wp_throw simp: assms(1))
    done
qed

section \<open>Under the lock\<close>

text \<open>The log as its readers see it: what each name but the lock's resolves to, and its bytes.\<close>

definition same_log :: "log_disk \<Rightarrow> log_disk \<Rightarrow> bool" where
  "same_log d d' \<longleftrightarrow> (\<forall>n. n \<noteq> lock_name \<longrightarrow> inode_of d' n = inode_of d n) \<and>
     (\<forall>n i. n \<noteq> lock_name \<longrightarrow> inode_of d n = Some i \<longrightarrow> bytes_of d' i = bytes_of d i)"

lemma same_log_refl [simp]: "same_log d d"
  by (simp add: same_log_def)

definition unmoved :: "log_disk \<Rightarrow> log_store \<Rightarrow> log_disk \<Rightarrow> log_store \<Rightarrow> bool" where
  "unmoved d st d' st' \<longleftrightarrow> st' = st \<and> (wf_disk d \<longrightarrow> wf_disk d' \<and> same_log d d' \<and> kept d d')"

lemma unmoved_refl [simp]: "unmoved d st d st"
  by (simp add: unmoved_def kept_def)

lemma unmoved_create: "inode_of d lock_name = None \<Longrightarrow> unmoved d st (snd (do_create lock_name d)) st"
  unfolding unmoved_def
  using wf_create [of d lock_name] extends_create [of d lock_name] bounded_create [of d lock_name]
  by (fastforce simp: kept_def same_log_def wf_disk_def)

lemma wp_open_lock: "wp open_lock (\<lambda>_. unmoved d st) (\<lambda>_. unmoved d st) d st"
  unfolding open_lock_def os_open_creat_def
  apply (intro wp_andthen wp_except_os wp_sys)
  apply (auto simp: do_open_creat_def do_create_def split: option.splits)
  apply (auto intro!: wp_fail wp_except_logging wp_require_private wp_ret wp_andthen wp_close_quietly wp_throw
      unmoved_create [unfolded do_create_def, simplified])
  done

lemma flock_still: "os_flock w = (r, w1) \<Longrightarrow> lw_disk w1 = lw_disk w \<and> lw_store w1 = lw_store w"
  by (auto simp: os_flock_def sys_def Let_def split: if_splits)

lemma poll_lock_still: "poll_lock deadline w = Some y \<Longrightarrow> lw_disk (snd y) = lw_disk w \<and> lw_store (snd y) = lw_store w"
proof (erule poll_lock.raw_induct [rotated])
  fix poll deadline w y
  assume "\<And>deadline w y. poll deadline w = Some y \<Longrightarrow> lw_disk (snd y) = lw_disk w \<and> lw_store (snd y) = lw_store w"
    and "(case os_flock w of (Inl _, w1) \<Rightarrow> (let now = lw_clock w1 (lw_ticks w1); w2 = w1\<lparr>lw_ticks := lw_ticks w1 + 1\<rparr> in
          if deadline \<le> now then Some (False, w2) else poll deadline w2)
      | (Inr _, w1) \<Rightarrow> Some (True, w1)) = Some y"
  then show "lw_disk (snd y) = lw_disk w \<and> lw_store (snd y) = lw_store w"
    by (auto simp: Let_def split: prod.splits sum.splits if_splits dest!: flock_still)
qed

lemma release_still: "lw_disk (snd (release_lock w)) = lw_disk w \<and> lw_store (snd (release_lock w)) = lw_store w"
proof -
  have "wp release_lock (\<lambda>_ d' st'. d' = lw_disk w \<and> st' = lw_store w) (\<lambda>_ d' st'. d' = lw_disk w \<and> st' = lw_store w) (lw_disk w) (lw_store w)"
    unfolding release_lock_def by (auto intro!: wp_andthen wp_except_os wp_plain wp_ret wp_close_quietly)
  then show ?thesis by (cases "release_lock w"; cases "fst (release_lock w)") (force dest: wpD)+
qed

lemma acquire_unmoved:
  assumes "acquire_lock w = Some (r, w1)"
  shows "unmoved (lw_disk w) (lw_store w) (lw_disk w1) (lw_store w1)"
proof -
  have opened: "wp (andthen open_lock (\<lambda>_. read_monotonic)) (\<lambda>_. unmoved (lw_disk w) (lw_store w)) (\<lambda>_. unmoved (lw_disk w) (lw_store w))
      (lw_disk w) (lw_store w)"
    by (rule wp_andthen, rule wp_conseq [OF wp_open_lock]) (auto simp: wp_def read_monotonic_def)
  have closed: "unmoved (lw_disk w) (lw_store w) (lw_disk w3) (lw_store w3)"
    if "andthen close_quietly (\<lambda>_. log_fail ''MH_LOG_LOCK'') w2 = (q, w3)"
      "unmoved (lw_disk w) (lw_store w) (lw_disk w2) (lw_store w2)" for w2 w3 and q :: "unit res"
  proof -
    have "wp (andthen close_quietly (\<lambda>_. log_fail ''MH_LOG_LOCK'')) (\<lambda>_. unmoved (lw_disk w) (lw_store w))
        (\<lambda>_. unmoved (lw_disk w) (lw_store w)) (lw_disk w2) (lw_store w2)"
      using that(2) by (auto intro!: wp_andthen wp_close_quietly wp_fail)
    then show ?thesis using that(1) by (cases q) (auto dest: wpD)
  qed
  show ?thesis
    using assms wpD [OF opened]
    by (auto simp: acquire_lock_def split: prod.splits sum.splits option.splits bool.splits
        dest!: poll_lock_still intro: closed)
qed

lemma locked_cases:
  assumes "locked body w = Some (r, w')"
  obtains (refused) e where "r = Inl e" "unmoved (lw_disk w) (lw_store w) (lw_disk w') (lw_store w')"
  | (ran) w1 w2 where "unmoved (lw_disk w) (lw_store w) (lw_disk w1) (lw_store w1)" "body w1 = (r, w2)"
      "lw_disk w' = lw_disk w2" "lw_store w' = lw_store w2"
  using assms release_still
  by (auto simp: locked_def split: option.splits sum.splits prod.splits dest!: acquire_unmoved)

text \<open>What an object that has appended satisfies, and one that has just been opened on a log that
  only such objects wrote.\<close>

definition store_fits :: "log_store \<Rightarrow> bool" where
  "store_fits st \<longleftrightarrow> so_size st + max_log_trailer_bytes \<le> max_log_segment_bytes \<and> hl_sequence (so_header st) \<le> max_int64"

lemma kept_unmoved: "kept d0 d \<Longrightarrow> wf_disk d \<Longrightarrow> unmoved d st d' st' \<Longrightarrow> kept d0 d'"
  by (auto simp: kept_def unmoved_def intro: extends_trans)

lemma append_outcome:
  assumes "append_event en ev w = Some (r, w')" "wf_disk (lw_disk w)" "store_fits (lw_store w)"
  shows "kept (lw_disk w) (lw_disk w') \<and>
    (case r of
       Inr _ \<Rightarrow> store_fits (lw_store w') \<and> (\<exists>line i. structured_log_event_line (le_nfc en) ev = Inr line \<and>
           inode_of (lw_disk w') current_name = Some i \<and> suffix line (bytes_of (lw_disk w') i))
     | Inl e \<Rightarrow> so_closed (lw_store w') \<or> lw_store w' = lw_store w \<and> same_log (lw_disk w) (lw_disk w') \<or> \<not> is_logging_error e)"
proof -
  let ?st = "lw_store w"
  have start: "andthen require_open (\<lambda>st. andthen (lift_res (structured_log_event_line (le_nfc en) ev)) (\<lambda>line. ret (st, line))) w
      = (if so_closed ?st then (Inl (Logging_Error ''MH_LOG_CLOSED''), w)
         else (case structured_log_event_line (le_nfc en) ev of Inl e \<Rightarrow> (Inl e, w) | Inr line \<Rightarrow> (Inr (?st, line), w)))"
    by (simp add: require_open_def get_store_def prog_defs split: sum.splits)
  show ?thesis
  proof (cases "so_closed ?st \<or> (\<exists>e. structured_log_event_line (le_nfc en) ev = Inl e)")
    case True
    then show ?thesis
      using assms(1) unfolding append_event_def start by (auto simp: kept_def split: if_splits sum.splits)
  next
    case False
    then obtain line where line: "\<not> so_closed ?st" "structured_log_event_line (le_nfc en) ev = Inr line"
      by (cases "structured_log_event_line (le_nfc en) ev") auto
    then have run: "locked (append_locked en ?st line (lv_at ev)) w = Some (r, w')"
      using assms(1) unfolding append_event_def start by simp
    from run show ?thesis
    proof (cases rule: locked_cases)
      case (refused e)
      then show ?thesis using assms(2) by (auto simp: unmoved_def)
    next
      case (ran w1 w2)
      have w1: "lw_store w1 = ?st" "kept (lw_disk w) (lw_disk w1)"
        using ran(1) assms(2) by (auto simp: unmoved_def)
      have fits: "so_size ?st + max_log_trailer_bytes \<le> max_log_segment_bytes" "hl_sequence (so_header ?st) \<le> max_int64"
        using assms(3) by (auto simp: store_fits_def)
      note wp = wp_append_locked [OF w1(2) fits stored_line_lengths(1) [OF line(2)], of en "lv_at ev", folded w1(1)]
      show ?thesis
      proof (cases r)
        case (Inl e)
        then show ?thesis using wpD(2) [OF wp, unfolded w1(1)] ran by auto
      next
        case (Inr u)
        then show ?thesis
          using wpD(1) [OF wp, unfolded w1(1)] ran line(2) w1(1) by (auto simp: store_fits_def appendable_def)
      qed
    qed
  qed
qed

text \<open>C32
  Appending loses nothing. Whatever every system call of an append answers (so also when the process
  dies at any of them), each segment that had a log name still has one afterwards and holds all its
  bytes as a prefix; a successful append leaves the event's whole line at the end of the active
  segment; and an append refused with one of the store's codes has either left the log and the object
  as they were or closed the object, so that nothing can be appended past the damage.
\<close>

theorem append_loses_nothing:
  assumes "append_event en ev w = Some (r, w')" "wf_disk (lw_disk w)" "store_fits (lw_store w)"
  shows "(\<forall>n i. log_name n \<and> inode_of (lw_disk w) n = Some i \<longrightarrow>
      (\<exists>m. log_name m \<and> inode_of (lw_disk w') m = Some i) \<and> prefix (bytes_of (lw_disk w) i) (bytes_of (lw_disk w') i)) \<and>
    (case r of
       Inr _ \<Rightarrow> (\<exists>line i. structured_log_event_line (le_nfc en) ev = Inr line \<and>
           inode_of (lw_disk w') current_name = Some i \<and> suffix line (bytes_of (lw_disk w') i))
     | Inl e \<Rightarrow> so_closed (lw_store w') \<or> lw_store w' = lw_store w \<and> same_log (lw_disk w) (lw_disk w') \<or> \<not> is_logging_error e)"
  using append_outcome [OF assms] assms(2) by (auto simp: kept_def extends_def split: sum.splits)

text \<open>C35
  No segment outgrows its bound: an append keeps every segment of the directory, the one it closes
  with its trailer included, within 8 MiB whatever the calls answer, and after a successful append the
  active segment still has room for its trailer, so the guarantee carries to the next append.
\<close>

theorem log_segments_bounded:
  assumes "append_event en ev w = Some (r, w')" "wf_disk (lw_disk w)" "store_fits (lw_store w)" "bounded (lw_disk w)"
  shows "bounded (lw_disk w') \<and> wf_disk (lw_disk w') \<and> (case r of Inr _ \<Rightarrow> store_fits (lw_store w') | Inl _ \<Rightarrow> True)"
  using append_outcome [OF assms(1-3)] assms(2,4) by (auto simp: kept_def extends_def split: sum.splits)

section \<open>The wait for the lock ends\<close>

lemma flock_clock: "os_flock w = (r, w1) \<Longrightarrow> lw_clock w1 = lw_clock w \<and> lw_ticks w1 = lw_ticks w"
  by (auto simp: os_flock_def sys_def Let_def split: if_splits)

lemma poll_lock_ends:
  assumes "lw_clock w = clk" "0 < step" "\<And>k. clk k + step \<le> clk (k + 1)"
  shows "\<exists>y. poll_lock deadline w = Some y"
  using assms(1)
proof (induction "nat (deadline - clk (lw_ticks w))" arbitrary: w rule: less_induct)
  case less
  obtain r w1 where flock: "os_flock w = (r, w1)" by fastforce
  note w1 = flock_clock [OF flock]
  show ?case
  proof (cases r)
    case (Inr u)
    then have "poll_lock deadline w = Some (True, w1)" using flock by (subst poll_lock.simps) simp
    then show ?thesis by blast
  next
    case (Inl e)
    let ?w2 = "w1\<lparr>lw_ticks := lw_ticks w1 + 1\<rparr>"
    show ?thesis
    proof (cases "deadline \<le> clk (lw_ticks w)")
      case True
      then have "poll_lock deadline w = Some (False, ?w2)"
        using flock Inl w1 less.prems by (subst poll_lock.simps) (simp add: Let_def)
      then show ?thesis by blast
    next
      case False
      have "nat (deadline - clk (lw_ticks ?w2)) < nat (deadline - clk (lw_ticks w))"
        using False assms(2) assms(3) [of "lw_ticks w"] w1 by simp
      then obtain y where "poll_lock deadline ?w2 = Some y" using less.hyps [of ?w2] w1 less.prems by auto
      then have "poll_lock deadline w = Some y"
        using False flock Inl w1 less.prems by (subst poll_lock.simps) (simp add: Let_def)
      then show ?thesis by blast
    qed
  qed
qed

text \<open>With a clock that advances by at least a fixed step between two readings, the wait returns.\<close>

lemma lock_wait_ends:
  assumes "0 < step" "\<And>k. lw_clock w k + step \<le> lw_clock w (k + 1)"
  shows "\<exists>r w'. locked body w = Some (r, w')"
proof -
  have "lw_clock (snd (andthen open_lock (\<lambda>_. read_monotonic) w)) = lw_clock w"
    by (simp add: open_lock_def os_open_creat_def require_private_file_def os_fstat_def close_quietly_def os_close_def
        except_os_def except_logging_def except_any_def log_fail_def read_monotonic_def sys_def prog_defs Let_def
        split: prod.splits sum.splits option.splits if_splits)
  then have clock: "lw_clock w1 = lw_clock w" if "andthen open_lock (\<lambda>_. read_monotonic) w = (q, w1)" for q w1
    using that by (metis snd_conv)
  obtain q w1 where opened: "andthen open_lock (\<lambda>_. read_monotonic) w = (q, w1)" by fastforce
  have "\<exists>y. acquire_lock w = Some y"
  proof (cases q)
    case (Inl e)
    then show ?thesis by (simp add: acquire_lock_def opened)
  next
    case (Inr start)
    obtain b w2 where "poll_lock (start + lock_wait_ns) w1 = Some (b, w2)"
      using poll_lock_ends [OF clock [OF opened] assms] by fastforce
    then show ?thesis by (cases b) (simp_all add: acquire_lock_def opened Inr)
  qed
  then show ?thesis by (auto simp: locked_def split: option.splits sum.splits prod.splits)
qed

section \<open>A run\<close>

definition demo_log_env :: log_env where
  "demo_log_env = \<lparr>le_nfc = id, le_loads = (\<lambda>_. None), le_sha = (\<lambda>_. replicate 64 (CHR ''a'')),
     le_resolve = (\<lambda>_. Some [''state'', ''logs''])\<rparr>"

definition demo_log_node :: "string \<Rightarrow> log_node" where
  "demo_log_node bs = \<lparr>nd_bytes = bs, nd_private = True, nd_links = 1, nd_stamp = 0\<rparr>"

text \<open>A directory with the lock file and one more name, all envelopes as required.\<close>

definition demo_log_disk :: "string \<Rightarrow> string \<Rightarrow> log_disk" where
  "demo_log_disk name bs = \<lparr>dk_names = [(name, 1), (lock_name, 0)], dk_nodes = (\<lambda>i. if i = 1 then demo_log_node bs else demo_log_node []),
     dk_fresh = 2, dk_dirs = (\<lambda>_. Some \<lparr>de_inode = 7, de_owned = True, de_exact = True\<rparr>), dk_held = 7\<rparr>"

definition demo_store :: log_store where
  "demo_store = \<lparr>so_closed = False, so_fd = Some 1, so_header = \<lparr>hl_sequence = 1, hl_opened = 0, hl_retention = 30\<rparr>,
     so_count = 0, so_last = None, so_size = 1, so_hashed = [LF], so_retention = 30,
     so_root = [''state''], so_logs = [''state'', ''logs'']\<rparr>"

definition demo_log_world :: "log_disk \<Rightarrow> log_world" where
  "demo_log_world d = \<lparr>lw_disk = d, lw_store = demo_store, lw_answers = (\<lambda>_. Sys_Ok), lw_calls = 0,
     lw_clock = (\<lambda>k. int k), lw_ticks = 0\<rparr>"

lemmas log_calls = sys_def os_open_def os_stat_def os_open_new_def os_open_creat_def os_fstat_def os_link_def os_unlink_def
  os_rename_def os_ftruncate_def os_scandir_def os_fsync_def os_close_def os_flock_def os_write_def do_lookup_def
  do_open_new_def do_open_creat_def do_create_def do_fstat_def do_link_def do_unlink_def do_rename_def do_truncate_def

lemmas log_programs = prog_defs handle_def except_os_def except_logging_def except_any_def close_quietly_def closing_def log_fail_def
  open_dir_component_def dir_chain_def open_logs_dir_def require_live_directory_def require_private_file_def
  examine_active_envelope_def read_monotonic_def open_lock_def release_lock_def upd_store_def get_store_def

lemma demo_wf: "name \<noteq> lock_name \<Longrightarrow> wf_disk (demo_log_disk name bs)"
proof -
  assume n: "name \<noteq> lock_name"
  have "names_of (demo_log_disk name bs) i \<subseteq> (if i = 1 then {name} else if i = 0 then {lock_name} else {})" for i
    by (auto simp: names_of_def inode_of_def demo_log_disk_def split: if_splits)
  then have "card (names_of (demo_log_disk name bs) i) \<le> 1" for i
    by (rule order.trans [OF card_mono, rotated]) (auto split: if_splits)
  then show ?thesis
    using n by (auto simp: wf_disk_def demo_log_node_def demo_log_disk_def inode_of_def split: if_splits)
qed

lemma demo_parts [simp]:
  "le_nfc demo_log_env = id" "le_resolve demo_log_env p = Some [''state'', ''logs'']" "lv_at demo_event = 1000"
  "lw_disk (demo_log_world d) = d" "lw_store (demo_log_world d) = demo_store" "lw_answers (demo_log_world d) = (\<lambda>_. Sys_Ok)"
  "lw_calls (demo_log_world d) = 0" "lw_clock (demo_log_world d) = int" "lw_ticks (demo_log_world d) = 0"
  "so_closed demo_store = False" "so_fd demo_store = Some 1" "so_size demo_store = 1" "so_root demo_store = [''state'']"
  "so_logs demo_store = [''state'', ''logs'']" "dk_dirs (demo_log_disk name bs) = (\<lambda>_. Some \<lparr>de_inode = 7, de_owned = True, de_exact = True\<rparr>)"
  "dk_held (demo_log_disk name bs) = 7"
  by (auto simp: demo_log_env_def demo_event_def demo_log_world_def demo_store_def demo_log_disk_def)

lemma demo_nodes [simp]:
  "name \<noteq> lock_name \<Longrightarrow> inode_of (demo_log_disk name bs) n = (if n = name then Some 1 else if n = lock_name then Some 0 else None)"
  "dk_nodes (demo_log_disk name bs) i = (if i = 1 then demo_log_node bs else demo_log_node [])"
  by (simp_all add: demo_log_disk_def inode_of_def)

lemma demo_acquire:
  "lw_disk w = demo_log_disk name bs \<Longrightarrow> name \<noteq> lock_name \<Longrightarrow> lw_answers w = (\<lambda>_. Sys_Ok) \<Longrightarrow>
     acquire_lock w = Some (Inr (), w\<lparr>lw_calls := lw_calls w + 3, lw_ticks := lw_ticks w + 1\<rparr>)"
  by (simp add: acquire_lock_def poll_lock.simps log_programs log_calls Let_def demo_log_node_def)

lemma demo_dirs:
  "lw_answers w = (\<lambda>_. Sys_Ok) \<Longrightarrow> dk_dirs (lw_disk w) = (\<lambda>_. Some \<lparr>de_inode = 7, de_owned = True, de_exact = True\<rparr>) \<Longrightarrow>
     open_logs_dir [''state''] [''state'', ''logs''] w = (Inr 7, w\<lparr>lw_calls := lw_calls w + 2\<rparr>)"
  "lw_answers w = (\<lambda>_. Sys_Ok) \<Longrightarrow> dk_dirs (lw_disk w) = (\<lambda>_. Some \<lparr>de_inode = 7, de_owned = True, de_exact = True\<rparr>) \<Longrightarrow>
     dk_held (lw_disk w) = 7 \<Longrightarrow> require_live_directory [''state''] [''state'', ''logs''] code w = (Inr (), w\<lparr>lw_calls := lw_calls w + 5\<rparr>)"
  by (simp_all add: log_programs log_calls Let_def)

lemma demo_append: "\<exists>w'. append_event demo_log_env demo_event (demo_log_world (demo_log_disk current_name [LF])) = Some (Inr (), w')"
proof -
  have "length demo_event_line \<le> 4096"
    using stored_line_lengths(1) [OF demo_event_stored] by simp
  then have due: "\<not> rotation_due demo_store (int (length demo_event_line)) 1000"
    by (simp add: rotation_due_def demo_store_def max_log_segment_bytes_def max_log_trailer_bytes_def us_per_day_def)
  have "append_event demo_log_env demo_event (demo_log_world (demo_log_disk current_name [LF]))
      = locked (append_locked demo_log_env demo_store demo_event_line 1000) (demo_log_world (demo_log_disk current_name [LF]))"
    by (simp add: append_event_def require_open_def demo_event_stored prog_defs get_store_def)
  then show ?thesis
    using due
    by (simp add: locked_def demo_acquire append_locked_def poisoning_def require_coherent_def write_line_def demo_log_node_def
        demo_dirs prog_defs handle_def except_os_def except_logging_def get_store_def upd_store_def log_calls Let_def)
qed

lemma demo_fits: "store_fits (lw_store (demo_log_world d))" "bounded (demo_log_disk current_name [LF])"
  by (auto simp: store_fits_def demo_store_def max_log_trailer_bytes_def max_log_segment_bytes_def max_int64_def bounded_def
      bytes_of_def demo_log_node_def split: if_splits)

theorem append_loses_nothing_witness:
  "\<exists>w' i. append_event demo_log_env demo_event (demo_log_world (demo_log_disk current_name [LF])) = Some (Inr (), w') \<and>
     inode_of (lw_disk w') current_name = Some i \<and> suffix demo_event_line (bytes_of (lw_disk w') i) \<and>
     (\<exists>m. log_name m \<and> inode_of (lw_disk w') m = Some 1) \<and> prefix [LF] (bytes_of (lw_disk w') 1)"
proof -
  obtain w' where run: "append_event demo_log_env demo_event (demo_log_world (demo_log_disk current_name [LF])) = Some (Inr (), w')"
    using demo_append by blast
  have "wf_disk (lw_disk (demo_log_world (demo_log_disk current_name [LF])))" using demo_wf by simp
  note lost = append_loses_nothing [OF run this demo_fits(1)]
  have "(\<exists>m. log_name m \<and> inode_of (lw_disk w') m = Some 1) \<and> prefix [LF] (bytes_of (lw_disk w') 1)"
    using spec [OF spec [OF conjunct1 [OF lost], of current_name], of 1] by (simp add: bytes_of_def demo_log_node_def)
  moreover have "\<exists>i. inode_of (lw_disk w') current_name = Some i \<and> suffix demo_event_line (bytes_of (lw_disk w') i)"
    using conjunct2 [OF lost] by (auto simp: demo_event_stored)
  ultimately show ?thesis using run by blast
qed

theorem log_segments_bounded_witness:
  "\<exists>w'. append_event demo_log_env demo_event (demo_log_world (demo_log_disk current_name [LF])) = Some (Inr (), w') \<and>
     bounded (lw_disk w') \<and> wf_disk (lw_disk w') \<and> store_fits (lw_store w')"
proof -
  obtain w' where run: "append_event demo_log_env demo_event (demo_log_world (demo_log_disk current_name [LF])) = Some (Inr (), w')"
    using demo_append by blast
  have "wf_disk (lw_disk (demo_log_world (demo_log_disk current_name [LF])))" using demo_wf by simp
  from log_segments_bounded [OF run this demo_fits(1)] show ?thesis using run demo_fits(2) by simp
qed

end
