(* ===== verification/Log_Closed.thy ===== *)
theory Log_Closed
  imports Log_Safety
begin

text \<open>
  What the store writes it reads back: the header of a published segment, and the whole text of a
  closed one, header, event lines and trailer, as retention parses it.
\<close>

section \<open>Instants, headers and trailers\<close>

definition normal_instant :: "int \<Rightarrow> bool" where
  "normal_instant us \<longleftrightarrow> valid_instant us \<and> us div 1000 * 1000 = us"

lemma normal_rules:
  "normalized_utc us code = Inr t \<Longrightarrow> normal_instant t"
  "normal_instant t \<Longrightarrow> normalized_utc t code = Inr t"
  "normal_instant t \<Longrightarrow> parse_log_timestamp (P_Str (stamp_of t)) code = Inr t"
proof -
  show "normal_instant t" if n: "normalized_utc us code = Inr t"
  proof -
    have "truncate_to_milliseconds (utc us) = Inr t" using n by (auto simp: normalized_utc_def split: sum.splits)
    then show ?thesis by (auto simp: truncate_Inr utc_def normal_instant_def truncated_valid)
  qed
qed (simp_all add: normal_instant_def normalized_utc_def truncate_utc parse_log_timestamp_def parse_stamp_of)

lemma header_normal:
  "log_header_init sequence opened retention = Inr h \<Longrightarrow>
     normal_instant (hl_opened h) \<and> log_header_init (hl_sequence h) (hl_opened h) (hl_retention h) = Inr h"
  by (auto simp: log_header_init_def bind_res_eq_Inr normal_rules)

lemma trailer_normal:
  assumes "log_trailer_init sequence closed last_event events digest expires = Inr t"
  shows "normal_instant (tl_closed t)" "normal_instant (tl_expires t)" "tl_last t = Some us \<Longrightarrow> normal_instant us"
    "log_trailer_init (tl_sequence t) (tl_closed t) (tl_last t) (tl_count t) (tl_sha t) (tl_expires t) = Inr t"
    "tl_sequence t = sequence" "tl_count t = events" "tl_sha t = digest" "normalized_utc expires ''MH_LOG_TRAILER_TIME'' = Inr (tl_expires t)"
  using assms
  by (auto simp: log_trailer_init_def bind_res_eq_Inr normal_rules split: if_splits option.splits)

text \<open>What \<^verbatim>\<open>json.loads\<close> makes of the two lines.\<close>

definition header_image :: "log_header \<Rightarrow> py_value" where
  "header_image h = P_Dict
     [(''line'', P_Str ''header''),
      (''opened_at'', P_Str (stamp_of (hl_opened h))),
      (''retention_days'', P_Int (hl_retention h)),
      (''schema'', P_Int 1),
      (''scope'', P_Str ''installation''),
      (''sequence'', P_Int (hl_sequence h))]"

definition trailer_image :: "log_trailer \<Rightarrow> py_value" where
  "trailer_image t = P_Dict
     [(''closed_at'', P_Str (stamp_of (tl_closed t))),
      (''content_sha256'', P_Str (tl_sha t)),
      (''event_count'', P_Int (tl_count t)),
      (''expires_at'', P_Str (stamp_of (tl_expires t))),
      (''last_event_at'', (case tl_last t of None \<Rightarrow> P_None | Some us \<Rightarrow> P_Str (stamp_of us))),
      (''line'', P_Str ''trailer''),
      (''schema'', P_Int 1),
      (''sequence'', P_Int (tl_sequence t))]"

lemma header_read_back:
  assumes "log_header_init sequence opened retention = Inr h" "structured_log_header_line (le_nfc en) h = Inr line"
    "le_loads en line = Some (header_image h)"
  shows "parse_log_header en line = Inr h"
proof -
  note h = header_normal [OF assms(1)]
  have "int (length line) \<le> max_log_header_bytes"
    using stored_line_lengths(2) [OF assms(2)] by (simp add: max_log_header_bytes_def)
  then show ?thesis
    using assms(2,3) h normal_rules(3) [of "hl_opened h"]
    by (simp add: parse_log_header_def parse_line_object_def header_image_def log_header_keys_def field_def equals_one_def
        is_int_def int_of_def check_res_def)
qed

lemma bounded_expiry_normal:
  assumes "bounded_expiry opened days = Inr d" "normal_instant opened"
  shows "normal_instant d"
proof -
  have "d = opened + 86400 * days * 1000000" "valid_instant d"
    using assms(1) by (auto simp: bounded_expiry_def bind_res_eq_Inr add_seconds_Inr split: sum.splits)
  moreover have "(opened + 86400 * days * 1000000) div 1000 * 1000 = opened div 1000 * 1000 + 86400 * days * 1000000"
  proof -
    have "opened + 86400 * days * 1000000 = opened + (86400000 * days) * 1000" by simp
    then show ?thesis by (simp only: div_mult_self1) (simp add: algebra_simps)
  qed
  ultimately show ?thesis using assms(2) by (simp add: normal_instant_def)
qed

lemma trailer_read_back:
  assumes "normal_instant (hl_opened h)" "structured_log_header_line (le_nfc en) h = Inr header_line"
    and events: "map_res (validate_event_line en) event_lines = Inr ats"
    and expires: "bounded_expiry (hl_opened h) (hl_retention h) = Inr expires"
    and init: "log_trailer_init sequence closed last_event (int (length event_lines))
      (structured_log_content_sha256 (le_sha en) header_line event_lines) expires = Inr t"
    and line: "structured_log_trailer_line (le_nfc en) t = Inr line" "le_loads en line = Some (trailer_image t)"
  shows "parse_log_trailer en line h event_lines = Inr t"
proof -
  note t = trailer_normal [OF init]
  have size: "int (length line) \<le> max_log_trailer_bytes"
    using stored_line_lengths(3) [OF line(1)] by (simp add: max_log_trailer_bytes_def)
  have same: "tl_expires t = expires"
    using t(8) normal_rules(2) [OF bounded_expiry_normal [OF expires assms(1)], of "''MH_LOG_TRAILER_TIME''"] by simp
  obtain obj where obj: "trailer_image t = P_Dict obj" "set (map fst obj) = set log_trailer_keys"
      "field obj ''line'' = P_Str ''trailer''" "field obj ''schema'' = P_Int 1" "field obj ''sequence'' = P_Int (tl_sequence t)"
      "field obj ''event_count'' = P_Int (tl_count t)" "field obj ''closed_at'' = P_Str (stamp_of (tl_closed t))"
      "field obj ''expires_at'' = P_Str (stamp_of (tl_expires t))" "field obj ''content_sha256'' = P_Str (tl_sha t)"
      "field obj ''last_event_at'' = (case tl_last t of None \<Rightarrow> P_None | Some us \<Rightarrow> P_Str (stamp_of us))"
    by (simp add: trailer_image_def log_trailer_keys_def field_def insert_commute)
  show ?thesis
    using size line obj(2) t(4) same expires t(3)
    by (cases "tl_last t")
      (simp_all add: parse_log_trailer_def parse_line_object_def obj(1,3-10) equals_one_def is_int_def int_of_def text_of_def check_res_def
        events assms(2) normal_rules(3) normal_rules(3) [OF t(1)] normal_rules(3) [OF t(2) [unfolded same]] t(6,7) Let_def)
qed

lemma closed_text_parsed:
  assumes "log_header_init (int sequence) opened retention = Inr h" "structured_log_header_line (le_nfc en) h = Inr header_line"
    "map_res (validate_event_line en) event_lines = Inr ats" "list_all (is_line 4096) event_lines"
    "bounded_expiry (hl_opened h) (hl_retention h) = Inr expires"
    "log_trailer_init (hl_sequence h) closed last_event (int (length event_lines))
       (structured_log_content_sha256 (le_sha en) header_line event_lines) expires = Inr t"
    "structured_log_trailer_line (le_nfc en) t = Inr trailer_line"
    "le_loads en header_line = Some (header_image h)" "le_loads en trailer_line = Some (trailer_image t)"
  shows "parse_closed en sequence (header_line @ concat event_lines @ trailer_line) = Inr (h, t)"
proof -
  let ?ls = "header_line # event_lines @ [trailer_line]"
  have lines: "list_all (is_line 4096) ?ls" using stored_lines(1) [OF assms(2)] stored_lines(2) [OF assms(7)] assms(4) by simp
  then have parts: "butlast (split_on_lf (header_line @ concat event_lines @ trailer_line)) = map butlast ?ls"
    using split_on_lf_lines [OF lines] by (simp add: butlast_append)
  have whole: "butlast l @ [LF] = l \<and> butlast l \<noteq> []" if "l \<in> set ?ls" for l
    using lines that by (fastforce simp: list_all_iff is_line_def)
  have events: "map ((\<lambda>p. p @ [LF]) \<circ> butlast) event_lines = event_lines"
    using whole by (simp add: map_idI)
  have ends: "last (header_line @ concat event_lines @ trailer_line) = LF" "header_line @ concat event_lines @ trailer_line \<noteq> []"
    using stored_lines(2) [OF assms(7)] by (auto simp: is_line_def)
  note t = trailer_normal [OF assms(6)]
  note h = header_normal [OF assms(1)] log_header_init_Inr [OF assms(1)]
  have header: "parse_log_header en header_line = Inr h" by (rule header_read_back [OF assms(1,2,8)])
  have trailer: "parse_log_trailer en trailer_line h event_lines = Inr t"
    by (rule trailer_read_back [OF _ assms(2,3,5,6,7,9)]) (use h in simp)
  have filled: "[] \<notin> butlast ` set event_lines"
    using whole by (metis (no_types, lifting) imageE list.set_intros(2) set_append UnI1)
  have pieces: "2 \<le> length (map butlast ?ls)" "[] \<notin> set (map butlast ?ls)" "hd (map butlast ?ls) @ [LF] = header_line"
      "last (map butlast ?ls) @ [LF] = trailer_line" "map (\<lambda>p. p @ [LF]) (butlast (tl (map butlast ?ls))) = event_lines"
    subgoal by simp
    subgoal using filled whole [of header_line] whole [of trailer_line] by (auto dest: sym [of "[]"])
    subgoal using whole [of header_line] by simp
    subgoal using whole [of trailer_line] by simp
    subgoal using events by (simp add: butlast_append)
    done
  show ?thesis
    unfolding parse_closed_def parts pieces Let_def
    using ends pieces(1,2) header trailer t(5) h by (simp add: check_res_def del: list.map map_append)
qed


section \<open>A closed segment\<close>

definition demo_log_header :: log_header where
  "demo_log_header = \<lparr>hl_sequence = 1, hl_opened = 0, hl_retention = 30\<rparr>"

definition demo_log_trailer :: log_trailer where
  "demo_log_trailer = \<lparr>tl_sequence = 1, tl_closed = 0, tl_last = None, tl_count = 0, tl_sha = replicate 64 (CHR ''a''),
     tl_expires = 2592000000000\<rparr>"

lemma demo_log_stamps: "format_timestamp (utc 0) = Inr ''0001-01-01T00:00:00.000Z''"
    "format_timestamp (utc 2592000000000) = Inr ''0001-01-31T00:00:00.000Z''"
  by (simp_all add: format_timestamp_utc valid_instant_def datetime_limit_def us_per_day_def stamp_eval
      days_before_year_def month_lengths_def pad_dec_eval Let_def)

lemma demo_quoted_stamps: "quote_string id ''0001-01-01T00:00:00.000Z'' = Inr (json_quote ''0001-01-01T00:00:00.000Z'')"
    "quote_string id ''0001-01-31T00:00:00.000Z'' = Inr (json_quote ''0001-01-31T00:00:00.000Z'')"
  by code_simp+

lemma demo_encode_stamps:
  "encode_value id mn d (P_Datetime (utc 0)) = encode_value id mn d (P_Str ''0001-01-01T00:00:00.000Z'')"
  "encode_value id mn d (P_Datetime (utc 2592000000000)) = encode_value id mn d (P_Str ''0001-01-31T00:00:00.000Z'')"
  by (cases d; simp add: encode_scalar_def demo_log_stamps demo_quoted_stamps)+

definition demo_log_header_pairs :: "(string \<times> py_value \<times> py_value) list" where
  "demo_log_header_pairs = [(''line'', P_Str ''header'', P_Str ''header''),
     (''opened_at'', P_Datetime (utc 0), P_Str ''0001-01-01T00:00:00.000Z''),
     (''retention_days'', P_Int 30, P_Int 30), (''schema'', P_Int 1, P_Int 1),
     (''scope'', P_Str ''installation'', P_Str ''installation''), (''sequence'', P_Int 1, P_Int 1)]"

definition demo_log_trailer_pairs :: "(string \<times> py_value \<times> py_value) list" where
  "demo_log_trailer_pairs = [(''closed_at'', P_Datetime (utc 0), P_Str ''0001-01-01T00:00:00.000Z''),
     (''content_sha256'', P_Str (replicate 64 (CHR ''a'')), P_Str (replicate 64 (CHR ''a''))),
     (''event_count'', P_Int 0, P_Int 0),
     (''expires_at'', P_Datetime (utc 2592000000000), P_Str ''0001-01-31T00:00:00.000Z''),
     (''last_event_at'', P_None, P_None), (''line'', P_Str ''trailer'', P_Str ''trailer''),
     (''schema'', P_Int 1, P_Int 1), (''sequence'', P_Int 1, P_Int 1)]"

definition demo_log_header_line :: string where
  "demo_log_header_line = projr (canonical_line id max_log_header_bytes (P_Dict (map (apsnd snd) demo_log_header_pairs)))"

definition demo_log_trailer_line :: string where
  "demo_log_trailer_line = projr (canonical_line id max_log_trailer_bytes (P_Dict (map (apsnd snd) demo_log_trailer_pairs)))"

lemma demo_segment_canonical:
  "canonical_line id max_log_header_bytes (P_Dict (map (apsnd snd) demo_log_header_pairs)) = Inr demo_log_header_line"
  "canonical_line id max_log_trailer_bytes (P_Dict (map (apsnd snd) demo_log_trailer_pairs)) = Inr demo_log_trailer_line"
  "demo_log_trailer_line \<noteq> demo_log_header_line" "is_sha256_hex (replicate 64 (CHR ''a''))" "authorize_local_log = Inr ()"
  by code_simp+

lemma demo_segment_stored:
  "structured_log_header_line id demo_log_header = Inr demo_log_header_line"
  "structured_log_trailer_line id demo_log_trailer = Inr demo_log_trailer_line"
proof -
  have swap: "encode_value id mn d (P_Dict (map (apsnd fst) ps)) = encode_value id mn d (P_Dict (map (apsnd snd) ps))"
    if "ps = demo_log_header_pairs \<or> ps = demo_log_trailer_pairs" for ps mn d
    by (rule encode_dict_map) (use that in \<open>auto simp: demo_log_header_pairs_def demo_log_trailer_pairs_def demo_encode_stamps\<close>)
  have "log_header_payload demo_log_header = P_Dict (map (apsnd fst) demo_log_header_pairs)"
      "log_trailer_payload demo_log_trailer = P_Dict (map (apsnd fst) demo_log_trailer_pairs)"
    by (simp_all add: log_header_payload_def log_trailer_payload_def demo_log_header_def demo_log_trailer_def demo_log_header_pairs_def demo_log_trailer_pairs_def)
  then show "structured_log_header_line id demo_log_header = Inr demo_log_header_line"
      "structured_log_trailer_line id demo_log_trailer = Inr demo_log_trailer_line"
    using canonical_line_cong [OF swap [of demo_log_header_pairs]] canonical_line_cong [OF swap [of demo_log_trailer_pairs]]
    by (simp_all add: structured_log_header_line_def structured_log_trailer_line_def demo_segment_canonical)
qed

definition demo_closed_env :: log_env where
  "demo_closed_env = demo_log_env\<lparr>le_loads := (\<lambda>l. if l = demo_log_header_line then Some (header_image demo_log_header)
     else if l = demo_log_trailer_line then Some (trailer_image demo_log_trailer) else None)\<rparr>"

lemma demo_log_instants: "valid_instant 0" "valid_instant 2592000000000"
  by (simp_all add: valid_instant_def datetime_limit_def us_per_day_def)

lemma demo_inits:
  "log_header_init (int 1) 0 30 = Inr demo_log_header" "bounded_expiry (hl_opened demo_log_header) (hl_retention demo_log_header) = Inr 2592000000000"
  "log_trailer_init (hl_sequence demo_log_header) 0 None (int (length [])) (structured_log_content_sha256 (le_sha demo_closed_env) demo_log_header_line []) 2592000000000 = Inr demo_log_trailer"
  by (simp_all add: log_header_init_def log_trailer_init_def validate_log_sequence_def check_res_def normalized_utc_def truncate_utc
      demo_log_instants demo_log_header_def demo_log_trailer_def max_int64_def max_log_retention_days_def bounded_expiry_def add_seconds_Inr
      structured_log_content_sha256_def demo_closed_env_def demo_log_env_def demo_segment_canonical add_seconds_def demo_log_stamps bind_res_def datetime_limit_def us_per_day_def)

lemma demo_parsed: "parse_closed demo_closed_env 1 (demo_log_header_line @ demo_log_trailer_line) = Inr (demo_log_header, demo_log_trailer)"
  using closed_text_parsed [OF demo_inits(1) _ _ _ demo_inits(2,3), where trailer_line = demo_log_trailer_line and ats = "[]"]
  by (simp add: demo_closed_env_def demo_segment_stored demo_segment_canonical demo_log_env_def)


end
