(* ===== verification/Log_Repair.thy ===== *)
theory Log_Repair
  imports Log_Closed
begin

text \<open>
  What recovery and retention of the structured log keep, whatever their system calls answer: recovery
  cuts at most the torn tail of a segment and loses none; retention removes a rotation only when its
  own bytes prove it expired; and a staging file torn beyond the fixed opening of a header is refused
  by every recovery.
\<close>

section \<open>Torn tails\<close>

definition complete_part :: "string \<Rightarrow> string" where
  "complete_part bs = take (length bs - length (torn_tail bs)) bs"

lemma torn_tail_none: "torn_tail bs = [] \<longleftrightarrow> bs = [] \<or> last bs = LF"
proof (cases bs rule: rev_cases)
  case (snoc xs x)
  then show ?thesis by (simp add: torn_tail_def)
qed (simp add: torn_tail_def)

lemma torn_complete [simp]: "torn_tail (complete_part bs) = []"
proof -
  let ?t = "takeWhile (\<lambda>c. c \<noteq> LF) (rev bs)" let ?r = "dropWhile (\<lambda>c. c \<noteq> LF) (rev bs)"
  have "complete_part bs = rev ?r"
    using torn_split [of bs] takeWhile_dropWhile_id [of "\<lambda>c. c \<noteq> LF" "rev bs"]
    unfolding complete_part_def torn_tail_def
    by (metis append_eq_append_conv length_rev rev_append rev_rev_ident same_append_eq append_same_eq)
  moreover have "?r \<noteq> [] \<Longrightarrow> hd ?r = LF" using hd_dropWhile [of "\<lambda>c. c \<noteq> LF" "rev bs"] by simp
  ultimately show ?thesis by (cases ?r) (auto simp: torn_tail_none last_rev)
qed

lemma complete_idem [simp]: "complete_part (complete_part bs) = complete_part bs"
  by (subst complete_part_def) simp

lemma split_active_torn:
  "split_active code content = Inr (hl, body, torn) \<Longrightarrow> torn = (if torn_tail content = [] then None else Some (torn_tail content))"
  by (auto simp: split_active_def Let_def split: if_splits)

section \<open>Recovery\<close>

definition salvages :: "log_disk \<Rightarrow> log_disk \<Rightarrow> bool" where
  "salvages d d' \<longleftrightarrow> (wf_disk d \<longrightarrow> wf_disk d' \<and> (\<forall>n i. log_name n \<longrightarrow> inode_of d n = Some i \<longrightarrow>
     (\<exists>m. log_name m \<and> inode_of d' m = Some i) \<and> bytes_of d' i \<in> {bytes_of d i, complete_part (bytes_of d i)}))"

lemma salvages_refl [simp]: "salvages d d"
  by (auto simp: salvages_def)

lemma salvages_trans: "salvages a b \<Longrightarrow> salvages b c \<Longrightarrow> salvages a c"
  unfolding salvages_def by (metis complete_idem insert_iff singletonD)

lemma salvages_names:
  assumes "wf_disk d \<Longrightarrow> wf_disk e" "\<And>j. bytes_of e j = bytes_of d j"
    "\<And>n i. log_name n \<Longrightarrow> inode_of d n = Some i \<Longrightarrow> \<exists>m. log_name m \<and> inode_of e m = Some i"
  shows "salvages d e"
  using assms by (auto simp: salvages_def)

interpretation salvaged: rotating "salvages d0" for d0
proof unfold_locales
  fix d e rotated i
  assume g: "salvages d0 d" and n: "log_name rotated" "rotated \<noteq> current_name"
  show "salvages d0 e" if "inode_of d current_name = Some i" "inode_of d rotated = None" "do_link current_name rotated d = (Inr (), e)"
  proof (rule salvages_trans [OF g salvages_names])
    show "wf_disk d \<Longrightarrow> wf_disk e" by (rule wf_link [OF _ that(3,1,2)])
    show "\<exists>m. log_name m \<and> inode_of e m = Some j" if "log_name m" "inode_of d m = Some j" for m j
      using after_link(1) [OF \<open>do_link current_name rotated d = (Inr (), e)\<close> \<open>inode_of d current_name = Some i\<close> \<open>inode_of d rotated = None\<close>]
        that \<open>inode_of d rotated = None\<close> by (intro exI [of _ m]) auto
  qed (use after_link [OF that(3,1,2)] in simp)
  show "salvages d0 e" if "inode_of d rotated = inode_of d current_name" "do_unlink current_name d = (Inr (), e)"
  proof (rule salvages_trans [OF g salvages_names])
    show "wf_disk d \<Longrightarrow> wf_disk e" by (rule wf_unlink [OF _ that(2)])
    show "\<exists>m. log_name m \<and> inode_of e m = Some j" if "log_name m" "inode_of d m = Some j" for m j
      using after_unlink [OF \<open>do_unlink current_name d = (Inr (), e)\<close>] that n \<open>inode_of d rotated = inode_of d current_name\<close> by metis
  qed (use after_unlink [OF that(2)] in simp)
qed

lemma wp_case_prod [wp_rules]: "(\<And>a b. p = (a, b) \<Longrightarrow> wp (f a b) Q E d st) \<Longrightarrow> wp (case p of (a, b) \<Rightarrow> f a b) Q E d st"
  by (cases p) simp

lemma wp_twin_of:
  assumes "inode_of d name = Some fd \<Longrightarrow> Q True d st" "Q False d st"
  shows "wp (twin_of fd name) Q E d st"
proof -
  have "Q (i = fd) d st" if "inode_of d name = Some i" for i using that assms by (cases "i = fd") auto
  then show ?thesis
    unfolding twin_of_def using assms(2) by (auto intro!: wp_except_os wp_andthen wp_stat wp_ret)
qed

text \<open>Completing a rotation, for any property the protocol keeps.\<close>

context rotating begin

lemma wp_complete_rotation:
  assumes "G d" "inode_of d current_name = Some fd" "n < 10 ^ 20"
  shows "wp (complete_rotation n fd info) (\<lambda>_ d' st'. G d' \<and> inode_of d' current_name = None \<and> st' = st \<and>
       (\<forall>j. bytes_of d' j = bytes_of d j) \<and> inode_of d' staging_name = inode_of d staging_name)
     (\<lambda>e d' st'. is_logging_error e \<and> G d' \<and> st' = st \<and> (\<forall>j. bytes_of d' j = bytes_of d j)) d st"
proof -
  let ?r = "rotated_name n"
  have r: "log_name ?r" "?r \<noteq> current_name" using log_name_rotated [OF assms(3)] by auto
  have s: "?r \<noteq> staging_name" using r(1) log_names(2) by metis
  have made: "G e \<and> inode_of e ?r = Some fd \<and> inode_of e current_name = Some fd \<and> (\<forall>j. bytes_of e j = bytes_of d j) \<and>
      inode_of e staging_name = inode_of d staging_name"
    if "do_link current_name ?r d = (Inr (), e)" "inode_of d ?r = None" for e
    using linked [OF assms(1) r assms(2) that(2,1)] after_link [OF that(1) assms(2) that(2)] r s assms(2) by auto
  have moved: "wp (andthen os_fsync (\<lambda>_. andthen (os_unlink current_name) (\<lambda>_. andthen os_fsync (\<lambda>_. ret True))))
      (\<lambda>ok d' st'. G d' \<and> (ok \<longrightarrow> inode_of d' current_name = None) \<and> st' = st \<and> (\<forall>j. bytes_of d' j = bytes_of d j) \<and>
         inode_of d' staging_name = inode_of d staging_name)
      (\<lambda>e d' st'. is_os_error e \<and> G d' \<and> st' = st \<and> (\<forall>j. bytes_of d' j = bytes_of d j) \<and>
         inode_of d' staging_name = inode_of d staging_name) e st"
    if "G e" "inode_of e ?r = inode_of e current_name" "\<forall>j. bytes_of e j = bytes_of d j"
      "inode_of e staging_name = inode_of d staging_name" for e
    using that unlinked [OF that(1) r that(2)]
    by (auto intro!: wp_andthen wp_plain wp_unlink wp_ret simp: after_unlink)
  have matched: "wp (if nd_links info = 2 then andthen (twin_of fd ?r) (\<lambda>matched. ret (\<not> matched))
          else handle (andthen (os_link current_name ?r) (\<lambda>_. ret False))
            (\<lambda>e. if e = Os_Error Exists_Error then Some (ret True) else None))
      (\<lambda>blocked e st'. G e \<and> (\<not> blocked \<longrightarrow> inode_of e ?r = inode_of e current_name) \<and> st' = st \<and>
         (\<forall>j. bytes_of e j = bytes_of d j) \<and> inode_of e staging_name = inode_of d staging_name)
      (\<lambda>e d' st'. is_os_error e \<and> d' = d \<and> st' = st) d st"
    using made assms(1,2) by (auto intro!: wp_andthen wp_twin_of wp_handle wp_link wp_ret)
  show ?thesis
    unfolding complete_rotation_def Let_def
    apply (rule wp_andthen, rule wp_except_os, rule wp_andthen, rule wp_conseq [OF matched])
     apply (rule wp_if)
      apply (auto intro!: wp_ret wp_check simp: assms(1))[1]
     apply (clarify, rule wp_conseq [OF moved])
          apply (auto intro!: wp_ret wp_check simp: assms(1))
    done
qed

end

text \<open>Cutting the torn tail.\<close>

lemma salvages_cut:
  "salvages d (set_node fd (\<lambda>x. x\<lparr>nd_bytes := take (length (bytes_of d fd) - length (torn_tail (bytes_of d fd))) (nd_bytes x)\<rparr>) d)"
  unfolding salvages_def using wf_truncate [of d fd "\<lambda>x. take (length (bytes_of d fd) - length (torn_tail (bytes_of d fd))) (nd_bytes x)"]
  by (auto simp: complete_part_def) (auto simp: bytes_of_def)

lemma wp_truncate_torn:
  assumes "split_active code (bytes_of d fd) = Inr (hl, body, torn)"
    and "\<And>d Q E. Q () d st \<Longrightarrow> E (Os_Error Call_Failed) d st \<Longrightarrow> wp sync Q E d st"
  shows "wp (truncate_torn fd (bytes_of d fd) torn sync)
     (\<lambda>n d' st'. salvages d d' \<and> n = length (torn_tail (bytes_of d fd)) \<and> bytes_of d' fd = complete_part (bytes_of d fd) \<and>
        (\<forall>m. inode_of d' m = inode_of d m) \<and> st' = st)
     (\<lambda>e d' st'. is_os_error e \<and> salvages d d' \<and> st' = st) d st"
proof -
  let ?t = "torn_tail (bytes_of d fd)"
  let ?c = "set_node fd (\<lambda>x. x\<lparr>nd_bytes := take (length (bytes_of d fd) - length ?t) (nd_bytes x)\<rparr>) d"
  have cut: "salvages d ?c" "bytes_of ?c fd = complete_part (bytes_of d fd)"
    using salvages_cut by (simp_all add: complete_part_def) (simp add: bytes_of_def)
  have "torn = (if ?t = [] then None else Some ?t)" using split_active_torn [OF assms(1)] .
  then show ?thesis
    using cut unfolding truncate_torn_def
    by (auto intro!: wp_ret wp_andthen wp_ftruncate assms(2) simp: complete_part_def simp del: after_set_node(2))
qed

lemma relabelled_Inr: "(case r of Inl _ \<Rightarrow> Inl e | Inr x \<Rightarrow> Inr x) = Inr y \<longleftrightarrow> r = Inr y"
  by (cases r) auto

lemma parse_log_header_Inr:
  "parse_log_header en line = Inr h \<Longrightarrow> \<exists>opened. log_header_init (hl_sequence h) opened (hl_retention h) = Inr h"
  by (auto simp: parse_log_header_def Let_def bind_res_eq_Inr relabelled_Inr) (frule log_header_init_Inr, auto)

lemma parse_header_sequence: "parse_log_header en line = Inr h \<Longrightarrow> nat (hl_sequence h) < 10 ^ 20"
  by (drule parse_log_header_Inr, elim exE, drule log_header_init_Inr) (simp add: nat_less_iff max_int64_def)

definition mended :: "log_disk \<Rightarrow> log_disk \<Rightarrow> bool" where
  "mended d d' \<longleftrightarrow> inode_of d' staging_name = inode_of d staging_name \<and>
     (\<forall>i. inode_of d' current_name = Some i \<longrightarrow> torn_tail (bytes_of d' i) = [])"

lemma wp_repair_opened:
  assumes fd: "inode_of d current_name = Some fd"
  shows "wp (repair_opened en fd) (\<lambda>_ d' st'. salvages d d' \<and> mended d d') (\<lambda>_ d' st'. salvages d d') d st"
proof -
  have sync: "wp os_fsync Q E d st" "wp (andthen os_fsync (\<lambda>_. os_fsync)) Q E d st" if "Q () d st" "E (Os_Error Call_Failed) d st" for Q E d st
    using that by (auto intro!: wp_andthen wp_plain)
  have finish: "wp (complete_rotation (nat (hl_sequence h)) fd info) (\<lambda>_ d' st'. salvages d d' \<and> mended d d') (\<lambda>_ d' st'. salvages d d') e st"
    if "salvages d e" "\<forall>m. inode_of e m = inode_of d m" "parse_log_header en line = Inr h" for e h line info
    by (rule wp_conseq [OF salvaged.wp_complete_rotation [OF that(1) _ parse_header_sequence [OF that(3)], of fd]])
      (use that(2) fd in \<open>auto simp: mended_def\<close>)
  have cut: "wp (truncate_torn fd (bytes_of d fd) torn sync) (\<lambda>n. wp (f n) Q (\<lambda>_ d' st'. salvages d d')) (\<lambda>_ d' st'. salvages d d') d st"
    if "split_active code (bytes_of d fd) = Inr (hl, body, torn)"
      and "\<And>d Q E. Q () d st \<Longrightarrow> E (Os_Error Call_Failed) d st \<Longrightarrow> wp sync Q E d st"
      and "\<And>n d'. salvages d d' \<Longrightarrow> bytes_of d' fd = complete_part (bytes_of d fd) \<Longrightarrow> \<forall>m. inode_of d' m = inode_of d m \<Longrightarrow>
        wp (f n) Q (\<lambda>_ d' st'. salvages d d') d' st"
    for code hl body torn sync f Q
    by (rule wp_conseq [OF wp_truncate_torn [OF that(1,2)]]) (auto intro: that(3))
  have kept_tail: "wp (truncate_torn fd (bytes_of d fd) torn (andthen os_fsync (\<lambda>_. os_fsync)))
      (\<lambda>n. wp (ret (n, False)) (\<lambda>_ d' st'. salvages d d' \<and> mended d d') (\<lambda>_ d' st'. salvages d d')) (\<lambda>_ d' st'. salvages d d') d st"
    if "split_active code (bytes_of d fd) = Inr (hl, body, torn)" for code hl body torn
    by (rule cut [OF that], erule (1) sync(2)) (use fd in \<open>auto intro!: wp_ret simp: mended_def\<close>)
  have closed_tail: "wp (truncate_torn fd (bytes_of d fd) torn os_fsync)
      (\<lambda>n. wp (andthen (complete_rotation m fd info) (\<lambda>_. ret (n, True)))
         (\<lambda>_ d' st'. salvages d d' \<and> mended d d') (\<lambda>_ d' st'. salvages d d')) (\<lambda>_ d' st'. salvages d d') d st"
    if "split_active code (bytes_of d fd) = Inr (hl, body, torn)" "parse_log_header en line = Inr h" "nat (hl_sequence h) = m" for code hl body torn h line m info
    unfolding that(3) [symmetric]
    by (rule cut [OF that(1)], erule (1) sync(1), rule wp_andthen, rule wp_conseq [OF finish [OF _ _ that(2)]]) (auto intro!: wp_ret)
  show ?thesis
    unfolding repair_opened_def
    apply (intro wp_andthen wp_examine wp_read_bounded wp_lift wp_case_prod wp_list_rotated wp_if wp_twin_of wp_ret wp_check wp_fail)
                   apply simp_all
       apply (erule kept_tail | (erule closed_tail, assumption, simp))+
    done
qed

lemma wp_repair_active:
  "wp (repair_active en) (\<lambda>_ d' st'. salvages d d' \<and> mended d d') (\<lambda>_ d' st'. salvages d d') d st"
  unfolding repair_active_def open_current_def
  apply (intro wp_andthen wp_handle wp_open)
    apply (auto intro!: wp_ret wp_fail wp_except_os wp_closing wp_conseq [OF wp_repair_opened] simp: mended_def)
  done

lemma wp_read_staging:
  "Q None d st \<Longrightarrow> (\<And>bs. Q (Some bs) d st) \<Longrightarrow> (\<And>e. E e d st) \<Longrightarrow>
     wp (except_os (closing (\<lambda>_. log_fail code)
           (except_logging
             (andthen (require_private_file fd) (\<lambda>_.
              andthen (os_fstat fd) (\<lambda>_.
              andthen (read_bounded fd max_log_header_bytes code) (\<lambda>content. ret (Some content)))))
             (\<lambda>_. ret None))) (log_fail code)) Q E d st"
  by (intro wp_except_os wp_closing wp_except_logging wp_andthen wp_require_private wp_fstat wp_read_bounded wp_ret)
    (auto intro!: wp_ret wp_fail)

lemma wp_classify_staging:
  "(\<And>b. Q b d st) \<Longrightarrow> (\<And>e. E e d st) \<Longrightarrow> wp (classify_staging en content) Q E d st"
  unfolding classify_staging_def
  by (auto intro!: wp_ret wp_andthen wp_list_rotated split: list.splits sum.splits)

lemma salvages_unlink_staging:
  assumes "do_unlink staging_name d = (Inr (), e)"
  shows "salvages d e"
proof (rule salvages_names)
  show "\<exists>m. log_name m \<and> inode_of e m = Some i" if "log_name n" "inode_of d n = Some i" for n i
    using that after_unlink(1) [OF assms] log_names(2) by metis
qed (use wf_unlink [OF _ assms] after_unlink [OF assms] in simp_all)

lemma wp_probe_staging:
  "(\<And>b. Q b d st) \<Longrightarrow> wp (except_os (andthen (os_open staging_name) (\<lambda>probe.
           closing (\<lambda>_. ret False) (andthen (os_fstat probe) (\<lambda>_. ret (probe = fd))))) (ret False)) Q E d st"
  by (auto intro!: wp_except_os wp_andthen wp_open wp_closing wp_fstat wp_ret)

lemma wp_remove_staging:
  "wp (remove_staging en) (\<lambda>_ d' st'. salvages d d' \<and> inode_of d' staging_name = None \<and>
       inode_of d' current_name = inode_of d current_name \<and> (\<forall>j. bytes_of d' j = bytes_of d j))
     (\<lambda>_ d' st'. salvages d d') d st"
proof -
  have removal: "wp (except_os (andthen (os_unlink staging_name) (\<lambda>_. andthen os_fsync (\<lambda>_. ret True))) (ret False))
      (\<lambda>ok d' st'. salvages d d' \<and> (ok \<longrightarrow> inode_of d' staging_name = None) \<and>
         inode_of d' current_name = inode_of d current_name \<and> (\<forall>j. bytes_of d' j = bytes_of d j)) (\<lambda>_ _ _. False) d st"
    by (intro wp_except_os wp_andthen wp_unlink) (auto intro!: wp_andthen wp_plain wp_ret simp: salvages_unlink_staging after_unlink)
  show ?thesis
    unfolding remove_staging_def Let_def
    apply (intro wp_andthen wp_handle wp_open)
      apply (auto intro!: wp_ret wp_fail)
    apply (intro wp_andthen wp_read_staging wp_ret)
      apply (auto intro!: wp_ret wp_fail wp_check wp_andthen wp_classify_staging wp_probe_staging wp_conseq [OF removal])
    done
qed

section \<open>Under the barrier\<close>

lemma after_held [simp]:
  "inode_of (d\<lparr>dk_held := h\<rparr>) n = inode_of d n" "bytes_of (d\<lparr>dk_held := h\<rparr>) i = bytes_of d i"
  "wf_disk (d\<lparr>dk_held := h\<rparr>) = wf_disk d"
  by (simp_all add: inode_of_def bytes_of_def wf_disk_def names_of_def)

definition steady :: "log_disk \<Rightarrow> log_disk \<Rightarrow> bool" where
  "steady d d' \<longleftrightarrow> (wf_disk d \<longrightarrow> wf_disk d' \<and> same_log d d')"

lemma same_log_trans: "same_log a b \<Longrightarrow> same_log b c \<Longrightarrow> same_log a c"
  by (auto simp: same_log_def)

lemma steady_trans: "steady a b \<Longrightarrow> steady b c \<Longrightarrow> steady a c"
  by (auto simp: steady_def intro: same_log_trans)

lemma steady_unmoved: "unmoved d st d' st' \<Longrightarrow> steady d d'"
  by (simp add: unmoved_def steady_def)

lemma steady_held [simp]: "steady d (d\<lparr>dk_held := h\<rparr>)" "steady d d"
  by (auto simp: steady_def same_log_def)

lemma stillD: "still m \<Longrightarrow> m w = (r, w') \<Longrightarrow> lw_disk w' = lw_disk w \<and> lw_store w' = lw_store w"
  unfolding still_def by (cases r) (force dest: wpD [rotated])+

lemma close_quietly_disk [simp]: "lw_disk (snd (close_quietly w)) = lw_disk w"
proof -
  have "still close_quietly" by (auto simp: still_def intro: wp_close_quietly)
  then show ?thesis by (metis prod.collapse stillD)
qed

text \<open>A maintenance operation is refused before its body, which changes no segment, or runs it.\<close>

lemma maintain_cases:
  assumes "maintain en b logs_arg body w = Some (r, w')"
  obtains (refused) e where "r = Inl e" "steady (lw_disk w) (lw_disk w')"
  | (ran) w1 w2 where "steady (lw_disk w) (lw_disk w1)" "body w1 = (r, w2)" "lw_disk w' = lw_disk w2"
proof -
  let ?inner = "\<lambda>root logs. andthen (require_live_directory root logs ''MH_LOG_DIR'') (\<lambda>_. body)"
  consider (early) e where "r = Inl e" "w' = w"
    | (closed) e root logs where "r = Inl e" "open_logs_dir root logs w = (Inl e, w')"
    | (body) root logs held w1 w2 where "open_logs_dir root logs w = (Inr held, w1)"
        "locked (?inner root logs) (w1\<lparr>lw_disk := (lw_disk w1)\<lparr>dk_held := held\<rparr>\<rparr>) = Some (r, w2)" "w' = snd (close_quietly w2)"
    using assms by (auto simp: maintain_def split: option.splits sum.splits prod.splits)
  then show thesis
  proof cases
    case early
    then show thesis using refused by simp
  next
    case closed
    then show thesis using refused stillD [OF still_open_logs_dir closed(2)] by simp
  next
    case body
    note w1 = stillD [OF still_open_logs_dir body(1)]
    have w': "lw_disk w' = lw_disk w2" using body(3) by simp
    have held: "steady (lw_disk w) ((lw_disk w1)\<lparr>dk_held := held\<rparr>)" using w1 by simp
    show thesis using body(2)
    proof (cases rule: locked_cases)
      case (refused e)
      then show thesis using that(1) steady_trans [OF held steady_unmoved] w' by simp
    next
      case (ran v1 v2)
      obtain q v3 where live: "require_live_directory root logs ''MH_LOG_DIR'' v1 = (q, v3)" by fastforce
      note v3 = stillD [OF still_require_live_directory live]
      have start: "steady (lw_disk w) (lw_disk v3)" using steady_trans [OF held steady_unmoved] ran(1) v3 by simp
      show thesis
      proof (cases q)
        case (Inl e)
        then show thesis using that(1) ran(2,3) live w' start by (auto simp: andthen_def)
      next
        case (Inr u)
        then show thesis using that(2) [OF start] ran(2,3) live w' by (simp add: andthen_def)
      qed
    qed
  qed
qed

lemma steadyD:
  "steady d e \<Longrightarrow> wf_disk d \<Longrightarrow> log_name n \<Longrightarrow> inode_of d n = Some i \<Longrightarrow> inode_of e n = Some i \<and> bytes_of e i = bytes_of d i"
  unfolding steady_def same_log_def using log_names(3) by metis

lemma salvages_steady: "steady a b \<Longrightarrow> salvages b c \<Longrightarrow> salvages a c"
  unfolding salvages_def steady_def same_log_def using log_names(3) by metis

text \<open>C33
  Recovery keeps every complete line. Whatever its system calls answer, also when the process dies at
  any of them, every segment still has a log name, and its bytes are what they were or those up to
  the last line feed; the directory stays well formed; and when recovery succeeds the staging file is
  gone and the active segment, if one is left, ends with a complete line.
\<close>

theorem recovery_keeps_complete_lines:
  assumes "recover_structured_logs en b logs_arg w = Some (r, w')" "wf_disk (lw_disk w)"
  shows "wf_disk (lw_disk w') \<and>
    (\<forall>n i. log_name n \<and> inode_of (lw_disk w) n = Some i \<longrightarrow> (\<exists>m. log_name m \<and> inode_of (lw_disk w') m = Some i) \<and>
       bytes_of (lw_disk w') i \<in> {bytes_of (lw_disk w) i, complete_part (bytes_of (lw_disk w) i)}) \<and>
    (case r of Inl _ \<Rightarrow> True | Inr _ \<Rightarrow> inode_of (lw_disk w') staging_name = None \<and>
       (\<forall>i. inode_of (lw_disk w') current_name = Some i \<longrightarrow> torn_tail (bytes_of (lw_disk w') i) = []))"
proof -
  let ?done = "\<lambda>d'. inode_of d' staging_name = None \<and> (\<forall>i. inode_of d' current_name = Some i \<longrightarrow> torn_tail (bytes_of d' i) = [])"
  have body: "wp (recovery_locked en) (\<lambda>_ d' st'. salvages d d' \<and> ?done d') (\<lambda>_ d' st'. salvages d d') d st" for d st
    unfolding recovery_locked_def
    by (rule wp_andthen, rule wp_conseq [OF wp_repair_active])
      (auto intro!: wp_andthen wp_conseq [OF wp_remove_staging] wp_ret simp: mended_def intro: salvages_trans)
  show ?thesis using assms(1) unfolding recover_structured_logs_def
  proof (cases rule: maintain_cases)
    case (refused e)
    then show ?thesis using assms(2) salvages_steady [of "lw_disk w" "lw_disk w'" "lw_disk w'"] by (auto simp: salvages_def steady_def)
  next
    case (ran w1 w2)
    have "salvages (lw_disk w) (lw_disk w')" "r = Inr x \<Longrightarrow> ?done (lw_disk w')" for x
      using wpD [OF body] ran salvages_steady [OF ran(1)] by (cases r; force)+
    then show ?thesis using assms(2) by (auto simp: salvages_def split: sum.splits)
  qed
qed

section \<open>A torn header\<close>

text \<open>The directory after a header was cut: no active segment, and the cut text as the staging file.\<close>

definition torn_staging :: "string \<Rightarrow> log_disk \<Rightarrow> bool" where
  "torn_staging bs d \<longleftrightarrow> wf_disk d \<and> inode_of d current_name = None \<and> (\<exists>i. inode_of d staging_name = Some i \<and> bytes_of d i = bs)"

lemma torn_staging_steady: "torn_staging bs d \<Longrightarrow> steady d e \<Longrightarrow> torn_staging bs e"
  unfolding torn_staging_def steady_def same_log_def using not_lock_name by metis

lemma torn_staging_refused:
  assumes "torn_staging bs d" "LF \<notin> set bs" "\<not> prefix bs header_preamble"
  shows "wp (recovery_locked en) (\<lambda>_ _ _. False) (\<lambda>_ d' st'. d' = d) d st"
proof -
  obtain i where i: "inode_of d current_name = None" "inode_of d staging_name = Some i" "bytes_of d i = bs"
    using assms(1) by (auto simp: torn_staging_def)
  have "bs = [] \<or> last bs \<noteq> LF" using assms(2) last_in_set by metis
  then have refuse: "classify_staging en bs = ret False"
    using assms(3) by (simp add: classify_staging_def)
  show ?thesis
    unfolding recovery_locked_def repair_active_def open_current_def remove_staging_def Let_def
    apply (intro wp_andthen wp_handle wp_open)
      apply (auto intro!: wp_ret wp_fail wp_andthen wp_handle wp_open simp: i)
    apply (intro wp_except_os wp_closing wp_except_logging wp_andthen wp_require_private wp_fstat wp_read_bounded wp_ret)
     apply (auto intro!: wp_ret wp_fail wp_andthen wp_check simp: i refuse)
    done
qed

lemma wp_disk: "wp m (\<lambda>_ d' st'. P d') (\<lambda>_ d' st'. P d') (lw_disk w) (lw_store w) \<Longrightarrow> P (lw_disk (snd (m w)))"
  by (cases "m w"; cases "fst (m w)") (auto dest: wpD)

lemma torn_publish:
  assumes "wf_disk (lw_disk w)" "inode_of (lw_disk w) current_name = None" "inode_of (lw_disk w) staging_name = None"
    "lw_answers w (lw_calls w) = Sys_Ok" "lw_answers w (lw_calls w + 1) = Sys_Short k" "k < length line"
  shows "torn_staging (take k line) (lw_disk (snd (publish_staged line w)))"
proof -
  let ?c = "snd (do_create staging_name (lw_disk w))" and ?i = "dk_fresh (lw_disk w)"
  let ?d = "append_bytes ?i (take k line) ?c"
  have state: "torn_staging (take k line) ?d"
    using assms(1-3) by (simp add: torn_staging_def wf_append wf_create del: after_create(2)) simp
  define w1 where "w1 = w\<lparr>lw_calls := lw_calls w + 1, lw_disk := ?c\<rparr>"
  define w2 where "w2 = w\<lparr>lw_calls := lw_calls w + 2, lw_disk := ?d\<rparr>"
  have calls: "os_open_new staging_name w = (Inr ?i, w1)" "os_write ?i line w1 = (Inr k, w2)"
    using assms(3-6)
    by (auto simp: os_open_new_def sys_def do_open_new_def do_create_def os_write_def w1_def w2_def Let_def)
  have run: "publish_staged line w = except_os (andthen (handle (andthen os_fsync (\<lambda>_. andthen os_close (\<lambda>_. ret (k = length line))))
      (\<lambda>e. Some (andthen close_quietly (\<lambda>_. throw e)))) (\<lambda>whole. if \<not> whole then ret False
        else andthen (os_rename staging_name current_name) (\<lambda>_. andthen os_fsync (\<lambda>_. ret True)))) (ret False) w2"
    by (simp add: publish_staged_def except_os_def handle_def andthen_def calls)
  have "wp (except_os (andthen (handle (andthen os_fsync (\<lambda>_. andthen os_close (\<lambda>_. ret (k = length line))))
      (\<lambda>e. Some (andthen close_quietly (\<lambda>_. throw e)))) (\<lambda>whole. if \<not> whole then ret False
        else andthen (os_rename staging_name current_name) (\<lambda>_. andthen os_fsync (\<lambda>_. ret True)))) (ret False))
      (\<lambda>_ d' st'. d' = ?d) (\<lambda>_ d' st'. d' = ?d) (lw_disk w2) (lw_store w2)"
    by (auto intro!: wp_except_os wp_andthen wp_handle wp_plain wp_ret wp_close_quietly wp_throw simp: w2_def less_imp_neq [OF assms(6)])
  then have "lw_disk (snd (publish_staged line w)) = ?d" unfolding run by (rule wp_disk)
  then show ?thesis using state by simp
qed

lemma store_init_torn:
  assumes "torn_staging bs (lw_disk w)" "store_init en logs_arg root_arg retention opened w = Some (r, w')"
  shows "(\<exists>e. r = Inl e) \<and> torn_staging bs (lw_disk w')"
proof -
  have refused: "wp (handle (open_active en opened) (\<lambda>e. Some (andthen close_quietly (\<lambda>_. throw e))))
      (\<lambda>_ _ _. False) (\<lambda>_ d' st'. d' = d) d st" if "torn_staging bs d" for d st
    using that unfolding open_active_def staging_present_def torn_staging_def
    by (auto intro!: wp_handle wp_andthen wp_stat wp_ret wp_fail wp_check wp_close_quietly wp_throw)
  consider (early) e where "r = Inl e" "lw_disk w' = lw_disk w"
    | (run) v held where "lw_disk v = lw_disk w" "locked (handle (open_active en opened) (\<lambda>e. Some (andthen close_quietly (\<lambda>_. throw e))))
        (v\<lparr>lw_disk := (lw_disk v)\<lparr>dk_held := held\<rparr>\<rparr>) = Some (r, w')"
    using assms(2) by (auto simp: store_init_def Let_def split: if_splits option.splits prod.splits sum.splits
        dest!: stillD [OF still_open_logs_dir])
  then show ?thesis
  proof cases
    case early
    then show ?thesis using assms(1) by simp
  next
    case run
    have held: "torn_staging bs ((lw_disk v)\<lparr>dk_held := held\<rparr>)" using assms(1) run(1) torn_staging_steady by simp
    show ?thesis using run(2)
    proof (cases rule: locked_cases)
      case (refused e)
      then show ?thesis using torn_staging_steady [OF held steady_unmoved] by simp
    next
      case (ran w1 w2)
      have w1: "torn_staging bs (lw_disk w1)" using torn_staging_steady [OF held steady_unmoved] ran(1) by simp
      show ?thesis
      proof (cases r)
        case (Inl e)
        then show ?thesis using wpD(2) [OF refused [OF w1] ran(2) [unfolded Inl]] ran(3) w1 by simp
      next
        case (Inr x)
        then show ?thesis using wpD(1) [OF refused [OF w1] ran(2) [unfolded Inr]] by simp
      qed
    qed
  qed
qed

lemma recovery_torn:
  assumes "torn_staging bs (lw_disk w)" "LF \<notin> set bs" "\<not> prefix bs header_preamble"
    "recover_structured_logs en b logs_arg w = Some (r, w')"
  shows "(\<exists>e. r = Inl e) \<and> torn_staging bs (lw_disk w')"
  using assms(4) unfolding recover_structured_logs_def
proof (cases rule: maintain_cases)
  case (refused e)
  then show ?thesis using torn_staging_steady [OF assms(1)] by simp
next
  case (ran w1 w2)
  have w1: "torn_staging bs (lw_disk w1)" using torn_staging_steady [OF assms(1) ran(1)] .
  note refused = torn_staging_refused [OF w1 assms(2,3), of en]
  show ?thesis
  proof (cases r)
    case (Inl e)
    then show ?thesis using wpD(2) [OF refused ran(2) [unfolded Inl]] ran(3) w1 by simp
  next
    case (Inr x)
    then show ?thesis using wpD(1) [OF refused ran(2) [unfolded Inr]] by simp
  qed
qed

text \<open>C36
  A header write cut beyond its thirtieth byte is never recovered. When the write of a fresh segment's
  header returns short after more than 30 bytes (a full disk, or the process dying there), it leaves the
  cut text as the staging file; from then on every opening of the store and every recovery fails and
  leaves the directory in that state, although the text is a torn write of the store's own.
\<close>

theorem torn_header_never_recovered:
  assumes "structured_log_header_line (le_nfc en) h = Inr line" "30 < k" "k < length line" "wf_disk (lw_disk w)"
    "inode_of (lw_disk w) current_name = None" "inode_of (lw_disk w) staging_name = None"
    "lw_answers w (lw_calls w) = Sys_Ok" "lw_answers w (lw_calls w + 1) = Sys_Short k"
  shows "torn_staging (take k line) (lw_disk (snd (publish_staged line w))) \<and>
    (\<forall>w. torn_staging (take k line) (lw_disk w) \<longrightarrow>
      (\<forall>b logs r w'. recover_structured_logs en b logs w = Some (r, w') \<longrightarrow> (\<exists>e. r = Inl e) \<and> torn_staging (take k line) (lw_disk w')) \<and>
      (\<forall>logs root days opened r w'. store_init en logs root days opened w = Some (r, w') \<longrightarrow>
         (\<exists>e. r = Inl e) \<and> torn_staging (take k line) (lw_disk w')))"
proof -
  obtain t where t: "line = t @ [LF]" "LF \<notin> set t" using stored_lines(1) [OF assms(1)] by (auto simp: is_line_def)
  have cut: "LF \<notin> set (take k line)" using t assms(3) by (auto dest: in_set_takeD)
  have "\<not> prefix (take k line) header_preamble"
    using prefix_length_le [of "take k line" header_preamble] assms(2,3) by (auto simp: header_preamble_def)
  then show ?thesis
    using torn_publish [OF assms(4-8,3)] recovery_torn [OF _ cut] store_init_torn by blast
qed

section \<open>Runs\<close>

definition demo_log_barrier :: log_barrier where
  "demo_log_barrier = \<lparr>lb_genuine = True, lb_path = [''state'', ''control'', ''commit.lock''],
     lb_gate = [''state'', ''control'', ''commit.lock.gate''], lb_enter = Inr ()\<rparr>"

lemma demo_maintain:
  assumes "name \<noteq> lock_name" "le_resolve en logs_arg = Some [''state'', ''logs'']"
  shows "maintain en demo_log_barrier logs_arg body (demo_log_world (demo_log_disk name bs)) =
     (case body ((demo_log_world (demo_log_disk name bs))\<lparr>lw_calls := 10, lw_ticks := 1\<rparr>) of
        (r, w2) \<Rightarrow> Some (r, snd (close_quietly (snd (release_lock w2)))))"
proof -
  let ?w = "demo_log_world (demo_log_disk name bs)"
  have root: "bind_res (require_logs_barrier demo_log_barrier [''state'', ''logs'']) (\<lambda>root. bind_res (lb_enter demo_log_barrier) (\<lambda>_. Inr root)) = Inr [''state'']"
    by (simp add: require_logs_barrier_def demo_log_barrier_def check_res_def Let_def)
  have held: "(demo_log_disk name bs)\<lparr>dk_held := 7\<rparr> = demo_log_disk name bs" by (simp add: demo_log_disk_def)
  have opened: "open_logs_dir [''state''] [''state'', ''logs''] ?w = (Inr 7, ?w\<lparr>lw_calls := 2\<rparr>)"
    using demo_dirs(1) [of ?w] by simp
  have same: "(?w\<lparr>lw_calls := 2\<rparr>)\<lparr>lw_disk := demo_log_disk name bs\<rparr> = ?w\<lparr>lw_calls := 2\<rparr>"
    by (simp add: demo_log_world_def)
  have acquired: "acquire_lock (?w\<lparr>lw_calls := 2\<rparr>) = Some (Inr (), ?w\<lparr>lw_calls := 5, lw_ticks := 1\<rparr>)"
    using demo_acquire [of "?w\<lparr>lw_calls := 2\<rparr>" name bs] assms(1) by simp
  have live: "require_live_directory [''state''] [''state'', ''logs''] code (?w\<lparr>lw_calls := 5, lw_ticks := 1\<rparr>) = (Inr (), ?w\<lparr>lw_calls := 10, lw_ticks := 1\<rparr>)" for code
    using demo_dirs(2) [of "?w\<lparr>lw_calls := 5, lw_ticks := 1\<rparr>"] by simp
  show ?thesis
    by (simp add: maintain_def assms root opened held same locked_def acquired live andthen_def split: prod.split del: One_nat_def)
qed

lemma read_rest_all:
  assumes "length bs \<le> 1048576"
  shows "lw_answers w = (\<lambda>_. Sys_Ok) \<Longrightarrow> read_rest bs w = (Inr bs, w\<lparr>lw_calls := lw_calls w + (if bs = [] then 1 else 2)\<rparr>)"
proof (cases "bs = []")
  case True
  show "lw_answers w = (\<lambda>_. Sys_Ok) \<Longrightarrow> read_rest bs w = (Inr bs, w\<lparr>lw_calls := lw_calls w + (if bs = [] then 1 else 2)\<rparr>)"
    unfolding True by (subst read_rest.simps) (simp add: sys_def)
next
  case False
  have "read_rest [] w = (Inr [], w\<lparr>lw_calls := lw_calls w + 1\<rparr>)" if "lw_answers w = (\<lambda>_. Sys_Ok)" for w
    using that by (subst read_rest.simps) (simp add: sys_def)
  then show "lw_answers w = (\<lambda>_. Sys_Ok) \<Longrightarrow> read_rest bs w = (Inr bs, w\<lparr>lw_calls := lw_calls w + (if bs = [] then 1 else 2)\<rparr>)"
    using False assms by (subst read_rest.simps) (simp add: sys_def andthen_def ret_def)
qed

lemma split_active_one:
  assumes "is_line 4096 l" "LF \<notin> set torn"
  shows "split_active code (l @ torn) = Inr (l, [], if torn = [] then None else Some torn)"
proof -
  obtain t where t: "l = t @ [LF]" "LF \<notin> set t" "t \<noteq> []" using assms(1) by (auto simp: is_line_def)
  have "takeWhile (\<lambda>c. c \<noteq> LF) (rev torn @ LF # rev t) = rev torn"
    using assms(2) by (auto simp: takeWhile_tail takeWhile_eq_all_conv)
  then have "torn_tail (l @ torn) = torn" using t(1) by (simp add: torn_tail_def)
  moreover have "split_on_lf (t @ [LF]) = [t, []]" using t(2) split_on_lf_line [of t "[]"] by simp
  ultimately show ?thesis using t by (simp add: split_active_def)
qed

lemma demo_closed_parts [simp]:
  "le_nfc demo_closed_env = id" "le_resolve demo_closed_env p = Some [''state'', ''logs'']"
  by (simp_all add: demo_closed_env_def)

lemma demo_recovery:
  "\<exists>w'. recover_structured_logs demo_closed_env demo_log_barrier ''logs''
       (demo_log_world (demo_log_disk current_name (demo_log_header_line @ ''torn''))) =
     Some (Inr \<lparr>lr_truncated = 4, lr_removed = False, lr_completed = False\<rparr>, w')"
proof -
  let ?bs = "demo_log_header_line @ ''torn''"
  have size: "length demo_log_header_line \<le> 1024" using stored_line_lengths(2) [OF demo_segment_stored(1)] by simp
  have split: "split_active code ?bs = Inr (demo_log_header_line, [], Some ''torn'')" for code
    using split_active_one [OF stored_lines(1) [OF demo_segment_stored(1)], of "''torn''" code] by (simp add: LF_def)
  have header: "parse_log_header demo_closed_env demo_log_header_line = Inr demo_log_header"
    by (rule header_read_back [OF demo_inits(1)]) (simp_all add: demo_closed_env_def demo_segment_stored)
  have none: "sequence_from_name lock_name = None" "sequence_from_name current_name = None" by (simp_all add: not_rotated)
  define w1 where "w1 = (demo_log_world (demo_log_disk current_name ?bs))\<lparr>lw_calls := 10, lw_ticks := 1\<rparr>"
  have w1: "lw_answers w1 = (\<lambda>_. Sys_Ok)" "lw_disk w1 = demo_log_disk current_name ?bs" by (simp_all add: w1_def)
  have read: "read_bounded 1 max_log_segment_bytes ''MH_LOG_RECOVER'' w = (Inr ?bs, w\<lparr>lw_calls := lw_calls w + 3\<rparr>)"
    if "lw_answers w = (\<lambda>_. Sys_Ok)" "lw_disk w = demo_log_disk current_name ?bs" for w
    using that size by (simp add: read_bounded_def andthen_def os_fstat_def sys_def do_fstat_def demo_log_node_def read_rest_all
        max_log_segment_bytes_def)
  have rotated: "list_rotated w = (Inr [], w\<lparr>lw_calls := lw_calls w + 1\<rparr>)"
    if "lw_answers w = (\<lambda>_. Sys_Ok)" "lw_disk w = demo_log_disk current_name ?bs" for w
    using that by (simp add: list_rotated_def os_scandir_def sys_def andthen_def demo_log_disk_def none List.map_filter_def
        Let_def max_rotations_def ret_def)
  have envelope: "examine_active_envelope 1 w = (Inr (demo_log_node ?bs), w\<lparr>lw_calls := lw_calls w + 1\<rparr>)"
    if "lw_answers w = (\<lambda>_. Sys_Ok)" "lw_disk w = demo_log_disk current_name ?bs" for w
    using that by (simp add: examine_active_envelope_def log_programs log_calls demo_log_node_def Let_def)
  have opened: "repair_opened demo_closed_env 1 w =
      (Inr (4, False), w\<lparr>lw_calls := lw_calls w + 8, lw_disk := set_node 1 (\<lambda>x. x\<lparr>nd_bytes := take (length demo_log_header_line) (nd_bytes x)\<rparr>) (lw_disk w)\<rparr>)"
    if "lw_answers w = (\<lambda>_. Sys_Ok)" "lw_disk w = demo_log_disk current_name ?bs" for w
    using that unfolding repair_opened_def
    by (simp add: andthen_def envelope read split header rotated lift_res_def highest_def demo_log_header_def check_def ret_def
        demo_log_node_def truncate_torn_def os_ftruncate_def os_fsync_def sys_def do_truncate_def del: One_nat_def)
  have active: "repair_active demo_closed_env w1 =
      (Inr (4, False), w1\<lparr>lw_calls := lw_calls w1 + 10, lw_disk := set_node 1 (\<lambda>x. x\<lparr>nd_bytes := take (length demo_log_header_line) (nd_bytes x)\<rparr>) (lw_disk w1)\<rparr>)"
    using w1 unfolding repair_active_def open_current_def
    by (simp add: andthen_def handle_def except_os_def closing_def os_open_def os_close_def sys_def do_lookup_def ret_def opened del: One_nat_def)
  have staging: "remove_staging demo_closed_env w = (Inr False, w\<lparr>lw_calls := lw_calls w + 1\<rparr>)"
    if "lw_answers w = (\<lambda>_. Sys_Ok)" "inode_of (lw_disk w) staging_name = None" for w
    using that unfolding remove_staging_def Let_def
    by (simp add: andthen_def handle_def os_open_def sys_def do_lookup_def ret_def)
  have "fst (recovery_locked demo_closed_env w1) = Inr \<lparr>lr_truncated = 4, lr_removed = False, lr_completed = False\<rparr>"
    using w1 by (simp add: recovery_locked_def andthen_def active staging ret_def del: One_nat_def)
  then obtain w2 where "recovery_locked demo_closed_env w1 = (Inr \<lparr>lr_truncated = 4, lr_removed = False, lr_completed = False\<rparr>, w2)"
    by (metis prod.collapse)
  then show ?thesis
    unfolding recover_structured_logs_def by (simp add: demo_maintain w1_def [symmetric] del: One_nat_def)
qed

theorem recovery_keeps_complete_lines_witness:
  "\<exists>w'. recover_structured_logs demo_closed_env demo_log_barrier ''logs''
       (demo_log_world (demo_log_disk current_name (demo_log_header_line @ ''torn''))) =
     Some (Inr \<lparr>lr_truncated = 4, lr_removed = False, lr_completed = False\<rparr>, w') \<and>
     (\<exists>m. log_name m \<and> inode_of (lw_disk w') m = Some 1) \<and>
     bytes_of (lw_disk w') 1 \<in> {demo_log_header_line @ ''torn'', complete_part (demo_log_header_line @ ''torn'')} \<and>
     inode_of (lw_disk w') staging_name = None"
proof -
  let ?w = "demo_log_world (demo_log_disk current_name (demo_log_header_line @ ''torn''))"
  obtain w' where run: "recover_structured_logs demo_closed_env demo_log_barrier ''logs'' ?w =
      Some (Inr \<lparr>lr_truncated = 4, lr_removed = False, lr_completed = False\<rparr>, w')" using demo_recovery by blast
  have "wf_disk (lw_disk ?w)" using demo_wf by simp
  note kept = recovery_keeps_complete_lines [OF run this]
  have "inode_of (lw_disk ?w) current_name = Some 1" "bytes_of (lw_disk ?w) 1 = demo_log_header_line @ ''torn''"
    by (simp_all add: bytes_of_def demo_log_node_def)
  then have "(\<exists>m. log_name m \<and> inode_of (lw_disk w') m = Some 1) \<and>
      bytes_of (lw_disk w') 1 \<in> {demo_log_header_line @ ''torn'', complete_part (demo_log_header_line @ ''torn'')}"
    using spec [OF spec [OF conjunct1 [OF conjunct2 [OF kept]], of current_name], of 1] log_names(1) by simp
  moreover have "inode_of (lw_disk w') staging_name = None"
    using conjunct2 [OF conjunct2 [OF kept]] by (simp only: sum.case)
  ultimately show ?thesis using run by blast
qed

theorem torn_header_never_recovered_witness:
  "torn_staging (take 40 demo_log_header_line) (lw_disk (snd (publish_staged demo_log_header_line
       ((demo_log_world (demo_log_disk ''notes'' []))\<lparr>lw_answers := (\<lambda>k. if k = 1 then Sys_Short 40 else Sys_Ok)\<rparr>)))) \<and>
   (\<forall>b logs report w'. recover_structured_logs demo_closed_env b logs (snd (publish_staged demo_log_header_line
       ((demo_log_world (demo_log_disk ''notes'' []))\<lparr>lw_answers := (\<lambda>k. if k = 1 then Sys_Short 40 else Sys_Ok)\<rparr>))) \<noteq> Some (Inr report, w'))"
proof -
  let ?w = "(demo_log_world (demo_log_disk ''notes'' []))\<lparr>lw_answers := (\<lambda>k. if k = 1 then Sys_Short 40 else Sys_Ok)\<rparr>"
  have long: "40 < length demo_log_header_line" by code_simp
  have other: "''notes'' \<noteq> lock_name" "''notes'' \<noteq> current_name" "''notes'' \<noteq> staging_name"
    by (simp_all add: lock_name_def current_name_def staging_name_def)
  have "wf_disk (lw_disk ?w)" "inode_of (lw_disk ?w) current_name = None" "inode_of (lw_disk ?w) staging_name = None"
    using demo_wf [OF other(1)] other by auto
  note start = this
  have stored: "structured_log_header_line (le_nfc demo_closed_env) demo_log_header = Inr demo_log_header_line"
    by (simp add: demo_segment_stored)
  have answers: "lw_answers ?w (lw_calls ?w) = Sys_Ok" "lw_answers ?w (lw_calls ?w + 1) = Sys_Short 40" by simp_all
  note never = torn_header_never_recovered [OF stored _ long start answers]
  have torn: "torn_staging (take 40 demo_log_header_line) (lw_disk (snd (publish_staged demo_log_header_line ?w)))"
    by (rule conjunct1 [OF never]) simp
  have "recover_structured_logs demo_closed_env b logs (snd (publish_staged demo_log_header_line ?w)) \<noteq> Some (Inr report, w')"
    for b logs report w'
  proof
    assume run: "recover_structured_logs demo_closed_env b logs (snd (publish_staged demo_log_header_line ?w)) = Some (Inr report, w')"
    have "\<exists>e. (Inr report :: log_recovery_report res) = Inl e"
      using conjunct2 [OF never] torn run by (metis numeral_less_iff semiring_norm(76,78,80,81))
    then show False by simp
  qed
  then show ?thesis using torn by blast
qed

end
