(* ===== verification/Log_Expiry.thy ===== *)
theory Log_Expiry
  imports Log_Repair
begin

text \<open>
  Retention of the structured log removes a segment only when the segment's own bytes prove that it
  expired: the relation \<open>only_due\<close> between the disk before and after is a property of the directory
  protocol (\<open>log_steps\<close>), kept by the closing of the active segment and by every unlink.
\<close>

definition due :: "log_env \<Rightarrow> int \<Rightarrow> int \<Rightarrow> string \<Rightarrow> bool" where
  "due en days now bs \<longleftrightarrow> (\<exists>s h t policy. parse_closed en s bs = Inr (h, t) \<and>
     add_seconds (hl_opened h) (86400 * days) = Inr policy \<and> min (tl_expires t) policy \<le> now)"

definition only_due :: "log_env \<Rightarrow> int \<Rightarrow> int \<Rightarrow> log_disk \<Rightarrow> log_disk \<Rightarrow> bool" where
  "only_due en days now d d' \<longleftrightarrow> (wf_disk d \<longrightarrow> wf_disk d' \<and> dk_fresh d \<le> dk_fresh d' \<and>
     (\<forall>n i. log_name n \<longrightarrow> inode_of d n = Some i \<longrightarrow> prefix (bytes_of d i) (bytes_of d' i) \<and>
       ((\<exists>m. log_name m \<and> inode_of d' m = Some i) \<or> due en days now (bytes_of d' i))))"

lemma only_due_step:
  assumes "only_due en days now d0 d" "wf_disk d \<Longrightarrow> wf_disk e" "dk_fresh d \<le> dk_fresh e"
    "\<And>i. i < dk_fresh d \<Longrightarrow> (\<exists>m. log_name m \<and> inode_of e m = Some i) \<and> prefix (bytes_of d i) (bytes_of e i) \<or> bytes_of e i = bytes_of d i"
    "\<And>m i. log_name m \<Longrightarrow> inode_of d m = Some i \<Longrightarrow>
      (\<exists>m'. log_name m' \<and> inode_of e m' = Some i) \<or> bytes_of e i = bytes_of d i \<and> due en days now (bytes_of d i)"
  shows "only_due en days now d0 e"
  unfolding only_due_def
proof (intro impI conjI allI)
  assume wf: "wf_disk d0"
  then show "wf_disk e" "dk_fresh d0 \<le> dk_fresh e" using assms(1-3) by (auto simp: only_due_def)
  fix n i assume n: "log_name n" "inode_of d0 n = Some i"
  have i: "i < dk_fresh d" using wf n assms(1) by (auto simp: only_due_def wf_disk_def intro: less_le_trans)
  have old: "prefix (bytes_of d0 i) (bytes_of d i)" "(\<exists>m. log_name m \<and> inode_of d m = Some i) \<or> due en days now (bytes_of d i)"
    using assms(1) wf n by (auto simp: only_due_def)
  show "prefix (bytes_of d0 i) (bytes_of e i)"
    using old(1) assms(4) [OF i] by (auto intro: prefix_order.trans)
  show "(\<exists>m. log_name m \<and> inode_of e m = Some i) \<or> due en days now (bytes_of e i)"
    using old(2) assms(4) [OF i] assms(5) by metis
qed

lemma only_due_refl [simp]: "only_due en days now d d"
  by (auto simp: only_due_def)

lemma link_fresh:
  "do_link old new d = (Inr (), e) \<Longrightarrow> dk_fresh e = dk_fresh d" "do_unlink a d = (Inr (), e) \<Longrightarrow> dk_fresh e = dk_fresh d"
  "do_rename old new d = (Inr (), e) \<Longrightarrow> dk_fresh e = dk_fresh d" "dk_fresh (snd (do_create a d)) = dk_fresh d + 1"
  "dk_fresh (append_bytes fd bs d) = dk_fresh d"
  by (auto simp: do_link_def do_unlink_def do_rename_def do_create_def append_bytes_def Let_def split: option.splits if_splits)

interpretation expiry: log_steps "only_due en days now d0" for en days now d0
proof unfold_locales
  fix d e rotated i
  assume g: "only_due en days now d0 d" and n: "log_name rotated" "rotated \<noteq> current_name"
  show "only_due en days now d0 e" if "inode_of d current_name = Some i" "inode_of d rotated = None" "do_link current_name rotated d = (Inr (), e)"
  proof (rule only_due_step [OF g])
    show "(\<exists>m'. log_name m' \<and> inode_of e m' = Some j) \<or> bytes_of e j = bytes_of d j \<and> due en days now (bytes_of d j)"
      if "log_name m" "inode_of d m = Some j" for m j
      using that after_link(1) [OF \<open>do_link current_name rotated d = (Inr (), e)\<close> \<open>inode_of d current_name = Some i\<close> \<open>inode_of d rotated = None\<close>]
        \<open>inode_of d rotated = None\<close> by (intro disjI1 exI [of _ m]) auto
  qed (use wf_link [OF _ that(3,1,2)] after_link(2) [OF that(3,1,2)] link_fresh(1) [OF that(3)] in auto)
  show "only_due en days now d0 e" if "inode_of d rotated = inode_of d current_name" "do_unlink current_name d = (Inr (), e)"
  proof (rule only_due_step [OF g])
    show "(\<exists>m'. log_name m' \<and> inode_of e m' = Some j) \<or> bytes_of e j = bytes_of d j \<and> due en days now (bytes_of d j)"
      if "log_name m" "inode_of d m = Some j" for m j
      using that after_unlink(1) [OF \<open>do_unlink current_name d = (Inr (), e)\<close>] n \<open>inode_of d rotated = inode_of d current_name\<close>
      by metis
  qed (use wf_unlink [OF _ that(2)] after_unlink(2) [OF that(2)] link_fresh(2) [OF that(2)] in auto)
next
  fix d assume g: "only_due en days now d0 d" and none: "inode_of d staging_name = None"
  show made: "only_due en days now d0 (snd (do_create staging_name d))"
  proof (rule only_due_step [OF g])
    show "(\<exists>m'. log_name m' \<and> inode_of (snd (do_create staging_name d)) m' = Some j) \<or>
        bytes_of (snd (do_create staging_name d)) j = bytes_of d j \<and> due en days now (bytes_of d j)"
      if "log_name m" "inode_of d m = Some j" for m j
      using that none by (intro disjI1 exI [of _ m]) auto
  qed (use wf_create [OF _ none] link_fresh(4) in auto)
  show "only_due en days now d0 (append_bytes (dk_fresh d) bs (snd (do_create staging_name d)))" for bs
  proof (rule only_due_step [OF g])
    show "(\<exists>m'. log_name m' \<and> inode_of (append_bytes (dk_fresh d) bs (snd (do_create staging_name d))) m' = Some j) \<or>
        bytes_of (append_bytes (dk_fresh d) bs (snd (do_create staging_name d))) j = bytes_of d j \<and> due en days now (bytes_of d j)"
      if "log_name m" "inode_of d m = Some j" for m j
      using that none by (intro disjI1 exI [of _ m]) auto
  qed (use wf_append [OF wf_create [OF _ none]] link_fresh(4,5) in auto)
next
  fix d e i
  assume g: "only_due en days now d0 d" and *: "inode_of d current_name = None" "inode_of d staging_name = Some i"
    "do_rename staging_name current_name d = (Inr (), e)"
  note after = after_rename [OF *(3,2)]
  show "only_due en days now d0 e"
  proof (rule only_due_step [OF g])
    show "(\<exists>m'. log_name m' \<and> inode_of e m' = Some j) \<or> bytes_of e j = bytes_of d j \<and> due en days now (bytes_of d j)"
      if "log_name m" "inode_of d m = Some j" for m j
      using that after(1) *(1) log_names(2,4) by (intro disjI1 exI [of _ m]) auto
  qed (use wf_rename [OF _ *(3,2) _ *(1)] after(2) link_fresh(3) [OF *(3)] in auto)
qed

section \<open>What a preview proves\<close>

lemma wp_read_closed:
  assumes "\<And>h t fd stamp. parse_closed en sequence (bytes_of d fd) = Inr (h, t) \<Longrightarrow> Q (h, t, fd, stamp) d st" "\<And>c. E c d st"
  shows "wp (read_closed_segment en name sequence) Q E d st"
  unfolding read_closed_segment_def Let_def
  by (intro wp_andthen wp_except_os wp_open wp_closing wp_require_private wp_read_bounded wp_fstat wp_ret)
    (auto intro!: wp_andthen wp_lift wp_ret wp_fail assms)

lemma wp_preview_one:
  assumes "\<And>r. (\<And>seg identity. r = Inr (seg, identity) \<Longrightarrow> rs_expired seg \<Longrightarrow> due en days now (bytes_of d (fst identity))) \<Longrightarrow> Q r d st"
    "\<And>c. E c d st"
  shows "wp (preview_one en days now sequence) Q E d st"
  unfolding preview_one_def
  apply (intro wp_andthen wp_except_logging wp_read_closed wp_ret)
   apply (auto intro!: wp_ret assms wp_andthen wp_lift simp: due_def)
  apply blast
  done

lemma set_rights: "set (rights xs) = {b. Inr b \<in> set xs}"
  by (force simp: rights_def List.map_filter_def split: sum.splits)

lemma wp_previews:
  "wp (for_each (preview_one en days now) ss)
     (\<lambda>rs d' st'. d' = d \<and> st' = st \<and>
        (\<forall>seg identity. Inr (seg, identity) \<in> set rs \<longrightarrow> rs_expired seg \<longrightarrow> due en days now (bytes_of d (fst identity))))
     (\<lambda>_ d' st'. d' = d \<and> st' = st) d st"
proof (induction ss)
  case (Cons s ss)
  show ?case
    unfolding for_each.simps
    by (intro wp_andthen wp_preview_one) (auto intro!: wp_andthen wp_ret wp_conseq [OF Cons.IH], blast+)
qed (auto intro: wp_ret)

section \<open>Pruning\<close>

lemma rotated_not_current: "rotated_name n \<noteq> current_name"
  using name_lengths by (auto simp: rotated_name_def current_name_def dest: arg_cong [of _ _ length])

text \<open>Removing a rotation whose bytes are due.\<close>

lemma only_due_prune:
  assumes "only_due en days now d0 d" "do_unlink name d = (Inr (), e)" "inode_of d name = Some i" "due en days now (bytes_of d i)"
  shows "only_due en days now d0 e"
proof (rule only_due_step [OF assms(1)])
  show "(\<exists>m'. log_name m' \<and> inode_of e m' = Some j) \<or> bytes_of e j = bytes_of d j \<and> due en days now (bytes_of d j)"
    if "log_name m" "inode_of d m = Some j" for m j
    using that after_unlink [OF assms(2)] assms(3,4) by (metis option.inject)
qed (use wf_unlink [OF _ assms(2)] after_unlink(2) [OF assms(2)] link_fresh(2) [OF assms(2)] in auto)

definition pruned :: "log_env \<Rightarrow> int \<Rightarrow> int \<Rightarrow> log_disk \<Rightarrow> log_disk \<Rightarrow> log_disk \<Rightarrow> bool" where
  "pruned en days now d0 d d' \<longleftrightarrow> only_due en days now d0 d' \<and> (\<forall>j. bytes_of d' j = bytes_of d j) \<and>
     inode_of d' current_name = inode_of d current_name"

lemma pruned_trans: "pruned en days now d0 a b \<Longrightarrow> pruned en days now d0 b c \<Longrightarrow> pruned en days now d0 a c"
  by (simp add: pruned_def)

lemma wp_prune_one:
  assumes "only_due en days now d0 d" "due en days now (bytes_of d (fst identity))"
  shows "wp (prune_one (seg, identity)) (\<lambda>_. \<lambda>d' st'. pruned en days now d0 d d') (\<lambda>_. \<lambda>d' st'. pruned en days now d0 d d') d st"
proof -
  let ?n = "rotated_name (rs_sequence seg)"
  have gone: "pruned en days now d0 d e" if "do_unlink ?n d = (Inr (), e)" "inode_of d ?n = Some (fst identity)" for e
    using only_due_prune [OF assms(1) that assms(2)] after_unlink [OF that(1)] rotated_not_current
    by (metis pruned_def)
  have same: "pruned en days now d0 d d" using assms(1) by (simp add: pruned_def)
  have verified: "wp (handle (andthen (os_open ?n) (\<lambda>fd.
       closing (\<lambda>_. ret False)
         (andthen (require_private_file fd) (\<lambda>_.
          andthen (os_fstat fd) (\<lambda>info. ret ((fd, nd_stamp info) = identity))))))
       (\<lambda>e. if is_os_error e \<or> is_logging_error e then Some (ret False) else None))
      (\<lambda>ok d' st'. d' = d \<and> st' = st \<and> (ok \<longrightarrow> inode_of d ?n = Some (fst identity))) (\<lambda>_ d' st'. d' = d) d st"
    by (intro wp_andthen wp_handle wp_open wp_closing wp_require_private wp_fstat wp_ret) (auto intro!: wp_ret)
  show ?thesis
    unfolding prune_one_def unlink_verified_def
    apply (simp, intro wp_andthen, rule wp_conseq [OF verified])
     apply (auto intro!: wp_ret simp: same)
    apply (intro wp_andthen wp_except_os wp_unlink)
     apply (auto intro!: wp_andthen wp_plain wp_ret wp_check simp: same gone)
    done
qed

lemma wp_prunes:
  assumes "only_due en days now d0 d" "\<And>seg identity. (seg, identity) \<in> set xs \<Longrightarrow> due en days now (bytes_of d (fst identity))"
  shows "wp (for_each prune_one xs) (\<lambda>_. \<lambda>d' st'. pruned en days now d0 d d') (\<lambda>_. \<lambda>d' st'. pruned en days now d0 d d') d st"
  using assms
proof (induction xs arbitrary: d st)
  case Nil
  then show ?case by (auto intro: wp_ret simp: pruned_def)
next
  case (Cons x xs d st)
  obtain seg identity where x: "x = (seg, identity)" by (cases x)
  have rest: "wp (for_each prune_one xs) (\<lambda>_. \<lambda>d'' st'. pruned en days now d0 d d'') (\<lambda>_. \<lambda>d'' st'. pruned en days now d0 d d'') d' st'"
    if "pruned en days now d0 d d'" for d' st'
    by (rule wp_conseq [OF Cons.IH [of d']]) (use that Cons.prems in \<open>auto simp: pruned_def\<close>)
  have due: "due en days now (bytes_of d (fst identity))" using Cons.prems(2) [of seg identity] x by simp
  show ?case
    unfolding for_each.simps x
    by (rule wp_andthen, rule wp_conseq [OF wp_prune_one [OF Cons.prems(1) due]])
      (auto intro!: wp_andthen wp_conseq [OF rest] wp_ret)
qed

lemma wp_prune_expired:
  assumes "only_due en days now d0 d"
  shows "wp (prune_expired_closed en days now) (\<lambda>_. \<lambda>d' st'. pruned en days now d0 d d') (\<lambda>_. \<lambda>d' st'. only_due en days now d0 d') d st"
proof -
  have prune: "wp (for_each prune_one (filter (\<lambda>x. rs_expired (fst x)) (rights rs)))
      (\<lambda>_. \<lambda>d' st'. pruned en days now d0 d d') (\<lambda>_. \<lambda>d' st'. only_due en days now d0 d') d st"
    if "\<forall>seg identity. Inr (seg, identity) \<in> set rs \<longrightarrow> rs_expired seg \<longrightarrow> due en days now (bytes_of d (fst identity))" for rs st
    by (rule wp_conseq [OF wp_prunes [OF assms]]) (use that in \<open>auto simp: set_rights pruned_def, blast\<close>)
  show ?thesis
    unfolding prune_expired_closed_def preview_locked_def
    by (intro wp_andthen wp_check wp_list_rotated wp_conseq [OF wp_previews])
      (auto intro!: wp_andthen wp_conseq [OF prune] wp_ret simp: assms, blast)
qed

lemma wp_prune_specific:
  assumes "only_due en days now d0 d"
  shows "wp (prune_specific_rotation en sequence days now) (\<lambda>_. \<lambda>d' st'. only_due en days now d0 d')
     (\<lambda>_. \<lambda>d' st'. only_due en days now d0 d') d st"
  unfolding prune_specific_rotation_def
  by (intro wp_andthen wp_preview_one)
    (auto split!: sum.split prod.split intro!: wp_ret wp_conseq [OF wp_prune_one [OF assms]] simp: assms pruned_def)

section \<open>Closing the active segment\<close>

lemma wp_read_active_state:
  assumes "Q None d st" "\<And>e. E e d st"
    "\<And>s. inode_of d current_name = Some (as_fd s) \<Longrightarrow> nat (hl_sequence (as_header s)) < 10 ^ 20 \<Longrightarrow> Q (Some s) d st"
  shows "wp (read_active_state en) Q E d st"
  unfolding read_active_state_def staging_present_def open_current_def read_active_def
  apply (intro wp_andthen wp_handle wp_stat)
    apply (auto intro!: wp_ret wp_fail wp_andthen wp_check wp_list_rotated wp_handle wp_open assms(1,2))
  apply (intro wp_except_os wp_closing wp_andthen wp_examine wp_read_bounded wp_ret)
   apply (auto intro!: wp_ret wp_fail wp_andthen wp_lift assms(2,3))
   apply (auto simp: check_active_def bind_res_eq_Inr dest: parse_header_sequence split: prod.splits)
  done

lemma wp_active_status:
  assumes "\<And>a s. (\<And>x. s = Some x \<Longrightarrow> inode_of d current_name = Some (as_fd x) \<and> nat (hl_sequence (as_header x)) < 10 ^ 20) \<Longrightarrow> Q (a, s) d st"
    "\<And>e. E e d st"
  shows "wp (active_status_of en days now) Q E d st"
  unfolding active_status_of_def
  by (intro wp_andthen wp_except_logging wp_read_active_state)
    (auto split!: sum.split option.split intro!: wp_ret wp_andthen wp_lift assms)

lemma only_due_append:
  assumes "only_due en days now d0 d" "inode_of d current_name = Some fd"
  shows "only_due en days now d0 (append_bytes fd bs d)"
proof (rule only_due_step [OF assms(1)])
  show "(\<exists>m. log_name m \<and> inode_of (append_bytes fd bs d) m = Some i) \<and> prefix (bytes_of d i) (bytes_of (append_bytes fd bs d) i) \<or>
      bytes_of (append_bytes fd bs d) i = bytes_of d i" for i
    using assms(2) log_names(1) by (cases "i = fd") (auto simp del: log_names intro: exI [of _ current_name])
qed (auto simp: wf_append link_fresh)

lemma wp_close_and_rotate:
  assumes "only_due en days now d0 d" "inode_of d current_name = Some (as_fd s)" "nat (hl_sequence (as_header s)) < 10 ^ 20"
  shows "wp (close_and_rotate_active en s closed) (\<lambda>_. \<lambda>d' st'. only_due en days now d0 d' \<and> inode_of d' current_name = None)
     (\<lambda>_. \<lambda>d' st'. only_due en days now d0 d') d st"
proof -
  have written: "only_due en days now d0 (append_bytes (as_fd s) bs d)" for bs
    by (rule only_due_append [OF assms(1,2)])
  have trailer: "wp (except_os (closing (\<lambda>_. ret False)
       (andthen os_fsync (\<lambda>_.
        andthen (os_write (as_fd s) line) (\<lambda>n.
        if n \<noteq> length line then ret False else andthen os_fsync (\<lambda>_. ret True))))) (ret False))
     (\<lambda>_. \<lambda>d' st'. only_due en days now d0 d' \<and> inode_of d' current_name = Some (as_fd s)) (\<lambda>_. \<lambda>d' st'. only_due en days now d0 d') d st" for line st
    by (intro wp_except_os wp_closing wp_andthen wp_plain wp_write)
      (auto intro!: wp_ret wp_andthen wp_plain simp: assms written)
  have complete: "wp (complete_rotation (nat (hl_sequence (as_header s))) (as_fd s) (as_info s))
      (\<lambda>_ d' st'. only_due en days now d0 d' \<and> inode_of d' current_name = None) (\<lambda>_ d' st'. only_due en days now d0 d') e st"
    if "only_due en days now d0 e" "inode_of e current_name = Some (as_fd s)" for e st
    by (rule wp_conseq [OF expiry.wp_complete_rotation [OF that assms(3)]]) auto
  show ?thesis
    unfolding close_and_rotate_active_def
    apply (intro wp_andthen wp_lift wp_open_for_append)
       apply (auto simp: assms)
    apply (rule wp_conseq [OF trailer])
     apply (auto intro!: wp_andthen wp_check wp_except_logging wp_conseq [OF complete] wp_fail)
    done
qed

lemma wp_apply_locked: "wp (apply_locked en days now) (\<lambda>_ d' st'. only_due en days now d d') (\<lambda>_ d' st'. only_due en days now d d') d st"
proof -
  have renew: "wp (renew_active en days now s) (\<lambda>_ d' st'. only_due en days now d d') (\<lambda>_ d' st'. only_due en days now d d') e st"
    if "only_due en days now d e" "inode_of e current_name = Some (as_fd s)" "nat (hl_sequence (as_header s)) < 10 ^ 20" for s e st
    unfolding renew_active_def
    by (rule wp_andthen, rule wp_conseq [OF wp_close_and_rotate [OF that]])
      (auto intro!: wp_andthen wp_conseq [OF expiry.wp_publish] wp_prune_specific)
  show ?thesis
    unfolding apply_locked_def
    apply (intro wp_andthen wp_active_status wp_case_prod wp_conseq [OF wp_prune_expired])
      apply (auto split!: option.split intro!: wp_ret wp_if wp_andthen wp_list_rotated wp_conseq [OF renew] simp: pruned_def)
    done
qed

text \<open>C34
  Retention removes nothing that has not expired. Whatever the system calls of \<^verbatim>\<open>retention_apply\<close>
  answer, every segment of the log keeps its bytes (the active one may gain its trailer), and either
  still has a log name afterwards or its own bytes parse as a closed segment whose deadline, the
  earlier of the captured one in its trailer and the current policy's, is not after the cutoff.
\<close>

theorem retention_removes_only_expired:
  assumes "log_retention_apply en b logs_arg days now w = Some (r, w')" "wf_disk (lw_disk w)"
  shows "\<forall>n i. log_name n \<and> inode_of (lw_disk w) n = Some i \<longrightarrow> prefix (bytes_of (lw_disk w) i) (bytes_of (lw_disk w') i) \<and>
    ((\<exists>m. log_name m \<and> inode_of (lw_disk w') m = Some i) \<or>
     (\<exists>s h t policy. parse_closed en s (bytes_of (lw_disk w') i) = Inr (h, t) \<and>
        add_seconds (hl_opened h) (86400 * days) = Inr policy \<and> min (tl_expires t) policy \<le> now))"
  using assms(1) unfolding log_retention_apply_def
proof (cases rule: maintain_cases)
  case (refused e)
  then show ?thesis using assms(2) by (metis steadyD prefix_order.refl)
next
  case (ran w1 w2)
  have "only_due en days now (lw_disk w1) (lw_disk w')"
    using wp_disk [OF wp_apply_locked, of en days now w1] ran(2,3) by simp
  then show ?thesis
    using assms(2) ran(1) steadyD [OF ran(1) assms(2)] unfolding only_due_def due_def steady_def by metis
qed

section \<open>A run\<close>

definition demo_removed :: retained_segment where
  "demo_removed = \<lparr>rs_sequence = 1, rs_expires = 2592000000000, rs_effective = 2592000000000, rs_expired = True\<rparr>"

lemma demo_retention:
  "\<exists>w'. log_retention_apply demo_closed_env demo_log_barrier ''logs'' 30 2592000000000
       (demo_log_world (demo_log_disk (rotated_name 1) (demo_log_header_line @ demo_log_trailer_line))) =
     Some (Inr \<lparr>rr_segments = [demo_removed], rr_refused = [], rr_active = None\<rparr>, w')"
proof -
  let ?n = "rotated_name 1" and ?bs = "demo_log_header_line @ demo_log_trailer_line"
  let ?d = "demo_log_disk ?n ?bs"
  have size: "length demo_log_header_line \<le> 1024" "length demo_log_trailer_line \<le> 1024"
    using stored_line_lengths(2) [OF demo_segment_stored(1)] stored_line_lengths(3) [OF demo_segment_stored(2)] by simp_all
  have filled: "demo_log_header_line \<noteq> []" using stored_lines(1) [OF demo_segment_stored(1)] by (auto simp: is_line_def)
  have seq: "sequence_from_name ?n = Some 1" "sequence_from_name lock_name = None"
    using sequence_of_rotated [of 1] not_rotated by simp_all
  have names: "?n \<noteq> lock_name" "?n \<noteq> current_name" "?n \<noteq> staging_name" "current_name \<noteq> ?n" "staging_name \<noteq> ?n"
    using seq not_rotated by (metis option.distinct(1))+
  define w1 where "w1 = (demo_log_world ?d)\<lparr>lw_calls := 10, lw_ticks := 1\<rparr>"
  have w1: "lw_answers w1 = (\<lambda>_. Sys_Ok)" "lw_disk w1 = ?d" by (simp_all add: w1_def)
  have rotated: "list_rotated w = (Inr [1], w\<lparr>lw_calls := lw_calls w + 1\<rparr>)"
    if "lw_answers w = (\<lambda>_. Sys_Ok)" "lw_disk w = ?d" for w
    using that by (simp add: list_rotated_def os_scandir_def sys_def andthen_def demo_log_disk_def seq List.map_filter_def
        Let_def max_rotations_def ret_def del: One_nat_def)
  have status: "active_status_of demo_closed_env 30 2592000000000 w = (Inr (None, None), w\<lparr>lw_calls := lw_calls w + 3\<rparr>)"
    if "lw_answers w = (\<lambda>_. Sys_Ok)" "lw_disk w = ?d" for w
    using that names unfolding active_status_of_def read_active_state_def staging_present_def open_current_def
    by (simp add: andthen_def handle_def except_logging_def os_stat_def os_open_def sys_def do_lookup_def rotated check_def ret_def)
  have read: "read_closed_segment demo_closed_env ?n 1 w = (Inr (demo_log_header, demo_log_trailer, 1, 0), w\<lparr>lw_calls := lw_calls w + 7\<rparr>)"
    if "lw_answers w = (\<lambda>_. Sys_Ok)" "lw_disk w = ?d" for w
    using that names size filled
    by (simp add: read_closed_segment_def Let_def except_os_def handle_def andthen_def closing_def os_open_def os_close_def os_fstat_def
        sys_def do_lookup_def do_fstat_def require_private_file_def except_any_def ret_def check_def read_bounded_def read_rest_all
        demo_log_node_def max_log_segment_bytes_def lift_res_def demo_parsed del: One_nat_def)
  have policy: "add_seconds (hl_opened demo_log_header) (86400 * 30) = Inr 2592000000000"
    by (simp add: add_seconds_Inr demo_log_instants demo_log_header_def)
  have preview: "preview_one demo_closed_env 30 2592000000000 1 w = (Inr (Inr (demo_removed, 1, 0)), w\<lparr>lw_calls := lw_calls w + 7\<rparr>)"
    if "lw_answers w = (\<lambda>_. Sys_Ok)" "lw_disk w = ?d" for w
    using that policy
    by (simp add: preview_one_def except_logging_def handle_def andthen_def read ret_def lift_res_def demo_log_trailer_def demo_removed_def
        del: One_nat_def)
  have unlinked: "unlink_verified ?n (1, 0) w = (Inr True, w\<lparr>lw_calls := lw_calls w + 6, lw_disk := snd (do_unlink ?n ?d)\<rparr>)"
    if "lw_answers w = (\<lambda>_. Sys_Ok)" "lw_disk w = ?d" for w
    using that names
    by (simp add: unlink_verified_def except_os_def except_any_def handle_def andthen_def closing_def os_open_def os_close_def os_fstat_def
        os_unlink_def os_fsync_def sys_def do_lookup_def do_fstat_def do_unlink_def require_private_file_def ret_def check_def
        demo_log_node_def del: One_nat_def)
  have pruned: "prune_one (demo_removed, 1, 0) w = (Inr (Inr demo_removed), w\<lparr>lw_calls := lw_calls w + 6, lw_disk := snd (do_unlink ?n ?d)\<rparr>)"
    if "lw_answers w = (\<lambda>_. Sys_Ok)" "lw_disk w = ?d" for w
    using that by (simp add: prune_one_def andthen_def ret_def unlinked demo_removed_def del: One_nat_def)
  have one_right: "rights [Inr x] = [x]" "lefts [Inr x] = []" for x :: 'x
    by (simp_all add: rights_def lefts_def List.map_filter_def)
  have expired: "rs_expired demo_removed" by (simp add: demo_removed_def)
  have "fst (apply_locked demo_closed_env 30 2592000000000 w1) = Inr \<lparr>rr_segments = [demo_removed], rr_refused = [], rr_active = None\<rparr>"
    using w1
    by (simp add: apply_locked_def andthen_def status prune_expired_closed_def preview_locked_def check_def rotated preview pruned ret_def
        one_right expired del: One_nat_def)
  then obtain w2 where "apply_locked demo_closed_env 30 2592000000000 w1 =
      (Inr \<lparr>rr_segments = [demo_removed], rr_refused = [], rr_active = None\<rparr>, w2)"
    by (metis prod.collapse)
  then show ?thesis
    unfolding log_retention_apply_def using names by (simp add: demo_maintain w1_def [symmetric] del: One_nat_def)
qed

theorem retention_removes_only_expired_witness:
  "\<exists>w'. log_retention_apply demo_closed_env demo_log_barrier ''logs'' 30 2592000000000
       (demo_log_world (demo_log_disk (rotated_name 1) (demo_log_header_line @ demo_log_trailer_line))) =
     Some (Inr \<lparr>rr_segments = [demo_removed], rr_refused = [], rr_active = None\<rparr>, w') \<and>
     prefix (demo_log_header_line @ demo_log_trailer_line) (bytes_of (lw_disk w') 1)"
proof -
  let ?w = "demo_log_world (demo_log_disk (rotated_name 1) (demo_log_header_line @ demo_log_trailer_line))"
  obtain w' where run: "log_retention_apply demo_closed_env demo_log_barrier ''logs'' 30 2592000000000 ?w =
      Some (Inr \<lparr>rr_segments = [demo_removed], rr_refused = [], rr_active = None\<rparr>, w')" using demo_retention by blast
  have names: "log_name (rotated_name 1)" "rotated_name 1 \<noteq> lock_name"
    using log_name_rotated [of 1] log_names(3) by auto
  have "wf_disk (lw_disk ?w)" using demo_wf [OF names(2)] by simp
  note kept = retention_removes_only_expired [OF run this]
  have "inode_of (lw_disk ?w) (rotated_name 1) = Some 1" "bytes_of (lw_disk ?w) 1 = demo_log_header_line @ demo_log_trailer_line"
    using names(2) by (simp_all add: bytes_of_def demo_log_node_def)
  then show ?thesis
    using spec [OF spec [OF kept, of "rotated_name 1"], of 1] names(1) run by auto
qed

end
