(* ===== verification/Spec2Isabelle.thy ===== *)
theory Spec2Isabelle
  imports Leases Cursors Derivation Alert_State Alerting Identity Retention Verify Replay Barrier Outbox_Stream Migrations Commit Run_Report Log_Expiry
begin

text \<open>
  A verification library of Milhouse, a local-first collector: it reads sources on a schedule, turns
  what they return into canonical records, commits the records to an append-only spool on disk with
  a ledger in SQLite, and delivers committed segments to exporters. All paths below are relative to
  \<^verbatim>\<open>src/milhouse\<close>.

  \<^bold>\<open>The program and its parts.\<close> A collector such as the file outbox (\<^verbatim>\<open>outbox\<close>) reads from a
  durable cursor (\<^verbatim>\<open>state/cursors.py\<close>). Records are committed as one segment: a header line and
  frame lines of canonical JSON (\<^verbatim>\<open>core/canonical.py\<close>, \<^verbatim>\<open>spooling/segment.py\<close>,
  \<^verbatim>\<open>spooling/writer.py\<close>), published as a file and entered in the ledger
  (\<^verbatim>\<open>spooling/ledger.py\<close>). Delivery (\<^verbatim>\<open>spooling/exporter.py\<close>), replay
  (\<^verbatim>\<open>spooling/replay.py\<close>), verification (\<^verbatim>\<open>spooling/verify.py\<close>) and retention
  (\<^verbatim>\<open>spooling/retention.py\<close>) read the file back (\<^verbatim>\<open>spooling/reader.py\<close>) and check it
  against the ledger. Every durable writer holds the shared side, every maintenance operation the
  exclusive side of the commit barrier (\<^verbatim>\<open>state/barrier.py\<close>). The control database also keeps
  leases, derivation checkpoints, alert rule states and the maintenance audit (\<^verbatim>\<open>state\<close>), and
  alert rules are evaluated over collector outcomes (\<^verbatim>\<open>runtime/alerting.py\<close>). Beside the spool the
  program keeps a structured log of its own: events checked against their specifications
  (\<^verbatim>\<open>core/logging.py\<close>, with fingerprints of \<^verbatim>\<open>privacy/pseudonym.py\<close>) are canonical lines
  (\<^verbatim>\<open>core/log_wire.py\<close>) in a rotating set of segment files (\<^verbatim>\<open>core/log_store.py\<close>), which recovery
  repairs and retention prunes under the exclusive barrier.

  \<^bold>\<open>Shape of the models.\<close> Code that reads or changes state is a program: a function from the state
  to a result and the state it leaves (\<open>prog\<close> in \<open>Prelude\<close>), where a result is the escaping
  exception or a value, so every \<^verbatim>\<open>raise\<close>, early return and handler is a branch. The tables of
  the control database are a record of rows (\<open>tables\<close> in \<open>Control_Db\<close>); a statement that
  violates a \<^verbatim>\<open>CHECK\<close>, binds an integer beyond 64 bits or meets a scripted failure is an exception,
  and \<open>transaction\<close> restores the tables when its body raises. A \<^verbatim>\<open>str\<close> is its UTF-8 bytes.
  Integers are \<open>int\<close>, with the 64-bit bounds of SQLite and of canonical JSON written out.

  \<^bold>\<open>Theories.\<close>
  \<^item> \<open>Prelude\<close>: exceptions, programs, frame conditions (\<open>keeps\<close>), tokens, decimal fields.
  \<^item> \<open>Clock\<close>: \<^verbatim>\<open>core/clock.py\<close>; timestamps, truncation, durations, and that formatted stamps
    order as instants do.
  \<^item> \<open>Control_Db\<close>: \<^verbatim>\<open>state/schema.py\<close>, \<^verbatim>\<open>state/database.py\<close>; rows, constraints, transactions.
  \<^item> \<open>Leases\<close>, \<open>Cas\<close>, \<open>Cursors\<close>, \<open>Derivation\<close>, \<open>Alert_State\<close>: the \<^verbatim>\<open>state\<close> modules of
    these names. \<open>Cas\<close> is the interface of a row advanced by compare-and-set on a revision: a locale
    interpreted for cursors, checkpoints and alert states, whose lemmas serialise advances.
  \<^item> \<open>Canonical\<close>, \<open>Identity\<close>: \<^verbatim>\<open>core/canonical.py\<close>, the derivations of \<^verbatim>\<open>domain/identity.py\<close>.
  \<^item> \<open>Alerting\<close>: \<^verbatim>\<open>runtime/alerting.py\<close> and its composition with the stored rule state.
  \<^item> \<open>Egress\<close>: \<^verbatim>\<open>privacy/egress.py\<close>.
  \<^item> \<open>Ledger\<close>, \<open>Spool\<close>, \<open>Reader\<close>: ledger rows, frames and headers, writing and accepting bytes.
  \<^item> \<open>Exporter\<close>, \<open>Replay\<close>, \<open>Verify\<close>, \<open>Retention\<close>, \<open>Audit_Log\<close>: the operations over
    committed segments and the audit of prunes. \<open>Demo_Spool\<close> is a concrete spool for witnesses.
  \<^item> \<open>Barrier\<close>: the two-file readers-writer turnstile as lock events of any number of clients, and the
    in-process owner record of exclusive holds.
  \<^item> \<open>Outbox\<close>, \<open>Outbox_Stream\<close>: the incremental reader of a rotating file, and what it promises a
    consumer over any run of a compliant producer.
  \<^item> \<open>Migrations\<close>: \<^verbatim>\<open>state/migrations.py\<close> and \<^verbatim>\<open>storage/runner.py\<close>, two migrators behind one
    locale: whatever fails, the ledger stays a prefix of the definitions with that prefix's effects.
  \<^item> \<open>Reconcile\<close>, \<open>Recovery\<close>: \<^verbatim>\<open>spooling/reconcile.py\<close>, the pass over the pending spool. A
    classification only collects evidence (\<open>scanning\<close>, \<open>evidenced\<close>); the mutations after it adopt trusted
    files and account for every file that leaves (\<open>recovering\<close>).
  \<^item> \<open>Commit\<close>: \<^verbatim>\<open>spooling/commit.py\<close>, recovery, publication and ledger row as one operation.

  \<^item> \<open>Writer\<close>: what a writer of the spool may do to it, as a locale of steps (\<open>writer_steps\<close>) and a
    sublocale for relations over tables and files; a relation that tolerates the steps is kept by a commit.
  \<^item> \<open>Runtime\<close>, \<open>Ack\<close>: the values the runtime hands around, the stable codes of errors, the
    collector registry with plugin binding; \<^verbatim>\<open>outbox/ack.py\<close>.
  \<^item> \<open>Pipeline\<close>: \<^verbatim>\<open>runtime/pipeline.py\<close>, one run from the collectors to the delivery tail.
    \<open>Demo_Run\<close> is one run evaluated to its end. \<open>Run_Safety\<close> carries writer relations through a run
    (locale \<open>run_steps\<close>) and shows that nothing unscanned reaches the spool; \<open>Run_Report\<close> shows that the
    report is true of the ledger and a cursor moves only past committed records.

  \<^item> \<open>Pseudonym\<close>, \<open>Log_Event\<close>: keyed tokens, and the events a logger delivers. \<open>Stamps\<close>: a formatted
    instant parses back. \<open>Log_Wire\<close>: the event, header and trailer lines, the validator of stored
    events, and the stream sink.
  \<^item> \<open>Log_Fs\<close>: system calls over a directory of inodes, each of which may fail or, for a
    write, fall short; a process that dies is one whose calls all fail from there on. A rule (\<open>wp\<close>) says
    what a program establishes when it returns and when it raises. \<open>Log_Segment\<close>, \<open>Log_Store\<close>, \<open>Log_Maintenance\<close>: \<^verbatim>\<open>core/log_store.py\<close>;
    names and lines, then opening, appending and rotating, then recovery and retention.
  \<^item> \<open>Log_Safety\<close>: what any log operation may do to the directory, as locales of steps (\<open>log_steps\<close>,
    \<open>rotating\<close>), interpreted for appending; no line is lost and no segment outgrows its bound.
    \<open>Log_Closed\<close>: a closed segment reads back. \<open>Log_Repair\<close>: recovery keeps complete lines, and which
    torn header it refuses. \<open>Log_Expiry\<close>: retention removes only expired segments.

  \<^bold>\<open>Parameters.\<close> SHA-256, Unicode NFC, \<^verbatim>\<open>json.loads\<close>, the pydantic record models with their
  identity check, the pseudonymizer of the audit and the exporter objects are arguments of the
  definitions that use them (\<open>spool_env\<close>, \<open>outbox_env\<close>, \<open>alert_env\<close>, \<open>log_env\<close>). No property assumes a
  hash injective. The operating system appears as what it answers: per file whether it opens, is
  private, changes under a read (\<open>file_node\<close>, \<open>open_file\<close>); scripts of unlink and lock outcomes;
  table changes other processes commit while a delivery is on the wire (\<open>others\<close>); lock events; and,
  for the log, the answer to each numbered system call (\<open>lw_answers\<close>).

  \<^bold>\<open>Bounds.\<close> Loops are structural recursions over the lists the code iterates over, so they end; the
  canonical encoder recurses on the depth that remains of the code's own limit, and \<open>nat_text\<close> on its
  argument. Two loops depend on their environment and are \<open>partial_function (option)\<close>: writing a line
  to a stream ends after at most one call per byte (\<open>stream_write_all_returns\<close>), and polling the log's
  lock ends when the clock advances (\<open>poll_lock_ends\<close>). No fuel is used anywhere.

  \<^bold>\<open>Not modelled.\<close> The descriptor steps of one move to quarantine, of which the model keeps the outcomes
  (moved, uncertain, blocked); the record models; the
  secure-file primitives, HTTP and ClickHouse clients, configuration loading and the
  command line are input and output around the core. In the
  log, a written byte is on disk at once: losing bytes the kernel still buffers is not modelled. The manifest gives the reason per component.
\<close>

end
